(* ===== verification/Aquic_Prelude.thy ===== *)
theory Aquic_Prelude
  imports Main "HOL-Library.Word"
begin

section \<open>Shared vocabulary of the development\<close>

text \<open>
  What every component of aquic uses of Rust and of its standard library:
  \<^item> a panic is a value: fallible code returns \<open>panic + 'a\<close> (\<open>Inl\<close> the panic), and
    \<open>and_then\<close> sequences two such computations, as the operator \<open>?\<close> and
    \<open>Result::and_then\<close> do;
  \<^item> \<open>usize\<close> and \<open>u64\<close> are \<open>nat\<close> values with their 64-bit range written out where an
    operation can leave it: \<open>usize_add\<close> and \<open>usize_sub\<close> panic as the overflow checks of the
    debug profile do, \<open>profile_add\<close> and \<open>profile_sub\<close> do so in that profile and wrap in the release profile,
    \<open>wrapping_add\<close> wraps, \<open>checked_add\<close> and \<open>checked_sub\<close> return \<open>None\<close>;
  \<^item> bytes are \<open>8 word\<close> values, and \<open>to_be_bytes\<close> and \<open>from_be_bytes\<close> convert a \<open>u64\<close>;
  \<^item> \<open>div_ceil\<close>, \<open>next_power_of_two\<close>, \<open>ilog2\<close> and \<open>trailing_zeros\<close> are the integer
    methods of the same names.
  The collection \<open>rust_simps\<close> holds the equations that unfold this vocabulary.
\<close>

named_theorems rust_simps

subsection \<open>Panics and sequencing\<close>

datatype panic =
    ArithOverflow
  | IndexOutOfBounds
  | DivByZero
  | AssertFailed
  | DebugAssertFailed
  | ExplicitPanic
  | UnwrapNone
  | BorrowMutError
  | ResumedAfterCompletion

type_synonym byte = "8 word"

definition and_then :: "('e + 'a) \<Rightarrow> ('a \<Rightarrow> 'e + 'b) \<Rightarrow> 'e + 'b" where
  "and_then m f = (case m of Inl e \<Rightarrow> Inl e | Inr x \<Rightarrow> f x)"

definition panic_if :: "bool \<Rightarrow> panic \<Rightarrow> panic + unit" where
  "panic_if b p = (if b then Inl p else Inr ())"

subsection \<open>Machine integers\<close>

definition usize_max :: nat where
  "usize_max = 2 ^ 64 - 1"

definition u64_max :: nat where
  "u64_max = 2 ^ 64 - 1"

definition usize_add :: "nat \<Rightarrow> nat \<Rightarrow> panic + nat" where
  "usize_add a b = (if a + b \<le> usize_max then Inr (a + b) else Inl ArithOverflow)"

definition usize_sub :: "nat \<Rightarrow> nat \<Rightarrow> panic + nat" where
  "usize_sub a b = (if b \<le> a then Inr (a - b) else Inl ArithOverflow)"

text \<open>The operators \<open>+\<close> and \<open>-\<close> by profile: \<open>dbg\<close> is the debug profile, which checks for overflow; the release profile wraps.\<close>

definition profile_add :: "bool \<Rightarrow> nat \<Rightarrow> nat \<Rightarrow> panic + nat" where
  "profile_add dbg a b = (if a + b \<le> usize_max then Inr (a + b) else if dbg then Inl ArithOverflow else Inr ((a + b) mod 2 ^ 64))"

definition profile_sub :: "bool \<Rightarrow> nat \<Rightarrow> nat \<Rightarrow> panic + nat" where
  "profile_sub dbg a b = (if b \<le> a then Inr (a - b) else if dbg then Inl ArithOverflow else Inr (a + 2 ^ 64 - b))"

definition wrapping_add :: "nat \<Rightarrow> nat \<Rightarrow> nat" where
  "wrapping_add a b = (a + b) mod 2 ^ 64"

definition checked_add :: "nat \<Rightarrow> nat \<Rightarrow> nat option" where
  "checked_add a b = (if a + b \<le> usize_max then Some (a + b) else None)"

definition checked_sub :: "nat \<Rightarrow> nat \<Rightarrow> nat option" where
  "checked_sub a b = (if b \<le> a then Some (a - b) else None)"

definition div_ceil :: "nat \<Rightarrow> nat \<Rightarrow> nat" where
  "div_ceil a b = (if a mod b = 0 then a div b else a div b + 1)"

definition is_multiple_of :: "nat \<Rightarrow> nat \<Rightarrow> bool" where
  "is_multiple_of a b = (if b = 0 then a = 0 else a mod b = 0)"

fun ilog2 :: "nat \<Rightarrow> nat" where
  "ilog2 n = (if n < 2 then 0 else Suc (ilog2 (n div 2)))"

declare ilog2.simps [simp del]

function next_pow2_from :: "nat \<Rightarrow> nat \<Rightarrow> nat" where
  "next_pow2_from n p = (if n \<le> p \<or> p = 0 then p else next_pow2_from n (2 * p))"
  by pat_completeness auto
termination
  by (relation "measure (\<lambda>(n, p). n - p)") auto

declare next_pow2_from.simps [simp del]

definition next_power_of_two :: "nat \<Rightarrow> nat" where
  "next_power_of_two n = next_pow2_from n 1"

definition is_power_of_two :: "nat \<Rightarrow> bool" where
  "is_power_of_two n \<longleftrightarrow> n \<noteq> 0 \<and> next_power_of_two n = n"

fun trailing_zeros :: "nat \<Rightarrow> nat" where
  "trailing_zeros n = (if n = 0 then 64 else if odd n then 0 else Suc (trailing_zeros (n div 2)))"

declare trailing_zeros.simps [simp del]

subsection \<open>Byte strings\<close>

text \<open>\<open>rand\<close> is an argument of the operations that use it: \<open>rng n\<close> are the bytes that \<open>fill_bytes\<close>
  writes to a slice of length \<open>n\<close>, and \<open>fills\<close> is what it promises, that it fills the whole
  slice.\<close>

definition fills :: "(nat \<Rightarrow> byte list) \<Rightarrow> bool" where
  "fills rng \<longleftrightarrow> (\<forall>n. length (rng n) = n)"

fun be_bytes :: "nat \<Rightarrow> nat \<Rightarrow> byte list" where
  "be_bytes 0 v = []"
| "be_bytes (Suc n) v = be_bytes n (v div 256) @ [of_nat (v mod 256)]"

definition to_be_bytes :: "nat \<Rightarrow> byte list" where
  "to_be_bytes v = be_bytes 8 v"

definition from_be_bytes :: "byte list \<Rightarrow> nat" where
  "from_be_bytes bs = foldl (\<lambda>acc b. acc * 256 + unat b) 0 bs"

definition slice :: "nat \<Rightarrow> nat \<Rightarrow> 'a list \<Rightarrow> 'a list" where
  "slice i j xs = take (j - i) (drop i xs)"

definition splice :: "nat \<Rightarrow> 'a list \<Rightarrow> 'a list \<Rightarrow> 'a list" where
  "splice i ys xs = take i xs @ ys @ drop (i + length ys) xs"

subsection \<open>Facts shared by the components\<close>

lemma and_then_simps [simp]:
  "and_then (Inl e) f = Inl e"
  "and_then (Inr x) f = f x"
  by (simp_all add: and_then_def)

lemma and_then_eq_Inr [rust_simps]:
  "and_then m f = Inr y \<longleftrightarrow> (\<exists>x. m = Inr x \<and> f x = Inr y)"
  by (cases m) auto

lemma and_then_assoc: "and_then (and_then m f) g = and_then m (\<lambda>x. and_then (f x) g)"
  by (cases m) auto

lemma panic_if_simps [simp]:
  "panic_if True p = Inl p"
  "panic_if False p = Inr ()"
  by (simp_all add: panic_if_def)

lemma panic_if_eq_Inr [rust_simps]: "panic_if b p = Inr u \<longleftrightarrow> \<not> b"
  by (cases b) auto

lemma usize_add_eq_Inr [rust_simps]: "usize_add a b = Inr c \<longleftrightarrow> a + b \<le> usize_max \<and> c = a + b"
  by (auto simp: usize_add_def)

lemma usize_sub_eq_Inr [rust_simps]: "usize_sub a b = Inr c \<longleftrightarrow> b \<le> a \<and> c = a - b"
  by (auto simp: usize_sub_def)

lemma usize_sub_le [simp]: "b \<le> a \<Longrightarrow> usize_sub a b = Inr (a - b)"
  by (simp add: usize_sub_def)

lemma profile_add_le [simp]: "a + b \<le> usize_max \<Longrightarrow> profile_add dbg a b = Inr (a + b)"
  by (simp add: profile_add_def)

lemma profile_sub_le [simp]: "b \<le> a \<Longrightarrow> profile_sub dbg a b = Inr (a - b)"
  by (simp add: profile_sub_def)

lemma wrapping_add_small [simp]: "a + b \<le> usize_max \<Longrightarrow> wrapping_add a b = a + b"
  by (simp add: wrapping_add_def usize_max_def)

lemma wrapping_add_bound: "wrapping_add a b \<le> usize_max"
proof -
  have "(a + b) mod 2 ^ 64 < 2 ^ 64" by simp
  then show ?thesis by (simp add: wrapping_add_def usize_max_def)
qed

lemma div_ceil_le_iff: "0 < b \<Longrightarrow> div_ceil a b \<le> c \<longleftrightarrow> a \<le> c * b"
proof -
  assume b: "0 < b"
  have eq: "a = a div b * b + a mod b" by simp
  have lt: "a mod b < b" using b by simp
  show ?thesis
  proof (cases "a mod b = 0")
    case True
    then show ?thesis using b eq by (metis add.right_neutral div_ceil_def mult_le_cancel2)
  next
    case False
    have "a \<le> c * b \<longleftrightarrow> a div b < c"
    proof
      assume "a \<le> c * b"
      then have "a div b * b < c * b" using False eq by linarith
      then show "a div b < c" by simp
    next
      assume "a div b < c"
      then have "(a div b + 1) * b \<le> c * b" by (intro mult_le_mono1) simp
      then have "a div b * b + b \<le> c * b" by (simp add: distrib_right)
      then show "a \<le> c * b" using eq lt by linarith
    qed
    with False show ?thesis by (simp add: div_ceil_def Suc_le_eq)
  qed
qed

lemma div_ceil_mult_ge: "0 < b \<Longrightarrow> a \<le> div_ceil a b * b"
  using div_ceil_le_iff by blast

lemma next_pow2_from_ge: "0 < p \<Longrightarrow> n \<le> next_pow2_from n p"
proof (induction n p rule: next_pow2_from.induct)
  case (1 n p)
  then show ?case by (subst next_pow2_from.simps) auto
qed

lemma next_pow2_from_power: "\<exists>k. next_pow2_from n (2 ^ j) = 2 ^ k"
proof (induction n "(2::nat) ^ j" arbitrary: j rule: next_pow2_from.induct)
  case (1 n)
  show ?case
  proof (cases "n \<le> 2 ^ j")
    case True
    then show ?thesis by (subst next_pow2_from.simps) auto
  next
    case False
    then have "\<exists>k. next_pow2_from n (2 ^ Suc j) = 2 ^ k"
      using "1.hyps" [of "Suc j"] by simp
    with False show ?thesis by (subst next_pow2_from.simps) auto
  qed
qed

lemma next_power_of_two_ge: "n \<le> next_power_of_two n"
  by (simp add: next_power_of_two_def next_pow2_from_ge)

lemma next_power_of_two_power: "\<exists>k. next_power_of_two n = 2 ^ k"
  using next_pow2_from_power [of n 0] by (simp add: next_power_of_two_def)

lemma next_power_of_two_pos [simp]: "0 < next_power_of_two n"
  using next_power_of_two_power [of n] by auto

lemma next_pow2_from_exact: "j \<le> k \<Longrightarrow> next_pow2_from (2 ^ k) (2 ^ j) = 2 ^ k"
proof (induction "k - j" arbitrary: j)
  case 0
  then show ?case by (subst next_pow2_from.simps) auto
next
  case (Suc d)
  from Suc.hyps(2) have "d = k - Suc j" and "Suc j \<le> k" by simp_all
  then have "next_pow2_from (2 ^ k) (2 ^ Suc j) = 2 ^ k" by (rule Suc.hyps(1))
  moreover have "(2::nat) ^ j < 2 ^ k" using \<open>Suc j \<le> k\<close> by simp
  ultimately show ?case by (subst next_pow2_from.simps) simp
qed

lemma is_power_of_two_iff: "is_power_of_two n \<longleftrightarrow> (\<exists>k. n = 2 ^ k)"
  using next_power_of_two_power [of n] next_pow2_from_exact [of 0]
  by (auto simp: is_power_of_two_def next_power_of_two_def)

lemma ilog2_bounds: "0 < n \<Longrightarrow> 2 ^ ilog2 n \<le> n \<and> n < 2 * 2 ^ ilog2 n"
proof (induction n rule: ilog2.induct)
  case (1 n)
  show ?case
  proof (cases "n < 2")
    case True
    with "1.prems" show ?thesis by (subst (1 2) ilog2.simps) simp
  next
    case False
    then have "2 ^ ilog2 (n div 2) \<le> n div 2 \<and> n div 2 < 2 * 2 ^ ilog2 (n div 2)"
      using "1.IH" by simp
    with False show ?thesis by (subst (1 2) ilog2.simps) auto
  qed
qed

lemma trailing_zeros_dvd:
  assumes "n \<noteq> 0"
  shows "i \<le> trailing_zeros n \<longleftrightarrow> 2 ^ i dvd n"
  using assms
proof (induction n arbitrary: i rule: trailing_zeros.induct)
  case (1 n)
  show ?case
  proof (cases "odd n")
    case True
    then have tz: "trailing_zeros n = 0" by (subst trailing_zeros.simps) (use "1.prems" in auto)
    have "2 ^ i dvd n \<longleftrightarrow> i = 0"
      using True by (cases i) (auto dest: dvd_mult_left)
    with tz show ?thesis by simp
  next
    case False
    then obtain m where m: "n = 2 * m" by auto
    have tz: "trailing_zeros n = Suc (trailing_zeros m)"
      using False "1.prems" m by (subst trailing_zeros.simps) simp
    have IH: "\<And>i. i \<le> trailing_zeros m \<longleftrightarrow> 2 ^ i dvd m"
      using "1.IH" [of _] "1.prems" False m by simp
    show ?thesis using tz IH m by (cases i) auto
  qed
qed

lemma length_be_bytes [simp]: "length (be_bytes n v) = n"
  by (induction n arbitrary: v) simp_all

lemma length_to_be_bytes [simp]: "length (to_be_bytes v) = 8"
  by (simp add: to_be_bytes_def)

lemma from_be_bytes_snoc: "from_be_bytes (bs @ [b]) = from_be_bytes bs * 256 + unat b"
  by (simp add: from_be_bytes_def)

lemma unat_byte_of_nat_mod: "unat (of_nat (v mod 256) :: byte) = v mod 256"
  by (simp add: unat_of_nat take_bit_eq_mod)

lemma from_be_bytes_be_bytes: "from_be_bytes (be_bytes n v) = v mod 256 ^ n"
proof (induction n arbitrary: v)
  case 0
  then show ?case by (simp add: from_be_bytes_def)
next
  case (Suc n)
  have "v mod (256 * 256 ^ n) = 256 * (v div 256 mod 256 ^ n) + v mod 256"
    by (rule mod_mult2_eq)
  then show ?case
    by (simp add: from_be_bytes_snoc Suc.IH unat_byte_of_nat_mod)
qed

lemma from_to_be_bytes [simp]: "v \<le> u64_max \<Longrightarrow> from_be_bytes (to_be_bytes v) = v"
  by (simp add: to_be_bytes_def from_be_bytes_be_bytes u64_max_def)

lemma from_be_bytes_bound: "from_be_bytes bs < 256 ^ length bs"
proof (induction bs rule: rev_induct)
  case Nil
  then show ?case by (simp add: from_be_bytes_def)
next
  case (snoc b bs)
  have "unat b < 256" by (rule order_less_le_trans [OF unsigned_less]) simp
  with snoc show ?case by (simp add: from_be_bytes_snoc)
qed

lemma length_slice [simp]: "j \<le> length xs \<Longrightarrow> length (slice i j xs) = j - i"
  by (simp add: slice_def)

lemma length_splice [simp]: "i + length ys \<le> length xs \<Longrightarrow> length (splice i ys xs) = length xs"
  by (simp add: splice_def)

lemma slice_splice_same [simp]:
  "i + length ys \<le> length xs \<Longrightarrow> slice i (i + length ys) (splice i ys xs) = ys"
  by (simp add: slice_def splice_def)

lemma slice_splice_before:
  "j \<le> i \<Longrightarrow> i + length ys \<le> length xs \<Longrightarrow> slice k j (splice i ys xs) = slice k j xs"
  by (simp add: slice_def splice_def drop_take [symmetric])

lemma slice_splice_after:
  "i + length ys \<le> k \<Longrightarrow> k \<le> length xs \<Longrightarrow> slice k j (splice i ys xs) = slice k j xs"
  by (simp add: slice_def splice_def)

lemma in_set_update: "x \<in> set (xs[i := y]) \<Longrightarrow> x = y \<or> x \<in> set xs"
  using set_update_subset_insert [of xs i y] by blast

end
