(* ===== verification/Bip_Buffer.thy ===== *)
theory Bip_Buffer
  imports Aquic_Prelude "HOL-Library.Multiset"
begin

section \<open>The bip buffer\<close>

text \<open>
  Model of \<open>src/aquic-core/src/util/bipbuf.rs\<close>: \<open>BipBufferInner\<close> with its two regions, the
  reservation \<open>BipSliceMut\<close>, the committed slices \<open>BipSlice\<close> and \<open>BipView\<close>, and the release
  of committed memory through \<open>decommit\<close> with its tombstone heap. The allocation is the
  list \<open>buffer\<close>; a slice dereferences to the bytes between its two indices. The
  \<open>BinaryHeap<Reverse<Commit>>\<close> is the list of its elements ordered by commit ID, so that
  \<open>peek\<close> and \<open>pop\<close> take the smallest ID. The flag \<open>dbg\<close> is
  \<open>cfg!(debug_assertions)\<close>. Freeing the allocation itself (\<open>Drop\<close> of \<open>BipBufferInner\<close>) is
  not modelled. The operators \<open>+\<close> and \<open>-\<close> follow the profile: \<open>dbg\<close> panics, the release profile wraps.

  A disciplined client of the buffer is a transition system: it holds committed slices and at most
  one reservation, and it releases slices only while it holds no reservation, as
  \<open>backend/quiche/io.rs\<close> does. Its invariant says that the two regions are tiled by the
  slices that have not been reclaimed. The API lets a view be dropped while a reservation is open
  as well; \<open>bip_release_while_reserved_escapes\<close> shows a run in which that leads to a mutable slice
  beyond the allocation.
\<close>

subsection \<open>Data\<close>

datatype region = RegionA | RegionB

record reservation =
  res_start :: nat
  res_end :: nat
  res_region :: region

record commit =
  commit_id :: nat
  commit_start :: nat
  commit_end :: nat

record bip_buffer =
  buffer :: "byte list"
  bb_length :: nat
  a_start :: nat
  a_end :: nat
  b_start :: nat
  b_end :: nat
  reserved :: bool
  commit_id_sequence :: nat
  decommit_next_id :: nat
  decommit_tombstones :: "commit list"

record bip_slice =
  slice_commit :: commit
  responsible_for_memory :: bool

subsection \<open>Operations of the buffer\<close>

definition bip_new :: "nat \<Rightarrow> bip_buffer" where
  "bip_new len = \<lparr>buffer = replicate len 0, bb_length = len, a_start = 0, a_end = 0,
     b_start = 0, b_end = 0, reserved = False, commit_id_sequence = 0,
     decommit_next_id = 1, decommit_tombstones = []\<rparr>"

definition bip_len :: "bip_buffer \<Rightarrow> nat" where
  "bip_len b = bb_length b"

definition a_len :: "bool \<Rightarrow> bip_buffer \<Rightarrow> panic + nat" where
  "a_len dbg b = profile_sub dbg (a_end b) (a_start b)"

definition b_len :: "bool \<Rightarrow> bip_buffer \<Rightarrow> panic + nat" where
  "b_len dbg b = profile_sub dbg (b_end b) (b_start b)"

definition res_len :: "bool \<Rightarrow> reservation \<Rightarrow> panic + nat" where
  "res_len dbg r = profile_sub dbg (res_end r) (res_start r)"

definition commit_len :: "bool \<Rightarrow> commit \<Rightarrow> panic + nat" where
  "commit_len dbg c = profile_sub dbg (commit_end c) (commit_start c)"

definition commit_eq :: "commit \<Rightarrow> commit \<Rightarrow> bool" where
  "commit_eq c d \<longleftrightarrow> commit_id c = commit_id d"

definition commit_less :: "commit \<Rightarrow> commit \<Rightarrow> bool" where
  "commit_less c d \<longleftrightarrow> commit_id c < commit_id d"

definition available :: "bool \<Rightarrow> bip_buffer \<Rightarrow> panic + nat" where
  "available dbg b = and_then (b_len dbg b) (\<lambda>bl.
     if 0 < bl then profile_sub dbg (a_start b) (b_end b)
     else and_then (profile_sub dbg (bb_length b) (a_end b)) (\<lambda>after.
       Inr (max (a_start b) after)))"

definition choose_region ::
  "bool \<Rightarrow> bip_buffer \<Rightarrow> nat \<Rightarrow> bool \<Rightarrow> panic + (nat \<times> region \<times> nat)" where
  "choose_region dbg b request strict = and_then (b_len dbg b) (\<lambda>bl.
     if 0 < bl then
       and_then (profile_sub dbg (a_start b) (b_end b)) (\<lambda>avail. Inr (b_end b, RegionB, avail))
     else and_then (profile_sub dbg (bb_length b) (a_end b)) (\<lambda>space_after_a.
       let space_before_a = a_start b; avail = max space_before_a space_after_a in
       if request \<le> space_after_a then Inr (a_end b, RegionA, avail)
       else and_then (panic_if (dbg \<and> strict \<and> \<not> space_after_a \<le> space_before_a) DebugAssertFailed)
         (\<lambda>_. if space_before_a \<le> space_after_a then Inr (a_end b, RegionA, avail)
              else Inr (0, RegionB, avail))))"

definition reserve ::
  "bool \<Rightarrow> bip_buffer \<Rightarrow> nat \<Rightarrow> bool \<Rightarrow> panic + (reservation option \<times> bip_buffer)" where
  "reserve dbg b request strict =
     (if reserved b then Inl ExplicitPanic
      else and_then (choose_region dbg b request strict) (\<lambda>(start, region, avail).
        if avail = 0 \<or> strict \<and> avail < request then Inr (None, b)
        else and_then (profile_add dbg start (min avail request)) (\<lambda>reserve_end.
          Inr (Some \<lparr>res_start = start, res_end = reserve_end, res_region = region\<rparr>,
               b\<lparr>reserved := True\<rparr>))))"

definition commit_reservation ::
  "bool \<Rightarrow> bip_buffer \<Rightarrow> reservation \<Rightarrow> nat \<Rightarrow> panic + (commit option \<times> bip_buffer)" where
  "commit_reservation dbg b r len = and_then (res_len dbg r) (\<lambda>rl.
     if rl < len then Inr (None, b)
     else and_then (profile_add dbg (res_start r) (min len rl)) (\<lambda>commit_end'.
       let c = \<lparr>commit_id = commit_id_sequence b, commit_start = res_start r,
                commit_end = commit_end'\<rparr>;
           b' = b\<lparr>commit_id_sequence := wrapping_add (commit_id_sequence b) 1\<rparr>
       in Inr (Some c, case res_region r of
              RegionA \<Rightarrow> b'\<lparr>a_end := commit_end'\<rparr>
            | RegionB \<Rightarrow> b'\<lparr>b_end := commit_end'\<rparr>)))"

definition advance_region :: "bool \<Rightarrow> bip_buffer \<Rightarrow> commit \<Rightarrow> panic + bip_buffer" where
  "advance_region dbg b v = and_then (commit_len dbg v) (\<lambda>len.
     if commit_start v = a_start b then
       and_then (profile_add dbg (a_start b) len) (\<lambda>n. Inr (b\<lparr>a_start := n\<rparr>))
     else if commit_start v = b_start b then
       and_then (profile_add dbg (b_start b) len) (\<lambda>n. Inr (b\<lparr>b_start := n\<rparr>))
     else Inl ExplicitPanic)"

definition decommit_single :: "bool \<Rightarrow> bip_buffer \<Rightarrow> commit \<Rightarrow> panic + bip_buffer" where
  "decommit_single dbg b v = and_then (advance_region dbg b v) (\<lambda>b1.
     and_then (a_len dbg b1) (\<lambda>al.
       if al = 0 then
         Inr (b1\<lparr>a_start := b_start b1, a_end := b_end b1, b_start := 0, b_end := 0\<rparr>)
       else Inr b1))"

definition inc_next_id :: "bip_buffer \<Rightarrow> bip_buffer" where
  "inc_next_id b = b\<lparr>decommit_next_id := wrapping_add (decommit_next_id b) 1\<rparr>"

fun drain_tombstones :: "bool \<Rightarrow> commit list \<Rightarrow> bip_buffer \<Rightarrow> panic + bip_buffer" where
  "drain_tombstones dbg [] b = Inr (b\<lparr>decommit_tombstones := []\<rparr>)"
| "drain_tombstones dbg (v # rest) b =
     (if commit_id v \<noteq> decommit_next_id b then
        if commit_id v < decommit_next_id b then Inl ExplicitPanic
        else Inr (b\<lparr>decommit_tombstones := v # rest\<rparr>)
      else and_then (decommit_single dbg b v) (\<lambda>b1. drain_tombstones dbg rest (inc_next_id b1)))"

definition decommit :: "bool \<Rightarrow> bip_buffer \<Rightarrow> commit \<Rightarrow> panic + bip_buffer" where
  "decommit dbg b v = and_then (commit_len dbg v) (\<lambda>len.
     if len = 0 then Inr b
     else if commit_id v \<noteq> decommit_next_id b then
       Inr (b\<lparr>decommit_tombstones := insort_key commit_id v (decommit_tombstones b)\<rparr>)
     else and_then (decommit_single dbg b v) (\<lambda>b1.
       drain_tombstones dbg (decommit_tombstones b1) (inc_next_id b1)))"

subsection \<open>Reservations and slices\<close>

definition try_commit ::
  "bool \<Rightarrow> bip_buffer \<Rightarrow> reservation \<Rightarrow> nat \<Rightarrow> panic + ((bip_slice \<times> reservation) option \<times> bip_buffer)" where
  "try_commit dbg b r len = and_then (commit_reservation dbg b r len) (\<lambda>(oc, b').
     case oc of
       None \<Rightarrow> Inr (None, b')
     | Some c \<Rightarrow> and_then (profile_add dbg (res_start r) len) (\<lambda>n.
         Inr (Some (\<lparr>slice_commit = c, responsible_for_memory = True\<rparr>,
                    r\<lparr>res_start := min n (res_end r)\<rparr>), b')))"

definition slice_mut_commit ::
  "bool \<Rightarrow> bip_buffer \<Rightarrow> reservation \<Rightarrow> nat \<Rightarrow> panic + ((bip_slice \<times> reservation) \<times> bip_buffer)" where
  "slice_mut_commit dbg b r len = and_then (try_commit dbg b r len) (\<lambda>(os, b').
     case os of None \<Rightarrow> Inl ExplicitPanic | Some sr \<Rightarrow> Inr (sr, b'))"

definition slice_mut_deref :: "bip_buffer \<Rightarrow> reservation \<Rightarrow> byte list" where
  "slice_mut_deref b r = slice (res_start r) (res_end r) (buffer b)"

definition slice_mut_write :: "bip_buffer \<Rightarrow> reservation \<Rightarrow> byte list \<Rightarrow> bip_buffer" where
  "slice_mut_write b r bytes =
     b\<lparr>buffer := splice (res_start r) (take (res_end r - res_start r) bytes) (buffer b)\<rparr>"

definition slice_mut_drop :: "bip_buffer \<Rightarrow> bip_buffer" where
  "slice_mut_drop b = b\<lparr>reserved := False\<rparr>"

definition commit_deref :: "bip_buffer \<Rightarrow> commit \<Rightarrow> byte list" where
  "commit_deref b c = slice (commit_start c) (commit_end c) (buffer b)"

definition slice_detach :: "bip_slice \<Rightarrow> bip_slice \<times> commit" where
  "slice_detach s = (s\<lparr>responsible_for_memory := False\<rparr>, slice_commit s)"

definition slice_drop :: "bool \<Rightarrow> bip_buffer \<Rightarrow> bip_slice \<Rightarrow> panic + bip_buffer" where
  "slice_drop dbg b s = (if responsible_for_memory s then decommit dbg b (slice_commit s) else Inr b)"

definition view_drop :: "bool \<Rightarrow> bip_buffer \<Rightarrow> commit \<Rightarrow> panic + bip_buffer" where
  "view_drop dbg b c = decommit dbg b c"

subsection \<open>A client of the buffer\<close>

record bip_sys =
  bip :: bip_buffer
  held :: "commit list"
  open_res :: "reservation option"

definition bip_sys_new :: "nat \<Rightarrow> bip_sys" where
  "bip_sys_new len = \<lparr>bip = bip_new len, held = [], open_res = None\<rparr>"

inductive bip_step :: "bool \<Rightarrow> bip_sys \<Rightarrow> bip_sys \<Rightarrow> bool" for dbg :: bool where
  step_reserve:
    "open_res s = None \<Longrightarrow> reserve dbg (bip s) request strict = Inr (res, b') \<Longrightarrow>
     bip_step dbg s (s\<lparr>bip := b', open_res := res\<rparr>)"
| step_write:
    "open_res s = Some r \<Longrightarrow> length bytes = res_end r - res_start r \<Longrightarrow>
     bip_step dbg s (s\<lparr>bip := slice_mut_write (bip s) r bytes\<rparr>)"
| step_commit:
    "open_res s = Some r \<Longrightarrow> try_commit dbg (bip s) r n = Inr (Some (sl, r'), b') \<Longrightarrow>
     commit_id_sequence (bip s) < usize_max \<Longrightarrow>
     bip_step dbg s (s\<lparr>bip := b', held := held s @ [slice_commit sl], open_res := Some r'\<rparr>)"
| step_cancel:
    "open_res s = Some r \<Longrightarrow>
     bip_step dbg s (s\<lparr>bip := slice_mut_drop (bip s), open_res := None\<rparr>)"
| step_release:
    "open_res s = None \<Longrightarrow> c \<in> set (held s) \<Longrightarrow> view_drop dbg (bip s) c = Inr b' \<Longrightarrow>
     bip_step dbg s (s\<lparr>bip := b', held := remove1 c (held s)\<rparr>)"

inductive bip_reachable :: "bool \<Rightarrow> nat \<Rightarrow> bip_sys \<Rightarrow> bool" for dbg :: bool and len :: nat where
  reach_new: "bip_reachable dbg len (bip_sys_new len)"
| reach_step: "bip_reachable dbg len s \<Longrightarrow> bip_step dbg s s' \<Longrightarrow> bip_reachable dbg len s'"

text \<open>The API does not enforce that discipline: a \<open>BipView\<close> owns its buffer and may be dropped while a
  \<open>BipSliceMut\<close> is alive. The clients of the whole API may also do that; a script of uses runs one of them.\<close>

inductive bip_api_step :: "bool \<Rightarrow> bip_sys \<Rightarrow> bip_sys \<Rightarrow> bool" for dbg :: bool where
  api_disciplined: "bip_step dbg s s' \<Longrightarrow> bip_api_step dbg s s'"
| api_release:
    "open_res s = Some r \<Longrightarrow> c \<in> set (held s) \<Longrightarrow> view_drop dbg (bip s) c = Inr b' \<Longrightarrow>
     bip_api_step dbg s (s\<lparr>bip := b', held := remove1 c (held s)\<rparr>)"

inductive bip_api_reachable :: "bool \<Rightarrow> nat \<Rightarrow> bip_sys \<Rightarrow> bool" for dbg :: bool and len :: nat where
  api_new: "bip_api_reachable dbg len (bip_sys_new len)"
| api_step: "bip_api_reachable dbg len s \<Longrightarrow> bip_api_step dbg s s' \<Longrightarrow> bip_api_reachable dbg len s'"

datatype bip_use = UseReserve nat bool | UseCommit nat | UseCancel | UseRelease nat

fun bip_do :: "bool \<Rightarrow> bip_use \<Rightarrow> bip_sys \<Rightarrow> bip_sys option" where
  "bip_do dbg (UseReserve n strict) s =
     (case (open_res s, reserve dbg (bip s) n strict) of
        (None, Inr (res, b)) \<Rightarrow> Some (s\<lparr>bip := b, open_res := res\<rparr>) | _ \<Rightarrow> None)"
| "bip_do dbg (UseCommit n) s =
     (case open_res s of None \<Rightarrow> None | Some r \<Rightarrow>
        if usize_max \<le> commit_id_sequence (bip s) then None
        else case try_commit dbg (bip s) r n of
          Inr (Some (sl, r'), b) \<Rightarrow> Some (s\<lparr>bip := b, held := held s @ [slice_commit sl], open_res := Some r'\<rparr>)
        | _ \<Rightarrow> None)"
| "bip_do dbg UseCancel s =
     (case open_res s of None \<Rightarrow> None | Some r \<Rightarrow> Some (s\<lparr>bip := slice_mut_drop (bip s), open_res := None\<rparr>))"
| "bip_do dbg (UseRelease i) s =
     (if i < length (held s) then
        case view_drop dbg (bip s) (held s ! i) of
          Inr b \<Rightarrow> Some (s\<lparr>bip := b, held := remove1 (held s ! i) (held s)\<rparr>) | Inl _ \<Rightarrow> None
      else None)"

fun bip_script :: "bool \<Rightarrow> bip_use list \<Rightarrow> bip_sys \<Rightarrow> bip_sys option" where
  "bip_script dbg [] s = Some s"
| "bip_script dbg (u # us) s = (case bip_do dbg u s of None \<Rightarrow> None | Some s' \<Rightarrow> bip_script dbg us s')"

fun decommit_all :: "bool \<Rightarrow> commit list \<Rightarrow> bip_buffer \<Rightarrow> panic + bip_buffer" where
  "decommit_all dbg [] b = Inr b"
| "decommit_all dbg (c # cs) b = and_then (decommit dbg b c) (decommit_all dbg cs)"

subsection \<open>The invariant\<close>

fun chain :: "nat \<Rightarrow> commit list \<Rightarrow> nat \<Rightarrow> bool" where
  "chain i [] j \<longleftrightarrow> i = j"
| "chain i (c # cs) j \<longleftrightarrow> commit_start c = i \<and> i < commit_end c \<and> chain (commit_end c) cs j"

definition bip_ok :: "bip_buffer \<Rightarrow> commit list \<Rightarrow> commit list \<Rightarrow> bool" where
  "bip_ok b la lb \<longleftrightarrow>
     chain (a_start b) la (a_end b) \<and> chain 0 lb (b_end b) \<and> b_start b = 0 \<and>
     b_end b \<le> a_start b \<and> a_end b \<le> bb_length b \<and> length (buffer b) = bb_length b \<and>
     bb_length b \<le> usize_max \<and> (la = [] \<longrightarrow> lb = [] \<and> a_start b = 0)"

definition res_ok :: "bip_buffer \<Rightarrow> commit list \<Rightarrow> reservation \<Rightarrow> bool" where
  "res_ok b la r \<longleftrightarrow> res_start r \<le> res_end r \<and>
     (case res_region r of
        RegionA \<Rightarrow> res_start r = a_end b \<and> res_end r \<le> bb_length b \<and> b_end b = 0
      | RegionB \<Rightarrow> res_start r = b_end b \<and> res_end r \<le> a_start b \<and> la \<noteq> [])"

definition live_ok :: "bip_buffer \<Rightarrow> commit list \<Rightarrow> bool" where
  "live_ok b live \<longleftrightarrow>
     sorted_wrt (<) (map commit_id live) \<and>
     (\<forall>c \<in> set live. commit_id c < commit_id_sequence b) \<and>
     commit_id_sequence b \<le> usize_max \<and>
     (decommit_next_id b \<le> commit_id_sequence b \<or>
        commit_id_sequence b = 0 \<and> decommit_next_id b = 1) \<and>
     set (decommit_tombstones b) \<subseteq> set live \<and>
     sorted_wrt (<) (map commit_id (decommit_tombstones b))"

definition next_ok :: "bip_buffer \<Rightarrow> commit list \<Rightarrow> bool" where
  "next_ok b live \<longleftrightarrow>
     (\<forall>c \<in> set live. decommit_next_id b \<le> commit_id c) \<or>
     (live \<noteq> [] \<and> commit_id (hd live) = 0 \<and> decommit_next_id b = 1 \<and> a_start b = 0)"

definition held_ok :: "bip_buffer \<Rightarrow> commit list \<Rightarrow> commit list \<Rightarrow> bool" where
  "held_ok b live cs \<longleftrightarrow> distinct (map commit_id cs) \<and>
     (\<forall>c \<in> set cs. commit_id c < commit_id_sequence b \<and> commit_start c \<le> commit_end c \<and>
       (commit_start c < commit_end c \<longrightarrow>
          c \<in> set live \<and> c \<notin> set (decommit_tombstones b)))"

definition sys_inv :: "bip_sys \<Rightarrow> bool" where
  "sys_inv s \<longleftrightarrow> (\<exists>la lb. bip_ok (bip s) la lb \<and> live_ok (bip s) (la @ lb) \<and>
     next_ok (bip s) (la @ lb) \<and> held_ok (bip s) (la @ lb) (held s) \<and>
     (reserved (bip s) \<longleftrightarrow> open_res s \<noteq> None) \<and>
     (\<forall>r. open_res s = Some r \<longrightarrow> res_ok (bip s) la r))"

definition same_frame :: "bip_buffer \<Rightarrow> bip_buffer \<Rightarrow> bool" where
  "same_frame b b' \<longleftrightarrow> buffer b' = buffer b \<and> bb_length b' = bb_length b \<and>
     reserved b' = reserved b \<and> commit_id_sequence b' = commit_id_sequence b"

definition drained ::
  "bip_buffer \<Rightarrow> commit list \<Rightarrow> commit list \<Rightarrow> nat \<Rightarrow> bip_buffer \<Rightarrow> bool" where
  "drained b live ts n b' \<longleftrightarrow> (\<exists>la' lb' k. bip_ok b' la' lb' \<and> la' @ lb' = drop k live \<and>
     take k live = take k ts \<and> k \<le> length ts \<and> decommit_tombstones b' = drop k ts \<and>
     decommit_next_id b' = n + k \<and> n + k \<le> commit_id_sequence b \<and>
     (\<forall>c \<in> set (drop k live). n + k \<le> commit_id c) \<and>
     (drop k ts = [] \<or> n + k < commit_id (hd (drop k ts))) \<and> same_frame b b')"

definition ids_aligned :: "bip_buffer \<Rightarrow> commit list \<Rightarrow> bool" where
  "ids_aligned b live \<longleftrightarrow>
     map commit_id live = [decommit_next_id b ..< commit_id_sequence b] \<and>
     decommit_next_id b \<le> commit_id_sequence b \<and> commit_id_sequence b \<le> usize_max"

definition reclaimable :: "bip_buffer \<Rightarrow> commit list \<Rightarrow> commit list \<Rightarrow> bool" where
  "reclaimable b la lb \<longleftrightarrow> bip_ok b la lb \<and> ids_aligned b (la @ lb) \<and>
     set (decommit_tombstones b) \<subseteq> set (la @ lb) \<and>
     sorted_wrt (<) (map commit_id (decommit_tombstones b)) \<and>
     (la @ lb = [] \<or> hd (la @ lb) \<notin> set (decommit_tombstones b))"

subsection \<open>Regions tiled by commits\<close>

lemma chain_le: "chain i cs j \<Longrightarrow> i \<le> j"
  by (induction cs arbitrary: i) (auto intro: less_imp_le less_le_trans)

lemma chain_mem:
  "chain i cs j \<Longrightarrow> c \<in> set cs \<Longrightarrow>
     i \<le> commit_start c \<and> commit_start c < commit_end c \<and> commit_end c \<le> j"
proof (induction cs arbitrary: i)
  case (Cons d cs)
  then show ?case using chain_le [of "commit_end d" cs j] by fastforce
qed simp

lemma chain_snoc:
  "chain i cs j \<Longrightarrow> commit_start c = j \<Longrightarrow> j < commit_end c \<Longrightarrow> chain i (cs @ [c]) (commit_end c)"
  by (induction cs arbitrary: i) auto

lemma chain_zero [simp]: "chain i cs i \<longleftrightarrow> cs = []"
  using chain_le by (cases cs) fastforce+

lemma chain_disjoint:
  "chain i cs j \<Longrightarrow> c \<in> set cs \<Longrightarrow> d \<in> set cs \<Longrightarrow> c \<noteq> d \<Longrightarrow>
     commit_end c \<le> commit_start d \<or> commit_end d \<le> commit_start c"
proof (induction cs arbitrary: i)
  case (Cons x cs)
  then show ?case using chain_mem [of "commit_end x" cs j] by auto
qed simp

lemma bip_ok_mem:
  assumes "bip_ok b la lb" and "c \<in> set (la @ lb)"
  shows "commit_start c < commit_end c" and "commit_end c \<le> bb_length b"
  using assms chain_mem [of "a_start b" la "a_end b" c] chain_mem [of 0 lb "b_end b" c]
    chain_le [of "a_start b" la "a_end b"]
  by (auto simp: bip_ok_def)

lemma bip_ok_disjoint:
  assumes "bip_ok b la lb" and "c \<in> set (la @ lb)" and "d \<in> set (la @ lb)" and "c \<noteq> d"
  shows "commit_end c \<le> commit_start d \<or> commit_end d \<le> commit_start c"
proof -
  note ok = assms(1) [unfolded bip_ok_def]
  have AB: "commit_end y \<le> commit_start x" if "x \<in> set la" "y \<in> set lb" for x y
    using ok that chain_mem [of "a_start b" la "a_end b" x] chain_mem [of 0 lb "b_end b" y] by auto
  from assms(2,3) consider "c \<in> set la \<and> d \<in> set la" | "c \<in> set lb \<and> d \<in> set lb"
    | "c \<in> set la \<and> d \<in> set lb" | "c \<in> set lb \<and> d \<in> set la"
    by auto
  then show ?thesis
    using ok AB assms(4) chain_disjoint [of "a_start b" la "a_end b" c d]
      chain_disjoint [of 0 lb "b_end b" c d]
    by cases auto
qed

lemma res_ok_exclusive:
  assumes "bip_ok b la lb" and "res_ok b la r" and "c \<in> set (la @ lb)"
  shows "res_end r \<le> bb_length b" and
    "commit_end c \<le> res_start r \<or> res_end r \<le> commit_start c"
proof -
  note ok = assms(1) [unfolded bip_ok_def]
  have inA: "a_start b \<le> commit_start c \<and> commit_end c \<le> a_end b" if "c \<in> set la"
    using ok that chain_mem [of "a_start b" la "a_end b" c] by auto
  have inB: "commit_end c \<le> b_end b \<and> 0 < b_end b" if "c \<in> set lb"
    using ok that chain_mem [of 0 lb "b_end b" c] by auto
  have "a_start b \<le> a_end b" using ok chain_le by auto
  then show "res_end r \<le> bb_length b"
    using ok assms(2) by (auto simp: res_ok_def split: region.splits)
  show "commit_end c \<le> res_start r \<or> res_end r \<le> commit_start c"
    using ok assms(2,3) inA inB by (auto simp: res_ok_def split: region.splits)
qed

subsection \<open>Every operation keeps the regions tiled\<close>

lemma bip_ok_bounds:
  assumes "bip_ok b la lb"
  shows "b_len dbg b = Inr (b_end b)" and "a_len dbg b = Inr (a_end b - a_start b)"
    and "b_end b \<le> a_start b" and "a_start b \<le> a_end b" and "a_end b \<le> bb_length b"
    and "bb_length b \<le> usize_max"
  using assms chain_le by (auto simp: bip_ok_def b_len_def a_len_def)

lemma available_ok:
  assumes "bip_ok b la lb"
  shows "available dbg b = Inr (if 0 < b_end b then a_start b - b_end b
                            else max (a_start b) (bb_length b - a_end b))"
  using bip_ok_bounds [OF assms] by (simp add: available_def)

lemma bip_ok_update [simp]:
  "bip_ok (b\<lparr>reserved := x\<rparr>) la lb = bip_ok b la lb"
  "bip_ok (b\<lparr>decommit_tombstones := ts\<rparr>) la lb = bip_ok b la lb"
  "bip_ok (b\<lparr>decommit_next_id := n\<rparr>) la lb = bip_ok b la lb"
  "bip_ok (b\<lparr>commit_id_sequence := n\<rparr>) la lb = bip_ok b la lb"
  by (simp_all add: bip_ok_def)

lemma res_ok_update [simp]:
  "res_ok (b\<lparr>reserved := x\<rparr>) la r = res_ok b la r"
  by (simp add: res_ok_def cong: region.case_cong)

lemma choose_region_release:
  assumes "bip_ok b la lb" and "available dbg b = Inr n"
  obtains start reg where "choose_region False b request strict = Inr (start, reg, n)"
    and "start + min n request \<le> usize_max"
proof (cases "0 < b_end b")
  case True
  with assms bip_ok_bounds [OF assms(1)] that [of "b_end b" RegionB] show thesis
    by (auto simp: choose_region_def available_def)
next
  case False
  note bounds = bip_ok_bounds [OF assms(1)]
  have n: "n = max (a_start b) (bb_length b - a_end b)"
    using False assms(2) available_ok [OF assms(1)] by simp
  consider "request \<le> bb_length b - a_end b"
    | "\<not> request \<le> bb_length b - a_end b" "a_start b \<le> bb_length b - a_end b"
    | "\<not> request \<le> bb_length b - a_end b" "\<not> a_start b \<le> bb_length b - a_end b"
    by blast
  then show thesis
  proof cases
    case 1
    with False bounds n that [of "a_end b" RegionA] show thesis
      by (simp add: choose_region_def Let_def)
  next
    case 2
    with False bounds n that [of "a_end b" RegionA] show thesis
      by (simp add: choose_region_def Let_def)
  next
    case 3
    with False bounds n that [of 0 RegionB] show thesis
      by (simp add: choose_region_def Let_def)
  qed
qed

lemma reserve_release_profile:
  assumes "bip_ok b la lb" and "\<not> reserved b" and "available dbg b = Inr n"
  shows "n = 0 \<or> strict \<and> n < request \<Longrightarrow> reserve False b request strict = Inr (None, b)"
    and "0 < n \<Longrightarrow> (strict \<longrightarrow> request \<le> n) \<Longrightarrow>
      \<exists>r. reserve False b request strict = Inr (Some r, b\<lparr>reserved := True\<rparr>)"
proof -
  obtain start reg where c: "choose_region False b request strict = Inr (start, reg, n)"
    and le: "start + min n request \<le> usize_max"
    using choose_region_release [OF assms(1,3)] .
  show "n = 0 \<or> strict \<and> n < request \<Longrightarrow> reserve False b request strict = Inr (None, b)"
    using c assms(2) by (auto simp: reserve_def)
  show "0 < n \<Longrightarrow> (strict \<longrightarrow> request \<le> n) \<Longrightarrow>
      \<exists>r. reserve False b request strict = Inr (Some r, b\<lparr>reserved := True\<rparr>)"
    using c le assms(2) by (auto simp: reserve_def profile_add_def)
qed

lemma reserve_Some:
  assumes ok: "bip_ok b la lb" and r: "reserve dbg b request strict = Inr (Some r, b')"
  shows "res_ok b la r" and "b' = b\<lparr>reserved := True\<rparr>"
    and "available dbg b = Inr n \<Longrightarrow> res_end r - res_start r = min n request"
proof -
  note bounds = bip_ok_bounds [OF ok]
  have la: "0 < b_end b \<Longrightarrow> la \<noteq> []" "0 < a_start b \<Longrightarrow> la \<noteq> []"
    using ok by (auto simp: bip_ok_def)
  show "b' = b\<lparr>reserved := True\<rparr>"
    using r by (auto simp: reserve_def rust_simps split: if_splits)
  show "res_ok b la r"
    using r bounds la
    by (auto simp: reserve_def choose_region_def Let_def rust_simps res_ok_def split: if_splits)
  show "res_end r - res_start r = min n request" if "available dbg b = Inr n"
    using r bounds that
    by (auto simp: reserve_def choose_region_def available_def Let_def rust_simps split: if_splits)
qed

lemma reserve_None:
  "reserve dbg b request strict = Inr (None, b') \<Longrightarrow> b' = b"
  by (auto simp: reserve_def rust_simps split: if_splits)

lemma try_commit_Some:
  assumes "try_commit dbg b r n = Inr (Some (sl, r'), b')" and "res_start r \<le> res_end r" and "res_end r \<le> usize_max"
  shows "slice_commit sl = \<lparr>commit_id = commit_id_sequence b, commit_start = res_start r,
                            commit_end = res_start r + n\<rparr>"
    and "n \<le> res_end r - res_start r"
    and "r' = r\<lparr>res_start := res_start r + n\<rparr>"
    and "b' = (case res_region r of
                 RegionA \<Rightarrow> b\<lparr>commit_id_sequence := wrapping_add (commit_id_sequence b) 1,
                             a_end := res_start r + n\<rparr>
               | RegionB \<Rightarrow> b\<lparr>commit_id_sequence := wrapping_add (commit_id_sequence b) 1,
                             b_end := res_start r + n\<rparr>)"
proof -
  have len: "res_len dbg r = Inr (res_end r - res_start r)"
    using assms(2) by (simp add: res_len_def)
  show n: "n \<le> res_end r - res_start r"
    using assms(1) len by (auto simp: try_commit_def commit_reservation_def split: if_splits)
  have "res_start r + n \<le> usize_max" "res_start r + n \<le> res_end r"
    using n assms(2,3) by linarith+
  with n len assms(1)
  have eq: "sl = \<lparr>slice_commit = \<lparr>commit_id = commit_id_sequence b, commit_start = res_start r,
              commit_end = res_start r + n\<rparr>, responsible_for_memory = True\<rparr> \<and>
      r' = r\<lparr>res_start := res_start r + n\<rparr> \<and>
      b' = (case res_region r of
              RegionA \<Rightarrow> b\<lparr>commit_id_sequence := wrapping_add (commit_id_sequence b) 1,
                          a_end := res_start r + n\<rparr>
            | RegionB \<Rightarrow> b\<lparr>commit_id_sequence := wrapping_add (commit_id_sequence b) 1,
                          b_end := res_start r + n\<rparr>)"
    by (auto simp: try_commit_def commit_reservation_def Let_def min_absorb1 simp del: One_nat_def)
  from eq show "slice_commit sl = \<lparr>commit_id = commit_id_sequence b, commit_start = res_start r,
                            commit_end = res_start r + n\<rparr>" by simp
  from eq show "r' = r\<lparr>res_start := res_start r + n\<rparr>" by blast
  from eq show "b' = (case res_region r of
              RegionA \<Rightarrow> b\<lparr>commit_id_sequence := wrapping_add (commit_id_sequence b) 1,
                          a_end := res_start r + n\<rparr>
            | RegionB \<Rightarrow> b\<lparr>commit_id_sequence := wrapping_add (commit_id_sequence b) 1,
                          b_end := res_start r + n\<rparr>)" by blast
qed

lemma res_bounds:
  assumes "bip_ok b la lb" and "res_ok b la r"
  shows "res_start r \<le> res_end r" and "res_end r \<le> bb_length b" and "res_end r \<le> usize_max"
  using assms bip_ok_bounds [OF assms(1)] by (auto simp: res_ok_def split: region.splits)

lemma try_commit_checked:
  assumes "try_commit True b r n = Inr (Some (sl, r'), b')" and "res_start r \<le> res_end r"
  shows "n \<le> res_end r - res_start r" and "r' = r\<lparr>res_start := res_start r + n\<rparr>"
proof -
  have len: "res_len True r = Inr (res_end r - res_start r)" using assms(2) by (simp add: res_len_def)
  show n: "n \<le> res_end r - res_start r"
    using assms(1) len by (auto simp: try_commit_def commit_reservation_def split: if_splits)
  show "r' = r\<lparr>res_start := res_start r + n\<rparr>"
    using assms n len
    by (auto simp: try_commit_def commit_reservation_def rust_simps profile_add_def min_absorb1 Let_def split: if_splits)
qed

text \<open>On a buffer and a reservation that satisfy their invariants the two profiles agree.\<close>

lemma bip_profiles_agree:
  assumes "bip_ok b la lb"
  shows "res_ok b la r \<Longrightarrow> res_len dbg r = res_len True r"
    and "res_ok b la r \<Longrightarrow> try_commit dbg b r n = try_commit True b r n"
    and "available dbg b = available True b" and "reserve dbg b m False = reserve True b m False"
proof -
  show len: "res_len dbg r = res_len True r" if "res_ok b la r"
    using res_bounds(1) [OF assms that] by (simp add: res_len_def)
  show "try_commit dbg b r n = try_commit True b r n" if "res_ok b la r"
  proof (cases "n \<le> res_end r - res_start r")
    case True
    then have "res_start r + n \<le> usize_max" using res_bounds [OF assms that] by linarith
    with True res_bounds(1) [OF assms that] show ?thesis
      by (simp add: try_commit_def commit_reservation_def res_len_def min_absorb1 Let_def)
  qed (use res_bounds(1) [OF assms that] in \<open>simp add: try_commit_def commit_reservation_def res_len_def\<close>)
  note bounds = bip_ok_bounds [OF assms]
  show "available dbg b = available True b" using bounds by (simp add: available_def)
  have "choose_region dbg b m False = choose_region True b m False"
    using bounds by (simp add: choose_region_def Let_def)
  moreover have "start + min avail m \<le> usize_max"
    if "choose_region True b m False = Inr (start, reg, avail)" for start reg avail
    using that bounds by (auto simp: choose_region_def Let_def split: if_splits)
  ultimately show "reserve dbg b m False = reserve True b m False"
    by (cases "choose_region True b m False") (auto simp: reserve_def)
qed

lemma commit_keeps_ok:
  assumes ok: "bip_ok b la lb" and res: "res_ok b la r"
    and c: "try_commit dbg b r n = Inr (Some (sl, r'), b')"
  shows "\<exists>la' lb'. bip_ok b' la' lb' \<and> res_ok b' la' r' \<and>
     la' @ lb' = (if n = 0 then la @ lb else la @ lb @ [slice_commit sl]) \<and>
     a_start b' = a_start b"
proof -
  note le = res_bounds(1) [OF ok res]
  note step = try_commit_Some [OF c le res_bounds(3) [OF ok res]]
  note okd = ok [unfolded bip_ok_def]
  have lb: "b_end b = 0 \<Longrightarrow> lb = []" using okd by auto
  show ?thesis
  proof (cases "res_region r")
    case RegionA
    with res have ra: "res_start r = a_end b" "res_end r \<le> bb_length b" "b_end b = 0"
      by (simp_all add: res_ok_def)
    have n: "a_end b + n \<le> bb_length b" using step(2) ra le by linarith
    have ch: "chain (a_start b) (la @ [slice_commit sl]) (a_end b + n)" if "0 < n"
      using chain_snoc [of "a_start b" la "a_end b" "slice_commit sl"] okd ra step(1) that by simp
    have "bip_ok b' (if n = 0 then la else la @ [slice_commit sl]) []"
      using okd ch n ra lb step(4) RegionA by (auto simp: bip_ok_def)
    moreover have "res_ok b' (if n = 0 then la else la @ [slice_commit sl]) r'"
      using step ra le RegionA n by (auto simp: res_ok_def)
    moreover have "a_start b' = a_start b" using step(4) RegionA by simp
    ultimately show ?thesis
      using lb ra by (intro exI [of _ "if n = 0 then la else la @ [slice_commit sl]"] exI [of _ "[]"]) auto
  next
    case RegionB
    with res have rb: "res_start r = b_end b" "res_end r \<le> a_start b" "la \<noteq> []"
      by (simp_all add: res_ok_def)
    have ch: "chain 0 (lb @ [slice_commit sl]) (b_end b + n)" if "0 < n"
      using chain_snoc [of 0 lb "b_end b" "slice_commit sl"] okd rb step(1) that by simp
    have n: "b_end b + n \<le> a_start b" using step(2) rb le by linarith
    have "bip_ok b' la (if n = 0 then lb else lb @ [slice_commit sl])"
      using okd ch n rb step(4) RegionB by (auto simp: bip_ok_def)
    moreover have "res_ok b' la r'"
      using step rb le RegionB n by (auto simp: res_ok_def)
    moreover have "a_start b' = a_start b" using step(4) RegionB by simp
    ultimately show ?thesis
      by (intro exI [of _ la] exI [of _ "if n = 0 then lb else lb @ [slice_commit sl]"]) auto
  qed
qed

subsection \<open>Releasing memory\<close>

lemma decommit_single_head:
  assumes ok: "bip_ok b (c # la) lb"
  shows "\<exists>b' la' lb'. decommit_single dbg b c = Inr b' \<and> bip_ok b' la' lb' \<and> la' @ lb' = la @ lb \<and>
     same_frame b b' \<and> decommit_next_id b' = decommit_next_id b \<and>
     decommit_tombstones b' = decommit_tombstones b"
proof -
  note okd = ok [unfolded bip_ok_def, simplified]
  define b1 where "b1 = b\<lparr>a_start := commit_end c\<rparr>"
  have le: "commit_end c \<le> a_end b" using okd chain_le by auto
  have adv: "advance_region dbg b c = Inr b1"
    using okd le by (simp add: advance_region_def commit_len_def profile_add_def b1_def)
  show ?thesis
  proof (cases la)
    case Nil
    with okd have e: "commit_end c = a_end b" by simp
    define b2 where "b2 = b1\<lparr>a_start := b_start b1, a_end := b_end b1, b_start := 0, b_end := 0\<rparr>"
    have "decommit_single dbg b c = Inr b2"
      using adv e by (simp add: decommit_single_def a_len_def b1_def b2_def)
    moreover have "bip_ok b2 lb []"
      using okd le e by (auto simp: bip_ok_def b1_def b2_def)
    ultimately show ?thesis
      using Nil by (intro exI [of _ b2] exI [of _ lb] exI [of _ "[]"])
        (auto simp: same_frame_def b1_def b2_def)
  next
    case (Cons d ds)
    with okd have lt: "commit_end c < a_end b"
      using chain_mem [of "commit_end c" la "a_end b" d] by auto
    have "decommit_single dbg b c = Inr b1"
      using adv lt by (simp add: decommit_single_def a_len_def b1_def)
    moreover have "bip_ok b1 la lb"
      using okd lt Cons by (auto simp: bip_ok_def b1_def)
    ultimately show ?thesis
      by (intro exI [of _ b1] exI [of _ la] exI [of _ lb]) (auto simp: same_frame_def b1_def)
  qed
qed

lemma head_of_sorted:
  assumes "sorted_wrt (<) (map commit_id live)" and "\<forall>c \<in> set live. n \<le> commit_id c"
    and "v \<in> set live" and "commit_id v = (n :: nat)"
  shows "\<exists>rest. live = v # rest \<and> (\<forall>c \<in> set rest. n < commit_id c)"
proof (cases live)
  case Nil
  with assms(3) show ?thesis by simp
next
  case (Cons x xs)
  with assms have "v = x" by fastforce
  with assms Cons show ?thesis by auto
qed

lemma drained_stop:
  assumes "bip_ok b la lb" and "n \<le> commit_id_sequence b" and "\<forall>c \<in> set (la @ lb). n \<le> commit_id c"
    and "ts = [] \<or> n < commit_id (hd ts)" and "decommit_next_id b = n"
  shows "drained b (la @ lb) ts n (b\<lparr>decommit_tombstones := ts\<rparr>)"
  unfolding drained_def using assms
  by (intro exI [of _ la] exI [of _ lb] exI [of _ 0]) (auto simp: same_frame_def)

lemma drained_step:
  assumes "drained b2 live rest (Suc n) b'" and "same_frame b b2"
  shows "drained b (v # live) (v # rest) n b'"
proof -
  from assms(1) obtain la' lb' k where "bip_ok b' la' lb'" "la' @ lb' = drop k live"
    "take k live = take k rest" "k \<le> length rest" "decommit_tombstones b' = drop k rest"
    "decommit_next_id b' = Suc n + k" "Suc n + k \<le> commit_id_sequence b2"
    "\<forall>c \<in> set (drop k live). Suc n + k \<le> commit_id c"
    "drop k rest = [] \<or> Suc n + k < commit_id (hd (drop k rest))" "same_frame b2 b'"
    by (auto simp: drained_def)
  with assms(2) show ?thesis
    unfolding drained_def
    by (intro exI [of _ la'] exI [of _ lb'] exI [of _ "Suc k"]) (auto simp: same_frame_def)
qed

lemma release_head:
  assumes ok: "bip_ok b la lb" and srt: "sorted_wrt (<) (map commit_id (la @ lb))"
    and ge: "\<forall>c \<in> set (la @ lb). decommit_next_id b \<le> commit_id c \<and> commit_id c < commit_id_sequence b"
    and mx: "commit_id_sequence b \<le> usize_max"
    and v: "v \<in> set (la @ lb)" "commit_id v = decommit_next_id b"
  obtains b1 la1 lb1 where "decommit_single dbg b v = Inr b1" and "la @ lb = v # la1 @ lb1"
    and "bip_ok (inc_next_id b1) la1 lb1" and "same_frame b (inc_next_id b1)"
    and "decommit_next_id (inc_next_id b1) = Suc (decommit_next_id b)"
    and "\<forall>c \<in> set (la1 @ lb1). Suc (decommit_next_id b) \<le> commit_id c"
    and "decommit_tombstones b1 = decommit_tombstones b"
proof -
  obtain live where live: "la @ lb = v # live" "\<forall>c \<in> set live. decommit_next_id b < commit_id c"
    using head_of_sorted [of "la @ lb" "decommit_next_id b" v] srt ge v by auto
  then obtain la0 where la: "la = v # la0"
    using ok by (cases la) (auto simp: bip_ok_def)
  obtain b1 la1 lb1 where d: "decommit_single dbg b v = Inr b1" "bip_ok b1 la1 lb1"
      "la1 @ lb1 = la0 @ lb" "same_frame b b1" "decommit_next_id b1 = decommit_next_id b"
      "decommit_tombstones b1 = decommit_tombstones b"
    using decommit_single_head ok la by blast
  have lt: "decommit_next_id b < usize_max" using ge mx v by auto
  show thesis
  proof (rule that [of b1 la1 lb1])
    show "la @ lb = v # la1 @ lb1" using la d(3) by simp
    show "\<forall>c \<in> set (la1 @ lb1). Suc (decommit_next_id b) \<le> commit_id c"
      using live la d(3) by (auto simp: Suc_le_eq)
  qed (use d lt in \<open>simp_all add: inc_next_id_def same_frame_def\<close>)
qed

lemma drain_ok:
  assumes "bip_ok b la lb" and "sorted_wrt (<) (map commit_id (la @ lb))"
    and "\<forall>c \<in> set (la @ lb). decommit_next_id b \<le> commit_id c \<and> commit_id c < commit_id_sequence b"
    and "commit_id_sequence b \<le> usize_max" and "decommit_next_id b \<le> commit_id_sequence b"
    and "set ts \<subseteq> set (la @ lb)" and "sorted_wrt (<) (map commit_id ts)"
  shows "\<exists>b'. drain_tombstones dbg ts b = Inr b' \<and> drained b (la @ lb) ts (decommit_next_id b) b'"
  using assms
proof (induction ts arbitrary: b la lb)
  case Nil
  then show ?case using drained_stop [of b la lb "decommit_next_id b" "[]"] by auto
next
  case (Cons v rest)
  show ?case
  proof (cases "commit_id v = decommit_next_id b")
    case False
    with Cons.prems(3,6) have "decommit_next_id b < commit_id v" by (auto simp: less_le)
    with False Cons.prems show ?thesis
      using drained_stop [of b la lb "decommit_next_id b" "v # rest"] by auto
  next
    case True
    have v: "v \<in> set (la @ lb)" using Cons.prems(6) by simp
    obtain b1 la1 lb1 where d: "decommit_single dbg b v = Inr b1" "la @ lb = v # la1 @ lb1"
        "bip_ok (inc_next_id b1) la1 lb1" "same_frame b (inc_next_id b1)"
        "decommit_next_id (inc_next_id b1) = Suc (decommit_next_id b)"
        "\<forall>c \<in> set (la1 @ lb1). Suc (decommit_next_id b) \<le> commit_id c"
        "decommit_tombstones b1 = decommit_tombstones b"
      by (rule release_head [OF Cons.prems(1-4) v True])
    have "\<exists>b'. drain_tombstones dbg rest (inc_next_id b1) = Inr b' \<and>
      drained (inc_next_id b1) (la1 @ lb1) rest (decommit_next_id (inc_next_id b1)) b'"
    proof (rule Cons.IH [OF d(3)])
      show "set rest \<subseteq> set (la1 @ lb1)" using Cons.prems(6,7) d(2) by fastforce
    qed (use Cons.prems d True in \<open>auto simp: same_frame_def\<close>)
    with d True show ?thesis using drained_step by fastforce
  qed
qed

lemma decommit_head:
  assumes ok: "bip_ok b la lb" and live: "live_ok b (la @ lb)"
    and nxt: "\<forall>d \<in> set (la @ lb). decommit_next_id b \<le> commit_id d"
    and c: "c \<in> set (la @ lb)" "commit_id c = decommit_next_id b"
       "c \<notin> set (decommit_tombstones b)"
  obtains b' live' where "decommit dbg b c = Inr b'" and "la @ lb = c # live'"
    and "drained b live' (decommit_tombstones b) (Suc (decommit_next_id b)) b'"
proof -
  note lv = live [unfolded live_ok_def]
  have srt: "sorted_wrt (<) (map commit_id (la @ lb))" and mx: "commit_id_sequence b \<le> usize_max"
    and ge: "\<forall>d \<in> set (la @ lb). decommit_next_id b \<le> commit_id d \<and> commit_id d < commit_id_sequence b"
    using lv nxt by auto
  obtain b1 la1 lb1 where d: "decommit_single dbg b c = Inr b1" "la @ lb = c # la1 @ lb1"
      "bip_ok (inc_next_id b1) la1 lb1" "same_frame b (inc_next_id b1)"
      "decommit_next_id (inc_next_id b1) = Suc (decommit_next_id b)"
      "\<forall>c \<in> set (la1 @ lb1). Suc (decommit_next_id b) \<le> commit_id c"
      "decommit_tombstones b1 = decommit_tombstones b"
    by (rule release_head [OF ok srt ge mx c(1,2)])
  have dec: "decommit dbg b c = drain_tombstones dbg (decommit_tombstones b) (inc_next_id b1)"
    using bip_ok_mem(1) [OF ok c(1)] c(2) d by (simp add: decommit_def commit_len_def)
  have "\<exists>b'. drain_tombstones dbg (decommit_tombstones b) (inc_next_id b1) = Inr b' \<and>
    drained (inc_next_id b1) (la1 @ lb1) (decommit_tombstones b) (decommit_next_id (inc_next_id b1)) b'"
    by (rule drain_ok [OF d(3)]) (use lv c d in \<open>auto simp: same_frame_def\<close>)
  then obtain b' where "decommit dbg b c = Inr b'"
    "drained b (la1 @ lb1) (decommit_tombstones b) (Suc (decommit_next_id b)) b'"
    using dec d(4,5) by (auto simp: drained_def same_frame_def)
  with that d(2) show thesis by blast
qed

lemma decommit_later:
  assumes "bip_ok b la lb" and "c \<in> set (la @ lb)" and "commit_id c \<noteq> decommit_next_id b"
  shows "decommit dbg b c =
    Inr (b\<lparr>decommit_tombstones := insort_key commit_id c (decommit_tombstones b)\<rparr>)"
  using bip_ok_mem(1) [OF assms(1,2)] assms(3) by (simp add: decommit_def commit_len_def)

lemma decommit_misaligned:
  assumes ok: "bip_ok b la lb" and hd: "la @ lb \<noteq> []" "c \<in> set (la @ lb)" "c \<noteq> hd (la @ lb)"
    and a: "a_start b = 0" and id: "commit_id c = decommit_next_id b"
  shows "decommit dbg b c = Inl ExplicitPanic"
proof -
  note okd = ok [unfolded bip_ok_def]
  have lb: "lb = []" using okd a by auto
  with hd obtain x xs where la: "la = x # xs" "c \<in> set xs" by (cases la) auto
  then have "0 < commit_start c"
    using okd a chain_mem [of "commit_end x" xs "a_end b" c] by auto
  then show ?thesis
    using okd a id bip_ok_mem(1) [OF ok hd(2)]
    by (simp add: decommit_def decommit_single_def advance_region_def commit_len_def)
qed

lemma sorted_insort_id:
  assumes "sorted_wrt (<) (map f ts)" and "(f c :: nat) \<notin> f ` set ts"
  shows "sorted_wrt (<) (map f (insort_key f c ts))"
  using assms by (induction ts) (auto simp: set_insort_key not_le)

subsection \<open>The client invariant\<close>

lemma ids_update [simp]:
  "live_ok (b\<lparr>reserved := x\<rparr>) live = live_ok b live"
  "live_ok (b\<lparr>buffer := m\<rparr>) live = live_ok b live"
  "next_ok (b\<lparr>reserved := x\<rparr>) live = next_ok b live"
  "next_ok (b\<lparr>buffer := m\<rparr>) live = next_ok b live"
  "held_ok (b\<lparr>reserved := x\<rparr>) live cs = held_ok b live cs"
  "held_ok (b\<lparr>buffer := m\<rparr>) live cs = held_ok b live cs"
  "res_ok (b\<lparr>buffer := m\<rparr>) la r = res_ok b la r"
  by (simp_all add: live_ok_def next_ok_def held_ok_def res_ok_def cong: region.case_cong)

lemma sys_invI:
  "bip_ok (bip s) la lb \<Longrightarrow> live_ok (bip s) (la @ lb) \<Longrightarrow> next_ok (bip s) (la @ lb) \<Longrightarrow>
   held_ok (bip s) (la @ lb) (held s) \<Longrightarrow> reserved (bip s) \<longleftrightarrow> open_res s \<noteq> None \<Longrightarrow>
   (\<And>r. open_res s = Some r \<Longrightarrow> res_ok (bip s) la r) \<Longrightarrow> sys_inv s"
  unfolding sys_inv_def by blast

lemma sys_invE:
  assumes "sys_inv s"
  obtains la lb where "bip_ok (bip s) la lb" and "live_ok (bip s) (la @ lb)"
    and "next_ok (bip s) (la @ lb)" and "held_ok (bip s) (la @ lb) (held s)"
    and "reserved (bip s) \<longleftrightarrow> open_res s \<noteq> None"
    and "\<And>r. open_res s = Some r \<Longrightarrow> res_ok (bip s) la r"
  using assms unfolding sys_inv_def by blast

lemma sys_inv_new: "len \<le> usize_max \<Longrightarrow> sys_inv (bip_sys_new len)"
  unfolding sys_inv_def
  by (intro exI [of _ "[]"])
    (simp add: bip_sys_new_def bip_new_def bip_ok_def live_ok_def next_ok_def held_ok_def)

lemma inv_write:
  assumes "bip_ok b la lb" and "res_ok b la r" and "length bytes = res_end r - res_start r"
  shows "bip_ok (slice_mut_write b r bytes) la lb"
  using assms res_bounds [OF assms(1,2)] by (simp add: bip_ok_def slice_mut_write_def)

lemma inv_commit:
  assumes ok: "bip_ok b la lb" and live: "live_ok b (la @ lb)" and nxt: "next_ok b (la @ lb)"
    and held: "held_ok b (la @ lb) cs" and res: "res_ok b la r"
    and c: "try_commit dbg b r n = Inr (Some (sl, r'), b')" and lt: "commit_id_sequence b < usize_max"
  shows "\<exists>la' lb'. bip_ok b' la' lb' \<and> live_ok b' (la' @ lb') \<and> next_ok b' (la' @ lb') \<and>
     held_ok b' (la' @ lb') (cs @ [slice_commit sl]) \<and> res_ok b' la' r' \<and> reserved b' = reserved b"
proof -
  note st = try_commit_Some [OF c res_bounds(1,3) [OF ok res]]
  obtain la' lb' where o: "bip_ok b' la' lb'" "res_ok b' la' r'" "a_start b' = a_start b"
      "la' @ lb' = (if n = 0 then la @ lb else la @ lb @ [slice_commit sl])"
    using commit_keeps_ok [OF ok res c] by blast
  have fr: "commit_id_sequence b' = commit_id_sequence b + 1" "reserved b' = reserved b"
      "decommit_next_id b' = decommit_next_id b"
      "decommit_tombstones b' = decommit_tombstones b"
    using st(4) lt by (auto split: region.splits)
  note lv = live [unfolded live_ok_def]
  have "live_ok b' (la' @ lb')"
    using lv o fr st(1) lt by (auto simp: live_ok_def sorted_wrt_append less_Suc_eq)
  moreover have "next_ok b' (la' @ lb')"
  proof (cases "decommit_next_id b \<le> commit_id_sequence b")
    case True
    then show ?thesis using nxt o fr st(1) by (auto simp: next_ok_def hd_append split: if_splits)
  next
    case False
    then have z: "commit_id_sequence b = 0" "decommit_next_id b = 1" using lv by auto
    then have "la @ lb = []" using lv by (cases "la @ lb") auto
    then have "a_start b = 0" "la @ lb = []" using ok by (auto simp: bip_ok_def)
    then show ?thesis using o fr z st(1) by (auto simp: next_ok_def)
  qed
  moreover have "slice_commit sl \<notin> set (decommit_tombstones b)" using lv st(1) by force
  then have "held_ok b' (la' @ lb') (cs @ [slice_commit sl])"
    using held o(4) fr st(1) by (auto simp: held_ok_def less_Suc_eq split: if_splits)
  ultimately show ?thesis using o fr by blast
qed

lemma live_id_inj:
  assumes "sorted_wrt (<) (map commit_id live)" and "x \<in> set live" and "y \<in> set live"
    and "commit_id x = commit_id y"
  shows "x = y"
proof -
  have "distinct (map commit_id live)" using assms(1) by (simp add: strict_sorted_iff)
  with assms(2-4) show ?thesis by (auto simp: distinct_map inj_on_def)
qed

lemma inv_tombstone:
  assumes live: "live_ok b live" and held: "held_ok b live cs" and c: "c \<in> set live" "c \<in> set cs"
    "c \<notin> set (decommit_tombstones b)"
  defines "b' \<equiv> b\<lparr>decommit_tombstones := insort_key commit_id c (decommit_tombstones b)\<rparr>"
  shows "live_ok b' live" and "held_ok b' live (remove1 c cs)"
proof -
  note lv = live [unfolded live_ok_def]
  have "commit_id c \<notin> commit_id ` set (decommit_tombstones b)"
    using lv c live_id_inj [of live c] by auto
  then show "live_ok b' live"
    using lv c by (auto simp: live_ok_def b'_def set_insort_key sorted_insort_id)
  have "distinct cs" using held by (auto simp: held_ok_def distinct_map)
  with held show "held_ok b' live (remove1 c cs)"
    by (auto simp: held_ok_def b'_def set_insort_key distinct_map inj_on_def)
qed

lemma inv_release_head:
  assumes live: "live_ok b (c # live')" and held: "held_ok b (c # live') cs"
    and c: "c \<in> set cs" "c \<notin> set (decommit_tombstones b)"
    and dr: "drained b live' (decommit_tombstones b) (Suc (decommit_next_id b)) b'"
  shows "\<exists>la' lb'. bip_ok b' la' lb' \<and> live_ok b' (la' @ lb') \<and> next_ok b' (la' @ lb') \<and>
     held_ok b' (la' @ lb') (remove1 c cs) \<and> reserved b' = reserved b"
proof -
  let ?ts = "decommit_tombstones b"
  note lv = live [unfolded live_ok_def]
  obtain la' lb' k where d: "bip_ok b' la' lb'" "la' @ lb' = drop k live'"
    "take k live' = take k ?ts" "decommit_tombstones b' = drop k ?ts"
    "decommit_next_id b' = Suc (decommit_next_id b) + k"
    "Suc (decommit_next_id b) + k \<le> commit_id_sequence b"
    "\<forall>d \<in> set (drop k live'). Suc (decommit_next_id b) + k \<le> commit_id d" "same_frame b b'"
    using dr by (auto simp: drained_def)
  have split: "set live' = set (take k live') \<union> set (drop k live')"
    "set ?ts = set (take k ?ts) \<union> set (drop k ?ts)"
    by (metis append_take_drop_id set_append)+
  have dist: "distinct ?ts" using lv by (auto simp: strict_sorted_iff distinct_map)
  then have "set (take k ?ts) \<inter> set (drop k ?ts) = {}"
    by (metis append_take_drop_id distinct_append)
  moreover have "set ?ts \<subseteq> insert c (set live')" using lv by simp
  ultimately have sub: "set (drop k ?ts) \<subseteq> set (drop k live')"
    using split c(2) unfolding d(3) by blast
  have srt: "sorted_wrt (<) (map commit_id (drop k xs))"
    if "sorted_wrt (<) (map commit_id xs)" for xs
    using that by (metis append_take_drop_id map_append sorted_wrt_append)
  have "live_ok b' (la' @ lb')"
    unfolding live_ok_def d(2,4,5)
    using lv d(6,8) sub srt [of live'] srt [of ?ts] in_set_dropD [of _ k live']
    by (simp add: same_frame_def)
  moreover have "next_ok b' (la' @ lb')" using d by (simp add: next_ok_def)
  moreover have "distinct cs" using held by (auto simp: held_ok_def distinct_map)
  then have "held_ok b' (la' @ lb') (remove1 c cs)"
    unfolding held_ok_def d(2,4)
    using held split d(3,8) in_set_takeD [of _ k ?ts] in_set_dropD [of _ k ?ts]
    by (auto simp: held_ok_def same_frame_def distinct_map inj_on_def simp del: split)
  ultimately show ?thesis using d(1,8) unfolding same_frame_def by blast
qed

lemma inv_release:
  assumes ok: "bip_ok b la lb" and live: "live_ok b (la @ lb)" and nxt: "next_ok b (la @ lb)"
    and held: "held_ok b (la @ lb) cs" and c: "c \<in> set cs" and d: "decommit dbg b c = Inr b'"
  shows "\<exists>la' lb'. bip_ok b' la' lb' \<and> live_ok b' (la' @ lb') \<and> next_ok b' (la' @ lb') \<and>
     held_ok b' (la' @ lb') (remove1 c cs) \<and> reserved b' = reserved b"
proof (cases "commit_start c < commit_end c")
  case False
  then have "b' = b" using held c d by (auto simp: held_ok_def decommit_def commit_len_def)
  moreover have "distinct cs" using held by (auto simp: held_ok_def distinct_map)
  then have "held_ok b (la @ lb) (remove1 c cs)"
    using held by (auto simp: held_ok_def distinct_map inj_on_def)
  ultimately show ?thesis using ok live nxt by blast
next
  case True
  with held c have cl: "c \<in> set (la @ lb)" and ct: "c \<notin> set (decommit_tombstones b)"
    by (auto simp: held_ok_def)
  show ?thesis
  proof (cases "commit_id c = decommit_next_id b")
    case False
    have "b' = b\<lparr>decommit_tombstones := insort_key commit_id c (decommit_tombstones b)\<rparr>"
      using decommit_later [OF ok cl False] d by simp
    with inv_tombstone [OF live held cl c ct] ok nxt show ?thesis
      by (intro exI [of _ la] exI [of _ lb]) (auto simp: next_ok_def)
  next
    case id: True
    have all: "\<forall>d \<in> set (la @ lb). decommit_next_id b \<le> commit_id d"
    proof (rule ccontr)
      assume "\<not> ?thesis"
      with nxt have "la @ lb \<noteq> []" "commit_id (hd (la @ lb)) = 0" "decommit_next_id b = 1"
          "a_start b = 0"
        by (auto simp: next_ok_def)
      moreover from this have "c \<noteq> hd (la @ lb)" using id by auto
      ultimately show False using decommit_misaligned [OF ok _ cl] id d by simp
    qed
    obtain b2 live' where "decommit dbg b c = Inr b2" "la @ lb = c # live'"
        "drained b live' (decommit_tombstones b) (Suc (decommit_next_id b)) b2"
      by (rule decommit_head [OF ok live all cl id ct])
    with inv_release_head [of b c live' cs b'] live held c ct d show ?thesis by auto
  qed
qed

lemma bip_step_inv: "bip_step dbg s s' \<Longrightarrow> sys_inv s \<Longrightarrow> sys_inv s'"
proof (induction rule: bip_step.induct)
  case (step_reserve s request strict res b')
  obtain la lb where i: "bip_ok (bip s) la lb" "live_ok (bip s) (la @ lb)"
      "next_ok (bip s) (la @ lb)" "held_ok (bip s) (la @ lb) (held s)"
      "reserved (bip s) \<longleftrightarrow> open_res s \<noteq> None"
    using step_reserve(3) by (elim sys_invE)
  show ?case
  proof (cases res)
    case None
    then have "b' = bip s" using step_reserve(2) reserve_None by blast
    with i step_reserve(1) None show ?thesis by (intro sys_invI [of _ la lb]) simp_all
  next
    case (Some r)
    with reserve_Some(1,2) [OF i(1)] step_reserve(2)
    have "res_ok (bip s) la r" "b' = bip s\<lparr>reserved := True\<rparr>" by auto
    with i Some show ?thesis by (intro sys_invI [of _ la lb]) simp_all
  qed
next
  case (step_write s r bytes)
  from step_write(3) show ?case
  proof (rule sys_invE)
    fix la lb
    assume i: "bip_ok (bip s) la lb" "live_ok (bip s) (la @ lb)" "next_ok (bip s) (la @ lb)"
      "held_ok (bip s) (la @ lb) (held s)" "reserved (bip s) \<longleftrightarrow> open_res s \<noteq> None"
      "\<And>r. open_res s = Some r \<Longrightarrow> res_ok (bip s) la r"
    have "bip_ok (slice_mut_write (bip s) r bytes) la lb"
      by (rule inv_write [OF i(1) i(6) [OF step_write(1)] step_write(2)])
    with i show ?case by (intro sys_invI [of _ la lb]) (simp_all add: slice_mut_write_def)
  qed
next
  case (step_commit s r n sl r' b')
  from step_commit(4) show ?case
  proof (rule sys_invE)
    fix la lb
    assume i: "bip_ok (bip s) la lb" "live_ok (bip s) (la @ lb)" "next_ok (bip s) (la @ lb)"
      "held_ok (bip s) (la @ lb) (held s)" "reserved (bip s) \<longleftrightarrow> open_res s \<noteq> None"
      "\<And>r. open_res s = Some r \<Longrightarrow> res_ok (bip s) la r"
    from inv_commit [OF i(1-4) i(6) [OF step_commit(1)] step_commit(2,3)] i(5) step_commit(1)
    show ?case by (auto intro!: sys_invI)
  qed
next
  case (step_cancel s r)
  from step_cancel(2) show ?case
    by (rule sys_invE) (auto simp: slice_mut_drop_def intro!: sys_invI)
next
  case (step_release s c b')
  from step_release(4) show ?case
  proof (rule sys_invE)
    fix la lb
    assume i: "bip_ok (bip s) la lb" "live_ok (bip s) (la @ lb)" "next_ok (bip s) (la @ lb)"
      "held_ok (bip s) (la @ lb) (held s)" "reserved (bip s) \<longleftrightarrow> open_res s \<noteq> None"
    from inv_release [OF i(1-4) step_release(2) step_release(3) [unfolded view_drop_def]]
      i(5) step_release(1)
    show ?case by (auto intro!: sys_invI)
  qed
qed

lemma bip_reachable_inv: "bip_reachable dbg len s \<Longrightarrow> len \<le> usize_max \<Longrightarrow> sys_inv s"
  by (induction rule: bip_reachable.induct) (auto intro: sys_inv_new bip_step_inv)

subsection \<open>What no operation changes\<close>

lemma decommit_single_frame:
  "decommit_single dbg b c = Inr b' \<Longrightarrow> buffer b' = buffer b \<and> bb_length b' = bb_length b"
  by (auto simp: decommit_single_def advance_region_def rust_simps split: if_splits)

lemma drain_frame:
  "drain_tombstones dbg ts b = Inr b' \<Longrightarrow> buffer b' = buffer b \<and> bb_length b' = bb_length b"
proof (induction ts arbitrary: b)
  case (Cons v rest)
  then show ?case
    by (auto simp: rust_simps inc_next_id_def split: if_splits dest!: decommit_single_frame)
qed auto

lemma decommit_frame:
  "decommit dbg b c = Inr b' \<Longrightarrow> buffer b' = buffer b \<and> bb_length b' = bb_length b"
  by (auto simp: decommit_def rust_simps inc_next_id_def split: if_splits
      dest!: decommit_single_frame drain_frame)

lemma reserve_frame:
  "reserve dbg b request strict = Inr (res, b') \<Longrightarrow> buffer b' = buffer b \<and> bb_length b' = bb_length b"
  by (auto simp: reserve_def rust_simps split: if_splits)

lemma try_commit_frame:
  "try_commit dbg b r n = Inr (res, b') \<Longrightarrow> buffer b' = buffer b \<and> bb_length b' = bb_length b"
  by (cases "res_region r")
    (auto simp: try_commit_def commit_reservation_def rust_simps Let_def split: if_splits option.splits)

lemma bip_step_length: "bip_step dbg s s' \<Longrightarrow> bb_length (bip s') = bb_length (bip s)"
  by (induction rule: bip_step.induct)
    (auto dest: reserve_frame try_commit_frame decommit_frame
      simp: slice_mut_write_def slice_mut_drop_def view_drop_def)

lemma bip_reachable_length: "bip_reachable dbg len s \<Longrightarrow> bb_length (bip s) = len"
  by (induction rule: bip_reachable.induct)
    (auto simp: bip_sys_new_def bip_new_def bip_step_length)

lemma held_res_disjoint:
  assumes "sys_inv s" and "open_res s = Some r" and "c \<in> set (held s)"
    and "commit_start c < commit_end c"
  shows "commit_end c \<le> res_start r \<or> res_end r \<le> commit_start c" and "commit_end c \<le> bb_length (bip s)"
proof -
  obtain la lb where i: "bip_ok (bip s) la lb" "res_ok (bip s) la r" "c \<in> set (la @ lb)"
    using assms by (elim sys_invE) (auto simp: held_ok_def)
  show "commit_end c \<le> res_start r \<or> res_end r \<le> commit_start c"
    by (rule res_ok_exclusive(2) [OF i])
  show "commit_end c \<le> bb_length (bip s)" by (rule bip_ok_mem(2) [OF i(1,3)])
qed

lemma aligned_ids:
  assumes "ids_aligned b live"
  shows "sorted_wrt (<) (map commit_id live)"
    and "\<forall>d \<in> set live. decommit_next_id b \<le> commit_id d \<and> commit_id d < commit_id_sequence b"
    and "live \<noteq> [] \<Longrightarrow> commit_id (hd live) = decommit_next_id b"
proof -
  note al = assms [unfolded ids_aligned_def]
  show "sorted_wrt (<) (map commit_id live)" using al by (simp add: strict_sorted_iff)
  have "set (map commit_id live) = {decommit_next_id b ..< commit_id_sequence b}" using al by simp
  then show "\<forall>d \<in> set live. decommit_next_id b \<le> commit_id d \<and> commit_id d < commit_id_sequence b"
    by fastforce
  show "commit_id (hd live) = decommit_next_id b" if "live \<noteq> []"
    using al that by (metis hd_map hd_upt map_is_Nil_conv upt_eq_Nil_conv leI)
qed

lemma reclaimable_live: "reclaimable b la lb \<Longrightarrow> live_ok b (la @ lb)"
  using aligned_ids [of b "la @ lb"] by (auto simp: reclaimable_def live_ok_def ids_aligned_def)

lemma reclaim_later:
  assumes r: "reclaimable b la lb" and c: "c \<in> set (la @ lb)" "c \<notin> set (decommit_tombstones b)"
    and id: "commit_id c \<noteq> decommit_next_id b"
  defines "b1 \<equiv> b\<lparr>decommit_tombstones := insort_key commit_id c (decommit_tombstones b)\<rparr>"
  shows "decommit dbg b c = Inr b1" and "reclaimable b1 la lb"
proof -
  note rd = r [unfolded reclaimable_def]
  note al = aligned_ids [of b "la @ lb"]
  show "decommit dbg b c = Inr b1" using decommit_later [of b la lb c] rd c id by (simp add: b1_def)
  have "la @ lb \<noteq> []" using c(1) by auto
  then have "hd (la @ lb) \<noteq> c" using al(3) rd id by metis
  moreover have "commit_id c \<notin> commit_id ` set (decommit_tombstones b)"
    using c rd live_id_inj [OF al(1) c(1)] by auto
  ultimately show "reclaimable b1 la lb"
    using rd c by (auto simp: reclaimable_def b1_def ids_aligned_def set_insort_key sorted_insort_id)
qed

lemma reclaim_head:
  assumes r: "reclaimable b la lb" and c: "c \<in> set (la @ lb)" "c \<notin> set (decommit_tombstones b)"
    and id: "commit_id c = decommit_next_id b"
  obtains b1 la1 lb1 where "decommit dbg b c = Inr b1" and "reclaimable b1 la1 lb1"
    and "set (la1 @ lb1) - set (decommit_tombstones b1) =
         set (la @ lb) - set (decommit_tombstones b) - {c}"
    and "bb_length b1 = bb_length b"
proof -
  let ?ts = "decommit_tombstones b" and ?n = "decommit_next_id b"
  note rd = r [unfolded reclaimable_def]
  have al: "ids_aligned b (la @ lb)" using rd by simp
  have ge: "\<forall>d \<in> set (la @ lb). ?n \<le> commit_id d" using aligned_ids(2) [OF al] by auto
  obtain b1 live' where d: "decommit dbg b c = Inr b1" "la @ lb = c # live'" "drained b live' ?ts (Suc ?n) b1"
    using decommit_head [OF _ reclaimable_live [OF r] ge c(1) id c(2)] rd by blast
  obtain la1 lb1 k where k: "bip_ok b1 la1 lb1" "la1 @ lb1 = drop k live'"
    "take k live' = take k ?ts" "decommit_tombstones b1 = drop k ?ts"
    "decommit_next_id b1 = Suc ?n + k" "Suc ?n + k \<le> commit_id_sequence b"
    "drop k ?ts = [] \<or> Suc ?n + k < commit_id (hd (drop k ?ts))" "same_frame b b1"
    using d(3) by (auto simp: drained_def)
  have dist: "distinct ?ts" "distinct live'" "c \<notin> set live'"
    using rd aligned_ids(1) [OF al] d(2) by (auto simp: strict_sorted_iff distinct_map)
  have dis: "set (take k ?ts) \<inter> set (drop k ?ts) = {}" "set (take k live') \<inter> set (drop k live') = {}"
    using dist by (metis append_take_drop_id distinct_append)+
  have un: "set ?ts = set (take k ?ts) \<union> set (drop k ?ts)"
    "set live' = set (take k live') \<union> set (drop k live')"
    by (metis append_take_drop_id set_append)+
  have sub: "set ?ts \<subseteq> set live'" using rd c(2) d(2) by auto
  have srt: "sorted_wrt (<) (map commit_id (drop k ?ts))"
    using rd by (metis append_take_drop_id map_append sorted_wrt_append)
  have al1: "ids_aligned b1 (drop k live')"
  proof -
    have "commit_id c # map commit_id live' = [?n ..< commit_id_sequence b]"
      using al d(2) by (simp add: ids_aligned_def)
    then have "map commit_id live' = [Suc ?n ..< commit_id_sequence b]"
      by (cases "?n < commit_id_sequence b") (simp_all add: upt_conv_Cons)
    then have "map commit_id (drop k live') = [Suc ?n + k ..< commit_id_sequence b]"
      by (simp add: drop_map [symmetric])
    with k al show ?thesis by (simp add: ids_aligned_def same_frame_def)
  qed
  have ge1: "Suc ?n + k < commit_id t" if "t \<in> set (drop k ?ts)" for t
    using srt k(7) that by (cases "drop k ?ts") auto
  have sub1: "set (drop k ?ts) \<subseteq> set (drop k live')"
    using sub un dis(1) unfolding k(3) by blast
  have "hd (drop k live') \<notin> set (drop k ?ts)" if "drop k live' \<noteq> []"
    using aligned_ids(3) [OF al1 that] ge1 k(5) by (metis less_irrefl)
  then have "reclaimable b1 la1 lb1"
    unfolding reclaimable_def k(2,4) using k(1) al1 srt sub1 by blast
  moreover have "set (drop k live') - set (drop k ?ts) = set (la @ lb) - set ?ts - {c}"
    using un dis k(3) d(2) dist(3) by (simp add: set_eq_iff) blast
  moreover have "bb_length b1 = bb_length b" using k(8) by (simp add: same_frame_def)
  ultimately show thesis using that [OF d(1), of la1 lb1] by (simp only: k(2,4))
qed

lemma reclaim_loop:
  assumes "reclaimable b la lb" and "distinct cs"
    and "set cs = set (la @ lb) - set (decommit_tombstones b)"
  shows "\<exists>b'. decommit_all dbg cs b = Inr b' \<and> bip_ok b' [] [] \<and> bb_length b' = bb_length b"
  using assms
proof (induction cs arbitrary: b la lb)
  case Nil
  then have "la @ lb = []" by (cases "la @ lb") (auto simp: reclaimable_def)
  with Nil show ?case by (simp add: reclaimable_def)
next
  case (Cons c cs)
  have c: "c \<in> set (la @ lb)" "c \<notin> set (decommit_tombstones b)" using Cons.prems(3) by auto
  show ?case
  proof (cases "commit_id c = decommit_next_id b")
    case False
    note l = reclaim_later [OF Cons.prems(1) c False]
    have "set cs = set (la @ lb) - set (insort_key commit_id c (decommit_tombstones b))"
      using Cons.prems(2,3) by (auto simp: set_insort_key)
    with Cons.IH [OF l(2)] Cons.prems(2) l(1) show ?thesis by simp
  next
    case True
    obtain b1 la1 lb1 where h: "decommit dbg b c = Inr b1" "reclaimable b1 la1 lb1"
        "set (la1 @ lb1) - set (decommit_tombstones b1) =
           set (la @ lb) - set (decommit_tombstones b) - {c}" "bb_length b1 = bb_length b"
      by (rule reclaim_head [OF Cons.prems(1) c True])
    have "set cs = set (la1 @ lb1) - set (decommit_tombstones b1)"
      using Cons.prems(2,3) h(3) by auto
    with Cons.IH [OF h(2)] Cons.prems(2) h(1,4) show ?thesis by simp
  qed
qed

lemma write_keeps_held:
  assumes inv: "sys_inv s" and r: "open_res s = Some r" and len: "length bytes = res_end r - res_start r"
    and c: "c \<in> set (held s)"
  shows "commit_deref (slice_mut_write (bip s) r bytes) c = commit_deref (bip s) c"
proof (cases "commit_start c < commit_end c")
  case True
  obtain la lb where "bip_ok (bip s) la lb" "res_ok (bip s) la r"
    using inv r by (elim sys_invE) auto
  then have "res_start r + length bytes = res_end r" "res_end r \<le> length (buffer (bip s))"
    using res_bounds(1,2) len by (fastforce simp: bip_ok_def)+
  moreover have "commit_end c \<le> length (buffer (bip s))"
    using held_res_disjoint(2) [OF inv r c True] \<open>bip_ok (bip s) la lb\<close> by (simp add: bip_ok_def)
  ultimately show ?thesis
    using held_res_disjoint(1) [OF inv r c True] True len
    by (auto simp: commit_deref_def slice_mut_write_def slice_splice_before slice_splice_after)
qed (simp add: commit_deref_def slice_def)

lemma step_keeps_held:
  "bip_step dbg s s' \<Longrightarrow> sys_inv s \<Longrightarrow> c \<in> set (held s) \<Longrightarrow>
   commit_deref (bip s') c = commit_deref (bip s) c"
  by (induction rule: bip_step.induct)
    (auto dest: reserve_frame try_commit_frame decommit_frame
      simp: write_keeps_held commit_deref_def [of "slice_mut_drop b" for b] commit_deref_def
        slice_mut_drop_def view_drop_def
      dest: write_keeps_held)

lemma commit_after_write:
  assumes ok: "bip_ok b la lb" and res: "res_ok b la r" and len: "length bytes = res_end r - res_start r"
    and n: "n \<le> length bytes"
  shows "\<exists>sl r' b'. try_commit dbg (slice_mut_write b r bytes) r n = Inr (Some (sl, r'), b') \<and>
     commit_deref b' (slice_commit sl) = take n bytes \<and> slice_mut_deref b' r' = drop n bytes \<and>
     bip_len b' = bip_len b"
proof -
  let ?b = "slice_mut_write b r bytes"
  note bounds = res_bounds [OF ok res]
  have sz: "res_start r + n \<le> res_end r" "res_end r \<le> length (buffer b)" "res_end r \<le> usize_max"
    "res_start r + length bytes = res_end r"
    using bounds len n ok by (auto simp: bip_ok_def)
  have "\<exists>sl r' b'. try_commit dbg ?b r n = Inr (Some (sl, r'), b')"
    using sz bounds n len
    by (auto simp: try_commit_def commit_reservation_def res_len_def profile_sub_def profile_add_def Let_def)
  then obtain sl r' b' where t: "try_commit dbg ?b r n = Inr (Some (sl, r'), b')" by blast
  note f = try_commit_frame [OF t] and v = try_commit_Some [OF t bounds(1,3)]
  have all: "slice (res_start r) (res_end r) (buffer b') = bytes"
    using f sz len by (metis slice_mut_write_def slice_splice_same bip_buffer.select_convs(1)
        bip_buffer.update_convs(1) bip_buffer.surjective order_refl take_all)
  have "commit_deref b' (slice_commit sl) = take n bytes"
    using all sz(1) unfolding commit_deref_def v(1) by (auto simp: slice_def min_def)
  moreover have "slice_mut_deref b' r' = drop n bytes"
    using all sz(1) unfolding slice_mut_deref_def v(3)
    by (auto simp: slice_def drop_take add.commute)
  ultimately show ?thesis using t f by (auto simp: bip_len_def slice_mut_write_def)
qed

subsection \<open>Properties\<close>


definition bip_demo :: bip_sys where
  "bip_demo = \<lparr>bip = (bip_new 4)\<lparr>buffer := [7, 8, 9, 0], a_end := 2, reserved := True,
       commit_id_sequence := 1\<rparr>,
     held = [\<lparr>commit_id = 0, commit_start = 0, commit_end = 2\<rparr>],
     open_res = Some \<lparr>res_start = 2, res_end = 3, res_region = RegionA\<rparr>\<rparr>"

lemma bip_demo_reachable: "bip_reachable False 4 bip_demo"
proof -
  let ?r = "\<lparr>res_start = 0, res_end = 3, res_region = RegionA\<rparr>"
  let ?s1 = "\<lparr>bip = (bip_new 4)\<lparr>reserved := True\<rparr>, held = [], open_res = Some ?r\<rparr>"
  let ?s2 = "?s1\<lparr>bip := slice_mut_write (bip ?s1) ?r [7, 8, 9]\<rparr>"
  have "bip_step False (bip_sys_new 4) ?s1"
    using step_reserve [of "bip_sys_new 4" False 3 False "Some ?r" "(bip_new 4)\<lparr>reserved := True\<rparr>"]
    by (simp add: bip_sys_new_def bip_new_def reserve_def choose_region_def b_len_def profile_sub_def
        profile_add_def and_then_def usize_max_def)
  moreover have "bip_step False ?s1 ?s2" by (rule step_write) simp_all
  moreover have "bip_step False ?s2 bip_demo"
  proof -
    let ?c = "\<lparr>slice_commit = \<lparr>commit_id = 0, commit_start = 0, commit_end = 2\<rparr>, responsible_for_memory = True\<rparr>"
    let ?r' = "\<lparr>res_start = 2, res_end = 3, res_region = RegionA\<rparr>"
    have "replicate 4 (0 :: byte) = [0, 0, 0, 0]" by (simp add: numeral_eq_Suc)
    then have "try_commit False (bip ?s2) ?r 2 = Inr (Some (?c, ?r'), bip bip_demo)"
      by (simp add: bip_demo_def try_commit_def commit_reservation_def res_len_def profile_sub_def
          profile_add_def and_then_def usize_max_def slice_mut_write_def bip_new_def splice_def
          wrapping_add_def)
    moreover have "commit_id_sequence (bip ?s2) < usize_max"
      by (simp add: usize_max_def bip_new_def slice_mut_write_def)
    moreover have "bip_demo = ?s2\<lparr>bip := bip bip_demo, held := held ?s2 @ [slice_commit ?c], open_res := Some ?r'\<rparr>"
      by (simp add: bip_demo_def)
    ultimately show ?thesis by (metis step_commit [of ?s2] bip_sys.select_convs(3) bip_sys.update_convs(1))
  qed
  ultimately show ?thesis by (meson reach_new reach_step)
qed


text \<open>the discipline is needed. In the release profile of a buffer of 8 bytes, a client that commits
  into region B after a view dropped meanwhile emptied region A ends up with \<open>b_end\<close> above \<open>a_start\<close>:
  \<open>available\<close> wraps around and the next reservation reaches beyond the allocation. The debug profile
  panics at that subtraction.\<close>

lemma bip_do_api:
  assumes "bip_do dbg u s = Some s'"
  shows "bip_api_step dbg s s'"
proof (cases u)
  case (UseRelease i)
  then obtain b where b: "i < length (held s)" "view_drop dbg (bip s) (held s ! i) = Inr b"
      "s' = s\<lparr>bip := b, held := remove1 (held s ! i) (held s)\<rparr>"
    using assms by (auto split: if_splits sum.splits)
  have "held s ! i \<in> set (held s)" using b(1) by simp
  with b(2,3) show ?thesis
    by (cases "open_res s") (auto intro: api_disciplined [OF step_release] api_release)
qed (use assms in \<open>auto intro!: api_disciplined bip_step.intros simp: not_le split: option.splits sum.splits if_splits\<close>)

lemma bip_script_api:
  "bip_script dbg us s = Some s' \<Longrightarrow> bip_api_reachable dbg len s \<Longrightarrow> bip_api_reachable dbg len s'"
  by (induction us arbitrary: s) (auto split: option.splits dest!: bip_do_api intro: api_step)

definition bip_escape :: "bip_use list" where
  "bip_escape = [UseReserve 7 False, UseCommit 0, UseCommit 3, UseCommit 4, UseCancel, UseRelease 1,
     UseReserve 3 False, UseCommit 1, UseRelease 1, UseCommit 1, UseCancel]"

lemmas bip_eval = bip_sys_new_def bip_new_def reserve_def choose_region_def b_len_def a_len_def
  res_len_def commit_len_def profile_sub_def profile_add_def usize_max_def try_commit_def
  commit_reservation_def slice_mut_drop_def view_drop_def decommit_def decommit_single_def
  advance_region_def inc_next_id_def wrapping_add_def Let_def

lemma bip_escape_state:
  "\<exists>s. bip_script dbg bip_escape (bip_sys_new 8) = Some s \<and> a_start (bip s) = 0 \<and> a_end (bip s) = 1 \<and>
     b_start (bip s) = 0 \<and> b_end (bip s) = 2 \<and> \<not> reserved (bip s) \<and> open_res s = None \<and> bb_length (bip s) = 8"
  by (simp add: bip_escape_def bip_eval)

lemma bip_release_while_reserved_escapes:
  "\<exists>s r. bip_api_reachable False 8 s \<and> open_res s = Some r \<and> bb_length (bip s) = 8 \<and>
     res_start r = 2 \<and> res_end r = 102"
  "\<exists>s. bip_api_reachable True 8 s \<and> open_res s = None \<and> reserve True (bip s) 100 False = Inl ArithOverflow"
proof -
  obtain s where s: "bip_script False bip_escape (bip_sys_new 8) = Some s" "a_start (bip s) = 0"
      "b_start (bip s) = 0" "b_end (bip s) = 2" "\<not> reserved (bip s)" "open_res s = None" "bb_length (bip s) = 8"
    using bip_escape_state by blast
  let ?r = "\<lparr>res_start = 2, res_end = 102, res_region = RegionB\<rparr>"
  have "bip_do False (UseReserve 100 False) s = Some (s\<lparr>bip := (bip s)\<lparr>reserved := True\<rparr>, open_res := Some ?r\<rparr>)"
    using s(2-6) by (simp add: reserve_def choose_region_def b_len_def profile_sub_def profile_add_def usize_max_def)
  from api_step [OF bip_script_api [OF s(1) api_new] bip_do_api [OF this]] s(7)
  show "\<exists>s r. bip_api_reachable False 8 s \<and> open_res s = Some r \<and> bb_length (bip s) = 8 \<and>
     res_start r = 2 \<and> res_end r = 102"
    by (intro exI [of _ "s\<lparr>bip := (bip s)\<lparr>reserved := True\<rparr>, open_res := Some ?r\<rparr>"] exI [of _ ?r]) simp
next
  obtain s where s: "bip_script True bip_escape (bip_sys_new 8) = Some s" "a_start (bip s) = 0"
      "b_start (bip s) = 0" "b_end (bip s) = 2" "\<not> reserved (bip s)" "open_res s = None"
    using bip_escape_state by blast
  have "reserve True (bip s) 100 False = Inl ArithOverflow"
    using s(2-5) by (simp add: reserve_def choose_region_def b_len_def profile_sub_def)
  with bip_script_api [OF s(1) api_new] s(6)
  show "\<exists>s. bip_api_reachable True 8 s \<and> open_res s = None \<and> reserve True (bip s) 100 False = Inl ArithOverflow"
    by blast
qed



text \<open>C3: in the release profile a reservation never panics while none is outstanding. It fails
  exactly when no space is available or a strict request does not fit; otherwise it has
  \<open>min(available, request)\<close> bytes, so a strict one has exactly the bytes it asked for.\<close>

theorem bip_reserve_contract:
  assumes "bip_reachable dbg len s" and "len \<le> usize_max" and "open_res s = None"
  shows "\<exists>n. available False (bip s) = Inr n \<and> n \<le> len \<and>
    (if n = 0 \<or> strict \<and> n < request then reserve False (bip s) request strict = Inr (None, bip s)
     else \<exists>r. reserve False (bip s) request strict = Inr (Some r, (bip s)\<lparr>reserved := True\<rparr>) \<and>
            res_len False r = Inr (min n request) \<and> (strict \<longrightarrow> res_len False r = Inr request))"
proof -
  obtain la lb where ok: "bip_ok (bip s) la lb" and r: "\<not> reserved (bip s)"
    using bip_reachable_inv [OF assms(1,2)] assms(3) by (elim sys_invE) auto
  obtain n where n: "available False (bip s) = Inr n" "n \<le> bb_length (bip s)"
    by (rule that [OF available_ok [OF ok]]) (use bip_ok_bounds [OF ok] in auto)
  note prof = reserve_release_profile [OF ok r n(1)]
  have "\<exists>r. reserve False (bip s) request strict = Inr (Some r, (bip s)\<lparr>reserved := True\<rparr>) \<and>
            res_len False r = Inr (min n request)" if cond: "\<not> (n = 0 \<or> strict \<and> n < request)"
  proof -
    obtain r where s: "reserve False (bip s) request strict = Inr (Some r, (bip s)\<lparr>reserved := True\<rparr>)"
      using prof(2) [of strict request] cond by (meson linorder_not_le neq0_conv)
    from reserve_Some(3) [OF ok s n(1)] res_bounds(1) [OF ok reserve_Some(1) [OF ok s]] s
    show ?thesis by (auto simp: res_len_def profile_sub_def)
  qed
  with n prof(1) bip_reachable_length [OF assms(1)] show ?thesis
    by (intro exI [of _ n]) (auto simp: min_def)
qed

theorem bip_reserve_contract_witness:
  "\<exists>n. available False (bip (bip_sys_new 4)) = Inr n \<and> n \<le> 4 \<and>
    (if n = 0 \<or> True \<and> n < 3 then reserve False (bip (bip_sys_new 4)) 3 True = Inr (None, bip (bip_sys_new 4))
     else \<exists>r. reserve False (bip (bip_sys_new 4)) 3 True =
                Inr (Some r, (bip (bip_sys_new 4))\<lparr>reserved := True\<rparr>) \<and>
              res_len False r = Inr (min n 3) \<and> (True \<longrightarrow> res_len False r = Inr 3))"
  by (rule bip_reserve_contract [OF reach_new [of True]]) (simp_all add: usize_max_def bip_sys_new_def)

text \<open>C4: bytes written through a reservation and committed are read back from the slice: a commit
  of at most the reserved length always succeeds, the slice dereferences to the first \<open>n\<close> bytes
  written, and the rest of the reservation still holds the others.\<close>

theorem bip_write_commit_read:
  assumes "bip_reachable dbg len s" and "len \<le> usize_max" and "open_res s = Some r"
    and "length bytes = res_end r - res_start r" and "n \<le> length bytes"
  shows "\<exists>sl r' b'. try_commit dbg (slice_mut_write (bip s) r bytes) r n = Inr (Some (sl, r'), b') \<and>
     commit_deref b' (slice_commit sl) = take n bytes \<and> slice_mut_deref b' r' = drop n bytes \<and>
     bip_len b' = len"
proof -
  obtain la lb where "bip_ok (bip s) la lb" "res_ok (bip s) la r"
    using bip_reachable_inv [OF assms(1,2)] assms(3) by (elim sys_invE) auto
  from commit_after_write [OF this assms(4,5)] bip_reachable_length [OF assms(1)]
  show ?thesis by (simp add: bip_len_def)
qed

theorem bip_write_commit_read_witness:
  "\<exists>sl r' b'. try_commit False (slice_mut_write (bip bip_demo) \<lparr>res_start = 2, res_end = 3, res_region = RegionA\<rparr> [5])
       \<lparr>res_start = 2, res_end = 3, res_region = RegionA\<rparr> 1 = Inr (Some (sl, r'), b') \<and>
     commit_deref b' (slice_commit sl) = [5]"
  using bip_write_commit_read [OF bip_demo_reachable, of "\<lparr>res_start = 2, res_end = 3, res_region = RegionA\<rparr>" "[5]" 1]
  by (auto simp: bip_demo_def usize_max_def)



text \<open>a new buffer never reaches that state by committing data. Its IDs start at 0 while
  \<open>decommit\<close> waits for ID 1, so releasing the first slice reclaims nothing, and releasing the
  second one panics as an out-of-order call of \<open>decommit_single\<close>.\<close>

lemma bip_fresh_release_panics:
  assumes "0 < n1" and "0 < n2" and "n1 + n2 \<le> len" and "len \<le> usize_max"
  shows "\<exists>r b0 c1 r1 b1 c2 r2 b2 b3.
     reserve dbg (bip_new len) (n1 + n2) strict = Inr (Some r, b0) \<and>
     try_commit dbg b0 r n1 = Inr (Some (c1, r1), b1) \<and> try_commit dbg b1 r1 n2 = Inr (Some (c2, r2), b2) \<and>
     slice_drop dbg (slice_mut_drop b2) c1 = Inr b3 \<and> available dbg b3 = available dbg b2 \<and>
     slice_drop dbg b3 c2 = Inl ExplicitPanic"
proof -
  let ?r = "\<lambda>i. \<lparr>res_start = i, res_end = n1 + n2, res_region = RegionA\<rparr>"
  let ?c = "\<lambda>k i j. \<lparr>slice_commit = \<lparr>commit_id = k, commit_start = i, commit_end = j\<rparr>, responsible_for_memory = True\<rparr>"
  let ?b = "\<lambda>k e. (bip_new len)\<lparr>reserved := True, commit_id_sequence := k, a_end := e\<rparr>"
  have "reserve dbg (bip_new len) (n1 + n2) strict = Inr (Some (?r 0), ?b 0 0)"
    using assms by (simp add: reserve_def choose_region_def bip_new_def b_len_def profile_sub_def profile_add_def)
  moreover have "try_commit dbg (?b 0 0) (?r 0) n1 = Inr (Some (?c 0 0 n1, ?r n1), ?b 1 n1)"
    using assms by (simp add: try_commit_def commit_reservation_def res_len_def profile_sub_def
        profile_add_def wrapping_add_def bip_new_def)
  moreover have "try_commit dbg (?b 1 n1) (?r n1) n2 = Inr (Some (?c 1 n1 (n1 + n2), ?r (n1 + n2)), ?b 2 (n1 + n2))"
    using assms by (simp add: try_commit_def commit_reservation_def res_len_def profile_sub_def
        profile_add_def wrapping_add_def bip_new_def)
  moreover have "slice_drop dbg (slice_mut_drop (?b 2 (n1 + n2))) (?c 0 0 n1) =
      Inr ((slice_mut_drop (?b 2 (n1 + n2)))\<lparr>decommit_tombstones := [slice_commit (?c 0 0 n1)]\<rparr>)" (is "_ = Inr ?b3")
    using assms by (simp add: slice_drop_def decommit_def commit_len_def profile_sub_def slice_mut_drop_def bip_new_def)
  moreover have "available dbg ?b3 = available dbg (?b 2 (n1 + n2))"
    by (simp add: available_def b_len_def slice_mut_drop_def bip_new_def)
  moreover have "slice_drop dbg ?b3 (?c 1 n1 (n1 + n2)) = Inl ExplicitPanic"
    using assms by (simp add: slice_drop_def decommit_def decommit_single_def advance_region_def
        commit_len_def profile_sub_def slice_mut_drop_def bip_new_def)
  ultimately show ?thesis by blast
qed

lemma bip_fresh_release_panics_witness:
  "\<exists>r b0 c1 r1 b1 c2 r2 b2 b3.
     reserve False (bip_new 4) (1 + 2) True = Inr (Some r, b0) \<and>
     try_commit False b0 r 1 = Inr (Some (c1, r1), b1) \<and> try_commit False b1 r1 2 = Inr (Some (c2, r2), b2) \<and>
     slice_drop False (slice_mut_drop b2) c1 = Inr b3 \<and> available False b3 = available False b2 \<and>
     slice_drop False b3 c2 = Inl ExplicitPanic"
  by (rule bip_fresh_release_panics) (simp_all add: usize_max_def)

end
