(* ===== verification/Wheel_Timer.thy ===== *)
theory Wheel_Timer
  imports Aquic_Prelude
begin

unbundle bit_operations_syntax

section \<open>The hierarchical wheel timer\<close>

text \<open>
  Model of \<open>src/aquic-core/src/util/timer/level.rs\<close> (one ring of buckets) and
  \<open>src/aquic-core/src/util/timer/mod.rs\<close> (the hierarchy of levels). An \<open>Instant\<close> is its
  distance in nanoseconds from an origin before every instant in use, and a \<open>Duration\<close> its
  nanoseconds; the clock is taken not to reach the end of the representable time. The casts
  \<open>as usize\<close> are written out as \<open>mod 2 ^ 64\<close>. The buckets behind the \<open>Rc<RefCell>\<close> are a field
  of the level; a detached bucket is its list of elements with the index it came from. The
  flag \<open>dbg\<close> is \<open>cfg!(debug_assertions)\<close>; \<open>dflt\<close> is \<open>T::default()\<close>.

  The central invariant \<open>due_after\<close> bounds from below the clock at which the bucket that holds an
  event is processed; each operation keeps it, and so no event fires before its time.
  Its counterpart \<open>due_at\<close> is the clock at which the bucket of an event's slot is processed: ticks and
  cancellations of other slots keep it, a schedule that adds levels moves it by at most one tick of the
  event's level for every added level, and so every event fires.
\<close>

subsection \<open>One level\<close>

record 'a level =
  buckets :: "'a list list"
  lv_index :: nat
  lv_epoch :: nat

record level_key =
  bucket_index :: nat
  element_index :: nat
  key_epoch :: nat

record 'a bucket =
  bk_elements :: "'a list"
  source_index :: nat

definition level_new :: "nat \<Rightarrow> panic + 'a level" where
  "level_new buckets_count = and_then (panic_if (\<not> is_power_of_two buckets_count) AssertFailed)
     (\<lambda>_. Inr \<lparr>buckets = replicate buckets_count [], lv_index = 0, lv_epoch = 0\<rparr>)"

definition level_mask :: "'a level \<Rightarrow> nat" where
  "level_mask lv = length (buckets lv) - 1"

definition level_schedule :: "bool \<Rightarrow> 'a level \<Rightarrow> 'a \<Rightarrow> nat \<Rightarrow> panic + (level_key \<times> 'a level)" where
  "level_schedule dbg lv event duration_ticks =
     and_then (panic_if (dbg \<and> \<not> duration_ticks < length (buckets lv)) DebugAssertFailed) (\<lambda>_.
     let bi = wrapping_add (lv_index lv) duration_ticks AND level_mask lv;
         ep = wrapping_add (lv_epoch lv) (if bi < lv_index lv then 1 else 0)
     in and_then (panic_if (\<not> bi < length (buckets lv)) IndexOutOfBounds) (\<lambda>_.
       Inr (\<lparr>bucket_index = bi, element_index = length (buckets lv ! bi), key_epoch = ep\<rparr>,
            lv\<lparr>buckets := (buckets lv)[bi := buckets lv ! bi @ [event]]\<rparr>)))"

definition level_tick :: "'a level \<Rightarrow> panic + ('a bucket \<times> 'a level)" where
  "level_tick lv =
     and_then (panic_if (\<not> lv_index lv < length (buckets lv)) IndexOutOfBounds) (\<lambda>_.
     let i = lv_index lv; i' = wrapping_add i 1 AND level_mask lv
     in Inr (\<lparr>bk_elements = buckets lv ! i, source_index = i\<rparr>,
             lv\<lparr>buckets := (buckets lv)[i := []], lv_index := i',
                lv_epoch := wrapping_add (lv_epoch lv) (if i' = 0 then 1 else 0)\<rparr>))"

definition level_cancel :: "'a \<Rightarrow> 'a level \<Rightarrow> level_key \<Rightarrow> panic + 'a level" where
  "level_cancel dflt lv key =
     (if key_epoch key < lv_epoch lv then Inr lv
      else if key_epoch key = lv_epoch lv \<and> bucket_index key < lv_index lv then Inr lv
      else and_then (panic_if (\<not> bucket_index key < length (buckets lv)) IndexOutOfBounds) (\<lambda>_.
        let els = buckets lv ! bucket_index key
        in if element_index key < length els
           then Inr (lv\<lparr>buckets := (buckets lv)[bucket_index key := els[element_index key := dflt]]\<rparr>)
           else Inr lv))"

definition bucket_drop :: "bool \<Rightarrow> 'a bucket \<Rightarrow> 'a level \<Rightarrow> 'a level" where
  "bucket_drop larger_capacity bk lv =
     (if buckets lv ! source_index bk = [] \<and> larger_capacity
      then lv\<lparr>buckets := (buckets lv)[source_index bk := []]\<rparr> else lv)"

subsection \<open>The hierarchy of levels\<close>

record 'a wheel_timer =
  levels :: "'a level list"
  current_tick :: nat
  current_clock :: nat
  start_hz :: nat
  start_coverage :: nat

record timer_key =
  tk_level_key :: level_key
  tk_level_index :: nat

definition required_buckets :: "'a wheel_timer \<Rightarrow> panic + nat" where
  "required_buckets w =
     and_then (panic_if (start_hz w = 0) DivByZero) (\<lambda>_.
     if is_multiple_of (start_coverage w) (start_hz w)
     then Inr (start_coverage w div start_hz w)
     else Inr (div_ceil (start_coverage w) (start_hz w) + 1))"

fun push_levels :: "nat \<Rightarrow> nat \<Rightarrow> 'a level list \<Rightarrow> panic + 'a level list" where
  "push_levels 0 buckets_count ls = Inr ls"
| "push_levels (Suc k) buckets_count ls =
     and_then (level_new buckets_count) (\<lambda>l. push_levels k buckets_count (ls @ [l]))"

definition extend_levels :: "'a wheel_timer \<Rightarrow> nat \<Rightarrow> panic + 'a wheel_timer" where
  "extend_levels w desired_length = and_then (required_buckets w) (\<lambda>req.
     let buckets_count = max (next_power_of_two req) 2 mod 2 ^ 64
     in and_then (push_levels (desired_length - length (levels w)) buckets_count (levels w)) (\<lambda>ls.
       Inr (w\<lparr>levels := ls, current_tick := 0\<rparr>)))"

definition wheel_new :: "nat \<Rightarrow> nat \<Rightarrow> nat \<Rightarrow> panic + 'a wheel_timer" where
  "wheel_new hz coverage now = and_then (panic_if (\<not> hz \<le> coverage) AssertFailed) (\<lambda>_.
     extend_levels \<lparr>levels = [], current_tick = 0, current_clock = now, start_hz = hz,
                    start_coverage = coverage\<rparr> 1)"

definition find_index_by_duration :: "'a wheel_timer \<Rightarrow> nat \<Rightarrow> panic + nat" where
  "find_index_by_duration w nanos =
     (if nanos < start_coverage w then Inr 0
      else and_then (panic_if (start_coverage w = 0) DivByZero)
             (\<lambda>_. Inr (ilog2 (nanos div start_coverage w) + 1)))"

definition duration_to_level_ticks :: "'a wheel_timer \<Rightarrow> nat \<Rightarrow> nat \<Rightarrow> panic + nat" where
  "duration_to_level_ticks w nanos level_index =
     and_then (panic_if (start_hz w * 2 ^ level_index = 0) DivByZero)
       (\<lambda>_. Inr (div_ceil nanos (start_hz w * 2 ^ level_index) mod 2 ^ 64))"

definition ensure_level :: "'a wheel_timer \<Rightarrow> nat \<Rightarrow> panic + 'a wheel_timer" where
  "ensure_level w level_index =
     (if length (levels w) \<le> level_index then extend_levels w (level_index + 1) else Inr w)"

definition wheel_schedule ::
  "bool \<Rightarrow> 'a wheel_timer \<Rightarrow> 'a \<Rightarrow> nat \<Rightarrow> nat \<Rightarrow> panic + (timer_key \<times> 'a wheel_timer)" where
  "wheel_schedule dbg w event at now =
     and_then (find_index_by_duration w (at - now)) (\<lambda>li.
     and_then (ensure_level w li) (\<lambda>w1.
     and_then (duration_to_level_ticks w1 (at - now) li) (\<lambda>ticks.
     and_then (level_schedule dbg (levels w1 ! li) event ticks) (\<lambda>(key, lv).
       Inr (\<lparr>tk_level_key = key, tk_level_index = li\<rparr>,
            w1\<lparr>levels := (levels w1)[li := lv]\<rparr>)))))"

fun tick_levels :: "nat \<Rightarrow> 'a level list \<Rightarrow> panic + ('a bucket list \<times> 'a level list)" where
  "tick_levels 0 ls = Inr ([], ls)"
| "tick_levels (Suc k) [] = Inl IndexOutOfBounds"
| "tick_levels (Suc k) (l # ls) =
     and_then (level_tick l) (\<lambda>(b, l').
     and_then (tick_levels k ls) (\<lambda>(bs, ls'). Inr (b # bs, l' # ls')))"

definition wheel_tick :: "'a wheel_timer \<Rightarrow> panic + ('a bucket list \<times> 'a wheel_timer)" where
  "wheel_tick w =
     (let tick = wrapping_add (current_tick w) 1
      in and_then (usize_sub (length (levels w)) 1) (\<lambda>top.
         and_then (tick_levels (min (trailing_zeros tick) top + 1) (levels w)) (\<lambda>(bs, ls).
           Inr (bs, w\<lparr>current_tick := tick, levels := ls\<rparr>))))"

partial_function (option) wheel_progress ::
  "'a bucket list \<Rightarrow> 'a wheel_timer \<Rightarrow> nat \<Rightarrow> (panic + ('a bucket list \<times> nat \<times> 'a wheel_timer)) option" where
  "wheel_progress out w now =
     (if current_clock w \<le> now then
        case wheel_tick w of
          Inl p \<Rightarrow> Some (Inl p)
        | Inr r \<Rightarrow> wheel_progress (out @ fst r)
                    ((snd r)\<lparr>current_clock := current_clock w + start_hz w\<rparr>) now
      else Some (Inr (out, current_clock w, w)))"

definition wheel_cancel :: "'a \<Rightarrow> 'a wheel_timer \<Rightarrow> timer_key \<Rightarrow> panic + 'a wheel_timer" where
  "wheel_cancel dflt w key =
     (if tk_level_index key < length (levels w) then
        and_then (level_cancel dflt (levels w ! tk_level_index key) (tk_level_key key)) (\<lambda>lv.
          Inr (w\<lparr>levels := (levels w)[tk_level_index key := lv]\<rparr>))
      else Inr w)"

subsection \<open>A timer in use\<close>

text \<open>The steps of a timer: every call that changes it, labelled with what the caller gives and,
  for \<open>progress\<close>, with the events it receives.\<close>

datatype 'a timer_label =
    Scheduled 'a nat nat
  | Cancelled timer_key
  | Fired nat "'a list"

inductive timer_step :: "bool \<Rightarrow> 'a \<Rightarrow> 'a wheel_timer \<Rightarrow> 'a timer_label \<Rightarrow> 'a wheel_timer \<Rightarrow> bool"
  for dbg :: bool and dflt :: 'a where
  step_schedule: "wheel_schedule dbg w ev at now = Inr (key, w') \<Longrightarrow>
     timer_step dbg dflt w (Scheduled ev at now) w'"
| step_cancel: "wheel_cancel dflt w key = Inr w' \<Longrightarrow> timer_step dbg dflt w (Cancelled key) w'"
| step_progress: "wheel_progress [] w now = Some (Inr (out, next, w')) \<Longrightarrow>
     timer_step dbg dflt w (Fired now (concat (map bk_elements out))) w'"

inductive timer_run :: "bool \<Rightarrow> 'a \<Rightarrow> 'a wheel_timer \<Rightarrow> 'a timer_label list \<Rightarrow> 'a wheel_timer \<Rightarrow> bool"
  for dbg :: bool and dflt :: 'a where
  run_nil: "timer_run dbg dflt w [] w"
| run_cons: "timer_step dbg dflt w l w1 \<Longrightarrow> timer_run dbg dflt w1 ls w2 \<Longrightarrow> timer_run dbg dflt w (l # ls) w2"

text \<open>The steps of one level after an event got its key: other schedules, ticks (counted) and
  cancellations of other elements.\<close>

inductive level_run :: "'a \<Rightarrow> level_key \<Rightarrow> 'a level \<Rightarrow> nat \<Rightarrow> 'a level \<Rightarrow> bool"
  for dflt :: 'a and key :: level_key and lv0 :: "'a level" where
  level_start: "level_run dflt key lv0 0 lv0"
| level_other_schedule: "level_run dflt key lv0 m lv \<Longrightarrow> level_schedule dbg lv ev ticks = Inr (k, lv') \<Longrightarrow>
     level_run dflt key lv0 m lv'"
| level_one_tick: "level_run dflt key lv0 m lv \<Longrightarrow> lv_epoch lv < usize_max \<Longrightarrow> level_tick lv = Inr (b, lv') \<Longrightarrow>
     level_run dflt key lv0 (Suc m) lv'"
| level_other_cancel: "level_run dflt key lv0 m lv \<Longrightarrow> level_cancel dflt lv k = Inr lv' \<Longrightarrow>
     (bucket_index k, element_index k) \<noteq> (bucket_index key, element_index key) \<Longrightarrow>
     level_run dflt key lv0 m lv'"

subsection \<open>Well-formed timers\<close>

definition level_ok :: "nat \<Rightarrow> 'a level \<Rightarrow> bool" where
  "level_ok n lv \<longleftrightarrow> length (buckets lv) = n \<and> lv_index lv < n"

definition wheel_ok :: "nat \<Rightarrow> 'a wheel_timer \<Rightarrow> bool" where
  "wheel_ok n w \<longleftrightarrow> 0 < start_hz w \<and> start_hz w \<le> start_coverage w \<and> levels w \<noteq> [] \<and>
     is_power_of_two n \<and> n \<le> usize_max \<and> current_tick w \<le> usize_max \<and>
     (\<exists>req. required_buckets w = Inr req \<and> n = max (next_power_of_two req) 2) \<and>
     (\<forall>lv \<in> set (levels w). level_ok n lv)"

definition slack :: "nat \<Rightarrow> nat \<Rightarrow> nat" where
  "slack i cur = 2 ^ i - 1 - cur mod 2 ^ i"

definition level_dist :: "'a level \<Rightarrow> nat \<Rightarrow> nat" where
  "level_dist lv p = (p + length (buckets lv) - lv_index lv) mod length (buckets lv)"

definition due_after :: "'a wheel_timer \<Rightarrow> 'a \<Rightarrow> nat \<Rightarrow> bool" where
  "due_after w ev at \<longleftrightarrow> (\<forall>i < length (levels w). \<forall>p < length (buckets (levels w ! i)).
     ev \<in> set (buckets (levels w ! i) ! p) \<longrightarrow>
     at \<le> current_clock w + (level_dist (levels w ! i) p * 2 ^ i + slack i (current_tick w)) * start_hz w)"

definition pending :: "'a wheel_timer \<Rightarrow> 'a \<Rightarrow> bool" where
  "pending w ev \<longleftrightarrow> (\<exists>lv \<in> set (levels w). \<exists>b \<in> set (buckets lv). ev \<in> set b)"

lemma due_afterI:
  "(\<And>i p. i < length (levels w) \<Longrightarrow> p < length (buckets (levels w ! i)) \<Longrightarrow>
      ev \<in> set (buckets (levels w ! i) ! p) \<Longrightarrow>
      at \<le> current_clock w + (level_dist (levels w ! i) p * 2 ^ i + slack i (current_tick w)) * start_hz w) \<Longrightarrow>
   due_after w ev at"
  by (simp add: due_after_def)

lemma power_of_two_le_64:
  assumes "is_power_of_two n" and "n \<le> usize_max"
  shows "n dvd 2 ^ 64"
proof -
  obtain k where k: "n = 2 ^ k" using assms(1) is_power_of_two_iff by auto
  have "n < 2 ^ 64" using assms(2) by (simp add: usize_max_def)
  then have "k < 64" unfolding k by (rule power_less_imp_less_exp [rotated]) simp
  then show ?thesis unfolding k by (intro le_imp_power_dvd) simp
qed

lemma mask_mod: "is_power_of_two n \<Longrightarrow> x AND (n - 1) = x mod n" for x :: nat
  by (auto simp: is_power_of_two_iff take_bit_eq_mod [symmetric] take_bit_eq_mask mask_eq_exp_minus_1)

lemma wrapping_mask:
  assumes "is_power_of_two n" and "n \<le> usize_max"
  shows "wrapping_add a b AND (n - 1) = (a + b) mod n"
  using mask_mod [OF assms(1)] power_of_two_le_64 [OF assms]
  by (simp add: wrapping_add_def mod_mod_cancel)

lemma level_tick_ok:
  assumes "level_ok n lv" and n: "is_power_of_two n" "n \<le> usize_max"
  shows "level_tick lv = Inr (\<lparr>bk_elements = buckets lv ! lv_index lv, source_index = lv_index lv\<rparr>,
     lv\<lparr>buckets := (buckets lv)[lv_index lv := []], lv_index := (lv_index lv + 1) mod n,
        lv_epoch := wrapping_add (lv_epoch lv) (if (lv_index lv + 1) mod n = 0 then 1 else 0)\<rparr>)"
  using assms
  by (simp add: level_tick_def level_ok_def level_mask_def mask_mod [unfolded One_nat_def] Let_def)

lemma level_tick_keeps_ok:
  assumes "level_ok n lv" and "is_power_of_two n" "n \<le> usize_max" and "level_tick lv = Inr (b, lv')"
  shows "level_ok n lv'"
  using level_tick_ok [OF assms(1-3)] assms(1,4) by (auto simp: level_ok_def)

lemma level_schedule_ok:
  assumes "level_ok n lv" and n: "is_power_of_two n" "n \<le> usize_max"
    and "dbg \<longrightarrow> ticks < n"
  defines "bi \<equiv> (lv_index lv + ticks) mod n"
  shows "level_schedule dbg lv ev ticks = Inr
    (\<lparr>bucket_index = bi, element_index = length (buckets lv ! bi),
      key_epoch = wrapping_add (lv_epoch lv) (if bi < lv_index lv then 1 else 0)\<rparr>,
     lv\<lparr>buckets := (buckets lv)[bi := buckets lv ! bi @ [ev]]\<rparr>)"
proof -
  have "bi < length (buckets lv)" using assms(1) by (simp add: bi_def level_ok_def)
  moreover have "wrapping_add (lv_index lv) ticks AND level_mask lv = bi"
    unfolding level_mask_def using assms(1) wrapping_mask [OF n] by (simp add: bi_def level_ok_def)
  moreover have "panic_if (dbg \<and> \<not> ticks < length (buckets lv)) DebugAssertFailed = Inr ()"
    using assms by (simp add: level_ok_def panic_if_def)
  ultimately show ?thesis by (simp add: level_schedule_def Let_def)
qed

lemma level_cancel_keeps_ok:
  "level_cancel dflt lv key = Inr lv' \<Longrightarrow> level_ok n lv \<Longrightarrow> level_ok n lv'"
  by (auto simp: level_cancel_def level_ok_def rust_simps Let_def split: if_splits)

lemma tick_levels_nth:
  assumes "tick_levels k ls = Inr (bs, ls')"
  shows "length ls' = length ls" and "length bs = k" and "k \<le> length ls"
    and "i < k \<Longrightarrow> level_tick (ls ! i) = Inr (bs ! i, ls' ! i)"
    and "k \<le> i \<Longrightarrow> ls' ! i = ls ! i"
proof -
  have "length ls' = length ls \<and> length bs = k \<and> k \<le> length ls \<and>
    (\<forall>i. (i < k \<longrightarrow> level_tick (ls ! i) = Inr (bs ! i, ls' ! i)) \<and> (k \<le> i \<longrightarrow> ls' ! i = ls ! i))"
    using assms
  proof (induction k ls arbitrary: bs ls' rule: tick_levels.induct)
    case (3 k l ls)
    then obtain b l' bs1 ls1 where "level_tick l = Inr (b, l')" "tick_levels k ls = Inr (bs1, ls1)"
      "bs = b # bs1" "ls' = l' # ls1"
      by (auto simp: rust_simps)
    with 3(1) [OF this(2)] show ?case by (auto simp: nth_Cons split: nat.splits)
  qed (auto)
  then show "length ls' = length ls" and "length bs = k" and "k \<le> length ls"
    and "i < k \<Longrightarrow> level_tick (ls ! i) = Inr (bs ! i, ls' ! i)"
    and "k \<le> i \<Longrightarrow> ls' ! i = ls ! i" by auto
qed

lemma tick_levels_total:
  assumes "k \<le> length ls" and "\<forall>lv \<in> set ls. level_ok n lv" and "is_power_of_two n" "n \<le> usize_max"
  shows "\<exists>bs ls'. tick_levels k ls = Inr (bs, ls')"
  using assms
proof (induction k ls rule: tick_levels.induct)
  case (3 k l ls)
  then have "\<exists>b l'. level_tick l = Inr (b, l')" using level_tick_ok by fastforce
  with 3 show ?case by fastforce
qed auto

lemma tick_levels_keeps_ok:
  assumes t: "tick_levels k ls = Inr (bs, ls')" and ok: "\<forall>lv \<in> set ls. level_ok n lv"
    and n: "is_power_of_two n" "n \<le> usize_max"
  shows "\<forall>lv \<in> set ls'. level_ok n lv"
proof
  fix lv assume "lv \<in> set ls'"
  then obtain i where i: "i < length ls'" "lv = ls' ! i" by (auto simp: in_set_conv_nth)
  note tn = tick_levels_nth [OF t]
  show "level_ok n lv"
  proof (cases "i < k")
    case True
    with tn(1) i ok show ?thesis using level_tick_keeps_ok [OF _ n tn(4)] by fastforce
  next
    case False
    with tn(1,5) i ok show ?thesis by force
  qed
qed

lemma wheel_tick_total:
  assumes "wheel_ok n w"
  obtains bs ls where "wheel_tick w = Inr (bs, w\<lparr>current_tick := wrapping_add (current_tick w) 1, levels := ls\<rparr>)"
    and "tick_levels (min (trailing_zeros (wrapping_add (current_tick w) 1)) (length (levels w) - 1) + 1)
           (levels w) = Inr (bs, ls)"
    and "wheel_ok n (w\<lparr>current_tick := wrapping_add (current_tick w) 1, levels := ls\<rparr>)"
proof -
  let ?k = "min (trailing_zeros (wrapping_add (current_tick w) 1)) (length (levels w) - 1) + 1"
  note ok = assms [unfolded wheel_ok_def]
  have "1 \<le> length (levels w)" using ok by (cases "levels w") auto
  moreover then have "?k \<le> length (levels w)" by (auto simp: min_def)
  with tick_levels_total [of ?k "levels w" n] ok
  obtain bs ls where t: "tick_levels ?k (levels w) = Inr (bs, ls)" by auto
  ultimately have "wheel_tick w = Inr (bs, w\<lparr>current_tick := wrapping_add (current_tick w) 1, levels := ls\<rparr>)"
    by (simp add: wheel_tick_def Let_def)
  moreover have "wheel_ok n (w\<lparr>current_tick := wrapping_add (current_tick w) 1, levels := ls\<rparr>)"
    using tick_levels_keeps_ok [OF t, of n] tick_levels_nth(1) [OF t] ok wrapping_add_bound
    by (auto simp: wheel_ok_def required_buckets_def)
  ultimately show thesis using that t by blast
qed

subsection \<open>No event fires before its time\<close>

lemma tick_succ:
  assumes "cur \<le> usize_max"
  shows "wrapping_add cur 1 = (if cur = usize_max then 0 else cur + 1)"
  using assms by (auto simp: wrapping_add_def usize_max_def)

lemma slack_step: "cur \<le> usize_max \<Longrightarrow> slack i cur \<le> slack i (wrapping_add cur 1) + 1"
  using tick_succ [of cur] mod_Suc [of cur "2 ^ i"] by (auto simp: slack_def split: if_splits)

lemma fired_dvd:
  assumes "cur \<le> usize_max" and "i \<le> trailing_zeros (wrapping_add cur 1)"
  shows "2 ^ i dvd cur + 1" and "2 ^ i dvd wrapping_add cur 1"
proof -
  have "2 ^ i dvd cur + 1 \<and> 2 ^ i dvd wrapping_add cur 1"
  proof (cases "cur = usize_max")
    case True
    then have "i \<le> 64" using assms(2) tick_succ [of cur] trailing_zeros.simps [of 0] by simp
    then have "(2::nat) ^ i dvd 2 ^ 64" by (rule le_imp_power_dvd)
    with True show ?thesis using tick_succ [of cur] by (simp add: usize_max_def)
  next
    case False
    with assms show ?thesis using tick_succ [of cur] trailing_zeros_dvd [of "cur + 1" i] by simp
  qed
  then show "2 ^ i dvd cur + 1" and "2 ^ i dvd wrapping_add cur 1" by auto
qed

lemma slack_fired:
  assumes "cur \<le> usize_max" and "i \<le> trailing_zeros (wrapping_add cur 1)"
  shows "slack i cur = 0" and "slack i (wrapping_add cur 1) = 2 ^ i - 1"
proof -
  from fired_dvd(1) [OF assms] have "Suc (cur mod 2 ^ i) = 2 ^ i"
    using mod_Suc [of cur "2 ^ i"] by (auto simp: mod_eq_0_iff_dvd split: if_splits)
  then show "slack i cur = 0" by (simp add: slack_def)
  from fired_dvd(2) [OF assms] show "slack i (wrapping_add cur 1) = 2 ^ i - 1"
    by (simp add: slack_def mod_eq_0_iff_dvd)
qed

lemma dist_lt: "0 < length (buckets lv) \<Longrightarrow> level_dist lv p < length (buckets lv)"
  by (simp add: level_dist_def)

lemma dist_zero:
  assumes "level_ok n lv" and "p < n"
  shows "level_dist lv p = 0 \<longleftrightarrow> p = lv_index lv"
proof -
  have "level_dist lv p = (if p < lv_index lv then p + n - lv_index lv else p - lv_index lv)"
    using assms by (auto simp: level_dist_def level_ok_def mod_if)
  with assms show ?thesis by (auto simp: level_ok_def)
qed

lemma dist_tick:
  assumes ok: "level_ok n lv" and p: "p < n" "p \<noteq> lv_index lv"
    and "lv_index lv' = (lv_index lv + 1) mod n" and "length (buckets lv') = n"
  shows "level_dist lv p = level_dist lv' p + 1"
proof -
  have i: "lv_index lv < n" "length (buckets lv) = n" using ok by (auto simp: level_ok_def)
  have a: "level_dist lv p = (if p < lv_index lv then p + n - lv_index lv else p - lv_index lv)"
    using p i by (auto simp: level_dist_def mod_if)
  have b: "lv_index lv' = (if lv_index lv + 1 = n then 0 else lv_index lv + 1)"
    using assms(4) i by (auto simp: mod_if)
  have "level_dist lv' p = (if p < lv_index lv' then p + n - lv_index lv' else p - lv_index lv')"
    using p i assms(5) b by (auto simp: level_dist_def mod_if)
  with a b p i show ?thesis by auto
qed

lemma dist_schedule:
  assumes "level_ok n lv" and "ticks < n"
  shows "level_dist lv ((lv_index lv + ticks) mod n) = ticks"
  using assms by (auto simp: level_dist_def level_ok_def mod_if)

lemma due_after_level_tick:
  assumes ok: "wheel_ok n w" and due: "due_after w ev at"
    and i: "i < length (levels w)" "i \<le> trailing_zeros (wrapping_add (current_tick w) 1)"
    and t: "level_tick (levels w ! i) = Inr (b, lv')"
  shows "ev \<in> set (bk_elements b) \<Longrightarrow> at \<le> current_clock w"
    and "p < n \<Longrightarrow> ev \<in> set (buckets lv' ! p) \<Longrightarrow>
      at \<le> current_clock w + start_hz w +
        (level_dist lv' p * 2 ^ i + slack i (wrapping_add (current_tick w) 1)) * start_hz w"
proof -
  let ?lv = "levels w ! i"
  have lok: "level_ok n ?lv" and n: "is_power_of_two n" "n \<le> usize_max" and cur: "current_tick w \<le> usize_max"
    using ok i by (auto simp: wheel_ok_def)
  note tk = level_tick_ok [OF lok n] and sl = slack_fired [OF cur i(2)]
  have len: "length (buckets ?lv) = n" "lv_index ?lv < n" using lok by (auto simp: level_ok_def)
  have due': "at \<le> current_clock w + level_dist ?lv p * 2 ^ i * start_hz w"
    if "p < n" "ev \<in> set (buckets ?lv ! p)" for p
    using due i that sl(1) len by (auto simp: due_after_def)
  show "at \<le> current_clock w" if "ev \<in> set (bk_elements b)"
    using due' [of "lv_index ?lv"] that t tk len dist_zero [OF lok len(2)] by auto
  assume p: "p < n" and ev: "ev \<in> set (buckets lv' ! p)"
  have lv': "lv_index lv' = (lv_index ?lv + 1) mod n" "buckets lv' = (buckets ?lv)[lv_index ?lv := []]"
    using t tk by auto
  have "p \<noteq> lv_index ?lv" using ev lv'(2) len by auto
  then have "level_dist ?lv p = level_dist lv' p + 1"
    using dist_tick [OF lok p _ lv'(1)] lv'(2) len by simp
  moreover have "at \<le> current_clock w + level_dist ?lv p * 2 ^ i * start_hz w"
    using due' p ev lv'(2) \<open>p \<noteq> lv_index ?lv\<close> by simp
  moreover have "(level_dist lv' p + 1) * 2 ^ i * start_hz w \<le>
      start_hz w + (level_dist lv' p * 2 ^ i + (2 ^ i - 1)) * start_hz w"
    by (cases "(2::nat) ^ i") (auto simp: algebra_simps)
  ultimately show "at \<le> current_clock w + start_hz w +
        (level_dist lv' p * 2 ^ i + slack i (wrapping_add (current_tick w) 1)) * start_hz w"
    using sl(2) by simp
qed

lemma due_after_tick:
  assumes ok: "wheel_ok n w" and due: "due_after w ev at" and t: "wheel_tick w = Inr (bs, w')"
  shows "due_after (w'\<lparr>current_clock := current_clock w + start_hz w\<rparr>) ev at"
    and "b \<in> set bs \<Longrightarrow> ev \<in> set (bk_elements b) \<Longrightarrow> at \<le> current_clock w"
proof -
  let ?cur = "wrapping_add (current_tick w) 1"
  let ?k = "min (trailing_zeros ?cur) (length (levels w) - 1) + 1"
  obtain ls where w': "w' = w\<lparr>current_tick := ?cur, levels := ls\<rparr>" and
    tl: "tick_levels ?k (levels w) = Inr (bs, ls)"
    by (rule wheel_tick_total [OF ok]) (use t in auto)
  note tn = tick_levels_nth [OF tl]
  have lens: "length (buckets (levels w ! i)) = n" if "i < length (levels w)" for i
    using ok that by (auto simp: wheel_ok_def level_ok_def)
  have lens': "length (buckets (ls ! i)) = n" if "i < length (levels w)" for i
    using tick_levels_keeps_ok [OF tl, of n] ok that tn(1) by (auto simp: wheel_ok_def level_ok_def)
  have fires: "i < length (levels w) \<and> i \<le> trailing_zeros ?cur" if "i < ?k" for i
    using that tn(3) by auto
  show "at \<le> current_clock w" if b: "b \<in> set bs" "ev \<in> set (bk_elements b)"
  proof -
    obtain i where i: "i < length bs" "b = bs ! i" using b(1) unfolding in_set_conv_nth by blast
    then have "i < ?k" using tn(2) by simp
    from due_after_level_tick(1) [OF ok due _ _ tn(4) [OF this]] fires [OF this] b(2) i(2)
    show ?thesis by blast
  qed
  show "due_after (w'\<lparr>current_clock := current_clock w + start_hz w\<rparr>) ev at"
    unfolding w'
  proof (rule due_afterI, simp_all)
    fix i p
    assume i: "i < length ls" and p: "p < length (buckets (ls ! i))" and ev: "ev \<in> set (buckets (ls ! i) ! p)"
    have il: "i < length (levels w)" using i tn(1) by simp
    have "at \<le> current_clock w + start_hz w + (level_dist (ls ! i) p * 2 ^ i + slack i ?cur) * start_hz w"
    proof (cases "i < ?k")
      case True
      show ?thesis
        by (rule due_after_level_tick(2) [OF ok due il _ tn(4) [OF True] _ ev])
          (use fires [OF True] p lens' [OF il] in auto)
    next
      case False
      then have same: "ls ! i = levels w ! i" using tn(5) by simp
      have "slack i (current_tick w) \<le> slack i ?cur + 1"
        using slack_step ok by (auto simp: wheel_ok_def)
      then have "(level_dist (ls ! i) p * 2 ^ i + slack i (current_tick w)) * start_hz w \<le>
        (level_dist (ls ! i) p * 2 ^ i + slack i ?cur + 1) * start_hz w"
        by (intro mult_right_mono) simp_all
      moreover have "at \<le> current_clock w + (level_dist (ls ! i) p * 2 ^ i + slack i (current_tick w)) * start_hz w"
        using due il p ev same by (auto simp: due_after_def)
      ultimately show ?thesis by (simp add: algebra_simps)
    qed
    then show "at \<le> current_clock w + start_hz w + (level_dist (ls ! i) p * 2 ^ i +
        slack i (wrapping_add (current_tick w) (Suc 0))) * start_hz w" by simp
  qed
qed

lemma wheel_ok_clock [simp]: "wheel_ok n (w\<lparr>current_clock := c\<rparr>) \<longleftrightarrow> wheel_ok n w"
  by (simp add: wheel_ok_def required_buckets_def)

lemma progress_rule:
  assumes "wheel_ok n w" and "I out w"
    and step: "\<And>out w bs w'. wheel_ok n w \<Longrightarrow> I out w \<Longrightarrow> current_clock w \<le> now \<Longrightarrow>
      wheel_tick w = Inr (bs, w') \<Longrightarrow> I (out @ bs) (w'\<lparr>current_clock := current_clock w + start_hz w\<rparr>)"
  shows "\<exists>out' w'. wheel_progress out w now = Some (Inr (out', current_clock w', w')) \<and>
     wheel_ok n w' \<and> I out' w' \<and> now < current_clock w'"
  using assms(1,2)
proof (induction "Suc now - current_clock w" arbitrary: out w rule: less_induct)
  case less
  show ?case
  proof (cases "current_clock w \<le> now")
    case False
    with less.prems show ?thesis by (subst wheel_progress.simps) auto
  next
    case True
    obtain bs ls where t: "wheel_tick w = Inr (bs, w\<lparr>current_tick := wrapping_add (current_tick w) 1, levels := ls\<rparr>)"
      and ok: "wheel_ok n (w\<lparr>current_tick := wrapping_add (current_tick w) 1, levels := ls\<rparr>)"
      using wheel_tick_total [OF less.prems(1)] by metis
    let ?w' = "w\<lparr>current_tick := wrapping_add (current_tick w) 1, levels := ls,
       current_clock := current_clock w + start_hz w\<rparr>"
    have "0 < start_hz w" using less.prems(1) by (simp add: wheel_ok_def)
    then have "Suc now - current_clock ?w' < Suc now - current_clock w" using True by simp
    moreover have "I (out @ bs) ?w'" using step [OF less.prems True t] by simp
    ultimately show ?thesis
      using less.hyps [of ?w' "out @ bs"] ok True t by (subst wheel_progress.simps) simp
  qed
qed

lemma push_levels_ok:
  assumes "is_power_of_two n"
  shows "push_levels k n ls = Inr (ls @ replicate k \<lparr>buckets = replicate n [], lv_index = 0, lv_epoch = 0\<rparr>)"
  using assms by (induction k arbitrary: ls) (simp_all add: level_new_def replicate_app_Cons_same)

lemma extend_levels_ok:
  assumes "0 < start_hz w" and "required_buckets w = Inr req"
    and n: "n = max (next_power_of_two req) 2" "is_power_of_two n" "n \<le> usize_max"
  shows "extend_levels w len = Inr (w\<lparr>current_tick := 0, levels := levels w @
     replicate (len - length (levels w)) \<lparr>buckets = replicate n [], lv_index = 0, lv_epoch = 0\<rparr>\<rparr>)"
proof -
  have "max (next_power_of_two req) 2 mod 2 ^ 64 = n" using n by (simp add: usize_max_def)
  then show ?thesis using assms(2) by (simp add: extend_levels_def Let_def push_levels_ok [OF n(2)])
qed

lemma ensure_level_ok:
  assumes ok: "wheel_ok n w"
  obtains w1 where "ensure_level w li = Inr w1" and "wheel_ok n w1" and "li < length (levels w1)"
    and "\<And>ev at. due_after w ev at \<Longrightarrow> due_after w1 ev at"
    and "current_clock w1 = current_clock w" "start_hz w1 = start_hz w" "start_coverage w1 = start_coverage w"
    and "\<And>ev. pending w1 ev \<Longrightarrow> pending w ev"
proof (cases "length (levels w) \<le> li")
  case False
  with that [of w] ok show thesis by (simp add: ensure_level_def)
next
  case True
  let ?e = "\<lparr>buckets = replicate n [], lv_index = 0, lv_epoch = 0\<rparr>"
  let ?ls = "levels w @ replicate (li + 1 - length (levels w)) ?e"
  let ?w1 = "w\<lparr>current_tick := 0, levels := ?ls\<rparr>"
  obtain req where req: "required_buckets w = Inr req" "n = max (next_power_of_two req) 2"
    and n: "is_power_of_two n" "n \<le> usize_max" and hz: "0 < start_hz w"
    using ok by (auto simp: wheel_ok_def)
  have e: "ensure_level w li = Inr ?w1"
    using extend_levels_ok [OF hz req(1,2) n, of "li + 1"] True by (simp add: ensure_level_def)
  have "0 < n" using n(1) by (simp add: is_power_of_two_def)
  then have "wheel_ok n ?w1"
    using ok by (auto simp: wheel_ok_def level_ok_def required_buckets_def)
  moreover have "due_after ?w1 ev at" if due: "due_after w ev at" for ev at
  proof (rule due_afterI)
    fix i p assume "i < length (levels ?w1)" "p < length (buckets (levels ?w1 ! i))"
      "ev \<in> set (buckets (levels ?w1 ! i) ! p)"
    then have i: "i < length ?ls" and p: "p < length (buckets (?ls ! i))"
      and ev: "ev \<in> set (buckets (?ls ! i) ! p)" by simp_all
    have il: "i < length (levels w)" using i p ev by (auto simp: nth_append split: if_splits)
    then have "at \<le> current_clock w + (level_dist (levels w ! i) p * 2 ^ i + slack i (current_tick w)) * start_hz w"
      using due p ev by (simp add: due_after_def nth_append)
    also have "\<dots> \<le> current_clock w + (level_dist (levels w ! i) p * 2 ^ i + slack i 0) * start_hz w"
      by (intro add_left_mono mult_right_mono) (simp_all add: slack_def)
    finally show "at \<le> current_clock ?w1 +
        (level_dist (levels ?w1 ! i) p * 2 ^ i + slack i (current_tick ?w1)) * start_hz ?w1"
      using il by (simp add: nth_append)
  qed
  moreover have "pending w ev" if "pending ?w1 ev" for ev
    using that by (auto simp: pending_def)
  ultimately show thesis using that [of ?w1] e True by simp
qed

lemma level_of_duration:
  assumes "find_index_by_duration w d = Inr li" and "0 < start_coverage w"
  shows "d < start_coverage w * 2 ^ li"
proof (cases "d < start_coverage w")
  case True
  with assms show ?thesis by (simp add: find_index_by_duration_def)
next
  case False
  let ?q = "d div start_coverage w"
  have "0 < ?q" using False assms(2) by (simp add: div_greater_zero_iff)
  then have "?q < 2 ^ li" using ilog2_bounds [of ?q] False assms by (auto simp: find_index_by_duration_def)
  then show ?thesis using assms(2) by (metis div_less_iff_less_mult mult.commute)
qed

lemma ticks_bound:
  assumes ok: "wheel_ok n w" and li: "find_index_by_duration w d = Inr li"
  obtains ticks where "duration_to_level_ticks w d li = Inr ticks" and "ticks \<le> n"
    and "d \<le> ticks * 2 ^ li * start_hz w"
    and "start_coverage w mod start_hz w \<noteq> 0 \<or> start_coverage w = start_hz w \<or>
         \<not> is_power_of_two (start_coverage w div start_hz w) \<Longrightarrow> ticks < n"
proof -
  let ?hz = "start_hz w" and ?cov = "start_coverage w"
  let ?q = "div_ceil ?cov ?hz" and ?t = "div_ceil d (?hz * 2 ^ li)"
  have hz: "0 < ?hz" "?hz \<le> ?cov" using ok by (auto simp: wheel_ok_def)
  obtain req where req: "required_buckets w = Inr req" "n = max (next_power_of_two req) 2"
    using ok by (auto simp: wheel_ok_def)
  have rn: "req \<le> n" "2 \<le> n" using req(2) next_power_of_two_ge [of req] by auto
  have "d \<le> ?cov * 2 ^ li" using level_of_duration [OF li] hz by (simp add: less_imp_le)
  also have "\<dots> \<le> ?q * ?hz * 2 ^ li" using div_ceil_mult_ge [OF hz(1), of ?cov] by simp
  finally have tq: "?t \<le> ?q" using div_ceil_le_iff [of "?hz * 2 ^ li" d ?q] hz by (simp add: mult.assoc)
  have rq: "req = (if ?cov mod ?hz = 0 then ?q else ?q + 1)"
    using req(1) hz by (auto simp: required_buckets_def is_multiple_of_def div_ceil_def)
  have tn: "?t \<le> n" using tq rq rn by (auto split: if_splits)
  have "n \<le> usize_max" using ok by (simp add: wheel_ok_def)
  then have "?t mod 2 ^ 64 = ?t" using tn by (simp add: usize_max_def)
  then have "duration_to_level_ticks w d li = Inr ?t" using hz by (simp add: duration_to_level_ticks_def)
  moreover have "d \<le> ?t * 2 ^ li * ?hz"
    using div_ceil_mult_ge [of "?hz * 2 ^ li" d] hz by (simp add: ac_simps)
  moreover have "?t < n" if c: "?cov mod ?hz \<noteq> 0 \<or> ?cov = ?hz \<or> \<not> is_power_of_two (?cov div ?hz)"
  proof (cases "?cov mod ?hz = 0")
    case True
    have "req \<noteq> n"
    proof
      assume "req = n"
      moreover have "req = ?cov div ?hz" using rq True by (simp add: div_ceil_def)
      moreover have "is_power_of_two n" using ok by (simp add: wheel_ok_def)
      ultimately show False using c True hz rn by auto
    qed
    then show ?thesis using tq rq True rn by auto
  qed (use tq rq rn in auto)
  ultimately show thesis using that tn by blast
qed

lemma wheel_new_ok:
  fixes w :: "'a wheel_timer"
  assumes "wheel_new hz coverage now = Inr w"
  shows "\<exists>n. wheel_ok n w" and "\<not> pending w ev" and "current_clock w = now"
    and "start_hz w = hz" and "start_coverage w = coverage"
proof -
  let ?w0 = "\<lparr>levels = [] :: 'a level list, current_tick = 0, current_clock = now, start_hz = hz, start_coverage = coverage\<rparr>"
  have le: "hz \<le> coverage" and ext: "extend_levels ?w0 1 = Inr w"
    using assms by (auto simp: wheel_new_def rust_simps)
  then obtain req l where req: "required_buckets ?w0 = Inr req" and
    pl: "level_new (max (next_power_of_two req) 2 mod 2 ^ 64) = Inr l" and w: "w = ?w0\<lparr>levels := [l]\<rparr>"
    by (auto simp: extend_levels_def rust_simps Let_def)
  let ?n = "max (next_power_of_two req) 2"
  have p2: "is_power_of_two (?n mod 2 ^ 64)" and
    ls: "l = \<lparr>buckets = replicate (?n mod 2 ^ 64) [], lv_index = 0, lv_epoch = 0\<rparr>"
    using pl by (auto simp: level_new_def rust_simps)
  have "hz \<noteq> 0" using req by (auto simp: required_buckets_def rust_simps)
  obtain k where k: "?n = 2 ^ k"
    using next_power_of_two_power [of req] by (metis max_def power_one_right)
  have "k < 64"
  proof (rule ccontr)
    assume "\<not> k < 64"
    then have "?n mod 2 ^ 64 = 0" unfolding k mod_eq_0_iff_dvd by (intro le_imp_power_dvd) simp
    with p2 show False by (simp add: is_power_of_two_def)
  qed
  then have "?n < 2 ^ 64" unfolding k using power_strict_increasing [of k 64 "2 :: nat"] by simp
  then have n: "?n mod 2 ^ 64 = ?n" "?n \<le> usize_max" by (simp_all add: usize_max_def)
  have "wheel_ok ?n w"
    using le \<open>hz \<noteq> 0\<close> n p2 req ls w by (auto simp: wheel_ok_def level_ok_def required_buckets_def)
  then show "\<exists>n. wheel_ok n w" by blast
  show "\<not> pending w ev" using w ls by (auto simp: pending_def)
  show "current_clock w = now" "start_hz w = hz" "start_coverage w = coverage" using w by auto
qed

lemma wheel_schedule_ok:
  assumes ok: "wheel_ok n w" and s: "wheel_schedule dbg w ev at now = Inr (key, w')"
  obtains w1 li ticks where "find_index_by_duration w (at - now) = Inr li" and "ensure_level w li = Inr w1"
    and "wheel_ok n w1" and "li < length (levels w1)" and "duration_to_level_ticks w (at - now) li = Inr ticks"
    and "w' = w1\<lparr>levels := (levels w1)[li := (levels w1 ! li)\<lparr>buckets := (buckets (levels w1 ! li))
           [(lv_index (levels w1 ! li) + ticks) mod n :=
              buckets (levels w1 ! li) ! ((lv_index (levels w1 ! li) + ticks) mod n) @ [ev]]\<rparr>]\<rparr>"
    and "dbg \<longrightarrow> ticks < n"
proof -
  obtain li w1 ticks lk lv where f: "find_index_by_duration w (at - now) = Inr li" and e: "ensure_level w li = Inr w1"
    and d: "duration_to_level_ticks w1 (at - now) li = Inr ticks"
    and l: "level_schedule dbg (levels w1 ! li) ev ticks = Inr (lk, lv)"
    and w': "w' = w1\<lparr>levels := (levels w1)[li := lv]\<rparr>"
    using s by (auto simp: wheel_schedule_def rust_simps)
  obtain w1': "wheel_ok n w1" "li < length (levels w1)" "start_hz w1 = start_hz w"
    by (rule ensure_level_ok [OF ok, of li]) (use e in auto)
  have lok: "level_ok n (levels w1 ! li)" and n: "is_power_of_two n" "n \<le> usize_max"
    using w1' by (auto simp: wheel_ok_def)
  have dn: "dbg \<longrightarrow> ticks < n" using l lok by (auto simp: level_schedule_def rust_simps level_ok_def)
  have "lv = (levels w1 ! li)\<lparr>buckets := (buckets (levels w1 ! li))
           [(lv_index (levels w1 ! li) + ticks) mod n :=
              buckets (levels w1 ! li) ! ((lv_index (levels w1 ! li) + ticks) mod n) @ [ev]]\<rparr>"
    using level_schedule_ok [OF lok n dn, of ev] l by simp
  moreover have "duration_to_level_ticks w (at - now) li = Inr ticks"
    using d w1'(3) by (simp add: duration_to_level_ticks_def)
  ultimately show thesis using that [OF f e w1'(1,2)] w' dn by blast
qed

lemma wheel_ok_levels:
  assumes "wheel_ok n w" and "\<forall>lv \<in> set ls. level_ok n lv" and "ls \<noteq> []"
  shows "wheel_ok n (w\<lparr>levels := ls\<rparr>)"
  using assms by (auto simp: wheel_ok_def required_buckets_def)

lemma wheel_schedule_keeps:
  assumes ok: "wheel_ok n w" and s: "wheel_schedule dbg w ev at now = Inr (key, w')"
  shows "wheel_ok n w'" and "ev' \<noteq> ev \<Longrightarrow> due_after w ev' at' \<Longrightarrow> due_after w' ev' at'"
    and "start_hz w' = start_hz w" and "start_coverage w' = start_coverage w"
    and "now \<le> current_clock w \<Longrightarrow> \<not> pending w ev \<Longrightarrow>
      dbg \<or> start_coverage w mod start_hz w \<noteq> 0 \<or> start_coverage w = start_hz w \<or>
         \<not> is_power_of_two (start_coverage w div start_hz w) \<Longrightarrow> due_after w' ev at"
proof -
  obtain w1 li ticks where f: "find_index_by_duration w (at - now) = Inr li" "ensure_level w li = Inr w1"
    and ok1: "wheel_ok n w1" and li: "li < length (levels w1)"
    and d: "duration_to_level_ticks w (at - now) li = Inr ticks"
    and w': "w' = w1\<lparr>levels := (levels w1)[li := (levels w1 ! li)\<lparr>buckets := (buckets (levels w1 ! li))
           [(lv_index (levels w1 ! li) + ticks) mod n :=
              buckets (levels w1 ! li) ! ((lv_index (levels w1 ! li) + ticks) mod n) @ [ev]]\<rparr>]\<rparr>"
    and dn: "dbg \<longrightarrow> ticks < n"
    by (rule wheel_schedule_ok [OF ok s])
  let ?lv = "levels w1 ! li" and ?b = "(lv_index (levels w1 ! li) + ticks) mod n"
  obtain due1: "\<And>ev at. due_after w ev at \<Longrightarrow> due_after w1 ev at" and pend1: "\<And>ev. pending w1 ev \<Longrightarrow> pending w ev"
    and same: "current_clock w1 = current_clock w" "start_hz w1 = start_hz w" "start_coverage w1 = start_coverage w"
    by (rule ensure_level_ok [OF ok, of li]) (use f(2) in auto)
  have lok: "level_ok n ?lv" using ok1 li by (auto simp: wheel_ok_def)
  then have bn: "?b < length (buckets ?lv)" by (simp add: level_ok_def)
  show "wheel_ok n w'"
    unfolding w' using ok1 lok li
    by (intro wheel_ok_levels) (auto simp: wheel_ok_def level_ok_def dest!: in_set_update)
  show "start_hz w' = start_hz w" "start_coverage w' = start_coverage w" using w' same by auto
  have dist: "level_dist (levels w' ! i) p = level_dist (levels w1 ! i) p" if "i < length (levels w1)" for i p
    using that li w' by (cases "i = li") (auto simp: level_dist_def)
  have elem: "e \<in> set (buckets (levels w' ! i) ! p) \<longleftrightarrow>
      e \<in> set (buckets (levels w1 ! i) ! p) \<or> i = li \<and> p = ?b \<and> e = ev"
    if "i < length (levels w1)" "p < length (buckets (levels w1 ! i))" for e i p
    using that li bn w' by (cases "i = li") (auto simp: nth_list_update)
  have lens: "length (buckets (levels w' ! i)) = length (buckets (levels w1 ! i))" if "i < length (levels w1)" for i
    using that li w' by (cases "i = li") auto
  have eqs: "length (levels w') = length (levels w1)" "current_clock w' = current_clock w1"
    "current_tick w' = current_tick w1" "start_hz w' = start_hz w1" using w' by auto
  show "due_after w' ev' at'" if "ev' \<noteq> ev" "due_after w ev' at'"
    using due1 [OF that(2)] that(1) elem lens dist eqs by (auto simp: due_after_def)
  assume now: "now \<le> current_clock w" and np: "\<not> pending w ev"
    and c: "dbg \<or> start_coverage w mod start_hz w \<noteq> 0 \<or> start_coverage w = start_hz w \<or>
         \<not> is_power_of_two (start_coverage w div start_hz w)"
  obtain tb: "at - now \<le> ticks * 2 ^ li * start_hz w" "ticks < n"
    by (rule ticks_bound [OF ok f(1)]) (use d dn c in auto)
  have np1: "ev \<notin> set (buckets (levels w1 ! i) ! p)"
    if "i < length (levels w1)" "p < length (buckets (levels w1 ! i))" for i p
    using np pend1 [of ev] that unfolding pending_def by (metis nth_mem)
  show "due_after w' ev at"
  proof (rule due_afterI)
    fix i p assume "i < length (levels w')" "p < length (buckets (levels w' ! i))" "ev \<in> set (buckets (levels w' ! i) ! p)"
    with np1 elem lens eqs have ip: "i = li" "p = ?b" by auto
    have "at \<le> current_clock w + ticks * 2 ^ li * start_hz w" using now tb(1) by linarith
    then show "at \<le> current_clock w' + (level_dist (levels w' ! i) p * 2 ^ i + slack i (current_tick w')) * start_hz w'"
      using ip dist [OF li] dist_schedule [OF lok tb(2)] eqs same by (simp add: algebra_simps)
  qed
qed

lemma wheel_cancel_keeps:
  assumes ok: "wheel_ok n w" and c: "wheel_cancel dflt w key = Inr w'"
  shows "wheel_ok n w'" and "ev \<noteq> dflt \<Longrightarrow> due_after w ev at \<Longrightarrow> due_after w' ev at"
    and "start_hz w' = start_hz w" and "start_coverage w' = start_coverage w"
proof -
  have "wheel_ok n w' \<and> (ev \<noteq> dflt \<longrightarrow> due_after w ev at \<longrightarrow> due_after w' ev at) \<and>
    start_hz w' = start_hz w \<and> start_coverage w' = start_coverage w"
  proof (cases "tk_level_index key < length (levels w)")
    case False
    with c ok show ?thesis by (simp add: wheel_cancel_def)
  next
    case True
    let ?i = "tk_level_index key"
    obtain lv where lv: "level_cancel dflt (levels w ! ?i) (tk_level_key key) = Inr lv"
      and w': "w' = w\<lparr>levels := (levels w)[?i := lv]\<rparr>"
      using c True by (auto simp: wheel_cancel_def rust_simps)
    have lok: "level_ok n (levels w ! ?i)" using ok True by (auto simp: wheel_ok_def)
    have "wheel_ok n w'"
      unfolding w' using ok level_cancel_keeps_ok [OF lv lok] True
      by (intro wheel_ok_levels) (auto simp: wheel_ok_def dest!: in_set_update)
    moreover have lvp: "lv_index lv = lv_index (levels w ! ?i)" "length (buckets lv) = length (buckets (levels w ! ?i))"
      "\<And>e p. e \<noteq> dflt \<Longrightarrow> e \<in> set (buckets lv ! p) \<Longrightarrow> p < length (buckets lv) \<Longrightarrow> e \<in> set (buckets (levels w ! ?i) ! p)"
      using lv by (auto simp: level_cancel_def rust_simps Let_def nth_list_update dest!: in_set_update split: if_splits)
    have "due_after w' ev at" if e: "ev \<noteq> dflt" "due_after w ev at"
    proof (rule due_afterI)
      fix i p assume ip: "i < length (levels w')" "p < length (buckets (levels w' ! i))" "ev \<in> set (buckets (levels w' ! i) ! p)"
      then show "at \<le> current_clock w' + (level_dist (levels w' ! i) p * 2 ^ i + slack i (current_tick w')) * start_hz w'"
        using e lvp True w' by (cases "i = ?i") (auto simp: due_after_def level_dist_def)
    qed
    ultimately show ?thesis using w' by auto
  qed
  then show "wheel_ok n w'" and "ev \<noteq> dflt \<Longrightarrow> due_after w ev at \<Longrightarrow> due_after w' ev at"
    and "start_hz w' = start_hz w" and "start_coverage w' = start_coverage w" by auto
qed

definition fired_in :: "'a bucket list \<Rightarrow> 'a \<Rightarrow> bool" where
  "fired_in out ev \<longleftrightarrow> (\<exists>b \<in> set out. ev \<in> set (bk_elements b))"

lemma fired_in_append [simp]:
  "fired_in [] ev \<longleftrightarrow> False" "fired_in (xs @ ys) ev \<longleftrightarrow> fired_in xs ev \<or> fired_in ys ev"
  by (auto simp: fired_in_def)

lemma wheel_tick_fields:
  assumes "wheel_tick w = Inr (bs, w')"
  shows "start_hz w' = start_hz w" and "start_coverage w' = start_coverage w"
    and "current_clock w' = current_clock w"
  using assms by (auto simp: wheel_tick_def rust_simps Let_def)

lemma progress_due:
  assumes "wheel_ok n w" and "due_after w ev at"
  shows "\<exists>out w'. wheel_progress [] w now = Some (Inr (out, current_clock w', w')) \<and> wheel_ok n w' \<and>
     now < current_clock w' \<and> due_after w' ev at \<and> start_hz w' = start_hz w \<and>
     start_coverage w' = start_coverage w \<and> (fired_in out ev \<longrightarrow> at \<le> now)"
proof -
  define I where "I out w' \<longleftrightarrow> due_after w' ev at \<and> start_hz w' = start_hz w \<and>
     start_coverage w' = start_coverage w \<and> (fired_in out ev \<longrightarrow> at \<le> now)" for out w'
  have "I [] w" using assms(2) by (simp add: I_def fired_in_def)
  moreover have "I (out @ bs) (w'\<lparr>current_clock := current_clock v + start_hz v\<rparr>)"
    if ok: "wheel_ok n v" and i: "I out v" and c: "current_clock v \<le> now" and t: "wheel_tick v = Inr (bs, w')"
    for out v bs w'
  proof -
    have due: "due_after v ev at" using i by (simp add: I_def)
    have "at \<le> now" if "b \<in> set bs" "ev \<in> set (bk_elements b)" for b
      using due_after_tick(2) [OF ok due t that] c by simp
    with due_after_tick(1) [OF ok due t] i wheel_tick_fields [OF t] show ?thesis by (auto simp: I_def fired_in_def)
  qed
  ultimately have "\<exists>out w'. wheel_progress [] w now = Some (Inr (out, current_clock w', w')) \<and>
      wheel_ok n w' \<and> I out w' \<and> now < current_clock w'"
    by (intro progress_rule [OF assms(1)]) blast+
  then show ?thesis unfolding I_def by blast
qed

lemma timer_step_keeps:
  assumes ok: "wheel_ok n w" and s: "timer_step dbg dflt w l w'"
  shows "wheel_ok n w'" and "start_hz w' = start_hz w" and "start_coverage w' = start_coverage w"
    and "due_after w ev at \<Longrightarrow> ev \<noteq> dflt \<Longrightarrow> \<forall>at' now'. l \<noteq> Scheduled ev at' now' \<Longrightarrow> due_after w' ev at"
    and "due_after w ev at \<Longrightarrow> l = Fired t evs \<Longrightarrow> ev \<in> set evs \<Longrightarrow> at \<le> t"
proof -
  have vac: "due_after w ev 0" for ev by (simp add: due_after_def)
  have "wheel_ok n w' \<and> start_hz w' = start_hz w \<and> start_coverage w' = start_coverage w" (is ?A)
    using s
  proof cases
    case step_schedule
    then show ?thesis using wheel_schedule_keeps(1,3,4) [OF ok] by auto
  next
    case step_cancel
    then show ?thesis using wheel_cancel_keeps(1,3,4) [OF ok] by auto
  next
    case (step_progress now)
    then show ?thesis using progress_due [OF ok vac, of now] by auto
  qed
  then show "wheel_ok n w'" and "start_hz w' = start_hz w" and "start_coverage w' = start_coverage w" by auto
  show "due_after w' ev at" if due: "due_after w ev at" and ev: "ev \<noteq> dflt" "\<forall>at' now'. l \<noteq> Scheduled ev at' now'"
    using s
  proof cases
    case (step_schedule ev' at' now' key)
    then have "ev \<noteq> ev'" using ev(2) by auto
    with step_schedule due show ?thesis using wheel_schedule_keeps(2) [OF ok] by blast
  next
    case step_cancel
    with due ev show ?thesis using wheel_cancel_keeps(2) [OF ok] by blast
  next
    case (step_progress now)
    then show ?thesis using progress_due [OF ok due, of now] by auto
  qed
  show "at \<le> t" if due: "due_after w ev at" and l: "l = Fired t evs" "ev \<in> set evs"
    using s l progress_due [OF ok due, of t] by cases (auto simp: fired_in_def)
qed

lemma timer_run_ok:
  "timer_run dbg dflt w ls w' \<Longrightarrow> wheel_ok n w \<Longrightarrow>
     wheel_ok n w' \<and> start_hz w' = start_hz w \<and> start_coverage w' = start_coverage w"
proof (induction rule: timer_run.induct)
  case (run_cons w l w1 ls w2)
  then show ?case using timer_step_keeps(1-3) [OF run_cons.prems run_cons.hyps(1)] by simp
qed simp

lemma timer_run_not_early:
  "timer_run dbg dflt w ls w' \<Longrightarrow> wheel_ok n w \<Longrightarrow> due_after w ev at \<Longrightarrow> ev \<noteq> dflt \<Longrightarrow>
   (\<forall>at' now'. Scheduled ev at' now' \<notin> set ls) \<Longrightarrow> Fired t evs \<in> set ls \<Longrightarrow> ev \<in> set evs \<Longrightarrow> at \<le> t"
proof (induction rule: timer_run.induct)
  case (run_cons w l w1 ls w2)
  note k = timer_step_keeps [OF run_cons.prems(1) run_cons.hyps(1)]
  show ?case
  proof (cases "l = Fired t evs")
    case True
    then show ?thesis using k(5) run_cons.prems by blast
  next
    case False
    have "due_after w1 ev at" using k(4) run_cons.prems by (metis list.set_intros(1))
    with k(1) False run_cons show ?thesis by auto
  qed
qed simp

subsection \<open>Every event fires\<close>

definition key_at :: "level_key \<Rightarrow> 'a \<Rightarrow> 'a level \<Rightarrow> bool" where
  "key_at key ev lv \<longleftrightarrow> element_index key < length (buckets lv ! bucket_index key) \<and>
     buckets lv ! bucket_index key ! element_index key = ev"

text \<open>The event sits in the slot of its key, and that slot's bucket is processed when the clock is \<open>T\<close>.\<close>

definition due_at :: "'a wheel_timer \<Rightarrow> 'a \<Rightarrow> timer_key \<Rightarrow> nat \<Rightarrow> bool" where
  "due_at w ev key T \<longleftrightarrow> (let i = tk_level_index key; p = bucket_index (tk_level_key key) in
     i < length (levels w) \<and> p < length (buckets (levels w ! i)) \<and> key_at (tk_level_key key) ev (levels w ! i) \<and>
     T = current_clock w + (level_dist (levels w ! i) p * 2 ^ i + slack i (current_tick w)) * start_hz w)"

definition key_slot :: "timer_key \<Rightarrow> nat \<times> nat \<times> nat" where
  "key_slot key = (tk_level_index key, bucket_index (tk_level_key key), element_index (tk_level_key key))"

lemma slack_unfired:
  assumes "cur \<le> usize_max" and "i \<le> 64" and "\<not> i \<le> trailing_zeros (wrapping_add cur 1)"
  shows "slack i cur = slack i (wrapping_add cur 1) + 1"
proof -
  have "cur \<noteq> usize_max" using assms tick_succ [of cur] trailing_zeros.simps [of 0] by auto
  then have c: "wrapping_add cur 1 = cur + 1" using tick_succ assms(1) by simp
  then have "\<not> 2 ^ i dvd cur + 1" using assms(3) trailing_zeros_dvd [of "cur + 1" i] by simp
  then have "Suc (cur mod 2 ^ i) \<noteq> 2 ^ i" using mod_Suc [of cur "2 ^ i"] by (auto simp: mod_eq_0_iff_dvd)
  moreover have "cur mod 2 ^ i < 2 ^ i" by simp
  ultimately have "Suc (cur mod 2 ^ i) < 2 ^ i" by linarith
  then show ?thesis using c mod_Suc [of cur "2 ^ i"] by (auto simp: slack_def)
qed

lemma due_at_tick:
  assumes ok: "wheel_ok n w" and i64: "tk_level_index key \<le> 64" and due: "due_at w ev key T" and t: "wheel_tick w = Inr (bs, w')"
  shows "fired_in bs ev \<or> due_at (w'\<lparr>current_clock := current_clock w + start_hz w\<rparr>) ev key T" and "length (levels w') = length (levels w)"
proof -
  let ?cur = "wrapping_add (current_tick w) 1"
  let ?k = "min (trailing_zeros ?cur) (length (levels w) - 1) + 1"
  obtain ls where w': "w' = w\<lparr>current_tick := ?cur, levels := ls\<rparr>" and
    tl: "tick_levels ?k (levels w) = Inr (bs, ls)"
    by (rule wheel_tick_total [OF ok]) (use t in auto)
  note tn = tick_levels_nth [OF tl]
  show "length (levels w') = length (levels w)" using w' tn(1) by simp
  define i p where "i = tk_level_index key" and "p = bucket_index (tk_level_key key)"
  have il: "i < length (levels w)" and p: "p < length (buckets (levels w ! i))"
    and ev: "key_at (tk_level_key key) ev (levels w ! i)"
    and T: "T = current_clock w + (level_dist (levels w ! i) p * 2 ^ i + slack i (current_tick w)) * start_hz w"
    using due by (auto simp: due_at_def i_def p_def Let_def)
  have lok: "level_ok n (levels w ! i)" and n: "is_power_of_two n" "n \<le> usize_max"
    and cur: "current_tick w \<le> usize_max" using ok il by (auto simp: wheel_ok_def)
  have len: "length (buckets (levels w ! i)) = n" using lok by (simp add: level_ok_def)
  show "fired_in bs ev \<or> due_at (w'\<lparr>current_clock := current_clock w + start_hz w\<rparr>) ev key T"
  proof (cases "i \<le> trailing_zeros ?cur")
    case False
    then have same: "ls ! i = levels w ! i" using tn(5) [of i] by simp
    have "T = current_clock w + start_hz w + (level_dist (ls ! i) p * 2 ^ i + slack i ?cur) * start_hz w"
      using T slack_unfired [OF cur i64 [folded i_def] False] same by (simp add: algebra_simps)
    then show ?thesis using il p ev same w' tn(1) by (auto simp: due_at_def i_def p_def Let_def)
  next
    case True
    then have ik: "i < ?k" using il by auto
    note tk = trans [OF tn(4) [OF ik, symmetric] level_tick_ok [OF lok n]] and sl = slack_fired [OF cur True]
    show ?thesis
    proof (cases "p = lv_index (levels w ! i)")
      case True
      moreover have "bk_elements (bs ! i) = buckets (levels w ! i) ! lv_index (levels w ! i)"
        using tk by simp
      ultimately have "ev \<in> set (bk_elements (bs ! i))" using ev by (auto simp: key_at_def p_def)
      moreover have "bs ! i \<in> set bs" using ik tn(2) by (intro nth_mem) simp
      ultimately show ?thesis by (auto simp: fired_in_def)
    next
      case False
      have ls: "lv_index (ls ! i) = (lv_index (levels w ! i) + 1) mod n"
        "buckets (ls ! i) = (buckets (levels w ! i))[lv_index (levels w ! i) := []]"
        using tk by simp_all
      have d: "level_dist (levels w ! i) p = level_dist (ls ! i) p + 1"
        using dist_tick [OF lok _ False ls(1)] ls(2) len p by simp
      have "T = current_clock w + start_hz w + (level_dist (ls ! i) p * 2 ^ i + slack i ?cur) * start_hz w"
        using T d sl by (cases "(2 :: nat) ^ i") (auto simp: algebra_simps)
      then show ?thesis using il p ev False ls w' tn(1) by (auto simp: due_at_def key_at_def i_def p_def Let_def)
    qed
  qed
qed

lemma progress_due_at:
  assumes "wheel_ok n w" and "tk_level_index key \<le> 64" and "due_at w ev key T"
  shows "\<exists>out w'. wheel_progress [] w now = Some (Inr (out, current_clock w', w')) \<and> now < current_clock w' \<and>
     length (levels w') = length (levels w) \<and> (fired_in out ev \<or> due_at w' ev key T)"
proof -
  define I where "I out w' \<longleftrightarrow> length (levels w') = length (levels w) \<and> (fired_in out ev \<or> due_at w' ev key T)" for out w'
  have "I [] w" using assms(3) by (simp add: I_def)
  moreover have "I (out @ bs) (w'\<lparr>current_clock := current_clock v + start_hz v\<rparr>)"
    if v: "wheel_ok n v" "I out v" "wheel_tick v = Inr (bs, w')" for out v bs w'
  proof -
    have "length (levels w') = length (levels v)"
      by (rule wheel_tick_total [OF v(1)]) (use v(3) tick_levels_nth(1) in auto)
    then show ?thesis using due_at_tick [OF v(1) assms(2) _ v(3)] v(2) by (auto simp: I_def)
  qed
  ultimately show ?thesis using progress_rule [OF assms(1), of I "[]" now] unfolding I_def by blast
qed

lemma due_at_clock: "due_at w ev key T \<Longrightarrow> current_clock w \<le> T"
  by (auto simp: due_at_def Let_def)

lemma progress_fires:
  assumes "wheel_ok n w" and "tk_level_index key \<le> 64" and "due_at w ev key T" and "T \<le> now"
  shows "\<exists>out w'. wheel_progress [] w now = Some (Inr (out, current_clock w', w')) \<and> fired_in out ev"
  using progress_due_at [OF assms(1-3), of now] due_at_clock assms(4) by (meson not_le order_trans)

lemma find_index_64:
  assumes "find_index_by_duration w d = Inr li" and "d < start_coverage w * 2 ^ 64"
  shows "li \<le> 64"
proof (cases "d < start_coverage w")
  case True
  with assms(1) show ?thesis by (simp add: find_index_by_duration_def)
next
  case False
  let ?q = "d div start_coverage w"
  have "start_coverage w \<noteq> 0" using assms(2) by auto
  with False have "0 < ?q" by (simp add: div_greater_zero_iff)
  then have "2 ^ ilog2 ?q \<le> ?q" using ilog2_bounds by blast
  also have "?q < 2 ^ 64" using assms(2) by (simp add: less_mult_imp_div_less mult.commute)
  finally have "ilog2 ?q < 64" by (rule power_less_imp_less_exp [rotated]) simp
  with False assms(1) \<open>start_coverage w \<noteq> 0\<close> show ?thesis by (auto simp: find_index_by_duration_def)
qed

lemma schedule_due_at:
  assumes ok: "wheel_ok n w" and s: "wheel_schedule dbg w ev at now = Inr (key, w')"
  shows "\<exists>T. due_at w' ev key T \<and>
     T \<le> current_clock w + (at - now) + 2 * start_hz w * 2 ^ tk_level_index key"
proof -
  obtain w1 li ticks where f: "find_index_by_duration w (at - now) = Inr li" "ensure_level w li = Inr w1"
    and ok1: "wheel_ok n w1" and li: "li < length (levels w1)"
    and d: "duration_to_level_ticks w (at - now) li = Inr ticks"
    and w': "w' = w1\<lparr>levels := (levels w1)[li := (levels w1 ! li)\<lparr>buckets := (buckets (levels w1 ! li))
           [(lv_index (levels w1 ! li) + ticks) mod n :=
              buckets (levels w1 ! li) ! ((lv_index (levels w1 ! li) + ticks) mod n) @ [ev]]\<rparr>]\<rparr>"
    by (rule wheel_schedule_ok [OF ok s])
  obtain same: "current_clock w1 = current_clock w" "start_hz w1 = start_hz w"
    by (rule ensure_level_ok [OF ok, of li]) (use f(2) in auto)
  have key: "tk_level_index key = li" using s f(1) by (auto simp: wheel_schedule_def rust_simps)
  obtain lk lv where lk: "level_schedule dbg (levels w1 ! li) ev ticks = Inr (lk, lv)" "tk_level_key key = lk"
    using s f d same(2) by (auto simp: wheel_schedule_def rust_simps duration_to_level_ticks_def)
  let ?lv = "levels w1 ! li" and ?p = "(lv_index (levels w1 ! li) + ticks) mod n"
  have lok: "level_ok n ?lv" using ok1 li by (auto simp: wheel_ok_def)
  then have pn: "?p < length (buckets ?lv)" by (simp add: level_ok_def)
  have hz: "0 < start_hz w" using ok by (simp add: wheel_ok_def)
  have dist: "level_dist ?lv ?p = ticks mod n"
    using dist_schedule [OF lok, of "ticks mod n"] lok by (simp add: mod_add_right_eq level_ok_def)
  have "dbg \<longrightarrow> ticks < n" using lk(1) lok by (auto simp: level_schedule_def rust_simps level_ok_def)
  then have slot: "bucket_index lk = ?p" "element_index lk = length (buckets ?lv ! ?p)"
    using level_schedule_ok [OF lok, of dbg ticks ev] lk(1) ok by (auto simp: wheel_ok_def)
  have "due_at w' ev key (current_clock w + (ticks mod n * 2 ^ li + slack li (current_tick w1)) * start_hz w)"
    using li pn w' dist same slot lk(2) key by (auto simp: due_at_def key_at_def level_dist_def Let_def)
  moreover have "(ticks mod n * 2 ^ li + slack li (current_tick w1)) * start_hz w \<le>
      (at - now) + 2 * start_hz w * 2 ^ li"
  proof -
    let ?m = "start_hz w * 2 ^ li"
    have "ticks mod n \<le> div_ceil (at - now) ?m"
      using d hz by (auto simp: duration_to_level_ticks_def intro: order_trans [OF mod_less_eq_dividend])
    also have "\<dots> \<le> (at - now) div ?m + 1" by (simp add: div_ceil_def)
    finally have "ticks mod n * ?m \<le> ((at - now) div ?m + 1) * ?m" by (rule mult_le_mono1)
    also have "\<dots> \<le> (at - now) + ?m" by simp
    finally have "ticks mod n * ?m \<le> (at - now) + ?m" .
    moreover have "slack li (current_tick w1) * start_hz w \<le> 2 ^ li * start_hz w"
      by (intro mult_le_mono1) (simp add: slack_def)
    moreover have "(ticks mod n * 2 ^ li + slack li (current_tick w1)) * start_hz w =
        ticks mod n * ?m + slack li (current_tick w1) * start_hz w"
      "2 * start_hz w * 2 ^ li = ?m + 2 ^ li * start_hz w" by (simp_all add: algebra_simps)
    ultimately show ?thesis by linarith
  qed
  ultimately show ?thesis using key by (auto intro!: exI)
qed

text \<open>Other uses of the timer keep the event in its slot. Only a schedule that adds levels moves its
  instant, because it resets the tick count, and by less than one tick of its level.\<close>

lemma ensure_level_levels:
  assumes ok: "wheel_ok n w" and e: "ensure_level w li = Inr w1"
  obtains extra where "levels w1 = levels w @ extra" and "extra = [] \<longrightarrow> current_tick w1 = current_tick w"
    and "current_clock w1 = current_clock w" and "start_hz w1 = start_hz w"
proof (cases "length (levels w) \<le> li")
  case True
  obtain req where "required_buckets w = Inr req" "n = max (next_power_of_two req) 2" "is_power_of_two n" "n \<le> usize_max"
      "0 < start_hz w"
    using ok by (auto simp: wheel_ok_def)
  from extend_levels_ok [OF this(5,1-4), of "li + 1"] True e
  have "w1 = w\<lparr>current_tick := 0, levels := levels w @ replicate (li + 1 - length (levels w))
      \<lparr>buckets = replicate n [], lv_index = 0, lv_epoch = 0\<rparr>\<rparr>"
    by (simp add: ensure_level_def)
  with True that show thesis by simp
qed (use e that [of "[]"] in \<open>simp add: ensure_level_def\<close>)

definition delayed :: "'a wheel_timer \<Rightarrow> 'a \<Rightarrow> timer_key \<Rightarrow> nat \<Rightarrow> 'a wheel_timer \<Rightarrow> bool" where
  "delayed w ev key T w' \<longleftrightarrow> length (levels w) \<le> length (levels w') \<and> start_hz w' = start_hz w \<and> (\<exists>T'. due_at w' ev key T' \<and>
     T' \<le> T + (length (levels w') - length (levels w)) * (start_hz w * 2 ^ tk_level_index key))"

lemma due_at_ensure:
  assumes ok: "wheel_ok n w" and e: "ensure_level w li = Inr w1" and due: "due_at w ev key T"
  shows "delayed w ev key T w1"
proof -
  obtain extra where x: "levels w1 = levels w @ extra" "extra = [] \<longrightarrow> current_tick w1 = current_tick w"
      "current_clock w1 = current_clock w" "start_hz w1 = start_hz w"
    using ensure_level_levels [OF ok e] .
  let ?i = "tk_level_index key"
  have il: "?i < length (levels w)" using due by (simp add: due_at_def Let_def)
  define T' where "T' = current_clock w + (level_dist (levels w ! ?i) (bucket_index (tk_level_key key)) * 2 ^ ?i
      + slack ?i (current_tick w1)) * start_hz w"
  have "due_at w1 ev key T'"
    using due x(1,3,4) il by (auto simp: due_at_def T'_def nth_append Let_def)
  moreover have "T' \<le> T + length extra * (start_hz w * 2 ^ ?i)"
  proof (cases "extra = []")
    case True
    then show ?thesis using due x(2) by (simp add: due_at_def T'_def Let_def)
  next
    case False
    have "slack ?i (current_tick w1) \<le> slack ?i (current_tick w) + 2 ^ ?i" by (simp add: slack_def)
    then have "slack ?i (current_tick w1) * start_hz w \<le> (slack ?i (current_tick w) + 2 ^ ?i) * start_hz w"
      by (rule mult_le_mono1)
    then have "T' \<le> T + start_hz w * 2 ^ ?i" using due by (simp add: due_at_def T'_def Let_def algebra_simps)
    also have "\<dots> \<le> T + length extra * (start_hz w * 2 ^ ?i)" using False by (cases extra) simp_all
    finally show ?thesis .
  qed
  ultimately show ?thesis using x by (auto simp: delayed_def)
qed

lemma due_at_schedule:
  assumes ok: "wheel_ok n w" and s: "wheel_schedule dbg w e at now = Inr (k, w')" and due: "due_at w ev key T"
  shows "delayed w ev key T w'"
proof -
  obtain w1 li ticks where f: "ensure_level w li = Inr w1" and ok1: "wheel_ok n w1" and li: "li < length (levels w1)"
    and w': "w' = w1\<lparr>levels := (levels w1)[li := (levels w1 ! li)\<lparr>buckets := (buckets (levels w1 ! li))
           [(lv_index (levels w1 ! li) + ticks) mod n :=
              buckets (levels w1 ! li) ! ((lv_index (levels w1 ! li) + ticks) mod n) @ [e]]\<rparr>]\<rparr>"
    by (rule wheel_schedule_ok [OF ok s])
  have "level_ok n (levels w1 ! li)" using ok1 li by (auto simp: wheel_ok_def)
  then have "(lv_index (levels w1 ! li) + ticks) mod n < length (buckets (levels w1 ! li))" by (simp add: level_ok_def)
  then have "due_at w' ev key T'" if "due_at w1 ev key T'" for T'
    using that li unfolding w'
    by (cases "li = tk_level_index key")
      (auto simp: due_at_def key_at_def level_dist_def nth_list_update nth_append Let_def)
  with due_at_ensure [OF ok f due] show ?thesis by (auto simp: delayed_def w')
qed

lemma due_at_cancel:
  assumes c: "wheel_cancel dflt w k = Inr w'" and other: "key_slot k \<noteq> key_slot key" and due: "due_at w ev key T"
  shows "delayed w ev key T w'"
proof -
  have "due_at w' ev key T"
  proof (cases "tk_level_index k = tk_level_index key")
    case True
    then obtain lv where lv: "level_cancel dflt (levels w ! tk_level_index key) (tk_level_key k) = Inr lv"
      and w': "w' = w\<lparr>levels := (levels w)[tk_level_index key := lv]\<rparr>"
      using c due by (auto simp: wheel_cancel_def due_at_def Let_def rust_simps)
    have "lv_index lv = lv_index (levels w ! tk_level_index key)"
      "length (buckets lv) = length (buckets (levels w ! tk_level_index key))"
      "key_at (tk_level_key key) ev (levels w ! tk_level_index key) \<longrightarrow> key_at (tk_level_key key) ev lv"
      using lv other True
      by (auto simp: level_cancel_def rust_simps Let_def key_at_def key_slot_def nth_list_update split: if_splits)
    with due w' show ?thesis by (auto simp: due_at_def level_dist_def Let_def)
  next
    case False
    then show ?thesis using c due by (auto simp: wheel_cancel_def due_at_def Let_def rust_simps split: if_splits)
  qed
  moreover have "length (levels w') = length (levels w)" "start_hz w' = start_hz w"
    using c by (auto simp: wheel_cancel_def rust_simps split: if_splits)
  ultimately show ?thesis by (auto simp: delayed_def)
qed

lemma due_at_run:
  "timer_run dbg dflt w ls w' \<Longrightarrow> wheel_ok n w \<Longrightarrow> tk_level_index key \<le> 64 \<Longrightarrow> due_at w ev key T \<Longrightarrow>
   \<forall>k. Cancelled k \<in> set ls \<longrightarrow> key_slot k \<noteq> key_slot key \<Longrightarrow>
   (\<exists>t evs. Fired t evs \<in> set ls \<and> ev \<in> set evs) \<or> delayed w ev key T w'"
proof (induction arbitrary: T rule: timer_run.induct)
  case (run_nil w)
  then show ?case by (auto simp: delayed_def)
next
  case (run_cons w l w1 ls w2)
  note ok1 = timer_step_keeps(1,2) [OF run_cons.prems(1) run_cons.hyps(1)]
  have "(\<exists>t evs. l = Fired t evs \<and> ev \<in> set evs) \<or> delayed w ev key T w1"
    using run_cons.hyps(1)
  proof cases
    case step_schedule
    then show ?thesis using due_at_schedule [OF run_cons.prems(1) _ run_cons.prems(3)] by blast
  next
    case step_cancel
    then show ?thesis using due_at_cancel [OF _ _ run_cons.prems(3)] run_cons.prems(4) by auto
  next
    case (step_progress now out "next")
    then show ?thesis
      using progress_due_at [OF run_cons.prems(1-3), of now] ok1(2) by (auto simp: delayed_def fired_in_def)
  qed
  then show ?case
  proof
    assume "delayed w ev key T w1"
    then obtain T1 where T1: "due_at w1 ev key T1" "length (levels w) \<le> length (levels w1)"
        "T1 \<le> T + (length (levels w1) - length (levels w)) * (start_hz w * 2 ^ tk_level_index key)"
      by (auto simp: delayed_def)
    from run_cons.IH [OF ok1(1) run_cons.prems(2) T1(1)] run_cons.prems(4)
    have "(\<exists>t evs. Fired t evs \<in> set ls \<and> ev \<in> set evs) \<or> delayed w1 ev key T1 w2" by simp
    then show ?thesis
    proof
      assume "delayed w1 ev key T1 w2"
      then obtain T2 where T2: "due_at w2 ev key T2" "length (levels w1) \<le> length (levels w2)" "start_hz w2 = start_hz w1"
          "T2 \<le> T1 + (length (levels w2) - length (levels w1)) * (start_hz w1 * 2 ^ tk_level_index key)"
        by (auto simp: delayed_def)
      let ?u = "start_hz w * 2 ^ tk_level_index key"
      have "T2 \<le> T + (length (levels w1) - length (levels w)) * ?u + (length (levels w2) - length (levels w1)) * ?u"
        using T1(3) T2(4) ok1(2) by simp
      also have "\<dots> = T + (length (levels w2) - length (levels w)) * ?u"
        using T1(2) T2(2) by (simp add: add_mult_distrib [symmetric])
      finally show ?thesis using T1(2) T2(1-3) ok1(2) by (auto simp: delayed_def)
    qed auto
  qed auto
qed

subsection \<open>Keys\<close>

definition level_pos :: "'a level \<Rightarrow> nat" where
  "level_pos lv = lv_epoch lv * length (buckets lv) + lv_index lv"

lemma level_tick_pos:
  assumes "level_ok n lv" and n: "is_power_of_two n" "n \<le> usize_max" and "lv_epoch lv < usize_max"
    and "level_tick lv = Inr (b, lv')"
  shows "level_pos lv' = level_pos lv + 1"
proof -
  have "lv' = lv\<lparr>buckets := (buckets lv)[lv_index lv := []], lv_index := (lv_index lv + 1) mod n,
        lv_epoch := wrapping_add (lv_epoch lv) (if (lv_index lv + 1) mod n = 0 then 1 else 0)\<rparr>"
    using level_tick_ok [OF assms(1-3)] assms(5) by simp
  moreover have "(lv_index lv + 1) mod n = (if lv_index lv + 1 = n then 0 else lv_index lv + 1)"
    using assms(1) by (auto simp: level_ok_def mod_if)
  ultimately show ?thesis using assms(1,4) by (auto simp: level_pos_def level_ok_def)
qed

lemma pos_less_iff:
  assumes "i < n" and "j < (n :: nat)"
  shows "e * n + i < f * n + j \<longleftrightarrow> e < f \<or> e = f \<and> i < j"
proof -
  have "e * n + i < f * n" if "e < f"
  proof -
    have "e * n + n \<le> f * n" using that mult_le_mono1 [of "e + 1" f n] by simp
    with assms(1) show ?thesis by simp
  qed
  moreover have "f * n + j < e * n" if "f < e"
  proof -
    have "f * n + n \<le> e * n" using that mult_le_mono1 [of "f + 1" e n] by simp
    with assms(2) show ?thesis by simp
  qed
  ultimately show ?thesis by (cases e f rule: linorder_cases) fastforce+
qed

lemma level_cancel_cases:
  assumes "level_ok n lv" and "bucket_index key < n"
  shows "level_cancel dflt lv key =
    (if key_epoch key * n + bucket_index key < level_pos lv then Inr lv
     else if element_index key < length (buckets lv ! bucket_index key)
     then Inr (lv\<lparr>buckets := (buckets lv)[bucket_index key :=
            (buckets lv ! bucket_index key)[element_index key := dflt]]\<rparr>)
     else Inr lv)"
  using assms pos_less_iff [of "bucket_index key" n "lv_index lv" "key_epoch key" "lv_epoch lv"]
  by (auto simp: level_cancel_def level_ok_def level_pos_def Let_def)

lemma scheduled_key:
  assumes ok: "level_ok n lv" and n: "is_power_of_two n" "n \<le> usize_max" and t: "ticks < n"
    and e: "lv_epoch lv < usize_max" and s: "level_schedule dbg lv ev ticks = Inr (key, lv1)"
  shows "level_ok n lv1" and "key_at key ev lv1" and "bucket_index key = (lv_index lv + ticks) mod n"
    and "key_epoch key * n + bucket_index key = level_pos lv1 + ticks"
    and "level_pos lv1 = level_pos lv" and "lv_index lv1 = lv_index lv"
proof -
  let ?bi = "(lv_index lv + ticks) mod n"
  have eqs: "key = \<lparr>bucket_index = ?bi, element_index = length (buckets lv ! ?bi),
      key_epoch = wrapping_add (lv_epoch lv) (if ?bi < lv_index lv then 1 else 0)\<rparr>"
    "lv1 = lv\<lparr>buckets := (buckets lv)[?bi := buckets lv ! ?bi @ [ev]]\<rparr>"
    using level_schedule_ok [OF ok n, of dbg ticks ev] s t by simp_all
  have x: "lv_index lv < n" "length (buckets lv) = n" "?bi < n" using ok by (auto simp: level_ok_def)
  have bi: "?bi = (if lv_index lv + ticks < n then lv_index lv + ticks else lv_index lv + ticks - n)"
    using x t by (auto simp: mod_if)
  show "level_ok n lv1" "key_at key ev lv1" "bucket_index key = ?bi" "level_pos lv1 = level_pos lv"
    "lv_index lv1 = lv_index lv"
    using eqs x by (auto simp: level_ok_def key_at_def level_pos_def)
  show "key_epoch key * n + bucket_index key = level_pos lv1 + ticks"
    using eqs bi x t e by (auto simp: level_pos_def)
qed

lemma level_run_inv:
  assumes run: "level_run dflt key lv1 m lv2" and ok: "level_ok n lv1" and n: "is_power_of_two n" "n \<le> usize_max"
    and t: "ticks < n" and key: "key_at key ev lv1" "bucket_index key = (lv_index lv1 + ticks) mod n"
  shows "level_ok n lv2 \<and> level_pos lv2 = level_pos lv1 + m \<and> (m \<le> ticks \<longrightarrow> key_at key ev lv2)"
  using run
proof induction
  case level_start
  with ok key show ?case by simp
next
  case (level_other_schedule m lv dbg ev' ticks' k lv')
  let ?bi = "(lv_index lv + ticks') mod n"
  have okl: "level_ok n lv" using level_other_schedule by simp
  have "dbg \<longrightarrow> ticks' < n" using level_other_schedule(2) okl by (auto simp: level_schedule_def rust_simps level_ok_def)
  then have "lv' = lv\<lparr>buckets := (buckets lv)[?bi := buckets lv ! ?bi @ [ev']]\<rparr>"
    using level_schedule_ok [OF okl n, of dbg ticks' ev'] level_other_schedule(2) by simp
  moreover have "?bi < length (buckets lv)" using okl by (simp add: level_ok_def)
  ultimately show ?case using level_other_schedule(3)
    by (auto simp: level_ok_def level_pos_def key_at_def nth_list_update nth_append)
next
  case (level_one_tick m lv b lv')
  have okl: "level_ok n lv" and pos: "level_pos lv = level_pos lv1 + m" using level_one_tick by auto
  note pos' = level_tick_pos [OF okl n level_one_tick(2,3)] and ok' = level_tick_keeps_ok [OF okl n level_one_tick(3)]
  have "key_at key ev lv'" if m: "Suc m \<le> ticks"
  proof -
    have "lv_index lv = level_pos lv mod n" "lv_index lv1 = level_pos lv1 mod n"
      using okl ok by (auto simp: level_pos_def level_ok_def)
    then have "lv_index lv = (lv_index lv1 + m) mod n" using pos by (simp add: mod_add_left_eq)
    moreover have "(lv_index lv1 + m) mod n \<noteq> (lv_index lv1 + ticks) mod n"
    proof
      assume "(lv_index lv1 + m) mod n = (lv_index lv1 + ticks) mod n"
      then have "n dvd (lv_index lv1 + ticks) - (lv_index lv1 + m)" using m by (subst mod_eq_dvd_iff_nat [symmetric]) auto
      with m t show False using dvd_imp_le [of n "ticks - m"] by auto
    qed
    ultimately have "lv_index lv \<noteq> bucket_index key" using key(2) by simp
    moreover have "buckets lv' = (buckets lv)[lv_index lv := []]"
      using level_tick_ok [OF okl n] level_one_tick(3) by simp
    moreover have "key_at key ev lv" using level_one_tick m by simp
    ultimately show ?thesis by (simp add: key_at_def)
  qed
  with pos pos' ok' show ?case by simp
next
  case (level_other_cancel m lv k lv')
  have "level_pos lv' = level_pos lv" "key_at key ev lv \<longrightarrow> key_at key ev lv'"
    using level_other_cancel(2,3)
    by (auto simp: level_cancel_def rust_simps Let_def level_pos_def key_at_def nth_list_update split: if_splits)
  with level_other_cancel(4) level_cancel_keeps_ok [OF level_other_cancel(2)] show ?case by simp
qed

lemma pow2_facts:
  assumes "0 < k" and "k < 64"
  shows "is_power_of_two (2 ^ k)" and "next_power_of_two (2 ^ k) = 2 ^ k" and "max (2 ^ k) 2 = (2 ^ k :: nat)"
    and "2 ^ k \<le> usize_max" and "(2 ^ k :: nat) mod 18446744073709551616 = 2 ^ k"
proof -
  show "is_power_of_two (2 ^ k)" by (auto simp: is_power_of_two_iff)
  then show "next_power_of_two (2 ^ k) = 2 ^ k" by (simp add: is_power_of_two_def)
  show "max (2 ^ k) 2 = (2 ^ k :: nat)" using assms(1) by (cases k) auto
  have "(2 :: nat) ^ k < 2 ^ 64" using assms(2) power_strict_increasing [of k 64 "2 :: nat"] by simp
  then show "2 ^ k \<le> usize_max" "(2 ^ k :: nat) mod 18446744073709551616 = 2 ^ k"
    by (simp_all add: usize_max_def)
qed

subsection \<open>Properties\<close>

text \<open>C6: no event fires before its time. Whatever the timer was used for before and whatever is
  scheduled, cancelled or progressed afterwards, a \<open>progress\<close> that returns the event runs at an
  instant not before \<open>at\<close>, provided that the clock was not lagging behind \<open>now\<close> when the event was
  scheduled and that the coverage is not a power of two times the tick (or the debug
  assertions are on).\<close>

theorem wheel_never_early:
  assumes "wheel_new hz coverage t0 = Inr w0" and "timer_run dbg dflt w0 ls0 w"
    and "\<not> pending w ev" and "ev \<noteq> dflt" and "now \<le> current_clock w"
    and "dbg \<or> coverage mod hz \<noteq> 0 \<or> coverage = hz \<or> \<not> is_power_of_two (coverage div hz)"
    and "wheel_schedule dbg w ev at now = Inr (key, w1)" and "timer_run dbg dflt w1 ls w2"
    and "\<forall>at' now'. Scheduled ev at' now' \<notin> set ls" and "Fired t evs \<in> set ls" and "ev \<in> set evs"
  shows "at \<le> t"
proof -
  obtain n where "wheel_ok n w0" using wheel_new_ok(1) [OF assms(1)] by blast
  with timer_run_ok [OF assms(2)] wheel_new_ok(4,5) [OF assms(1)]
  have ok: "wheel_ok n w" and eq: "start_hz w = hz" "start_coverage w = coverage" by auto
  note k = wheel_schedule_keeps [OF ok assms(7)]
  have "due_after w1 ev at" using k(5) assms(3,5,6) unfolding eq by blast
  from timer_run_not_early [OF assms(8) k(1) this assms(4,9,10,11)] show ?thesis .
qed

definition wheel_demo :: "nat wheel_timer" where
  "wheel_demo = \<lparr>levels = [\<lparr>buckets = [[], [], [], []], lv_index = 0, lv_epoch = 0\<rparr>], current_tick = 0,
     current_clock = 0, start_hz = 10, start_coverage = 30\<rparr>"

lemma wheel_demo_new: "wheel_new 10 30 0 = Inr wheel_demo"
proof -
  have "next_power_of_two 3 = 4" "next_power_of_two 4 = 4" by code_simp+
  moreover have "replicate 4 [] = [[], [], [], [] :: nat list]" by (simp add: numeral_eq_Suc)
  ultimately show ?thesis
    by (simp add: wheel_demo_def wheel_new_def extend_levels_def required_buckets_def level_new_def
        is_multiple_of_def is_power_of_two_def)
qed

lemma demo_mask: "level_mask \<lparr>buckets = [a, b, c, d], lv_index = i, lv_epoch = e\<rparr> = 3"
  by (simp add: level_mask_def)

lemma demo_and: "Suc 0 AND 3 = (1 :: nat)" "Suc (Suc 0) AND 3 = (2 :: nat)" "Suc (Suc (Suc 0)) AND 3 = (3 :: nat)"
  by code_simp+

lemma wheel_demo_schedule:
  "wheel_schedule False wheel_demo 7 15 0 = Inr
     (\<lparr>tk_level_key = \<lparr>bucket_index = 2, element_index = 0, key_epoch = 0\<rparr>, tk_level_index = 0\<rparr>,
      wheel_demo\<lparr>levels := [\<lparr>buckets = [[], [], [7], []], lv_index = 0, lv_epoch = 0\<rparr>]\<rparr>)"
  by (simp add: wheel_demo_def wheel_schedule_def find_index_by_duration_def ensure_level_def
      duration_to_level_ticks_def div_ceil_def level_schedule_def demo_mask demo_and wrapping_add_def Let_def)

lemma wheel_demo_progress:
  "wheel_progress [] (wheel_demo\<lparr>levels := [\<lparr>buckets = [[], [], [7], []], lv_index = 0, lv_epoch = 0\<rparr>]\<rparr>) 20 =
     Some (Inr ([\<lparr>bk_elements = [], source_index = 0\<rparr>, \<lparr>bk_elements = [], source_index = 1\<rparr>,
       \<lparr>bk_elements = [7], source_index = 2\<rparr>], 30,
       wheel_demo\<lparr>levels := [\<lparr>buckets = [[], [], [], []], lv_index = 3, lv_epoch = 0\<rparr>],
         current_tick := 3, current_clock := 30\<rparr>))"
proof -
  have tz: "trailing_zeros 1 = 0" "trailing_zeros 2 = 1" "trailing_zeros 3 = 0" by code_simp+
  note defs = wheel_demo_def wheel_tick_def level_tick_def demo_mask demo_and wrapping_add_def Let_def
  show ?thesis
    apply (subst wheel_progress.simps, simp add: defs tz)
    apply (subst wheel_progress.simps, simp add: defs tz)
    apply (subst wheel_progress.simps, simp add: defs tz)
    apply (subst wheel_progress.simps, simp add: defs tz)
    done
qed

theorem wheel_never_early_witness:
  "\<exists>key w1 w2. wheel_new 10 30 0 = Inr wheel_demo \<and> wheel_schedule False wheel_demo 7 15 0 = Inr (key, w1) \<and>
     timer_run False 0 w1 [Fired 20 [7]] w2 \<and> (15 :: nat) \<le> 20"
proof -
  let ?w1 = "wheel_demo\<lparr>levels := [\<lparr>buckets = [[], [], [7], []], lv_index = 0, lv_epoch = 0\<rparr>]\<rparr>"
  let ?w2 = "wheel_demo\<lparr>levels := [\<lparr>buckets = [[], [], [], []], lv_index = 3, lv_epoch = 0\<rparr>],
         current_tick := 3, current_clock := 30\<rparr>"
  have run: "timer_run False 0 ?w1 [Fired 20 [7]] ?w2"
    using run_cons [OF step_progress [OF wheel_demo_progress] run_nil, of False 0] by simp
  have "next_power_of_two 3 = 4" by code_simp
  then have "False \<or> 30 mod 10 \<noteq> (0 :: nat) \<or> 30 = (10 :: nat) \<or> \<not> is_power_of_two (30 div 10)"
    by (simp add: is_power_of_two_def)
  then have "(15 :: nat) \<le> 20"
    by (intro wheel_never_early [OF wheel_demo_new run_nil _ _ _ _ wheel_demo_schedule run, where t = 20 and evs = "[7]"])
      (simp_all add: wheel_demo_def pending_def)
  with wheel_demo_new wheel_demo_schedule run show ?thesis by blast
qed


text \<open>A timer in which an event waits on the third level while a longer delay adds a fourth one.\<close>

definition demo_ring :: "nat list \<Rightarrow> nat list \<Rightarrow> nat \<Rightarrow> nat level" where
  "demo_ring b2 b3 i = \<lparr>buckets = [[], [], b2, b3], lv_index = i, lv_epoch = 0\<rparr>"

definition demo_waiting :: "nat wheel_timer" where
  "demo_waiting = wheel_demo\<lparr>levels := [demo_ring [] [] 0, demo_ring [] [] 0, demo_ring [] [7] 0]\<rparr>"

definition demo_later :: "nat wheel_timer" where
  "demo_later = wheel_demo\<lparr>levels := [demo_ring [] [] 3, demo_ring [] [] 1, demo_ring [] [7] 0],
     current_tick := 3, current_clock := 30\<rparr>"

definition demo_extended :: "nat wheel_timer" where
  "demo_extended = wheel_demo\<lparr>levels := [demo_ring [] [] 3, demo_ring [] [] 1, demo_ring [] [7] 0, demo_ring [8] [] 0],
     current_tick := 0, current_clock := 30\<rparr>"

lemma demo_extend:
  assumes "start_hz w = 10" and "start_coverage w = 30"
  shows "extend_levels w len = Inr (w\<lparr>current_tick := 0, levels := levels w @ replicate (len - length (levels w)) (demo_ring [] [] 0)\<rparr>)"
proof -
  have p: "next_power_of_two 3 = 4" "is_power_of_two 4" by code_simp+
  have r: "replicate 4 [] = [[], [], [], [] :: nat list]" by (simp add: numeral_eq_Suc)
  have "0 < start_hz w" "required_buckets w = Inr 3" "4 = max (next_power_of_two 3) 2" "4 \<le> usize_max"
    using assms p(1) by (simp_all add: required_buckets_def is_multiple_of_def usize_max_def)
  from extend_levels_ok [OF this(1-3) p(2) this(4), of len] show ?thesis unfolding r demo_ring_def .
qed

lemma demo_ilog: "ilog2 2 = 1" "ilog2 4 = 2" by code_simp+

lemma demo_two: "replicate 2 x = [x, x]" "2 AND 3 = (2 :: nat)" "3 AND 3 = (3 :: nat)"
  by (simp_all add: numeral_2_eq_2) code_simp+

lemma demo_waiting_schedule:
  "wheel_schedule False wheel_demo 7 81 0 = Inr
     (\<lparr>tk_level_key = \<lparr>bucket_index = 3, element_index = 0, key_epoch = 0\<rparr>, tk_level_index = 2\<rparr>, demo_waiting)"
  by (simp add: wheel_schedule_def find_index_by_duration_def ensure_level_def wheel_demo_def demo_extend demo_ilog
      duration_to_level_ticks_def div_ceil_def level_schedule_def demo_mask demo_ring_def demo_waiting_def demo_and demo_two
      wrapping_add_def Let_def)

lemma demo_later_progress: "\<exists>out. wheel_progress [] demo_waiting 20 = Some (Inr (out, 30, demo_later)) \<and> concat (map bk_elements out) = []"
proof -
  have tz: "trailing_zeros (Suc 0) = 0" "trailing_zeros (Suc (Suc 0)) = Suc 0" "trailing_zeros 2 = Suc 0"
      "trailing_zeros 3 = 0" "trailing_zeros (Suc (Suc (Suc 0))) = 0" by code_simp+
  note defs = wheel_demo_def demo_waiting_def demo_later_def demo_ring_def wheel_tick_def level_tick_def demo_mask demo_and
    wrapping_add_def Let_def
  have two: "tick_levels 2 ls = tick_levels (Suc (Suc 0)) ls" for ls :: "nat level list" by (simp add: numeral_2_eq_2)
  show ?thesis
    apply (subst wheel_progress.simps, simp add: defs tz two)
    apply (subst wheel_progress.simps, simp add: defs tz two)
    apply (subst wheel_progress.simps, simp add: defs tz two)
    apply (subst wheel_progress.simps, simp add: defs tz two)
    done
qed

lemma demo_extended_schedule:
  "\<exists>key. wheel_schedule False demo_later 8 150 30 = Inr (key, demo_extended)"
  by (simp add: wheel_schedule_def find_index_by_duration_def ensure_level_def wheel_demo_def demo_extend demo_ilog
      duration_to_level_ticks_def div_ceil_def level_schedule_def demo_mask demo_ring_def demo_later_def demo_extended_def demo_and demo_two
      wrapping_add_def Let_def)

lemma demo_extended_run: "timer_run False 0 demo_waiting [Fired 20 [], Scheduled 8 150 30] demo_extended"
proof -
  obtain out key where out: "wheel_progress [] demo_waiting 20 = Some (Inr (out, 30, demo_later))" "concat (map bk_elements out) = []"
    and key: "wheel_schedule False demo_later 8 150 30 = Inr (key, demo_extended)"
    using demo_later_progress demo_extended_schedule by blast
  from run_cons [OF step_progress [OF out(1)] run_cons [OF step_schedule [OF key] run_nil]]
  show ?thesis unfolding out(2) .
qed


text \<open>the tick that an added level costs is real. The event above is due when the clock is 150, at most two
  ticks of its level after its delay; adding the fourth level resets the tick count of the timer, and the event
  is not returned before the clock is 180.\<close>

lemma wheel_extension_delays:
  "due_at demo_later 7 \<lparr>tk_level_key = \<lparr>bucket_index = 3, element_index = 0, key_epoch = 0\<rparr>, tk_level_index = 2\<rparr> 150"
  "\<exists>out next w. wheel_progress [] demo_extended 179 = Some (Inr (out, next, w)) \<and> 7 \<notin> set (concat (map bk_elements out))"
proof -
  show "due_at demo_later 7 \<lparr>tk_level_key = \<lparr>bucket_index = 3, element_index = 0, key_epoch = 0\<rparr>, tk_level_index = 2\<rparr> 150"
    by (simp add: due_at_def key_at_def demo_later_def wheel_demo_def demo_ring_def level_dist_def slack_def)
  obtain n where "wheel_ok n wheel_demo" using wheel_new_ok(1) [OF wheel_demo_new] by blast
  with timer_run_ok [OF demo_extended_run] wheel_schedule_keeps(1) [OF _ demo_waiting_schedule]
  have ok: "wheel_ok n demo_extended" by blast
  have "due_after demo_extended 7 180"
  proof (rule due_afterI)
    fix i p
    assume a: "i < length (levels demo_extended)" "p < length (buckets (levels demo_extended ! i))"
      "7 \<in> set (buckets (levels demo_extended ! i) ! p)"
    have i: "i = 0 \<or> i = 1 \<or> i = 2 \<or> i = 3" using a(1) by (simp add: demo_extended_def) linarith
    then have "length (buckets (levels demo_extended ! i)) = 4"
      by (elim disjE) (simp_all add: demo_extended_def demo_ring_def)
    then have p: "p = 0 \<or> p = 1 \<or> p = 2 \<or> p = 3" using a(2) by linarith
    have "i = 2 \<and> p = 3"
      using i p a(3) by (elim disjE) (simp_all add: demo_extended_def demo_ring_def)
    then show "180 \<le> current_clock demo_extended + (level_dist (levels demo_extended ! i) p * 2 ^ i +
        slack i (current_tick demo_extended)) * start_hz demo_extended"
      by (simp add: demo_extended_def wheel_demo_def demo_ring_def level_dist_def slack_def)
  qed
  from progress_due [OF ok this, of 179] show "\<exists>out next w. wheel_progress [] demo_extended 179 = Some (Inr (out, next, w)) \<and>
      7 \<notin> set (concat (map bk_elements out))"
    by (auto simp: fired_in_def)
qed

text \<open>with a coverage of \<open>2 ^ k\<close> ticks - the connection timers use 1 ms and 64 ms - an event due
  in the last tick of the coverage needs \<open>2 ^ k\<close> level ticks on a ring of \<open>2 ^ k\<close> buckets. The
  debug build panics; the release build puts the event in the current bucket, and the next
  \<open>progress\<close> returns it at once, although \<open>schedule\<close> documents that no event is available
  sooner than \<open>at\<close>.\<close>

lemma wheel_last_tick_early:
  fixes ev :: 'a
  assumes "0 < hz" and "0 < k" and "k < 64" and "(2 ^ k - 1) * hz < delay" and "delay < 2 ^ k * hz"
  shows "\<exists>w key w1 out next w2. wheel_new hz (2 ^ k * hz) now = Inr w \<and>
     wheel_schedule True w ev (now + delay) now = Inl DebugAssertFailed \<and>
     wheel_schedule False w ev (now + delay) now = Inr (key, w1) \<and>
     wheel_progress [] w1 now = Some (Inr (out, next, w2)) \<and>
     ev \<in> set (concat (map bk_elements out)) \<and> now < now + delay"
proof -
  let ?n = "2 ^ k :: nat"
  let ?lv = "\<lparr>buckets = replicate ?n [], lv_index = 0, lv_epoch = 0\<rparr> :: 'a level"
  let ?w = "\<lparr>levels = [?lv], current_tick = 0, current_clock = now, start_hz = hz, start_coverage = ?n * hz\<rparr>"
  let ?lv1 = "?lv\<lparr>buckets := (replicate ?n [])[0 := [ev]]\<rparr>"
  note n = pow2_facts [OF assms(2,3)]
  have new: "wheel_new hz (?n * hz) now = Inr ?w"
    using assms(1) n by (simp add: wheel_new_def extend_levels_def required_buckets_def level_new_def is_multiple_of_def Let_def)
  then obtain m where m: "wheel_ok m ?w" using wheel_new_ok(1) by blast
  then have "m = ?n" by (simp add: wheel_ok_def level_ok_def)
  have "div_ceil delay hz = ?n"
    using div_ceil_le_iff [OF assms(1), of delay ?n] div_ceil_le_iff [OF assms(1), of delay "?n - 1"]
      assms(4,5) by linarith
  then have ticks: "duration_to_level_ticks ?w delay 0 = Inr ?n"
    using assms(1) n by (simp add: duration_to_level_ticks_def)
  have "level_schedule True ?lv ev ?n = Inl DebugAssertFailed" by (simp add: level_schedule_def)
  then have dbg: "wheel_schedule True ?w ev (now + delay) now = Inl DebugAssertFailed"
    using ticks assms(5) by (simp add: wheel_schedule_def find_index_by_duration_def ensure_level_def)
  obtain lk where lk: "level_schedule False ?lv ev ?n = Inr (lk, ?lv1)"
    using level_schedule_ok [of ?n ?lv False ?n ev] n by (auto simp: level_ok_def)
  let ?key = "\<lparr>tk_level_key = lk, tk_level_index = 0\<rparr>" and ?w1 = "?w\<lparr>levels := [?lv1]\<rparr>"
  have rel: "wheel_schedule False ?w ev (now + delay) now = Inr (?key, ?w1)"
    using ticks assms(5) lk by (simp add: wheel_schedule_def find_index_by_duration_def ensure_level_def)
  have "bucket_index lk = 0" "element_index lk = 0"
    using level_schedule_ok [of ?n ?lv False ?n ev] n lk by (auto simp: level_ok_def)
  then have "due_at ?w1 ev ?key now" using n by (simp add: due_at_def key_at_def level_dist_def slack_def)
  from progress_fires [OF wheel_schedule_keeps(1) [OF m rel] _ this, of now]
  obtain out w2 where "wheel_progress [] ?w1 now = Some (Inr (out, current_clock w2, w2))" "fired_in out ev"
    by auto
  moreover have "0 < delay" using assms(4) by simp
  ultimately show ?thesis using new dbg rel
    by (intro exI [of _ ?w] exI [of _ ?key] exI [of _ ?w1] exI [of _ out] exI [of _ "current_clock w2"] exI [of _ w2])
      (auto simp: fired_in_def)
qed

lemma wheel_last_tick_early_witness:
  "\<exists>w key w1 out next w2. wheel_new 1000000 (2 ^ 6 * 1000000) 5 = Inr w \<and>
     wheel_schedule True w ''pto'' (5 + 63500000) 5 = Inl DebugAssertFailed \<and>
     wheel_schedule False w ''pto'' (5 + 63500000) 5 = Inr (key, w1) \<and>
     wheel_progress [] w1 5 = Some (Inr (out, next, w2)) \<and>
     ''pto'' \<in> set (concat (map bk_elements out)) \<and> (5 :: nat) < 5 + 63500000"
  by (rule wheel_last_tick_early) simp_all

text \<open>a key cancels exactly its own event. For the \<open>ticks\<close> ticks before its bucket is processed,
  whatever else is scheduled or cancelled on the level, cancelling replaces that element by the
  default value and nothing else; from then on the key is stale and cancelling does nothing,
  so a bucket reused in a later epoch is never touched.\<close>

lemma level_cancel_exact:
  assumes "level_ok n lv" and "is_power_of_two n" and "n \<le> usize_max" and "ticks < n"
    and "lv_epoch lv < usize_max" and "level_schedule dbg lv ev ticks = Inr (key, lv1)"
    and "level_run dflt key lv1 m lv2"
  shows "if m \<le> ticks then
      buckets lv2 ! bucket_index key ! element_index key = ev \<and>
      level_cancel dflt lv2 key = Inr (lv2\<lparr>buckets := (buckets lv2)[bucket_index key :=
        (buckets lv2 ! bucket_index key)[element_index key := dflt]]\<rparr>)
    else level_cancel dflt lv2 key = Inr lv2"
proof -
  note s = scheduled_key [OF assms(1-6)]
  have inv: "level_ok n lv2" "level_pos lv2 = level_pos lv1 + m" "m \<le> ticks \<longrightarrow> key_at key ev lv2"
    using level_run_inv [OF assms(7) s(1) assms(2-4) s(2)] s(3,6) by auto
  have "bucket_index key < n" using s(3) assms(1) by (simp add: level_ok_def)
  from level_cancel_cases [OF inv(1) this, of dflt] inv s(4) show ?thesis by (auto simp: key_at_def)
qed

lemma level_cancel_exact_witness:
  "\<exists>key lv1. level_schedule False \<lparr>buckets = [[], [], [], []], lv_index = 3, lv_epoch = 5\<rparr> ''a'' 2 = Inr (key, lv1) \<and>
     buckets lv1 ! bucket_index key ! element_index key = ''a'' \<and>
     level_cancel [] lv1 key = Inr (lv1\<lparr>buckets := (buckets lv1)[bucket_index key :=
        (buckets lv1 ! bucket_index key)[element_index key := []]]\<rparr>)"
proof -
  let ?lv = "\<lparr>buckets = [[], [], [], []], lv_index = 3, lv_epoch = 5\<rparr> :: string level"
  have p: "is_power_of_two 4" by code_simp
  have ok: "level_ok 4 ?lv" by (simp add: level_ok_def)
  obtain key lv1 where s: "level_schedule False ?lv ''a'' 2 = Inr (key, lv1)"
    using level_schedule_ok [OF ok p, of False 2 "''a''"] by (simp add: usize_max_def)
  have "(2 :: nat) < 4" "(4 :: nat) \<le> usize_max" "lv_epoch ?lv < usize_max" by (simp_all add: usize_max_def)
  from level_cancel_exact [OF ok p this(2,1,3) s level_start, of "[]"] s show ?thesis by auto
qed

end
