(* ===== verification/Stream_Types.thy ===== *)
theory Stream_Types
  imports Aquic_Prelude
begin

unbundle bit_operations_syntax

section \<open>Stream identifiers, payloads and errors\<close>

text \<open>
  Model of \<open>src/aquic-core/src/stream/types/\<close>: \<open>StreamId\<close> (a \<open>u64\<close>, kept at its width as a
  \<open>64 word\<close>), \<open>Payload\<close>, \<open>Error\<close> and \<open>Priority\<close>. The lemmas show that the four stream kinds
  are kept by \<open>next\<close> and \<open>previous\<close>, which are inverse to each other and fail exactly at the
  ends of the range of identifiers, that \<open>next\<close> ascends in the derived order, and that enumerating identifiers from \<open>initial\<close> by
  \<open>next\<close> meets every identifier of a kind.
\<close>

subsection \<open>\<open>id.rs\<close>\<close>

datatype stream_id = StreamId (raw: "64 word")

datatype stream_id_error = StreamIdError

definition stream_id_max :: "64 word" where
  "stream_id_max = push_bit 62 1 - 1"

definition sid_new :: "64 word \<Rightarrow> stream_id_error + stream_id" where
  "sid_new value = (if value \<le> stream_id_max then Inr (StreamId value) else Inl StreamIdError)"

text \<open>\<open>StreamId\<close> derives its order from the wrapped integer.\<close>

instantiation stream_id :: linorder
begin

definition less_eq_stream_id :: "stream_id \<Rightarrow> stream_id \<Rightarrow> bool" where
  "less_eq_stream_id s t \<longleftrightarrow> raw s \<le> raw t"

definition less_stream_id :: "stream_id \<Rightarrow> stream_id \<Rightarrow> bool" where
  "less_stream_id s t \<longleftrightarrow> raw s < raw t"

instance
  by standard (auto simp: less_eq_stream_id_def less_stream_id_def intro: stream_id.expand)

end

definition init_client_bidi :: stream_id where "init_client_bidi = StreamId 0"

definition init_server_bidi :: stream_id where "init_server_bidi = StreamId 1"

definition init_client_uni :: stream_id where "init_client_uni = StreamId 2"

definition init_server_uni :: stream_id where "init_server_uni = StreamId 3"

definition initial :: "bool \<Rightarrow> bool \<Rightarrow> stream_id" where
  "initial client bidirectional =
     (case (client, bidirectional) of
        (True, True) \<Rightarrow> init_client_bidi
      | (True, False) \<Rightarrow> init_client_uni
      | (False, True) \<Rightarrow> init_server_bidi
      | (False, False) \<Rightarrow> init_server_uni)"

definition is_server :: "stream_id \<Rightarrow> bool" where
  "is_server s \<longleftrightarrow> raw s AND 1 = 1"

definition is_client :: "stream_id \<Rightarrow> bool" where
  "is_client s \<longleftrightarrow> \<not> is_server s"

definition is_uni :: "stream_id \<Rightarrow> bool" where
  "is_uni s \<longleftrightarrow> raw s AND 2 = 2"

definition is_bidi :: "stream_id \<Rightarrow> bool" where
  "is_bidi s \<longleftrightarrow> \<not> is_uni s"

definition sid_next :: "stream_id \<Rightarrow> stream_id_error + stream_id" where
  "sid_next s = (case checked_add (unat (raw s)) 4 of
     None \<Rightarrow> Inl StreamIdError | Some value \<Rightarrow> sid_new (of_nat value))"

definition sid_previous :: "stream_id \<Rightarrow> stream_id_error + stream_id" where
  "sid_previous s = (case checked_sub (unat (raw s)) 4 of
     None \<Rightarrow> Inl StreamIdError | Some value \<Rightarrow> sid_new (of_nat value))"

definition sid_from_u32 :: "32 word \<Rightarrow> stream_id" where
  "sid_from_u32 value = StreamId (ucast value)"

definition sid_into_u32 :: "stream_id \<Rightarrow> 32 word" where
  "sid_into_u32 s = ucast (raw s)"

definition sid_try_from_u128 :: "128 word \<Rightarrow> stream_id_error + stream_id" where
  "sid_try_from_u128 value =
     (if unat value \<le> u64_max then sid_new (ucast value) else Inl StreamIdError)"

subsection \<open>\<open>payload.rs\<close>\<close>

datatype 'a payload = Item 'a | Last 'a | Done

definition is_fin :: "'a payload \<Rightarrow> bool" where
  "is_fin p = (case p of Last _ \<Rightarrow> True | Done \<Rightarrow> True | Item _ \<Rightarrow> False)"

definition into_inner :: "'a payload \<Rightarrow> 'a option" where
  "into_inner p = (case p of Item v \<Rightarrow> Some v | Last v \<Rightarrow> Some v | Done \<Rightarrow> None)"

definition payload_map :: "('a \<Rightarrow> 'b) \<Rightarrow> 'a payload \<Rightarrow> 'b payload" where
  "payload_map f p = (case p of Item t \<Rightarrow> Item (f t) | Last t \<Rightarrow> Last (f t) | Done \<Rightarrow> Done)"

definition payload_try_map :: "('a \<Rightarrow> 'e + 'b) \<Rightarrow> 'a payload \<Rightarrow> 'e + 'b payload" where
  "payload_try_map f p = (case p of
     Item t \<Rightarrow> and_then (f t) (\<lambda>u. Inr (Item u))
   | Last t \<Rightarrow> and_then (f t) (\<lambda>u. Inr (Last u))
   | Done \<Rightarrow> Inr Done)"

definition payload_estimate :: "('a \<Rightarrow> nat) \<Rightarrow> 'a payload \<Rightarrow> nat" where
  "payload_estimate estimate p = (case p of Item it \<Rightarrow> estimate it | Last it \<Rightarrow> estimate it | Done \<Rightarrow> 0)"

subsection \<open>\<open>error.rs\<close> and \<open>mod.rs\<close>\<close>

datatype ('code, 'dec, 'enc) stream_error =
    Finish
  | Stop 'code
  | Reset 'code
  | DecoderError 'dec
  | EncoderError 'enc
  | ConnectionError
  | HangUp string

record priority =
  urgency :: int
  incremental :: bool

subsection \<open>Lemmas\<close>

definition sid_nat :: "stream_id \<Rightarrow> nat" where
  "sid_nat s = unat (raw s)"

definition sid_ok :: "stream_id \<Rightarrow> bool" where
  "sid_ok s \<longleftrightarrow> sid_nat s < 2 ^ 62"

lemma sid_nat_eqI: "sid_nat s = sid_nat t \<Longrightarrow> s = t"
  by (cases s; cases t) (simp add: sid_nat_def word_unat_eq_iff)

lemma unat_sid_max: "unat stream_id_max = 2 ^ 62 - 1"
  by (simp add: stream_id_max_def push_bit_eq_mult)

lemma sid_new_of_nat:
  assumes "n \<le> usize_max"
  shows "sid_new (of_nat n) = (if n < 2 ^ 62 then Inr (StreamId (of_nat n)) else Inl StreamIdError)"
    and "unat (of_nat n :: 64 word) = n"
proof -
  show u: "unat (of_nat n :: 64 word) = n"
    using assms by (simp add: unat_of_nat usize_max_def take_bit_nat_eq_self)
  show "sid_new (of_nat n) = (if n < 2 ^ 62 then Inr (StreamId (of_nat n)) else Inl StreamIdError)"
    by (auto simp: sid_new_def word_le_nat_alt u unat_sid_max)
qed

lemma kind_bits:
  "is_server s \<longleftrightarrow> odd (sid_nat s)"
  "is_uni s \<longleftrightarrow> odd (sid_nat s div 2)"
proof -
  have b: "bit (raw s) n \<longleftrightarrow> bit (sid_nat s) n" for n by (simp add: sid_nat_def bit_simps)
  have "raw s AND 1 = 1 \<longleftrightarrow> bit (raw s) 0" by (simp add: and_one_eq odd_iff_mod_2_eq_one bit_0)
  then show "is_server s \<longleftrightarrow> odd (sid_nat s)" by (metis is_server_def b bit_0)
  have "raw s AND 2 = 2 \<longleftrightarrow> bit (raw s) 1"
  proof
    assume "raw s AND 2 = 2"
    then have "bit (raw s AND 2) 1 = bit (2 :: 64 word) 1" by simp
    then show "bit (raw s) 1" by (simp add: bit_and_iff bit_2_iff)
  next
    assume "bit (raw s) 1"
    then show "raw s AND 2 = 2" by (intro bit_word_eqI) (auto simp: bit_and_iff bit_2_iff)
  qed
  then show "is_uni s \<longleftrightarrow> odd (sid_nat s div 2)" unfolding is_uni_def b [of 1] by (simp add: bit_iff_odd)
qed

lemma sid_next_nat:
  "sid_ok s \<Longrightarrow> sid_next s =
    (if sid_nat s + 4 < 2 ^ 62 then Inr (StreamId (of_nat (sid_nat s + 4))) else Inl StreamIdError)"
  using sid_new_of_nat(1) [of "sid_nat s + 4"]
  by (simp add: sid_next_def sid_ok_def checked_add_def sid_nat_def [symmetric] usize_max_def)

lemma sid_previous_nat:
  "sid_ok s \<Longrightarrow> sid_previous s =
    (if 4 \<le> sid_nat s then Inr (StreamId (of_nat (sid_nat s - 4))) else Inl StreamIdError)"
  using sid_new_of_nat(1) [of "sid_nat s - 4"]
  by (auto simp: sid_previous_def sid_ok_def checked_sub_def sid_nat_def [symmetric] usize_max_def
      del: of_nat_diff)

lemma sid_nat_of_nat: "n < 2 ^ 62 \<Longrightarrow> sid_nat (StreamId (of_nat n)) = n"
  using sid_new_of_nat(2) [of n] by (simp add: sid_nat_def usize_max_def)

lemma sid_less_nat: "s < t \<longleftrightarrow> sid_nat s < sid_nat t" and sid_le_nat: "s \<le> t \<longleftrightarrow> sid_nat s \<le> sid_nat t"
  by (simp_all add: less_stream_id_def less_eq_stream_id_def sid_nat_def word_less_nat_alt word_le_nat_alt)

lemma sid_next_increases: "sid_ok s \<Longrightarrow> sid_next s = Inr t \<Longrightarrow> s < t"
  by (auto simp: sid_next_nat sid_less_nat sid_nat_of_nat simp del: of_nat_add split: if_splits)

lemma same_kind:
  assumes "sid_nat t = sid_nat s + 4"
  shows "is_server t \<longleftrightarrow> is_server s" and "is_uni t \<longleftrightarrow> is_uni s"
proof -
  have "(sid_nat s + 4) div 2 = sid_nat s div 2 + 2" by simp
  with assms show "is_server t \<longleftrightarrow> is_server s" "is_uni t \<longleftrightarrow> is_uni s" by (simp_all add: kind_bits)
qed

fun sid_iterate :: "nat \<Rightarrow> stream_id \<Rightarrow> stream_id_error + stream_id" where
  "sid_iterate 0 s = Inr s"
| "sid_iterate (Suc k) s = and_then (sid_iterate k s) sid_next"

lemma sid_iterate_nat:
  assumes "sid_nat s + 4 * k < 2 ^ 62"
  shows "sid_iterate k s = Inr (StreamId (of_nat (sid_nat s + 4 * k)))"
  using assms
proof (induction k)
  case 0
  then show ?case by (simp add: sid_nat_def)
next
  case (Suc k)
  let ?t = "StreamId (of_nat (sid_nat s + 4 * k))"
  have "sid_nat ?t = sid_nat s + 4 * k" using Suc.prems by (intro sid_nat_of_nat) simp
  with sid_next_nat [of ?t] Suc show ?case by (simp add: sid_ok_def algebra_simps)
qed

lemma sid_iterate_ok:
  assumes "sid_iterate k s = Inr t" and "sid_ok s"
  shows "sid_ok t" and "sid_nat t = sid_nat s + 4 * k"
proof -
  have "sid_ok t \<and> sid_nat t = sid_nat s + 4 * k" using assms
  proof (induction k arbitrary: t)
    case (Suc k)
    then obtain u where u: "sid_iterate k s = Inr u" "sid_next u = Inr t" by (auto simp: rust_simps)
    with Suc have "sid_ok u" "sid_nat u = sid_nat s + 4 * k" by auto
    with u(2) sid_next_nat [of u] sid_nat_of_nat [of "sid_nat u + 4"] show ?case
      by (auto simp: sid_ok_def split: if_splits)
  qed simp
  then show "sid_ok t" and "sid_nat t = sid_nat s + 4 * k" by auto
qed

lemma initial_kind:
  "sid_nat (initial c b) = (if c then 0 else 1) + (if b then 0 else 2)"
  by (simp add: initial_def sid_nat_def init_client_bidi_def init_client_uni_def init_server_bidi_def
      init_server_uni_def split: bool.splits)

subsection \<open>Properties\<close>

text \<open>\<open>next\<close> keeps the initiator and the direction of a stream, \<open>previous\<close> undoes it, and it
  fails exactly when the identifier would leave the 62-bit range.\<close>

lemma sid_next_spec:
  assumes "sid_ok s"
  shows "case sid_next s of
      Inl _ \<Rightarrow> 2 ^ 62 \<le> sid_nat s + 4
    | Inr t \<Rightarrow> sid_ok t \<and> sid_nat t = sid_nat s + 4 \<and> is_client t = is_client s \<and> is_bidi t = is_bidi s \<and>
              sid_previous t = Inr s"
proof (cases "sid_nat s + 4 < 2 ^ 62")
  case True
  let ?t = "StreamId (of_nat (sid_nat s + 4))"
  have t: "sid_nat ?t = sid_nat s + 4" by (rule sid_nat_of_nat [OF True])
  have "StreamId (of_nat (sid_nat s)) = s" by (cases s) (simp add: sid_nat_def)
  with t True sid_previous_nat [of ?t] have "sid_previous ?t = Inr s" by (simp add: sid_ok_def)
  with t True same_kind [OF t] sid_next_nat [OF assms] show ?thesis
    by (simp add: sid_ok_def is_client_def is_bidi_def)
qed (use sid_next_nat [OF assms] in simp)

lemma sid_next_spec_witness:
  "case sid_next (StreamId 7) of
      Inl _ \<Rightarrow> 2 ^ 62 \<le> sid_nat (StreamId 7) + 4
    | Inr t \<Rightarrow> sid_ok t \<and> sid_nat t = sid_nat (StreamId 7) + 4 \<and> is_client t = is_client (StreamId 7) \<and>
              is_bidi t = is_bidi (StreamId 7) \<and> sid_previous t = Inr (StreamId 7)"
  by (rule sid_next_spec) (simp add: sid_ok_def sid_nat_def)

text \<open>every valid identifier is met exactly once by counting with \<open>next\<close> from the initial
  identifier of its kind.\<close>

lemma sid_enumeration:
  assumes "sid_ok s"
  shows "\<exists>!k. sid_iterate k (initial (is_client s) (is_bidi s)) = Inr s"
proof -
  let ?i = "sid_nat (initial (is_client s) (is_bidi s))"
  have "?i = sid_nat s mod 2 + 2 * (sid_nat s div 2 mod 2)"
    by (auto simp: initial_kind is_client_def is_bidi_def kind_bits odd_iff_mod_2_eq_one)
  then have i: "?i = sid_nat s mod 4" using mod_mult2_eq [of "sid_nat s" 2 2] by simp
  have ex: "sid_iterate (sid_nat s div 4) (initial (is_client s) (is_bidi s)) = Inr s"
  proof -
    have "?i + 4 * (sid_nat s div 4) = sid_nat s" using i by simp
    moreover have "StreamId (of_nat (sid_nat s)) = s" by (cases s) (simp add: sid_nat_def)
    ultimately show ?thesis
      using sid_iterate_nat [of "initial (is_client s) (is_bidi s)" "sid_nat s div 4"] assms
      by (simp add: sid_ok_def del: of_nat_add of_nat_mult)
  qed
  moreover have "k = sid_nat s div 4" if "sid_iterate k (initial (is_client s) (is_bidi s)) = Inr s" for k
    using sid_iterate_ok(2) [OF that] i by (simp add: sid_ok_def initial_kind)
  ultimately show ?thesis by blast
qed

lemma sid_enumeration_witness:
  "\<exists>!k. sid_iterate k (initial (is_client (StreamId 7)) (is_bidi (StreamId 7))) = Inr (StreamId 7)"
  by (rule sid_enumeration) (simp add: sid_ok_def sid_nat_def)

end
