(* ===== verification/Connection_Id.thy ===== *)
theory Connection_Id
  imports Aquic_Prelude
begin

section \<open>Connection identifiers\<close>

text \<open>
  Model of \<open>src/aquic-core/src/backend/cid/mod.rs\<close> and \<open>common.rs\<close>: the fixed array with its
  length that holds a connection ID, the two constructors, and \<open>RandomIdGenerator\<close>. The trait
  \<open>ConnectionIdGenerator\<close> is the locale \<open>cid_generator\<close>: what its documentation asks of an
  implementation (constant length, no false negatives of \<open>validate\<close>) are the locale's laws,
  which \<open>RandomIdGenerator\<close> satisfies. The bytes of \<open>rand::rng()\<close> are an argument.
\<close>

subsection \<open>\<open>ConnectionId\<close>\<close>

definition max_cid_len :: nat where
  "max_cid_len = 20"

record connection_id =
  cid_array :: "byte list"
  cid_size :: nat

definition try_from_slice :: "byte list \<Rightarrow> connection_id option" where
  "try_from_slice s =
     (if max_cid_len < length s then None
      else Some \<lparr>cid_array = splice 0 s (replicate max_cid_len 0), cid_size = length s\<rparr>)"

fun fill_from_iter :: "nat \<Rightarrow> byte list \<Rightarrow> nat \<Rightarrow> byte list \<Rightarrow> connection_id option" where
  "fill_from_iter 0 array mark bytes = None"
| "fill_from_iter (Suc room) array mark [] = Some \<lparr>cid_array = array, cid_size = mark\<rparr>"
| "fill_from_iter (Suc room) array mark (byte # bytes) =
     fill_from_iter room (array[mark := byte]) (mark + 1) bytes"

definition try_from_iter :: "byte list \<Rightarrow> connection_id option" where
  "try_from_iter bytes = fill_from_iter max_cid_len (replicate max_cid_len 0) 0 bytes"

definition as_slice :: "connection_id \<Rightarrow> byte list" where
  "as_slice c = slice 0 (cid_size c) (cid_array c)"

definition as_mut_slice :: "connection_id \<Rightarrow> byte list \<Rightarrow> connection_id" where
  "as_mut_slice c bytes = c\<lparr>cid_array := splice 0 (take (cid_size c) bytes) (cid_array c)\<rparr>"

definition cid_is_empty :: "connection_id \<Rightarrow> bool" where
  "cid_is_empty c \<longleftrightarrow> cid_size c = 0"

definition cid_from_array :: "byte list \<Rightarrow> connection_id" where
  "cid_from_array value = \<lparr>cid_array = value, cid_size = length value\<rparr>"

definition cid_eq :: "connection_id \<Rightarrow> connection_id \<Rightarrow> bool" where
  "cid_eq c d = (if cid_size c \<noteq> cid_size d then False
     else slice 0 (cid_size c) (cid_array c) = slice 0 (cid_size d) (cid_array d))"

definition cid_hash_input :: "connection_id \<Rightarrow> byte list" where
  "cid_hash_input c = slice 0 (cid_size c) (cid_array c)"

definition cid_default :: connection_id where
  "cid_default = \<lparr>cid_array = replicate max_cid_len 0, cid_size = 0\<rparr>"

record id_error =
  original :: connection_id
  detail :: string

subsection \<open>\<open>RandomIdGenerator\<close>\<close>

record random_id_generator =
  rid_length :: nat

definition random_new :: "nat \<Rightarrow> panic + random_id_generator" where
  "random_new len = and_then (panic_if (\<not> len \<le> max_cid_len) AssertFailed) (\<lambda>_. Inr \<lparr>rid_length = len\<rparr>)"

definition random_generate :: "random_id_generator \<Rightarrow> (nat \<Rightarrow> byte list) \<Rightarrow> panic + connection_id" where
  "random_generate g rng =
     (let cid = splice 0 (rng (rid_length g)) (replicate max_cid_len 0)
      in case try_from_slice (slice 0 (rid_length g) cid) of
           None \<Rightarrow> Inl UnwrapNone
         | Some c \<Rightarrow> Inr c)"

definition random_cid_len :: "random_id_generator \<Rightarrow> nat" where
  "random_cid_len g = rid_length g"

definition random_validate :: "random_id_generator \<Rightarrow> connection_id \<Rightarrow> bool" where
  "random_validate g cid \<longleftrightarrow> rid_length g = cid_size cid"

definition random_decrypt :: "random_id_generator \<Rightarrow> connection_id \<Rightarrow> id_error + connection_id" where
  "random_decrypt g cid = Inr cid"

definition random_parse :: "random_id_generator \<Rightarrow> connection_id \<Rightarrow> id_error + unit" where
  "random_parse g cid = Inr ()"

subsection \<open>The contract of a generator\<close>

definition cid_wf :: "connection_id \<Rightarrow> bool" where
  "cid_wf c \<longleftrightarrow> length (cid_array c) = max_cid_len \<and> cid_size c \<le> max_cid_len"

locale cid_generator =
  fixes gen_ok :: "'g \<Rightarrow> bool"
    and gen :: "'g \<Rightarrow> (nat \<Rightarrow> byte list) \<Rightarrow> panic + connection_id"
    and gen_len :: "'g \<Rightarrow> nat"
    and gen_validate :: "'g \<Rightarrow> connection_id \<Rightarrow> bool"
    and gen_decrypt :: "'g \<Rightarrow> connection_id \<Rightarrow> id_error + connection_id"
    and gen_parse :: "'g \<Rightarrow> connection_id \<Rightarrow> id_error + 'm"
  assumes gen_total: "gen_ok g \<Longrightarrow> fills rng \<Longrightarrow> \<exists>c. gen g rng = Inr c \<and> cid_wf c"
    and gen_constant_len: "gen_ok g \<Longrightarrow> fills rng \<Longrightarrow> gen g rng = Inr c \<Longrightarrow> cid_size c = gen_len g"
    and gen_no_false_negative: "gen_ok g \<Longrightarrow> fills rng \<Longrightarrow> gen g rng = Inr c \<Longrightarrow> gen_validate g c"
    and gen_readable: "gen_ok g \<Longrightarrow> fills rng \<Longrightarrow> gen g rng = Inr c \<Longrightarrow>
      \<exists>d m. gen_decrypt g c = Inr d \<and> gen_parse g d = Inr m"
begin

lemma own_id_accepted:
  assumes "gen_ok g" and "fills rng"
  shows "\<exists>c d m. gen g rng = Inr c \<and> length (as_slice c) = gen_len g \<and> gen_validate g c \<and>
     gen_decrypt g c = Inr d \<and> gen_parse g d = Inr m"
proof -
  obtain c where c: "gen g rng = Inr c" "cid_wf c" using gen_total [OF assms] by blast
  then have "length (as_slice c) = gen_len g"
    using gen_constant_len [OF assms c(1)] by (simp add: as_slice_def cid_wf_def)
  with c gen_no_false_negative [OF assms c(1)] gen_readable [OF assms c(1)] show ?thesis by blast
qed

end

subsection \<open>Lemmas\<close>

lemma as_slice_try_from_slice: "try_from_slice s = Some c \<Longrightarrow> as_slice c = s \<and> cid_wf c"
  by (auto simp: try_from_slice_def as_slice_def cid_wf_def slice_def splice_def split: if_splits)

lemma fill_from_iter_eq:
  assumes "length array = mark + room" and "take mark array = done"
    and "drop mark array = replicate room 0"
  shows "fill_from_iter room array mark bytes =
    (if length bytes < room then Some \<lparr>cid_array = done @ bytes @ replicate (room - length bytes) 0,
       cid_size = mark + length bytes\<rparr> else None)"
  using assms
proof (induction room array mark bytes arbitrary: "done" rule: fill_from_iter.induct)
  case (2 room array mark)
  then have "array = done @ replicate (Suc room) 0" by (metis append_take_drop_id)
  then show ?case by simp
next
  case (3 room array mark byte bytes)
  have len: "mark < length array" using 3 by simp
  have "take (mark + 1) (array[mark := byte]) = done @ [byte]"
    using 3 len by (simp add: take_Suc_conv_app_nth)
  moreover have "drop (mark + 1) (array[mark := byte]) = replicate room 0"
    using 3 len by (metis Cons_nth_drop_Suc Suc_eq_plus1 drop_update_cancel lessI list.inject replicate_Suc)
  ultimately have "fill_from_iter room (array[mark := byte]) (mark + 1) bytes =
    (if length bytes < room then Some \<lparr>cid_array = (done @ [byte]) @ bytes @ replicate (room - length bytes) 0,
       cid_size = mark + 1 + length bytes\<rparr> else None)"
    using 3 by (intro "3.IH") simp_all
  then show ?case by simp
qed simp

lemma try_from_iter_eq:
  "try_from_iter bytes = (if length bytes < max_cid_len then try_from_slice bytes else None)"
  using fill_from_iter_eq [of "replicate max_cid_len 0" 0 max_cid_len "[]" bytes]
  by (auto simp: try_from_iter_def try_from_slice_def splice_def)

interpretation random_id: cid_generator "\<lambda>g. rid_length g \<le> max_cid_len" random_generate random_cid_len
  random_validate random_decrypt random_parse
proof unfold_locales
  fix g :: random_id_generator and rng c
  assume g: "rid_length g \<le> max_cid_len" and rng: "fills rng"
  have bytes: "slice 0 (rid_length g) (splice 0 (rng (rid_length g)) (replicate max_cid_len 0)) = rng (rid_length g)"
    using slice_splice_same [of 0 "rng (rid_length g)" "replicate max_cid_len 0"] g rng by (simp add: fills_def)
  have gen: "random_generate g rng = (case try_from_slice (rng (rid_length g)) of None \<Rightarrow> Inl UnwrapNone | Some c \<Rightarrow> Inr c)"
    by (simp add: random_generate_def bytes)
  have len: "length (rng (rid_length g)) = rid_length g" using rng by (simp add: fills_def)
  have some: "\<exists>c. try_from_slice (rng (rid_length g)) = Some c"
    using g len by (simp add: try_from_slice_def)
  show "\<exists>c. random_generate g rng = Inr c \<and> cid_wf c"
    using some gen as_slice_try_from_slice by fastforce
  assume c: "random_generate g rng = Inr c"
  then have "cid_size c = rid_length g"
    using gen len by (auto simp: try_from_slice_def split: if_splits)
  then show "cid_size c = random_cid_len g" "random_validate g c"
    by (simp_all add: random_cid_len_def random_validate_def)
  show "\<exists>d m. random_decrypt g c = Inr d \<and> random_parse g d = Inr m"
    by (simp add: random_decrypt_def random_parse_def)
qed

subsection \<open>Properties\<close>

text \<open>a connection ID built from at most 20 bytes reads back as those bytes, longer input is
  refused, and equality and hashing depend on nothing but the bytes (never on the unused rest
  of the array).\<close>

lemma cid_slice_roundtrip:
  "(length s \<le> 20 \<longrightarrow> (\<exists>c. try_from_slice s = Some c \<and> as_slice c = s \<and> cid_hash_input c = s)) \<and>
   (20 < length s \<longrightarrow> try_from_slice s = None) \<and>
   (\<forall>c d. cid_wf c \<longrightarrow> cid_wf d \<longrightarrow> (cid_eq c d \<longleftrightarrow> as_slice c = as_slice d) \<and>
      (cid_eq c d \<longrightarrow> cid_hash_input c = cid_hash_input d))"
proof -
  have "cid_eq c d \<longleftrightarrow> as_slice c = as_slice d" if "cid_wf c" "cid_wf d" for c d
    using that by (auto simp: cid_eq_def as_slice_def cid_wf_def dest: arg_cong [of _ _ length])
  moreover have "\<exists>c. try_from_slice s = Some c \<and> as_slice c = s \<and> cid_hash_input c = s" if len: "length s \<le> 20"
  proof -
    obtain c where c: "try_from_slice s = Some c" using len by (simp add: try_from_slice_def max_cid_len_def)
    with as_slice_try_from_slice [OF c] show ?thesis by (simp add: as_slice_def cid_hash_input_def)
  qed
  ultimately show ?thesis
    by (auto simp: try_from_slice_def max_cid_len_def cid_hash_input_def as_slice_def)
qed

lemma cid_slice_roundtrip_witness:
  "\<exists>c. try_from_slice [1, 2, 3] = Some c \<and> as_slice c = [1, 2, 3] \<and> cid_hash_input c = [1, 2, 3]"
  using cid_slice_roundtrip [of "[1, 2, 3]"] by simp

text \<open>\<open>try_from_iter\<close> agrees with \<open>try_from_slice\<close> on fewer than 20 bytes but refuses an
  iterator of exactly 20, although its documentation reserves \<open>None\<close> for more than
  \<open>MAX_CID_LEN\<close> bytes.\<close>

lemma cid_iter_rejects_full_length:
  "(length bytes < 20 \<longrightarrow> try_from_iter bytes = try_from_slice bytes \<and> try_from_iter bytes \<noteq> None) \<and>
   (length bytes = 20 \<longrightarrow> try_from_iter bytes = None \<and> try_from_slice bytes \<noteq> None)"
  by (auto simp: try_from_iter_eq max_cid_len_def try_from_slice_def)

lemma cid_iter_rejects_full_length_witness:
  "try_from_iter (replicate 20 7) = None \<and> try_from_slice (replicate 20 7) \<noteq> None"
  using cid_iter_rejects_full_length [of "replicate 20 7"] by simp

text \<open>\<open>RandomIdGenerator\<close> meets the contract of the trait: it generates an ID of its length
  from whatever the random source gives, accepts it, and can decrypt and parse it.\<close>

lemma random_generator_contract:
  assumes "random_new len = Inr g" and "fills rng"
  shows "\<exists>c d. random_generate g rng = Inr c \<and> length (as_slice c) = random_cid_len g \<and>
     random_validate g c \<and> random_decrypt g c = Inr d \<and> random_parse g d = Inr ()"
  using random_id.own_id_accepted [of g rng] assms by (auto simp: random_new_def rust_simps)

lemma random_generator_contract_witness:
  "\<exists>c d. random_generate \<lparr>rid_length = 8\<rparr> (\<lambda>n. replicate n 9) = Inr c \<and>
     length (as_slice c) = random_cid_len \<lparr>rid_length = 8\<rparr> \<and> random_validate \<lparr>rid_length = 8\<rparr> c \<and>
     random_decrypt \<lparr>rid_length = 8\<rparr> c = Inr d \<and> random_parse \<lparr>rid_length = 8\<rparr> d = Inr ()"
  by (rule random_generator_contract [of 8]) (simp_all add: random_new_def max_cid_len_def fills_def)

end
