(* ===== verification/Server_Cid.thy ===== *)
theory Server_Cid
  imports Connection_Id
begin

unbundle bit_operations_syntax

section \<open>Load-balancer connection identifiers\<close>

text \<open>
  Model of \<open>src/aquic-core/src/backend/cid/server.rs\<close>: building a connection ID from server ID,
  core ID and entropy, its encryption (one AES block, or a four-pass Feistel network for the
  other lengths), decryption, parsing and validation. AES (\<open>aes::Aes128\<close>) and the bit-field
  access of \<open>bitvec\<close> (\<open>store_be\<close>, \<open>load_be\<close>) are third-party code: the record \<open>cid_env\<close> holds
  them as parameters, and \<open>cid_env_ok\<close> states what their documentation promises: a block is 16
  bytes, decryption undoes encryption, and a field reads back the low bits that were stored.
  A \<open>BitSlice<u8, Msb0>\<close> is the list of its bits, the most significant bit of a byte first. The
  flag \<open>dbg\<close> is \<open>cfg!(debug_assertions)\<close>; \<open>rng n\<close> are the \<open>n\<close> bytes of the random source.
\<close>

subsection \<open>Bits of byte strings\<close>

definition bits_of_byte :: "byte \<Rightarrow> bool list" where
  "bits_of_byte w = rev (map (bit w) [0..<8])"

definition byte_of_bits :: "bool list \<Rightarrow> byte" where
  "byte_of_bits bs = horner_sum of_bool 2 (rev bs)"

definition view_bits :: "byte list \<Rightarrow> bool list" where
  "view_bits bytes = concat (map bits_of_byte bytes)"

fun raw_bytes :: "bool list \<Rightarrow> byte list" where
  "raw_bytes [] = []"
| "raw_bytes (b # bs) = byte_of_bits (take 8 (b # bs)) # raw_bytes (drop 7 bs)"

definition bits_xor :: "bool list \<Rightarrow> bool list \<Rightarrow> bool list" where
  "bits_xor xs ys = map2 (\<noteq>) xs ys"

subsection \<open>Data\<close>

record cid_env =
  encrypt_block :: "byte list \<Rightarrow> byte list"
  decrypt_block :: "byte list \<Rightarrow> byte list"
  store_be :: "nat \<Rightarrow> nat \<Rightarrow> bool list"
  load_be :: "bool list \<Rightarrow> nat"

definition cid_env_ok :: "cid_env \<Rightarrow> bool" where
  "cid_env_ok env \<longleftrightarrow> (\<forall>b. length b = 16 \<longrightarrow> length (encrypt_block env b) = 16 \<and>
       decrypt_block env (encrypt_block env b) = b) \<and>
     (\<forall>n v. length (store_be env n v) = n \<and> load_be env (store_be env n v) = v mod 2 ^ n)"

definition aes_block_size :: nat where
  "aes_block_size = 16"

definition aes_block_size_bits :: nat where
  "aes_block_size_bits = aes_block_size * 8"

record server_id_meta =
  meta_server_id :: nat
  meta_core_id :: "nat option"

record server_generator =
  first_octet :: byte
  server_id :: nat
  server_id_bits :: nat
  core_id :: nat
  core_id_bits :: nat
  entropy_bits :: nat
  cipher :: cid_env

definition server_new ::
  "cid_env \<Rightarrow> byte \<Rightarrow> nat \<Rightarrow> nat \<Rightarrow> nat \<Rightarrow> nat \<Rightarrow> nat \<Rightarrow> panic + server_generator" where
  "server_new env octet sid cid sid_bits cid_bits ent_bits =
     and_then (panic_if (\<not> (8 \<le> sid_bits \<and> sid_bits \<le> 32)) AssertFailed) (\<lambda>_.
     and_then (panic_if (\<not> cid_bits \<le> 16) AssertFailed) (\<lambda>_.
     and_then (panic_if (\<not> 32 \<le> ent_bits) AssertFailed) (\<lambda>_.
       Inr \<lparr>first_octet = octet, server_id = sid, server_id_bits = sid_bits, core_id = cid,
            core_id_bits = cid_bits, entropy_bits = ent_bits, cipher = env\<rparr>)))"

subsection \<open>The four-pass cipher\<close>

definition aes_ecb :: "cid_env \<Rightarrow> bool list \<Rightarrow> bool list" where
  "aes_ecb env val = view_bits (encrypt_block env (raw_bytes val))"

definition truncate_left :: "bool list \<Rightarrow> nat \<Rightarrow> bool list" where
  "truncate_left val bits = take bits val @ replicate (length val - bits) False"

definition truncate_right :: "bool list \<Rightarrow> nat \<Rightarrow> bool list" where
  "truncate_right val bits =
     (let zero_count = aes_block_size_bits - bits
      in replicate zero_count False @ drop zero_count val)"

definition expand_left :: "bool list \<Rightarrow> byte \<Rightarrow> byte \<Rightarrow> bool list" where
  "expand_left msb_val lsb_byte second_lsb_byte =
     (let s = raw_bytes msb_val;
          s = s[aes_block_size - 1 := s ! (aes_block_size - 1) OR lsb_byte];
          s = s[aes_block_size - 2 := s ! (aes_block_size - 2) OR second_lsb_byte]
      in view_bits s)"

definition expand_right :: "bool list \<Rightarrow> byte \<Rightarrow> byte \<Rightarrow> bool list" where
  "expand_right lsb_val msb_byte second_msb_byte =
     view_bits ((raw_bytes lsb_val)[0 := msb_byte, 1 := second_msb_byte])"

definition pass_right :: "cid_env \<Rightarrow> byte \<Rightarrow> nat \<Rightarrow> byte \<Rightarrow> bool list \<Rightarrow> bool list \<Rightarrow> bool list" where
  "pass_right env cid_len right_bits index left right =
     bits_xor right (truncate_right (aes_ecb env (expand_left left cid_len index)) right_bits)"

definition pass_left :: "cid_env \<Rightarrow> byte \<Rightarrow> nat \<Rightarrow> byte \<Rightarrow> bool list \<Rightarrow> bool list \<Rightarrow> bool list" where
  "pass_left env cid_len left_bits index left right =
     bits_xor left (truncate_left (aes_ecb env (expand_right right cid_len index)) left_bits)"

function encrypt_passes ::
  "cid_env \<Rightarrow> byte \<Rightarrow> nat \<Rightarrow> nat \<Rightarrow> nat \<Rightarrow> bool list \<times> bool list \<Rightarrow> bool list \<times> bool list" where
  "encrypt_passes env cid_len left_bits right_bits index (left, right) =
     (if index < 4 then
        let right = pass_right env cid_len right_bits (of_nat (index + 1)) left right;
            left = pass_left env cid_len left_bits (of_nat (index + 2)) left right
        in encrypt_passes env cid_len left_bits right_bits (index + 2) (left, right)
      else (left, right))"
  by pat_completeness auto
termination
  by (relation "measure (\<lambda>(_, _, _, _, index, _). 4 - index)") auto

function decrypt_passes ::
  "cid_env \<Rightarrow> byte \<Rightarrow> nat \<Rightarrow> nat \<Rightarrow> nat \<Rightarrow> bool list \<times> bool list \<Rightarrow> bool list \<times> bool list" where
  "decrypt_passes env cid_len left_bits right_bits index (left, right) =
     (if 0 < index then
        let left = pass_left env cid_len left_bits (of_nat index) left right;
            right = pass_right env cid_len right_bits (of_nat (index - 1)) left right
        in decrypt_passes env cid_len left_bits right_bits (index - 2) (left, right)
      else (left, right))"
  by pat_completeness auto
termination
  by (relation "measure (\<lambda>(_, _, _, _, index, _). index)") auto

declare encrypt_passes.simps [simp del] decrypt_passes.simps [simp del]

definition load_halves :: "nat \<Rightarrow> nat \<Rightarrow> bool list \<Rightarrow> bool list \<times> bool list" where
  "load_halves left_bits right_bits plaintext =
     (splice 0 (take left_bits plaintext) (replicate aes_block_size_bits False),
      splice (aes_block_size_bits - right_bits) (drop left_bits plaintext)
        (replicate aes_block_size_bits False))"

definition store_halves :: "nat \<Rightarrow> nat \<Rightarrow> bool list \<times> bool list \<Rightarrow> byte list" where
  "store_halves left_bits right_bits lr =
     raw_bytes (take left_bits (fst lr) @ drop (aes_block_size_bits - right_bits) (snd lr))"

definition encrypt_four_pass :: "bool \<Rightarrow> cid_env \<Rightarrow> byte list \<Rightarrow> panic + byte list" where
  "encrypt_four_pass dbg env plaintext =
     (if plaintext = [] then Inr []
      else let cid_len = of_nat (length plaintext) + 1;
               bits = length (view_bits plaintext);
               left_bits = bits div 2;
               right_bits = bits - left_bits
           in and_then (panic_if (dbg \<and> \<not> (left_bits \<le> aes_block_size_bits \<and> right_bits \<le> aes_block_size_bits))
                          DebugAssertFailed) (\<lambda>_.
              and_then (panic_if (\<not> (left_bits \<le> aes_block_size_bits \<and> right_bits \<le> aes_block_size_bits))
                          IndexOutOfBounds) (\<lambda>_.
              Inr (store_halves left_bits right_bits
                (encrypt_passes env cid_len left_bits right_bits 0
                  (load_halves left_bits right_bits (view_bits plaintext)))))))"

definition decrypt_four_pass :: "cid_env \<Rightarrow> byte list \<Rightarrow> panic + byte list" where
  "decrypt_four_pass env plaintext =
     (if plaintext = [] then Inr []
      else let cid_len = of_nat (length plaintext) + 1;
               bits = length (view_bits plaintext);
               left_bits = bits div 2;
               right_bits = bits - left_bits
           in and_then (panic_if (\<not> (left_bits \<le> aes_block_size_bits \<and> right_bits \<le> aes_block_size_bits))
                          IndexOutOfBounds) (\<lambda>_.
              Inr (store_halves left_bits right_bits
                (decrypt_passes env cid_len left_bits right_bits 4
                  (load_halves left_bits right_bits (view_bits plaintext))))))"

subsection \<open>The generator\<close>

definition random_bits :: "(nat \<Rightarrow> byte list) \<Rightarrow> nat \<Rightarrow> bool list" where
  "random_bits rng bits_len = take bits_len (view_bits (rng (div_ceil bits_len 8)))"

definition build_cid :: "server_generator \<Rightarrow> (nat \<Rightarrow> byte list) \<Rightarrow> panic + connection_id" where
  "build_cid g rng =
     (let cid = (replicate max_cid_len 0)[0 := first_octet g];
          plaintext = view_bits cid;
          offset = 8;
          plaintext = splice offset (store_be (cipher g) (server_id_bits g) (server_id g)) plaintext;
          offset = offset + server_id_bits g;
          plaintext = (if core_id_bits g \<noteq> 0
            then splice offset (store_be (cipher g) (core_id_bits g) (core_id g)) plaintext else plaintext);
          offset = (if core_id_bits g \<noteq> 0 then offset + core_id_bits g else offset);
          ent_bits = min (max_cid_len * 8 - offset) (entropy_bits g)
      in and_then (panic_if (\<not> 32 \<le> ent_bits) AssertFailed) (\<lambda>_.
         let plaintext = splice offset (random_bits rng ent_bits) plaintext;
             offset = offset + ent_bits
         in case try_from_slice (take (div_ceil offset 8) (raw_bytes plaintext)) of
              None \<Rightarrow> Inl UnwrapNone
            | Some c \<Rightarrow> Inr c))"

definition server_encrypt :: "bool \<Rightarrow> server_generator \<Rightarrow> connection_id \<Rightarrow> panic + connection_id" where
  "server_encrypt dbg g cid =
     (let bytes = as_slice cid in
      if length bytes = 17
      then Inr (as_mut_slice cid (take 1 bytes @ encrypt_block (cipher g) (drop 1 bytes)))
      else and_then (encrypt_four_pass dbg (cipher g) (drop 1 bytes)) (\<lambda>e.
             Inr (as_mut_slice cid (take 1 bytes @ e))))"

definition server_generate :: "bool \<Rightarrow> server_generator \<Rightarrow> (nat \<Rightarrow> byte list) \<Rightarrow> panic + connection_id" where
  "server_generate dbg g rng = and_then (build_cid g rng) (server_encrypt dbg g)"

definition server_cid_len :: "server_generator \<Rightarrow> nat" where
  "server_cid_len g = min (div_ceil (server_id_bits g + core_id_bits g + entropy_bits g) 8) max_cid_len"

definition server_decrypt :: "server_generator \<Rightarrow> connection_id \<Rightarrow> panic + connection_id" where
  "server_decrypt g cid =
     (let bytes = as_slice cid in
      if length bytes = 17
      then Inr (as_mut_slice cid (take 1 bytes @ decrypt_block (cipher g) (drop 1 bytes)))
      else if bytes = [] then Inl IndexOutOfBounds
      else and_then (decrypt_four_pass (cipher g) (drop 1 bytes)) (\<lambda>e.
             Inr (as_mut_slice cid (take 1 bytes @ e))))"

definition server_parse :: "server_generator \<Rightarrow> connection_id \<Rightarrow> id_error + server_id_meta" where
  "server_parse g cid =
     (if cid_is_empty cid then Inl \<lparr>original = cid, detail = ''CID is empty''\<rparr>
      else let plaintext = view_bits (drop 1 (as_slice cid));
               required_bits = server_id_bits g + core_id_bits g
           in if length plaintext < required_bits
              then Inl \<lparr>original = cid, detail = ''Expected CID to have more bits''\<rparr>
              else Inr \<lparr>meta_server_id = load_be (cipher g) (slice 0 (server_id_bits g) plaintext),
                meta_core_id = (if 0 < core_id_bits g
                  then Some (load_be (cipher g) (slice (server_id_bits g)
                         (server_id_bits g + core_id_bits g) plaintext))
                  else None)\<rparr>)"

definition server_validate :: "server_generator \<Rightarrow> connection_id \<Rightarrow> bool" where
  "server_validate g cid =
     (if server_cid_len g \<noteq> cid_size cid then False
      else case server_parse g cid of
             Inr meta \<Rightarrow>
               if meta_server_id meta \<noteq> server_id g then False
               else if core_id_bits g \<noteq> 0 \<and> meta_core_id meta \<noteq> Some (core_id g) then False
               else True
           | Inl _ \<Rightarrow> False)"

subsection \<open>Round trips between bytes and bits\<close>

lemma length_bits_of_byte [simp]: "length (bits_of_byte w) = 8"
  by (simp add: bits_of_byte_def)

lemma byte_of_bits_of_byte [simp]: "byte_of_bits (bits_of_byte w) = w"
  by (simp add: byte_of_bits_def bits_of_byte_def horner_sum_bit_eq_take_bit take_bit_word_eq_self)

lemma bits_of_byte_of_bits:
  assumes "length bs = 8"
  shows "bits_of_byte (byte_of_bits bs) = bs"
proof -
  have "map (bit (byte_of_bits bs)) [0..<8] = rev bs"
    using assms by (intro nth_equalityI) (simp_all add: byte_of_bits_def bit_horner_sum_bit_word_iff)
  then show ?thesis unfolding bits_of_byte_def by (metis rev_rev_ident)
qed

lemma length_view_bits [simp]: "length (view_bits bytes) = 8 * length bytes"
  by (induction bytes) (simp_all add: view_bits_def)

lemma view_bits_Cons: "view_bits (b # bytes) = bits_of_byte b @ view_bits bytes"
  by (simp add: view_bits_def)

lemma view_bits_append: "view_bits (xs @ ys) = view_bits xs @ view_bits ys"
  by (simp add: view_bits_def)

lemma raw_bytes_append8:
  assumes "length xs = 8"
  shows "raw_bytes (xs @ ys) = byte_of_bits xs # raw_bytes ys"
proof -
  obtain b bs where "xs = b # bs" using assms by (cases xs) auto
  with assms show ?thesis by simp
qed

lemma raw_view_bits [simp]: "raw_bytes (view_bits bytes) = bytes"
  by (induction bytes) (simp_all add: view_bits_def raw_bytes_append8)

lemma view_raw_bytes:
  assumes "length bits = 8 * k"
  shows "view_bits (raw_bytes bits) = bits" and "length (raw_bytes bits) = k"
proof -
  have "view_bits (raw_bytes bits) = bits \<and> length (raw_bytes bits) = k" using assms
  proof (induction k arbitrary: bits)
    case 0
    then show ?case by (simp add: view_bits_def)
  next
    case (Suc k)
    let ?xs = "take 8 bits" and ?ys = "drop 8 bits"
    have len: "length ?xs = 8" "length ?ys = 8 * k" using Suc.prems by auto
    have "raw_bytes (?xs @ ?ys) = byte_of_bits ?xs # raw_bytes ?ys" by (rule raw_bytes_append8 [OF len(1)])
    with Suc.IH [OF len(2)] bits_of_byte_of_bits [OF len(1)] show ?case
      by (simp add: view_bits_Cons)
  qed
  then show "view_bits (raw_bytes bits) = bits" and "length (raw_bytes bits) = k" by auto
qed

lemma length_bits_xor [simp]: "length (bits_xor xs ys) = min (length xs) (length ys)"
  by (simp add: bits_xor_def)

lemma bits_xor_nth: "i < length xs \<Longrightarrow> i < length ys \<Longrightarrow> bits_xor xs ys ! i \<longleftrightarrow> xs ! i \<noteq> ys ! i"
  by (simp add: bits_xor_def)

lemma bits_xor_cancel:
  assumes "length xs = length ys"
  shows "bits_xor (bits_xor xs ys) ys = xs"
  using assms by (intro nth_equalityI) (auto simp: bits_xor_nth)

subsection \<open>The Feistel network\<close>

definition left_half :: "nat \<Rightarrow> bool list \<Rightarrow> bool" where
  "left_half bits l \<longleftrightarrow> length l = 128 \<and> drop bits l = replicate (128 - bits) False"

definition right_half :: "nat \<Rightarrow> bool list \<Rightarrow> bool" where
  "right_half bits r \<longleftrightarrow> length r = 128 \<and> take (128 - bits) r = replicate (128 - bits) False"

lemmas half_defs = aes_block_size_bits_def aes_block_size_def

lemma length_aes_ecb:
  assumes "cid_env_ok env" and "length val = 128"
  shows "length (aes_ecb env val) = 128"
  using assms view_raw_bytes(2) [of val 16] by (simp add: aes_ecb_def cid_env_ok_def)

lemma length_expand:
  assumes "length val = 128"
  shows "length (expand_left val a b) = 128" and "length (expand_right val a b) = 128"
  using view_raw_bytes(2) [of val 16] assms by (simp_all add: expand_left_def expand_right_def Let_def)

lemma bits_xor_zeros: "bits_xor (replicate n False) (replicate n False) = replicate n False"
  by (simp add: bits_xor_def zip_replicate1 map_replicate_const)

lemma bits_xor_take_drop:
  "drop n (bits_xor xs ys) = bits_xor (drop n xs) (drop n ys)"
  "take n (bits_xor xs ys) = bits_xor (take n xs) (take n ys)"
  by (simp_all add: bits_xor_def drop_map drop_zip take_map take_zip)

lemma pass_right_facts:
  assumes "cid_env_ok env" and "left_half lb l" and "right_half rb r" and "rb \<le> 128"
  shows "right_half rb (pass_right env n rb i l r)"
    and "pass_right env n rb i l (pass_right env n rb i l r) = r"
proof -
  let ?t = "truncate_right (aes_ecb env (expand_left l n i)) rb"
  have "length (aes_ecb env (expand_left l n i)) = 128"
    using assms(1,2) by (simp add: length_aes_ecb length_expand left_half_def)
  then have t: "length ?t = 128" "take (128 - rb) ?t = replicate (128 - rb) False"
    using assms(4) by (simp_all add: truncate_right_def half_defs Let_def)
  show "right_half rb (pass_right env n rb i l r)"
    using t assms(3) by (simp add: right_half_def pass_right_def bits_xor_take_drop bits_xor_zeros)
  show "pass_right env n rb i l (pass_right env n rb i l r) = r"
    unfolding pass_right_def using t assms(3) by (intro bits_xor_cancel) (simp add: right_half_def)
qed

lemma pass_left_facts:
  assumes "cid_env_ok env" and "left_half lb l" and "right_half rb r" and "lb \<le> 128"
  shows "left_half lb (pass_left env n lb i l r)"
    and "pass_left env n lb i (pass_left env n lb i l r) r = l"
proof -
  let ?t = "truncate_left (aes_ecb env (expand_right r n i)) lb"
  have "length (aes_ecb env (expand_right r n i)) = 128"
    using assms(1,3) by (simp add: length_aes_ecb length_expand right_half_def)
  then have t: "length ?t = 128" "drop lb ?t = replicate (128 - lb) False"
    using assms(4) by (simp_all add: truncate_left_def)
  show "left_half lb (pass_left env n lb i l r)"
    using t assms(2) by (simp add: left_half_def pass_left_def bits_xor_take_drop bits_xor_zeros)
  show "pass_left env n lb i (pass_left env n lb i l r) r = l"
    unfolding pass_left_def using t assms(2) by (intro bits_xor_cancel) (simp add: left_half_def)
qed

lemma passes_inverse:
  assumes env: "cid_env_ok env" and h: "left_half lb l" "right_half rb r" and b: "lb \<le> 128" "rb \<le> 128"
  shows "\<exists>l' r'. encrypt_passes env n lb rb 0 (l, r) = (l', r') \<and> left_half lb l' \<and> right_half rb r' \<and>
     decrypt_passes env n lb rb 4 (l', r') = (l, r)"
proof -
  define r1 where "r1 = pass_right env n rb 1 l r"
  define l1 where "l1 = pass_left env n lb 2 l r1"
  define r2 where "r2 = pass_right env n rb 3 l1 r1"
  define l2 where "l2 = pass_left env n lb 4 l1 r2"
  have r1: "right_half rb r1" "pass_right env n rb 1 l r1 = r"
    unfolding r1_def by (rule pass_right_facts [OF env h b(2)])+
  have l1: "left_half lb l1" "pass_left env n lb 2 l1 r1 = l"
    unfolding l1_def by (rule pass_left_facts [OF env h(1) r1(1) b(1)])+
  have r2: "right_half rb r2" "pass_right env n rb 3 l1 r2 = r1"
    unfolding r2_def by (rule pass_right_facts [OF env l1(1) r1(1) b(2)])+
  have l2: "left_half lb l2" "pass_left env n lb 4 l2 r2 = l1"
    unfolding l2_def by (rule pass_left_facts [OF env l1(1) r2(1) b(1)])+
  have "encrypt_passes env n lb rb 0 (l, r) = (l2, r2)"
    by (simp add: encrypt_passes.simps Let_def r1_def [symmetric] l1_def [symmetric] r2_def [symmetric]
        l2_def [symmetric])
  moreover have "decrypt_passes env n lb rb 4 (l2, r2) = (l, r)"
    by (simp add: decrypt_passes.simps Let_def r1 l1 r2 l2)
  ultimately show ?thesis using l2(1) r2(1) by blast
qed

lemma load_store_halves:
  assumes "left_half lb l" and "right_half rb r" and "lb \<le> 128" and "rb \<le> 128"
  shows "load_halves lb rb (take lb l @ drop (128 - rb) r) = (l, r)"
proof -
  have "l = take lb l @ replicate (128 - lb) False" "length l = 128"
    using assms(1) by (auto simp: left_half_def) (metis append_take_drop_id)
  moreover have "r = replicate (128 - rb) False @ drop (128 - rb) r" "length r = 128"
    using assms(2) by (auto simp: right_half_def) (metis append_take_drop_id)
  ultimately show ?thesis
    using assms(3,4) by (auto simp: load_halves_def splice_def half_defs min_def)
qed

lemma load_halves_half:
  assumes "length p = lb + rb" and "lb \<le> 128" and "rb \<le> 128"
  shows "left_half lb (fst (load_halves lb rb p))" and "right_half rb (snd (load_halves lb rb p))"
    and "store_halves lb rb (load_halves lb rb p) = raw_bytes p"
  using assms
  by (auto simp: load_halves_def left_half_def right_half_def store_halves_def splice_def half_defs min_def)

lemma four_pass_eqs:
  assumes "bytes \<noteq> []" and "length bytes \<le> 32"
  defines "h \<equiv> 4 * length bytes" and "n \<equiv> of_nat (length bytes) + 1"
  shows "encrypt_four_pass dbg env bytes =
      Inr (store_halves h h (encrypt_passes env n h h 0 (load_halves h h (view_bits bytes))))"
    and "decrypt_four_pass env bytes =
      Inr (store_halves h h (decrypt_passes env n h h 4 (load_halves h h (view_bits bytes))))"
proof -
  have "(8 * length bytes) div 2 = h" "8 * length bytes - h = h" "h \<le> 128" using assms(2) by (simp_all add: h_def)
  with assms(1) show "encrypt_four_pass dbg env bytes =
      Inr (store_halves h h (encrypt_passes env n h h 0 (load_halves h h (view_bits bytes))))"
    "decrypt_four_pass env bytes =
      Inr (store_halves h h (decrypt_passes env n h h 4 (load_halves h h (view_bits bytes))))"
    by (simp_all add: encrypt_four_pass_def decrypt_four_pass_def half_defs Let_def n_def)
qed

lemma four_pass_roundtrip:
  assumes env: "cid_env_ok env" and len: "length bytes \<le> 32"
  shows "\<exists>e. encrypt_four_pass dbg env bytes = Inr e \<and> length e = length bytes \<and>
     decrypt_four_pass env e = Inr bytes"
proof (cases "bytes = []")
  case True
  then show ?thesis by (simp add: encrypt_four_pass_def decrypt_four_pass_def)
next
  case False
  let ?k = "length bytes" and ?h = "4 * length bytes"
  let ?n = "of_nat (length bytes) + 1 :: byte"
  have h: "?h \<le> 128" "length (view_bits bytes) = ?h + ?h" using len by auto
  obtain l r where lr: "load_halves ?h ?h (view_bits bytes) = (l, r)" by fastforce
  note load = load_halves_half [OF h(2,1,1), unfolded lr fst_conv snd_conv]
  obtain l' r' where e: "encrypt_passes env ?n ?h ?h 0 (l, r) = (l', r')" "left_half ?h l'" "right_half ?h r'"
      "decrypt_passes env ?n ?h ?h 4 (l', r') = (l, r)"
    using passes_inverse [OF env load(1,2) h(1,1)] by blast
  let ?bits = "take ?h l' @ drop (128 - ?h) r'"
  have bits: "length ?bits = 8 * ?k" using e(2,3) h by (simp add: left_half_def right_half_def)
  note raw = view_raw_bytes [OF bits]
  have sh: "store_halves ?h ?h (l', r') = raw_bytes ?bits" by (simp add: store_halves_def half_defs)
  have "encrypt_four_pass dbg env bytes = Inr (raw_bytes ?bits)"
    using four_pass_eqs(1) [OF False len] lr e(1) sh by simp
  moreover have "decrypt_four_pass env (raw_bytes ?bits) = Inr bytes"
  proof -
    have ne: "raw_bytes ?bits \<noteq> []" "length (raw_bytes ?bits) \<le> 32" using raw(2) False len by auto
    show ?thesis
      unfolding four_pass_eqs(2) [OF ne] raw
      using load_store_halves [OF e(2,3) h(1,1)] e(4) load(3) by simp
  qed
  ultimately show ?thesis using raw(2) by blast
qed

lemma as_slice_as_mut_slice:
  assumes "cid_wf c" and "length bytes = cid_size c"
  shows "as_slice (as_mut_slice c bytes) = bytes" and "cid_wf (as_mut_slice c bytes)"
    and "cid_size (as_mut_slice c bytes) = cid_size c"
  using assms by (auto simp: as_slice_def as_mut_slice_def cid_wf_def slice_def splice_def)

lemma length_as_slice: "cid_wf c \<Longrightarrow> length (as_slice c) = cid_size c"
  by (simp add: as_slice_def cid_wf_def)

lemma server_encrypt_decrypt:
  assumes env: "cid_env_ok (cipher g)" and c: "cid_wf c" "0 < cid_size c"
  shows "\<exists>e d. server_encrypt dbg g c = Inr e \<and> cid_wf e \<and> cid_size e = cid_size c \<and>
     take 1 (as_slice e) = take 1 (as_slice c) \<and> server_decrypt g e = Inr d \<and> as_slice d = as_slice c \<and>
     cid_wf d \<and> cid_size d = cid_size c"
proof -
  let ?b = "as_slice c"
  have len: "length ?b = cid_size c" "cid_size c \<le> 20"
    using c length_as_slice by (auto simp: cid_wf_def max_cid_len_def)
  obtain x where x: "length x = length ?b - 1" and
    enc: "server_encrypt dbg g c = Inr (as_mut_slice c (take 1 ?b @ x))" and
    dec: "\<And>e. as_slice e = take 1 ?b @ x \<Longrightarrow> server_decrypt g e = Inr (as_mut_slice e ?b)"
  proof (cases "length ?b = 17")
    case True
    let ?x = "encrypt_block (cipher g) (drop 1 ?b)"
    have "length ?x = 16" "decrypt_block (cipher g) ?x = drop 1 ?b"
      using env True by (auto simp: cid_env_ok_def)
    with True show thesis
      using that [of ?x] by (simp add: server_encrypt_def server_decrypt_def Let_def)
  next
    case False
    have "length (drop 1 ?b) \<le> 32" using len by simp
    from four_pass_roundtrip [OF env this, of dbg]
    obtain x where x: "encrypt_four_pass dbg (cipher g) (drop 1 ?b) = Inr x" "length x = length (drop 1 ?b)"
      "decrypt_four_pass (cipher g) x = Inr (drop 1 ?b)"
      by blast
    have "take 1 ?b @ x \<noteq> []" using len c(2) by auto
    with False x len c(2) show thesis
      using that [of x] by (auto simp: server_encrypt_def server_decrypt_def Let_def)
  qed
  let ?e = "as_mut_slice c (take 1 ?b @ x)"
  have lx: "length (take 1 ?b @ x) = cid_size c" using x len c(2) by auto
  note e = as_slice_as_mut_slice [OF c(1) lx]
  have lb: "length ?b = cid_size ?e" using len e(3) by simp
  note d = as_slice_as_mut_slice [OF e(2) lb]
  have "take 1 (as_slice ?e) = take 1 ?b" using e(1) len c(2) by (cases ?b) auto
  with enc dec [OF e(1)] e d show ?thesis by auto
qed

subsection \<open>Building and parsing\<close>

definition server_ok :: "server_generator \<Rightarrow> bool" where
  "server_ok g \<longleftrightarrow> 8 \<le> server_id_bits g \<and> server_id_bits g \<le> 32 \<and> core_id_bits g \<le> 16 \<and>
     32 \<le> entropy_bits g \<and> cid_env_ok (cipher g)"

lemma server_new_ok:
  "server_new env octet sid cid sid_bits cid_bits ent_bits = Inr g \<Longrightarrow> cid_env_ok env \<Longrightarrow> server_ok g \<and>
     server_id g = sid \<and> core_id g = cid \<and> server_id_bits g = sid_bits \<and> core_id_bits g = cid_bits \<and>
     entropy_bits g = ent_bits \<and> first_octet g = octet"
  by (auto simp: server_new_def server_ok_def rust_simps)

definition payload_bits :: "server_generator \<Rightarrow> nat" where
  "payload_bits g = 8 + server_id_bits g + core_id_bits g + min (152 - (server_id_bits g + core_id_bits g)) (entropy_bits g)"

lemma length_random_bits:
  assumes "fills rng"
  shows "length (random_bits rng n) = n"
proof -
  have "n \<le> div_ceil n 8 * 8" using div_ceil_mult_ge [of 8 n] by simp
  with assms show ?thesis by (simp add: random_bits_def fills_def min_def)
qed

lemma splice_prefix:
  assumes "i + length ys \<le> length xs"
  shows "take i (splice i ys xs) = take i xs" and "slice i (i + length ys) (splice i ys xs) = ys"
  using assms by (simp_all add: splice_def slice_def)

lemma slice_drop_take: "slice i j xs = drop i (take j xs)"
  by (simp add: slice_def drop_take)

lemma view_bits_drop: "view_bits (drop k bytes) = drop (8 * k) (view_bits bytes)"
proof (induction k arbitrary: bytes)
  case (Suc k)
  then show ?case by (cases bytes) (auto simp: view_bits_Cons view_bits_def [of "[]"])
qed simp

lemma view_bits_take: "view_bits (take k bytes) = take (8 * k) (view_bits bytes)"
proof (induction k arbitrary: bytes)
  case (Suc k)
  then show ?case by (cases bytes) (auto simp: view_bits_Cons view_bits_def [of "[]"])
qed (simp add: view_bits_def)

lemma build_cid_ok:
  assumes ok: "server_ok g" and rng: "fills rng"
  obtains c where "build_cid g rng = Inr c" and "cid_wf c" and "cid_size c = div_ceil (payload_bits g) 8"
    and "slice 0 (server_id_bits g) (view_bits (drop 1 (as_slice c))) =
         store_be (cipher g) (server_id_bits g) (server_id g)"
    and "core_id_bits g \<noteq> 0 \<Longrightarrow>
         slice (server_id_bits g) (server_id_bits g + core_id_bits g) (view_bits (drop 1 (as_slice c))) =
         store_be (cipher g) (core_id_bits g) (core_id g)"
proof -
  let ?S = "server_id_bits g" and ?C = "core_id_bits g"
  let ?E = "min (152 - (?S + ?C)) (entropy_bits g)"
  let ?sb = "store_be (cipher g) ?S (server_id g)" and ?cb = "store_be (cipher g) ?C (core_id g)"
  let ?p0 = "view_bits ((replicate max_cid_len 0)[0 := first_octet g])"
  let ?p1 = "splice 8 ?sb ?p0"
  define p2 where "p2 = (if ?C \<noteq> 0 then splice (8 + ?S) ?cb ?p1 else ?p1)"
  define p3 where "p3 = splice (8 + ?S + ?C) (random_bits rng ?E) p2"
  let ?k = "div_ceil (payload_bits g) 8"
  have b: "8 \<le> ?S" "?S \<le> 32" "?C \<le> 16" "32 \<le> ?E" using ok by (auto simp: server_ok_def)
  have lens: "length ?sb = ?S" "length ?cb = ?C" using ok by (auto simp: server_ok_def cid_env_ok_def)
  have l0: "length ?p0 = 160" by (simp add: max_cid_len_def)
  have l1: "length ?p1 = 160" using l0 lens b by simp
  have l2: "length p2 = 160" using l1 lens b by (simp add: p2_def)
  have lE: "8 + ?S + ?C + length (random_bits rng ?E) \<le> length p2" using l2 b length_random_bits [OF rng] by simp
  have l3: "length p3 = 160" unfolding p3_def using length_splice [OF lE] l2 by simp
  have pre3: "take (8 + ?S + ?C) p3 = take (8 + ?S + ?C) p2" unfolding p3_def by (rule splice_prefix(1) [OF lE])
  have pre2: "take (8 + ?S) p2 = take (8 + ?S) ?p1"
    using splice_prefix(1) [of "8 + ?S" ?cb ?p1] l1 lens b by (simp add: p2_def)
  have sid: "slice 8 (8 + ?S) p3 = ?sb"
  proof -
    have "take (8 + ?S) p3 = take (8 + ?S) ?p1"
      using pre2 arg_cong [OF pre3, of "take (8 + ?S)"] by (simp add: min_def)
    then have "slice 8 (8 + ?S) p3 = slice 8 (8 + ?S) ?p1" by (simp only: slice_drop_take)
    with splice_prefix(2) [of 8 ?sb ?p0] l0 lens b show ?thesis by simp
  qed
  have cid: "slice (8 + ?S) (8 + ?S + ?C) p3 = ?cb" if "?C \<noteq> 0"
  proof -
    have "slice (8 + ?S) (8 + ?S + ?C) p3 = slice (8 + ?S) (8 + ?S + ?C) p2"
      using pre3 by (simp only: slice_drop_take)
    with that splice_prefix(2) [of "8 + ?S" ?cb ?p1] l1 lens b show ?thesis by (simp add: p2_def)
  qed
  have pb: "payload_bits g = 8 + ?S + ?C + ?E" by (simp add: payload_bits_def)
  have k: "?k \<le> 20" "8 + ?S + ?C \<le> 8 * ?k"
    using div_ceil_le_iff [of 8 "payload_bits g" 20] div_ceil_mult_ge [of 8 "payload_bits g"] b pb by auto
  have raw: "view_bits (raw_bytes p3) = p3" "length (raw_bytes p3) = 20" using view_raw_bytes [of p3 20] l3 by auto
  obtain c where c: "try_from_slice (take ?k (raw_bytes p3)) = Some c"
    using k(1) raw(2) by (simp add: try_from_slice_def max_cid_len_def)
  have ent: "min (max_cid_len * 8 - (if ?C \<noteq> 0 then 8 + ?S + ?C else 8 + ?S)) (entropy_bits g) = ?E"
    by (simp add: max_cid_len_def)
  have "build_cid g rng = Inr c"
    using c b(4) pb unfolding build_cid_def Let_def ent
    by (cases "?C = 0") (simp_all add: p2_def p3_def)
  moreover have slc: "as_slice c = take ?k (raw_bytes p3)" "cid_wf c" using as_slice_try_from_slice [OF c] by auto
  moreover have "cid_size c = ?k" using length_as_slice [OF slc(2)] slc(1) k raw(2) by simp
  moreover have v: "view_bits (drop 1 (as_slice c)) = drop 8 (take (8 * ?k) p3)"
    by (simp add: slc(1) view_bits_drop view_bits_take raw(1))
  moreover have "slice i j (view_bits (drop 1 (as_slice c))) = slice (8 + i) (8 + j) p3" if "8 + j \<le> 8 * ?k" for i j
    unfolding v using that by (simp add: slice_drop_take min_def drop_take add.commute)
  from this [of ?S 0] this [of "?S + ?C" ?S] sid cid k
  have "slice 0 ?S (view_bits (drop 1 (as_slice c))) = ?sb"
    "?C \<noteq> 0 \<Longrightarrow> slice ?S (?S + ?C) (view_bits (drop 1 (as_slice c))) = ?cb"
    by (simp_all add: add.assoc)
  ultimately show thesis using that by blast
qed

lemma generate_ok:
  assumes ok: "server_ok g" and rng: "fills rng"
  obtains c d where "server_generate dbg g rng = Inr c" and "server_decrypt g c = Inr d" and "cid_wf c"
    and "cid_size c = div_ceil (payload_bits g) 8" and "cid_size d = cid_size c"
    and "server_parse g d = Inr \<lparr>meta_server_id = server_id g mod 2 ^ server_id_bits g,
           meta_core_id = (if core_id_bits g = 0 then None else Some (core_id g mod 2 ^ core_id_bits g))\<rparr>"
proof -
  obtain b where b: "build_cid g rng = Inr b" "cid_wf b" "cid_size b = div_ceil (payload_bits g) 8"
    and sid: "slice 0 (server_id_bits g) (view_bits (drop 1 (as_slice b))) =
         store_be (cipher g) (server_id_bits g) (server_id g)"
    and cid: "core_id_bits g \<noteq> 0 \<Longrightarrow>
         slice (server_id_bits g) (server_id_bits g + core_id_bits g) (view_bits (drop 1 (as_slice b))) =
         store_be (cipher g) (core_id_bits g) (core_id g)"
    using build_cid_ok [OF ok rng] by metis
  have env: "cid_env_ok (cipher g)" using ok by (simp add: server_ok_def)
  have pb: "payload_bits g \<le> cid_size b * 8" using b(3) div_ceil_mult_ge [of 8 "payload_bits g"] by simp
  have "8 \<le> payload_bits g" by (simp add: payload_bits_def)
  then have "0 < cid_size b" using pb by (cases "cid_size b") auto
  from server_encrypt_decrypt [OF env b(2) this, of dbg]
  obtain c d where e: "server_encrypt dbg g b = Inr c" "cid_wf c" "cid_size c = cid_size b"
      "server_decrypt g c = Inr d" "as_slice d = as_slice b" "cid_size d = cid_size b" by blast
  have "server_id_bits g + core_id_bits g \<le> length (view_bits (drop 1 (as_slice b)))"
    using pb length_as_slice [OF b(2)] by (simp add: payload_bits_def)
  moreover have "\<not> cid_is_empty d" using e(6) \<open>0 < cid_size b\<close> by (simp add: cid_is_empty_def)
  ultimately have "server_parse g d = Inr \<lparr>meta_server_id = server_id g mod 2 ^ server_id_bits g,
           meta_core_id = (if core_id_bits g = 0 then None else Some (core_id g mod 2 ^ core_id_bits g))\<rparr>"
    using sid cid e(5) env by (auto simp: server_parse_def Let_def cid_env_ok_def)
  with that e b show thesis by (simp add: server_generate_def)
qed

lemma cid_len_short:
  assumes "server_id_bits g + core_id_bits g + entropy_bits g \<le> 152"
  shows "div_ceil (payload_bits g) 8 = server_cid_len g + 1"
proof -
  let ?n = "server_id_bits g + core_id_bits g + entropy_bits g"
  have pb: "payload_bits g = ?n + 8" using assms by (simp add: payload_bits_def)
  have "div_ceil (payload_bits g) 8 = div_ceil ?n 8 + 1" unfolding pb by (auto simp: div_ceil_def)
  moreover have "div_ceil ?n 8 \<le> 19" using assms div_ceil_le_iff [of 8 ?n 19] by simp
  ultimately show ?thesis by (simp add: server_cid_len_def max_cid_len_def)
qed

subsection \<open>Properties\<close>

text \<open>the four-pass Feistel network is invertible on every input a connection ID can give it:
  encrypting keeps the length and decrypting returns the plaintext, for any block cipher.\<close>

lemma four_pass_inverse:
  assumes "cid_env_ok env" and "length bytes \<le> 19"
  shows "\<exists>e. encrypt_four_pass dbg env bytes = Inr e \<and> length e = length bytes \<and>
     decrypt_four_pass env e = Inr bytes"
  by (rule four_pass_roundtrip [OF assms(1)]) (use assms(2) in simp)

definition xor_env :: cid_env where
  "xor_env = \<lparr>encrypt_block = map (\<lambda>b. b XOR 90), decrypt_block = map (\<lambda>b. b XOR 90),
     store_be = (\<lambda>n v. map (\<lambda>i. odd (v div 2 ^ i)) (rev [0..<n])),
     load_be = (\<lambda>bs. horner_sum of_bool 2 (rev bs))\<rparr>"

lemma xor_env_ok: "cid_env_ok xor_env"
proof -
  have "horner_sum of_bool 2 (map (\<lambda>i. odd (v div 2 ^ i)) [0..<n]) = v mod 2 ^ n" for v n :: nat
    using horner_sum_bit_eq_take_bit [of v n] by (simp add: bit_iff_odd take_bit_eq_mod cong: map_cong)
  then show ?thesis by (simp add: cid_env_ok_def xor_env_def comp_def xor.assoc rev_map)
qed

lemma four_pass_inverse_witness:
  "\<exists>e. encrypt_four_pass True xor_env [1, 2, 3, 4, 5, 6] = Inr e \<and> length e = length [1, 2, 3, 4, 5, 6 :: byte] \<and>
     decrypt_four_pass xor_env e = Inr [1, 2, 3, 4, 5, 6]"
  by (rule four_pass_inverse [OF xor_env_ok]) simp

text \<open>C8: routing information survives the wire. For every generator \<open>new\<close> accepts, \<open>generate\<close>
  never panics, and decrypting and parsing what it generates returns the server ID and the
  core ID (cut to their configured widths).\<close>

theorem server_cid_roundtrip:
  assumes "server_new env octet sid cid sid_bits cid_bits ent_bits = Inr g" and "cid_env_ok env" and "fills rng"
  shows "\<exists>c d. server_generate dbg g rng = Inr c \<and> server_decrypt g c = Inr d \<and>
     server_parse g d = Inr \<lparr>meta_server_id = sid mod 2 ^ sid_bits,
       meta_core_id = (if cid_bits = 0 then None else Some (cid mod 2 ^ cid_bits))\<rparr>"
proof -
  from server_new_ok [OF assms(1,2)] have ok: "server_ok g" and eqs: "server_id g = sid" "core_id g = cid"
    "server_id_bits g = sid_bits" "core_id_bits g = cid_bits" by auto
  show ?thesis by (rule generate_ok [OF ok assms(3), of dbg]) (auto simp: eqs)
qed

definition demo_generator :: server_generator where
  "demo_generator = \<lparr>first_octet = 3, server_id = 77, server_id_bits = 16, core_id = 5,
     core_id_bits = 8, entropy_bits = 40, cipher = xor_env\<rparr>"

lemma demo_generator_new: "server_new xor_env 3 77 5 16 8 40 = Inr demo_generator"
  by (simp add: server_new_def demo_generator_def)

theorem server_cid_roundtrip_witness:
  "\<exists>c d. server_generate True demo_generator (\<lambda>n. replicate n 9) = Inr c \<and> server_decrypt demo_generator c = Inr d \<and>
     server_parse demo_generator d = Inr \<lparr>meta_server_id = 77, meta_core_id = Some 5\<rparr>"
  using server_cid_roundtrip [OF demo_generator_new xor_env_ok, of "\<lambda>n. replicate n 9" True]
  by (simp add: fills_def)

text \<open>\<open>cid_len\<close> forgets the first octet. Unless the configured bits already fill the 20 bytes, it
  is one less than the length of every generated ID, and \<open>validate\<close> refuses the generator's own
  IDs, encrypted or decrypted, although the trait forbids false negatives.\<close>

lemma server_validate_rejects_own:
  assumes "server_new env octet sid cid sid_bits cid_bits ent_bits = Inr g" and "cid_env_ok env" and "fills rng"
    and "sid_bits + cid_bits + ent_bits \<le> 152"
  shows "\<exists>c d. server_generate dbg g rng = Inr c \<and> server_decrypt g c = Inr d \<and>
     cid_size c = server_cid_len g + 1 \<and> \<not> server_validate g c \<and> \<not> server_validate g d"
proof -
  from server_new_ok [OF assms(1,2)] have ok: "server_ok g"
    and eqs: "server_id_bits g = sid_bits" "core_id_bits g = cid_bits" "entropy_bits g = ent_bits" by auto
  obtain c d where c: "server_generate dbg g rng = Inr c" "server_decrypt g c = Inr d"
      "cid_size c = div_ceil (payload_bits g) 8" "cid_size d = cid_size c"
    by (rule generate_ok [OF ok assms(3), of dbg])
  moreover have "div_ceil (payload_bits g) 8 = server_cid_len g + 1"
    using cid_len_short [of g] assms(4) by (simp add: eqs)
  ultimately show ?thesis by (simp add: server_validate_def)
qed

lemma server_validate_rejects_own_witness:
  "\<exists>c d. server_generate True demo_generator (\<lambda>n. replicate n 9) = Inr c \<and> server_decrypt demo_generator c = Inr d \<and>
     cid_size c = server_cid_len demo_generator + 1 \<and> \<not> server_validate demo_generator c \<and>
     \<not> server_validate demo_generator d"
  by (rule server_validate_rejects_own [OF demo_generator_new xor_env_ok]) (simp_all add: fills_def)

end
