(* ===== verification/Key_Crypto.thy ===== *)
theory Key_Crypto
  imports Aquic_Prelude
begin

section \<open>Key rotation, authenticated encryption and message authentication\<close>

text \<open>
  Model of \<open>src/aquic-core/src/util/crypto.rs\<close> (\<open>KeyStore\<close>, \<open>RandomKey\<close>), \<open>aead.rs\<close> (\<open>Aead\<close> and
  its \<open>Cipher\<close>) and \<open>hmac.rs\<close> (\<open>Hmac\<close>). The algorithms behind the traits \<open>AeadInOut\<close> and \<open>Mac\<close>
  are third-party code: the records \<open>aead_alg\<close> and \<open>mac_alg\<close> hold them as parameters, with what
  their documentation promises as \<open>aead_correct\<close>, \<open>aead_binds_key\<close> and \<open>mac_size_ok\<close>. A cipher or
  MAC instance is its key. A key store is what \<open>active\<close>, \<open>passive\<close> and \<open>revision\<close> return at the
  moment, so that replacing the field is a rotation by the application. Both \<open>Aead\<close> and \<open>Hmac\<close>
  cache keys by revision; the locale \<open>key_cache\<close> states that contract and proves its
  consequence once.
\<close>

subsection \<open>Key stores\<close>

type_synonym key = "byte list"

record key_store =
  active_key :: key
  passive_keys :: "key list"
  revision :: nat

definition store_keys :: "key_store \<Rightarrow> key list" where
  "store_keys ks = active_key ks # passive_keys ks"

definition random_key :: "key \<Rightarrow> key_store" where
  "random_key k = \<lparr>active_key = k, passive_keys = [k], revision = 0\<rparr>"

subsection \<open>\<open>Aead\<close>\<close>

record aead_alg =
  seal :: "key \<Rightarrow> byte list \<Rightarrow> byte list \<Rightarrow> byte list \<Rightarrow> byte list"
  unseal :: "key \<Rightarrow> byte list \<Rightarrow> byte list \<Rightarrow> byte list \<Rightarrow> byte list + byte list"
  nonce_len :: nat
  auth_tag_len :: nat

definition aead_correct :: "aead_alg \<Rightarrow> bool" where
  "aead_correct alg \<longleftrightarrow> (\<forall>k n a p. length n = nonce_len alg \<longrightarrow>
     unseal alg k n a (seal alg k n a p) = Inr p \<and>
     length (seal alg k n a p) = length p + auth_tag_len alg)"

definition aead_binds_key :: "aead_alg \<Rightarrow> key set \<Rightarrow> bool" where
  "aead_binds_key alg ks \<longleftrightarrow> (\<forall>k \<in> ks. \<forall>k' \<in> ks. \<forall>n a p. k \<noteq> k' \<longrightarrow>
     (\<exists>dirty. unseal alg k' n a (seal alg k n a p) = Inl dirty))"

definition cipher_encrypt_and_pack ::
  "aead_alg \<Rightarrow> key \<Rightarrow> (nat \<Rightarrow> byte list) \<Rightarrow> byte list \<Rightarrow> byte list \<Rightarrow> byte list" where
  "cipher_encrypt_and_pack alg k rng associated_data plaintext =
     (let nonce = rng (nonce_len alg) in seal alg k nonce associated_data plaintext @ nonce)"

definition cipher_unpack_and_decrypt ::
  "aead_alg \<Rightarrow> key \<Rightarrow> byte list \<Rightarrow> byte list \<Rightarrow> byte list + byte list" where
  "cipher_unpack_and_decrypt alg k associated_data ciphertext =
     (if length ciphertext < auth_tag_len alg + nonce_len alg then Inl ciphertext
      else let split = length ciphertext - nonce_len alg
           in unseal alg k (drop split ciphertext) associated_data (take split ciphertext))"

record aead =
  ciphers :: "key list"
  aead_store :: key_store
  aead_revision :: nat

definition aead_update_ciphers :: "aead \<Rightarrow> aead" where
  "aead_update_ciphers a = a\<lparr>ciphers := active_key (aead_store a) # passive_keys (aead_store a),
     aead_revision := revision (aead_store a)\<rparr>"

definition aead_compare_and_update :: "aead \<Rightarrow> aead" where
  "aead_compare_and_update a =
     (if aead_revision a \<noteq> revision (aead_store a) then aead_update_ciphers a else a)"

definition aead_new :: "key_store \<Rightarrow> aead" where
  "aead_new ks = aead_update_ciphers \<lparr>ciphers = [], aead_store = ks, aead_revision = 0\<rparr>"

definition aead_encrypt_and_pack ::
  "aead_alg \<Rightarrow> (nat \<Rightarrow> byte list) \<Rightarrow> aead \<Rightarrow> byte list \<Rightarrow> byte list \<Rightarrow> panic + (byte list \<times> aead)" where
  "aead_encrypt_and_pack alg rng a associated_data plaintext =
     (let a1 = aead_compare_and_update a in
      case ciphers a1 of
        [] \<Rightarrow> Inl IndexOutOfBounds
      | k # _ \<Rightarrow> Inr (cipher_encrypt_and_pack alg k rng associated_data plaintext, a1))"

fun try_ciphers :: "aead_alg \<Rightarrow> key list \<Rightarrow> byte list \<Rightarrow> byte list \<Rightarrow> byte list \<Rightarrow> bool \<times> byte list" where
  "try_ciphers alg [] associated_data ciphertext fallback = (False, ciphertext)"
| "try_ciphers alg (k # ks) associated_data ciphertext fallback =
     (case cipher_unpack_and_decrypt alg k associated_data ciphertext of
        Inr plaintext \<Rightarrow> (True, plaintext)
      | Inl dirty \<Rightarrow> try_ciphers alg ks associated_data fallback fallback)"

definition aead_unpack_and_decrypt ::
  "aead_alg \<Rightarrow> aead \<Rightarrow> byte list \<Rightarrow> byte list \<Rightarrow> bool \<times> byte list \<times> aead" where
  "aead_unpack_and_decrypt alg a associated_data ciphertext =
     (let a1 = aead_compare_and_update a;
          r = try_ciphers alg (ciphers a1) associated_data ciphertext ciphertext
      in (fst r, snd r, a1))"

subsection \<open>\<open>Hmac\<close>\<close>

record mac_alg =
  mac :: "key \<Rightarrow> byte list \<Rightarrow> byte list"
  output_size :: nat

definition mac_size_ok :: "mac_alg \<Rightarrow> bool" where
  "mac_size_ok alg \<longleftrightarrow> (\<forall>k d. length (mac alg k d) = output_size alg)"

record hmac =
  macs :: "key list"
  hmac_store :: key_store
  hmac_revision :: nat

definition hmac_update_keys :: "hmac \<Rightarrow> hmac" where
  "hmac_update_keys h = h\<lparr>macs := active_key (hmac_store h) # passive_keys (hmac_store h),
     hmac_revision := revision (hmac_store h)\<rparr>"

definition hmac_compare_and_update :: "hmac \<Rightarrow> hmac" where
  "hmac_compare_and_update h =
     (if hmac_revision h \<noteq> revision (hmac_store h) then hmac_update_keys h else h)"

definition hmac_new :: "key_store \<Rightarrow> hmac" where
  "hmac_new ks = hmac_update_keys \<lparr>macs = [], hmac_store = ks, hmac_revision = 0\<rparr>"

definition hmac_compute :: "mac_alg \<Rightarrow> hmac \<Rightarrow> byte list \<Rightarrow> byte list \<Rightarrow> panic + (byte list \<times> hmac)" where
  "hmac_compute alg h data out =
     (let h1 = hmac_compare_and_update h in
      case macs h1 of [] \<Rightarrow> Inl IndexOutOfBounds | k # _ \<Rightarrow> Inr (out @ mac alg k data, h1))"

definition hmac_verify_fn ::
  "mac_alg \<Rightarrow> hmac \<Rightarrow> byte list \<Rightarrow> byte list \<Rightarrow> (byte list \<Rightarrow> byte list) \<Rightarrow> bool \<times> hmac" where
  "hmac_verify_fn alg h data expected_hmac transform =
     (let h1 = hmac_compare_and_update h
      in (list_ex (\<lambda>k. transform (mac alg k data) = expected_hmac) (macs h1), h1))"

definition hmac_verify :: "mac_alg \<Rightarrow> hmac \<Rightarrow> byte list \<Rightarrow> byte list \<Rightarrow> bool \<times> hmac" where
  "hmac_verify alg h data expected_hmac =
     (if length expected_hmac \<noteq> output_size alg then (False, h)
      else hmac_verify_fn alg h data expected_hmac (\<lambda>x. x))"

subsection \<open>The cache of keys\<close>

locale key_cache =
  fixes cached :: "'s \<Rightarrow> key list"
    and cached_revision :: "'s \<Rightarrow> nat"
    and cache_store :: "'s \<Rightarrow> key_store"
    and refresh :: "'s \<Rightarrow> 's"
  assumes refresh_stale: "cached_revision s \<noteq> revision (cache_store s) \<Longrightarrow>
      cached (refresh s) = store_keys (cache_store s)"
    and refresh_fresh: "cached_revision s = revision (cache_store s) \<Longrightarrow> refresh s = s"
begin

definition in_sync :: "'s \<Rightarrow> bool" where
  "in_sync s \<longleftrightarrow> (cached_revision s = revision (cache_store s) \<longrightarrow> cached s = store_keys (cache_store s))"

lemma refresh_keys: "in_sync s \<Longrightarrow> cached (refresh s) = store_keys (cache_store s)"
  using refresh_stale refresh_fresh by (cases "cached_revision s = revision (cache_store s)") (simp_all add: in_sync_def)

lemma in_sync_rotate: "cached_revision s \<noteq> revision (cache_store s) \<Longrightarrow> in_sync s"
  by (simp add: in_sync_def)

end

interpretation aead_cache: key_cache ciphers aead_revision aead_store aead_compare_and_update
  by unfold_locales (simp_all add: aead_compare_and_update_def aead_update_ciphers_def store_keys_def)

interpretation hmac_cache: key_cache macs hmac_revision hmac_store hmac_compare_and_update
  by unfold_locales (simp_all add: hmac_compare_and_update_def hmac_update_keys_def store_keys_def)

lemma new_in_sync: "aead_cache.in_sync (aead_new ks)" "hmac_cache.in_sync (hmac_new ks)"
  by (simp_all add: aead_cache.in_sync_def hmac_cache.in_sync_def aead_new_def hmac_new_def
      aead_update_ciphers_def hmac_update_keys_def store_keys_def)

subsection \<open>Lemmas\<close>

lemma unpack_packed:
  assumes "fills rng" and "aead_correct alg"
  shows "cipher_unpack_and_decrypt alg k' ad (cipher_encrypt_and_pack alg k rng ad' p) =
    unseal alg k' (rng (nonce_len alg)) ad (seal alg k (rng (nonce_len alg)) ad' p)"
  using assms by (simp add: cipher_unpack_and_decrypt_def cipher_encrypt_and_pack_def aead_correct_def fills_def Let_def)

lemma try_ciphers_hit:
  fixes ad p :: "byte list"
  assumes "fills rng" and "aead_correct alg" and "aead_binds_key alg K" and "k \<in> K" and "set ks \<subseteq> K" and "k \<in> set ks"
  defines "c \<equiv> cipher_encrypt_and_pack alg k rng ad p"
  shows "try_ciphers alg ks ad c c = (True, p)"
  using assms(5,6)
proof (induction ks)
  case (Cons k' ks)
  have n: "length (rng (nonce_len alg)) = nonce_len alg" using assms(1) by (simp add: fills_def)
  note u = unpack_packed [OF assms(1,2), of k' ad k ad p, folded c_def]
  show ?case
  proof (cases "k' = k")
    case True
    with u assms(2) n show ?thesis by (simp add: aead_correct_def)
  next
    case False
    then obtain dirty where "unseal alg k' (rng (nonce_len alg)) ad (seal alg k (rng (nonce_len alg)) ad p) = Inl dirty"
      using assms(3,4) Cons.prems unfolding aead_binds_key_def by (metis list.set_intros(1) subsetD)
    with u False Cons show ?thesis by simp
  qed
qed simp

lemma try_ciphers_miss:
  assumes "\<And>k. k \<in> set ks \<Longrightarrow> \<exists>d. cipher_unpack_and_decrypt alg k ad c = Inl d"
  shows "try_ciphers alg ks ad c c = (False, c)"
  using assms
proof (induction ks)
  case (Cons k ks)
  then obtain d where "cipher_unpack_and_decrypt alg k ad c = Inl d" by auto
  with Cons show ?case by simp
qed simp

lemma try_ciphers_restores: "try_ciphers alg ks ad c c = (False, c') \<Longrightarrow> c' = c"
  by (induction ks) (auto split: sum.splits)

lemma aead_encrypt_keys:
  assumes "aead_cache.in_sync a"
  shows "aead_encrypt_and_pack alg rng a ad p =
      Inr (cipher_encrypt_and_pack alg (active_key (aead_store a)) rng ad p, aead_compare_and_update a)"
  using aead_cache.refresh_keys [OF assms] by (simp add: aead_encrypt_and_pack_def store_keys_def Let_def)

lemma aead_decrypt_keys:
  assumes "aead_cache.in_sync a"
  shows "aead_unpack_and_decrypt alg a ad c =
    (let r = try_ciphers alg (store_keys (aead_store a)) ad c c in (fst r, snd r, aead_compare_and_update a))"
  using aead_cache.refresh_keys [OF assms] by (simp add: aead_unpack_and_decrypt_def)

lemma aead_update_facts:
  "aead_store (aead_compare_and_update a) = aead_store a"
  "aead_cache.in_sync a \<Longrightarrow> aead_cache.in_sync (aead_compare_and_update a)"
  "aead_revision (aead_compare_and_update a) = revision (aead_store a)"
  by (auto simp: aead_compare_and_update_def aead_update_ciphers_def aead_cache.in_sync_def store_keys_def)

lemma hmac_update_facts:
  "hmac_store (hmac_compare_and_update h) = hmac_store h"
  "hmac_cache.in_sync h \<Longrightarrow> hmac_cache.in_sync (hmac_compare_and_update h)"
  "hmac_revision (hmac_compare_and_update h) = revision (hmac_store h)"
  by (auto simp: hmac_compare_and_update_def hmac_update_keys_def hmac_cache.in_sync_def store_keys_def)

lemma hmac_compute_keys:
  assumes "hmac_cache.in_sync h"
  shows "hmac_compute alg h data out = Inr (out @ mac alg (active_key (hmac_store h)) data, hmac_compare_and_update h)"
  using hmac_cache.refresh_keys [OF assms] by (simp add: hmac_compute_def store_keys_def Let_def)

lemma rotate_in_sync:
  assumes "aead_cache.in_sync a" and "ks = aead_store a \<or> revision ks \<noteq> revision (aead_store a)"
  shows "aead_cache.in_sync ((aead_compare_and_update a)\<lparr>aead_store := ks\<rparr>)"
proof (cases "ks = aead_store a")
  case True
  then have "(aead_compare_and_update a)\<lparr>aead_store := ks\<rparr> = aead_compare_and_update a"
    using aead_update_facts(1) [of a] by simp
  with aead_update_facts(2) [OF assms(1)] show ?thesis by simp
next
  case False
  with assms(2) aead_update_facts(3) [of a] show ?thesis by (simp add: aead_cache.in_sync_def)
qed

lemma hmac_rotate_in_sync:
  assumes "hmac_cache.in_sync h" and "ks = hmac_store h \<or> revision ks \<noteq> revision (hmac_store h)"
  shows "hmac_cache.in_sync ((hmac_compare_and_update h)\<lparr>hmac_store := ks\<rparr>)"
proof (cases "ks = hmac_store h")
  case True
  then have "(hmac_compare_and_update h)\<lparr>hmac_store := ks\<rparr> = hmac_compare_and_update h"
    using hmac_update_facts(1) [of h] by simp
  with hmac_update_facts(2) [OF assms(1)] show ?thesis by simp
next
  case False
  with assms(2) hmac_update_facts(3) [of h] show ?thesis by (simp add: hmac_cache.in_sync_def)
qed

subsection \<open>Properties\<close>

text \<open>C9: key rotation never loses data. A buffer packed under the active key decrypts to the same
  plaintext after the application replaced the key store (with a new revision), as long as the
  old key is still active or passive; the cached ciphers are refreshed on the way.\<close>

theorem aead_rotation_roundtrip:
  assumes "aead_correct alg" and "aead_binds_key alg (set (store_keys ks) \<union> set (store_keys ks'))" and "fills rng"
    and "ks' = ks \<or> revision ks' \<noteq> revision ks" and "active_key ks \<in> set (store_keys ks')"
  shows "\<exists>c a a'. aead_encrypt_and_pack alg rng (aead_new ks) ad p = Inr (c, a) \<and>
     length c = length p + auth_tag_len alg + nonce_len alg \<and>
     aead_unpack_and_decrypt alg (a\<lparr>aead_store := ks'\<rparr>) ad c = (True, p, a') \<and> ciphers a' = store_keys ks'"
proof -
  let ?a = "aead_new ks" and ?c = "cipher_encrypt_and_pack alg (active_key ks) rng ad p"
  let ?b = "(aead_compare_and_update ?a)\<lparr>aead_store := ks'\<rparr>"
  have st: "aead_store ?a = ks" by (simp add: aead_new_def aead_update_ciphers_def)
  note sync = rotate_in_sync [OF new_in_sync(1) [of ks], of ks', unfolded st, OF assms(4)]
  have "try_ciphers alg (store_keys ks') ad ?c ?c = (True, p)"
    using assms(5) by (intro try_ciphers_hit [OF assms(3,1,2)]) (auto simp: store_keys_def)
  then have "aead_unpack_and_decrypt alg ?b ad ?c = (True, p, aead_compare_and_update ?b)"
    using aead_decrypt_keys [OF sync, of alg ad ?c] by simp
  moreover have "ciphers (aead_compare_and_update ?b) = store_keys ks'"
    using aead_cache.refresh_keys [OF sync] by simp
  moreover have "aead_encrypt_and_pack alg rng ?a ad p = Inr (?c, aead_compare_and_update ?a)"
    using aead_encrypt_keys [OF new_in_sync(1)] st by simp
  moreover have "length ?c = length p + auth_tag_len alg + nonce_len alg"
    using assms(1,3) by (simp add: cipher_encrypt_and_pack_def aead_correct_def fills_def Let_def)
  ultimately show ?thesis by blast
qed

definition toy_tag :: "key \<Rightarrow> byte list \<Rightarrow> byte list" where
  "toy_tag k a = [hd (k @ [0]), hd (a @ [0])]"

definition toy_aead :: aead_alg where
  "toy_aead = \<lparr>seal = (\<lambda>k n a p. p @ toy_tag k a),
     unseal = (\<lambda>k n a c. if drop (length c - 2) c = toy_tag k a then Inr (take (length c - 2) c) else Inl c),
     nonce_len = 3, auth_tag_len = 2\<rparr>"

lemma toy_seal: "length (p @ toy_tag k a) - 2 = length p"
  by (simp add: toy_tag_def)

lemma toy_aead_correct: "aead_correct toy_aead"
  unfolding aead_correct_def toy_aead_def aead_alg.simps toy_seal by (simp add: toy_tag_def)

lemma toy_aead_rejects:
  "toy_tag k a \<noteq> toy_tag k' a' \<Longrightarrow> \<exists>d. unseal toy_aead k' n a' (seal toy_aead k n a p) = Inl d"
  unfolding toy_aead_def aead_alg.simps toy_seal by simp

lemma toy_aead_binds: "aead_binds_key toy_aead {[1], [2], [3]}"
  unfolding aead_binds_key_def by (intro ballI allI impI toy_aead_rejects) (auto simp: toy_tag_def)

theorem aead_rotation_roundtrip_witness:
  "\<exists>c a a'. aead_encrypt_and_pack toy_aead (\<lambda>n. replicate n 9) (aead_new \<lparr>active_key = [1], passive_keys = [], revision = 0\<rparr>)
       [4] [5, 6] = Inr (c, a) \<and> length c = length [5, 6 :: byte] + auth_tag_len toy_aead + nonce_len toy_aead \<and>
     aead_unpack_and_decrypt toy_aead (a\<lparr>aead_store := \<lparr>active_key = [2], passive_keys = [[3], [1]], revision = 1\<rparr>\<rparr>) [4] c =
       (True, [5, 6], a') \<and>
     ciphers a' = store_keys \<lparr>active_key = [2], passive_keys = [[3], [1]], revision = 1\<rparr>"
proof (rule aead_rotation_roundtrip [OF toy_aead_correct])
  show "aead_binds_key toy_aead (set (store_keys \<lparr>active_key = [1], passive_keys = [], revision = 0\<rparr>) \<union>
      set (store_keys \<lparr>active_key = [2], passive_keys = [[3], [1]], revision = 1\<rparr>))"
    using toy_aead_binds by (simp add: store_keys_def insert_commute)
qed (simp_all add: fills_def store_keys_def)

text \<open>a MAC computed under the active key verifies after a rotation that keeps the key as a passive
  one, and \<open>verify\<close> accepts nothing but a MAC of one of the keys in the store.\<close>

lemma hmac_rotation_verify:
  assumes "mac_size_ok alg" and "ks' = ks \<or> revision ks' \<noteq> revision ks" and "active_key ks \<in> set (store_keys ks')"
  shows "\<exists>h. hmac_compute alg (hmac_new ks) data [] = Inr (mac alg (active_key ks) data, h) \<and>
     fst (hmac_verify alg (h\<lparr>hmac_store := ks'\<rparr>) data (mac alg (active_key ks) data)) \<and>
     (\<forall>data' m. fst (hmac_verify alg (h\<lparr>hmac_store := ks'\<rparr>) data' m) \<longleftrightarrow>
        (\<exists>k \<in> set (store_keys ks'). m = mac alg k data'))"
proof -
  let ?h = "hmac_new ks"
  let ?h' = "(hmac_compare_and_update ?h)\<lparr>hmac_store := ks'\<rparr>"
  have st: "hmac_store ?h = ks" by (simp add: hmac_new_def hmac_update_keys_def)
  note sync = hmac_rotate_in_sync [OF new_in_sync(2) [of ks], of ks', unfolded st, OF assms(2)]
  have v: "fst (hmac_verify alg ?h' data' m) \<longleftrightarrow> (\<exists>k \<in> set (store_keys ks'). m = mac alg k data')" for data' m
    using hmac_cache.refresh_keys [OF sync] assms(1)
    by (auto simp: hmac_verify_def hmac_verify_fn_def Let_def list_ex_iff mac_size_ok_def)
  moreover have "hmac_compute alg ?h data [] = Inr (mac alg (active_key ks) data, hmac_compare_and_update ?h)"
    using hmac_compute_keys [OF new_in_sync(2)] st by simp
  ultimately show ?thesis using assms(3) by blast
qed

definition toy_mac :: mac_alg where
  "toy_mac = \<lparr>mac = (\<lambda>k d. [hd (k @ [0])]), output_size = 1\<rparr>"

lemma hmac_rotation_verify_witness:
  "\<exists>h. hmac_compute toy_mac (hmac_new \<lparr>active_key = [1], passive_keys = [], revision = 0\<rparr>) [5] [] = Inr ([1], h) \<and>
     fst (hmac_verify toy_mac (h\<lparr>hmac_store := \<lparr>active_key = [2], passive_keys = [[1]], revision = 1\<rparr>\<rparr>) [5] [1])"
proof -
  have "mac_size_ok toy_mac" "mac toy_mac [1] [5] = [1]" by (simp_all add: mac_size_ok_def toy_mac_def)
  with hmac_rotation_verify [of toy_mac "\<lparr>active_key = [2], passive_keys = [[1]], revision = 1\<rparr>"
      "\<lparr>active_key = [1], passive_keys = [], revision = 0\<rparr>" "[5]"]
  show ?thesis by (auto simp: store_keys_def)
qed

end
