(* ===== verification/Token.thy ===== *)
theory Token
  imports Key_Crypto Connection_Id
begin

unbundle bit_operations_syntax

section \<open>Address validation and stateless reset tokens\<close>

text \<open>
  Model of \<open>src/aquic-core/src/backend/token/\<close>: the token types and
  \<open>write_stateless_reset_packet\<close> (\<open>mod.rs\<close>), \<open>PaddedTokenGenerator\<close> with its three buffers
  (\<open>padded.rs\<close>) and \<open>PanicTokenGenerator\<close> (\<open>noop.rs\<close>). A \<open>SystemTime\<close> is its signed distance in
  nanoseconds from the epoch; an address is the number of its octets. The algorithms are the
  parameters of \<open>Key_Crypto\<close>; \<open>aead_binds_kind\<close> says that decryption refuses a buffer sealed
  with associated data of the other token kind, which is what its authentication tag is for.
\<close>

subsection \<open>Data\<close>

datatype ip_addr = V4 "32 word" | V6 "128 word"

datatype token_kind = RetryKind | IdentityKind

datatype token_error = Invalid | Expired token_kind int

datatype token =
    Retry (peer_original_dcid: connection_id) (token_expires_at: int)
  | Identity (token_expires_at: int)

definition expires_at :: "token \<Rightarrow> int" where
  "expires_at t = (case t of Retry _ e \<Rightarrow> e | Identity e \<Rightarrow> e)"

record token_generator =
  plaintext_buffer :: "byte list"
  associated_data_buffer :: "byte list"
  reserve_buffer :: "byte list"
  tg_aead :: aead
  tg_hmac :: hmac

definition padded_new :: "mac_alg \<Rightarrow> aead \<Rightarrow> hmac \<Rightarrow> panic + token_generator" where
  "padded_new malg a h = and_then (panic_if (output_size malg < 16) ExplicitPanic) (\<lambda>_.
     Inr \<lparr>plaintext_buffer = [], associated_data_buffer = [], reserve_buffer = [], tg_aead = a, tg_hmac = h\<rparr>)"

subsection \<open>Fields of a token\<close>

definition octets :: "ip_addr \<Rightarrow> byte list" where
  "octets ip = (case ip of V4 v4 \<Rightarrow> be_bytes 4 (unat v4) | V6 v6 \<Rightarrow> be_bytes 16 (unat v6))"

definition write_ip_addr :: "ip_addr \<Rightarrow> byte list \<Rightarrow> byte list" where
  "write_ip_addr ip out = out @ octets ip"

definition length_of_ip_addr :: "ip_addr \<Rightarrow> nat" where
  "length_of_ip_addr ip = (case ip of V4 v4 \<Rightarrow> length (be_bytes 4 (unat v4)) | V6 v6 \<Rightarrow> length (be_bytes 16 (unat v6)))"

definition write_cid :: "byte list \<Rightarrow> byte list \<Rightarrow> byte list" where
  "write_cid cid out = out @ cid"

definition write_padding :: "(nat \<Rightarrow> byte list) \<Rightarrow> nat \<Rightarrow> bool \<Rightarrow> byte list \<Rightarrow> byte list" where
  "write_padding rng len random out =
     (let zeros = out @ replicate len 0;
          filled = (if random then splice (length zeros - len) (rng len) zeros else zeros)
      in filled @ [of_nat len])"

definition write_millis :: "nat \<Rightarrow> byte list \<Rightarrow> byte list" where
  "write_millis millis out = out @ to_be_bytes millis"

definition write_kind :: "token_kind \<Rightarrow> byte list \<Rightarrow> byte list" where
  "write_kind kind out = out @ [case kind of RetryKind \<Rightarrow> 0 | IdentityKind \<Rightarrow> 255]"

definition drain_millis :: "byte list \<Rightarrow> token_error + (nat \<times> byte list)" where
  "drain_millis token =
     (if length token < 8 then Inl Invalid
      else Inr (from_be_bytes (drop (length token - 8) token), take (length token - 8) token))"

definition drain_padding :: "byte list \<Rightarrow> token_error + byte list" where
  "drain_padding token =
     (if token = [] then Inl Invalid
      else let len = unat (last token); rest = butlast token
           in if length rest < len then Inl Invalid else Inr (take (length rest - len) rest))"

definition to_millis :: "int \<Rightarrow> nat option" where
  "to_millis t = (if t < 0 then None
     else if nat (t div 1000000) \<le> u64_max then Some (nat (t div 1000000)) else None)"

definition to_systime :: "nat \<Rightarrow> int" where
  "to_systime timestamp = int timestamp * 1000000"

definition unwrap_or :: "'a option \<Rightarrow> 'a \<Rightarrow> 'a" where
  "unwrap_or x d = (case x of None \<Rightarrow> d | Some v \<Rightarrow> v)"

subsection \<open>\<open>PaddedTokenGenerator\<close>\<close>

definition write_retry_associated_data ::
  "token_generator \<Rightarrow> ip_addr \<Rightarrow> byte list \<Rightarrow> byte list \<Rightarrow> panic + token_generator" where
  "write_retry_associated_data g peer_addr scid dcid =
     (let buf = write_kind RetryKind [];
          buf = write_ip_addr peer_addr buf
      in and_then (usize_sub 16 (length_of_ip_addr peer_addr)) (\<lambda>pad.
         let buf = write_padding (\<lambda>_. []) pad False buf;
             buf = write_cid scid buf
         in and_then (usize_sub max_cid_len (length scid)) (\<lambda>pad.
            let buf = write_padding (\<lambda>_. []) pad False buf;
                buf = write_cid dcid buf
            in Inr (g\<lparr>associated_data_buffer := buf\<rparr>))))"

definition write_identity_associated_data :: "token_generator \<Rightarrow> ip_addr \<Rightarrow> token_generator" where
  "write_identity_associated_data g peer_addr =
     g\<lparr>associated_data_buffer := write_ip_addr peer_addr (write_kind IdentityKind [])\<rparr>"

definition write_retry_plaintext_data ::
  "(nat \<Rightarrow> byte list) \<Rightarrow> token_generator \<Rightarrow> byte list \<Rightarrow> int \<Rightarrow> panic + token_generator" where
  "write_retry_plaintext_data rng g original_peer_dcid expires =
     and_then (usize_sub max_cid_len (length original_peer_dcid)) (\<lambda>pad.
       let buf = write_cid original_peer_dcid [];
           buf = write_padding rng pad True buf;
           buf = write_millis (unwrap_or (to_millis expires) 0) buf
       in Inr (g\<lparr>plaintext_buffer := buf\<rparr>))"

definition write_identity_plaintext_data ::
  "(nat \<Rightarrow> byte list) \<Rightarrow> token_generator \<Rightarrow> int \<Rightarrow> token_generator" where
  "write_identity_plaintext_data rng g expires =
     (let buf = write_padding rng max_cid_len True [];
          buf = write_millis (unwrap_or (to_millis expires) 0) buf
      in g\<lparr>plaintext_buffer := buf\<rparr>)"

definition extract_retry_plaintext_data :: "token_generator \<Rightarrow> int \<Rightarrow> (token_error + token) \<times> token_generator" where
  "extract_retry_plaintext_data g now =
     (case drain_millis (plaintext_buffer g) of
        Inl e \<Rightarrow> (Inl e, g)
      | Inr (millis, buf) \<Rightarrow>
          let expires = to_systime millis; g = g\<lparr>plaintext_buffer := buf\<rparr> in
          if expires < now then (Inl (Expired RetryKind expires), g)
          else (case drain_padding buf of
                  Inl e \<Rightarrow> (Inl e, g)
                | Inr buf \<Rightarrow>
                    (case try_from_iter buf of
                       None \<Rightarrow> (Inl Invalid, g\<lparr>plaintext_buffer := []\<rparr>)
                     | Some dcid \<Rightarrow> (Inr (Retry dcid expires), g\<lparr>plaintext_buffer := []\<rparr>))))"

definition extract_identity_plaintext_data :: "token_generator \<Rightarrow> int \<Rightarrow> (token_error + token) \<times> token_generator" where
  "extract_identity_plaintext_data g now =
     (case drain_millis (plaintext_buffer g) of
        Inl e \<Rightarrow> (Inl e, g)
      | Inr (millis, buf) \<Rightarrow>
          let expires = to_systime millis; g = g\<lparr>plaintext_buffer := buf\<rparr> in
          if expires < now then (Inl (Expired IdentityKind expires), g)
          else (case drain_padding buf of
                  Inl e \<Rightarrow> (Inl e, g)
                | Inr buf \<Rightarrow>
                    if buf \<noteq> [] then (Inl Invalid, g\<lparr>plaintext_buffer := buf\<rparr>)
                    else (Inr (Identity expires), g\<lparr>plaintext_buffer := buf\<rparr>)))"

definition decrypt_plaintext :: "aead_alg \<Rightarrow> token_generator \<Rightarrow> bool \<times> token_generator" where
  "decrypt_plaintext alg g =
     (case aead_unpack_and_decrypt alg (tg_aead g) (associated_data_buffer g) (plaintext_buffer g) of
        (ok, buf, a) \<Rightarrow> (ok, g\<lparr>plaintext_buffer := buf, reserve_buffer := [], tg_aead := a\<rparr>))"

definition verify_retry_token ::
  "aead_alg \<Rightarrow> token_generator \<Rightarrow> ip_addr \<Rightarrow> byte list \<Rightarrow> byte list \<Rightarrow> int \<Rightarrow>
   panic + (token_error + token) \<times> token_generator" where
  "verify_retry_token alg g peer_addr peer_scid peer_dcid now =
     and_then (write_retry_associated_data (g\<lparr>reserve_buffer := []\<rparr>) peer_addr peer_scid peer_dcid) (\<lambda>g.
       case decrypt_plaintext alg g of
         (False, g) \<Rightarrow> Inr (Inl Invalid, g)
       | (True, g) \<Rightarrow> Inr (extract_retry_plaintext_data g now))"

definition verify_identity_token ::
  "aead_alg \<Rightarrow> token_generator \<Rightarrow> ip_addr \<Rightarrow> int \<Rightarrow> (token_error + token) \<times> token_generator" where
  "verify_identity_token alg g peer_addr now =
     (case decrypt_plaintext alg (write_identity_associated_data (g\<lparr>reserve_buffer := []\<rparr>) peer_addr) of
        (False, g) \<Rightarrow> (Inl Invalid, g)
      | (True, g) \<Rightarrow> extract_identity_plaintext_data g now)"

definition seal_plaintext ::
  "aead_alg \<Rightarrow> (nat \<Rightarrow> byte list) \<Rightarrow> token_generator \<Rightarrow> panic + (byte list \<times> token_generator)" where
  "seal_plaintext alg rng g =
     and_then (aead_encrypt_and_pack alg rng (tg_aead g) (associated_data_buffer g) (plaintext_buffer g))
       (\<lambda>(buf, a). Inr (buf, g\<lparr>plaintext_buffer := buf, tg_aead := a\<rparr>))"

definition generate_retry_token ::
  "aead_alg \<Rightarrow> (nat \<Rightarrow> byte list) \<Rightarrow> token_generator \<Rightarrow> ip_addr \<Rightarrow> byte list \<Rightarrow> byte list \<Rightarrow> byte list \<Rightarrow> int \<Rightarrow>
   panic + (byte list option \<times> token_generator)" where
  "generate_retry_token alg rng g peer_addr peer_scid peer_dcid server_new_scid expires =
     (if max_cid_len < length peer_scid \<or> max_cid_len < length peer_dcid \<or> max_cid_len < length server_new_scid
      then Inr (None, g)
      else and_then (write_retry_associated_data g peer_addr peer_scid server_new_scid) (\<lambda>g.
           and_then (write_retry_plaintext_data rng g peer_dcid expires) (\<lambda>g.
           and_then (seal_plaintext alg rng g) (\<lambda>(token, g). Inr (Some token, g)))))"

definition generate_identity_token ::
  "aead_alg \<Rightarrow> (nat \<Rightarrow> byte list) \<Rightarrow> token_generator \<Rightarrow> ip_addr \<Rightarrow> int \<Rightarrow> panic + (byte list \<times> token_generator)" where
  "generate_identity_token alg rng g peer_addr expires =
     seal_plaintext alg rng (write_identity_plaintext_data rng (write_identity_associated_data g peer_addr) expires)"

definition generate_reset_token ::
  "mac_alg \<Rightarrow> token_generator \<Rightarrow> byte list \<Rightarrow> panic + (byte list \<times> token_generator)" where
  "generate_reset_token malg g server_scid =
     and_then (hmac_compute malg (tg_hmac g) server_scid []) (\<lambda>(out, h).
     and_then (panic_if (length out < 16) IndexOutOfBounds) (\<lambda>_.
       Inr (slice 0 16 out, g\<lparr>plaintext_buffer := out, tg_hmac := h\<rparr>)))"

definition verify_token ::
  "aead_alg \<Rightarrow> token_generator \<Rightarrow> ip_addr \<Rightarrow> byte list \<Rightarrow> byte list \<Rightarrow> byte list \<Rightarrow> int \<Rightarrow>
   panic + (token_error + token) \<times> token_generator" where
  "verify_token alg g peer_addr peer_scid peer_dcid token now =
     (if token = [] then Inr (Inl Invalid, g)
      else if max_cid_len < length peer_scid \<or> max_cid_len < length peer_dcid then Inr (Inl Invalid, g)
      else (case verify_identity_token alg (g\<lparr>plaintext_buffer := token\<rparr>) peer_addr now of
              (Inr t, g) \<Rightarrow> Inr (Inr t, g)
            | (Inl (Expired k e), g) \<Rightarrow> Inr (Inl (Expired k e), g)
            | (Inl Invalid, g) \<Rightarrow>
                verify_retry_token alg (g\<lparr>plaintext_buffer := token\<rparr>) peer_addr peer_scid peer_dcid now))"

subsection \<open>\<open>PanicTokenGenerator\<close>\<close>

definition panic_generate_retry_token :: "panic + byte list option" where
  "panic_generate_retry_token = Inl ExplicitPanic"

definition panic_verify_token :: "panic + (token_error + token)" where
  "panic_verify_token = Inl ExplicitPanic"

subsection \<open>Stateless reset packets\<close>

text \<open>\<open>random_range\<close> and \<open>random\<close> are the arguments \<open>pick\<close> (a choice from a non-empty range) and
  \<open>first\<close>; \<open>out\<close> is the output slice, returned as written. The two subtractions follow the profile \<open>dbg\<close>.\<close>

definition write_stateless_reset_packet ::
  "bool \<Rightarrow> (nat \<Rightarrow> nat \<Rightarrow> nat) \<Rightarrow> byte \<Rightarrow> (nat \<Rightarrow> byte list) \<Rightarrow> nat \<Rightarrow> nat \<Rightarrow> byte list \<Rightarrow> byte list \<Rightarrow>
   panic + (nat option \<times> byte list)" where
  "write_stateless_reset_packet dbg pick first rng peer_packet_len max_packet_len reset_token out =
     (if peer_packet_len < 21 then Inr (None, out)
      else and_then (profile_sub dbg peer_packet_len (1 + 16 + 1)) (\<lambda>a.
           and_then (profile_sub dbg max_packet_len (1 + 16)) (\<lambda>b.
           if min a b < 4 then Inr (None, out)
           else let unpredictable_length = pick 4 (min a b);
                    packet_length = 1 + unpredictable_length + 16
                in if length out < packet_length then Inr (None, out)
                   else let out = out[0 := (first AND 0x3F) OR 0x40];
                            out = splice 1 (rng unpredictable_length) out;
                            offset = 1 + unpredictable_length;
                            out = splice offset reset_token out
                        in Inr (Some (offset + length reset_token), out))))"

subsection \<open>Layout of the buffers\<close>

definition aead_binds_kind :: "aead_alg \<Rightarrow> key set \<Rightarrow> bool" where
  "aead_binds_kind alg ks \<longleftrightarrow> (\<forall>k \<in> ks. \<forall>k' \<in> ks. \<forall>n x x' a a' p. x \<noteq> x' \<longrightarrow>
     (\<exists>dirty. unseal alg k' n (x' # a') (seal alg k n (x # a) p) = Inl dirty))"

definition retry_aad :: "ip_addr \<Rightarrow> byte list \<Rightarrow> byte list \<Rightarrow> byte list" where
  "retry_aad addr scid dcid = 0 # octets addr @ replicate (16 - length (octets addr)) 0 @
     [of_nat (16 - length (octets addr))] @ scid @ replicate (20 - length scid) 0 @ [of_nat (20 - length scid)] @ dcid"

definition token_plaintext :: "(nat \<Rightarrow> byte list) \<Rightarrow> byte list \<Rightarrow> nat \<Rightarrow> byte list" where
  "token_plaintext rng dcid millis = dcid @ rng (20 - length dcid) @ [of_nat (20 - length dcid)] @ to_be_bytes millis"

lemma length_octets: "length (octets ip) = length_of_ip_addr ip" "length_of_ip_addr ip \<le> 16"
  by (simp_all add: octets_def length_of_ip_addr_def split: ip_addr.splits)

lemma write_padding_zero: "write_padding rng n False out = out @ replicate n 0 @ [of_nat n]"
  by (simp add: write_padding_def)

lemma write_padding_random: "fills rng \<Longrightarrow> write_padding rng n True out = out @ rng n @ [of_nat n]"
  by (simp add: write_padding_def splice_def fills_def)

lemma retry_associated_data_eq:
  assumes "length scid \<le> 20"
  shows "write_retry_associated_data g addr scid dcid = Inr (g\<lparr>associated_data_buffer := retry_aad addr scid dcid\<rparr>)"
  using assms length_octets [of addr]
  by (simp add: write_retry_associated_data_def retry_aad_def write_kind_def write_ip_addr_def write_cid_def
      write_padding_zero max_cid_len_def Let_def)

lemma retry_plaintext_eq:
  assumes "length dcid \<le> 20" and "fills rng"
  shows "write_retry_plaintext_data rng g dcid e =
    Inr (g\<lparr>plaintext_buffer := token_plaintext rng dcid (unwrap_or (to_millis e) 0)\<rparr>)"
  using assms by (simp add: write_retry_plaintext_data_def token_plaintext_def write_cid_def
      write_padding_random write_millis_def max_cid_len_def Let_def)

lemma identity_plaintext_eq:
  assumes "fills rng"
  shows "write_identity_plaintext_data rng g e =
    g\<lparr>plaintext_buffer := token_plaintext rng [] (unwrap_or (to_millis e) 0)\<rparr>"
  using assms by (simp add: write_identity_plaintext_data_def token_plaintext_def
      write_padding_random write_millis_def max_cid_len_def Let_def)

lemma unat_small: "n \<le> 20 \<Longrightarrow> unat (of_nat n :: byte) = n"
  by (simp add: unat_of_nat take_bit_nat_eq_self)

lemma drain_token:
  assumes "length dcid \<le> 20" and "fills rng" and "millis \<le> u64_max"
  shows "drain_millis (token_plaintext rng dcid millis) =
      Inr (millis, dcid @ rng (20 - length dcid) @ [of_nat (20 - length dcid)])"
    and "drain_padding (dcid @ rng (20 - length dcid) @ [of_nat (20 - length dcid)]) = Inr dcid"
proof -
  let ?body = "dcid @ rng (20 - length dcid) @ [of_nat (20 - length dcid)]"
  have "token_plaintext rng dcid millis = ?body @ to_be_bytes millis" by (simp add: token_plaintext_def)
  then show "drain_millis (token_plaintext rng dcid millis) = Inr (millis, ?body)"
    using assms(3) by (simp add: drain_millis_def)
  have "length (rng (20 - length dcid)) = 20 - length dcid" using assms(2) by (simp add: fills_def)
  then show "drain_padding ?body = Inr dcid"
    using unat_small [of "20 - length dcid"] by (simp add: drain_padding_def butlast_append Let_def)
qed

lemma to_millis_ok: "to_millis e = Some m \<Longrightarrow> m \<le> u64_max"
  by (auto simp: to_millis_def split: if_splits)

subsection \<open>Sealing and opening\<close>

lemma seal_plaintext_eq:
  assumes "aead_cache.in_sync (tg_aead g)"
  shows "seal_plaintext alg rng g =
    (let c = cipher_encrypt_and_pack alg (active_key (aead_store (tg_aead g))) rng (associated_data_buffer g)
           (plaintext_buffer g)
     in Inr (c, g\<lparr>plaintext_buffer := c, tg_aead := aead_compare_and_update (tg_aead g)\<rparr>))"
  by (simp add: seal_plaintext_def aead_encrypt_keys [OF assms] Let_def)

lemma open_same:
  assumes "aead_cache.in_sync (tg_aead g)" and "aead_store (tg_aead g) = ks" and "fills rng" and "aead_correct alg"
    and "aead_binds_key alg (set (store_keys ks))"
    and "plaintext_buffer g = cipher_encrypt_and_pack alg (active_key ks) rng (associated_data_buffer g) p"
  shows "decrypt_plaintext alg g =
    (True, g\<lparr>plaintext_buffer := p, reserve_buffer := [], tg_aead := aead_compare_and_update (tg_aead g)\<rparr>)"
  using try_ciphers_hit [OF assms(3-5), of "active_key ks" "store_keys ks" "associated_data_buffer g" p]
    aead_decrypt_keys [OF assms(1)] assms(2,6)
  by (simp add: decrypt_plaintext_def store_keys_def)

lemma open_other_kind:
  assumes "aead_cache.in_sync (tg_aead g)" and "aead_store (tg_aead g) = ks" and "fills rng" and "aead_correct alg"
    and "aead_binds_kind alg (set (store_keys ks))" and "x \<noteq> x'" and "associated_data_buffer g = x' # a'"
    and "plaintext_buffer g = cipher_encrypt_and_pack alg (active_key ks) rng (x # a) p"
  shows "decrypt_plaintext alg g =
    (False, g\<lparr>reserve_buffer := [], tg_aead := aead_compare_and_update (tg_aead g)\<rparr>)"
proof -
  let ?c = "plaintext_buffer g"
  have "\<exists>d. cipher_unpack_and_decrypt alg k (x' # a') ?c = Inl d" if "k \<in> set (store_keys ks)" for k
    using assms(5,6) that unfolding assms(8) unpack_packed [OF assms(3,4)] aead_binds_kind_def
    by (auto simp: store_keys_def)
  then have "try_ciphers alg (store_keys ks) (x' # a') ?c ?c = (False, ?c)" by (rule try_ciphers_miss)
  with aead_decrypt_keys [OF assms(1)] assms(2,7) show ?thesis by (simp add: decrypt_plaintext_def)
qed

lemma verify_sealed_retry:
  fixes addr :: ip_addr
  assumes g: "aead_cache.in_sync (tg_aead g)" "aead_store (tg_aead g) = ks" and rng: "fills rng"
    and alg: "aead_correct alg" "aead_binds_key alg (set (store_keys ks))" "aead_binds_kind alg (set (store_keys ks))"
    and len: "length scid \<le> 20" "length dcid \<le> 20" "length orig \<le> 20" and ms: "millis \<le> u64_max"
  defines "token \<equiv> cipher_encrypt_and_pack alg (active_key ks) rng (retry_aad addr scid dcid) (token_plaintext rng orig millis)"
  shows "\<exists>g'. verify_token alg g addr scid dcid token now =
    Inr (if to_systime millis < now then Inl (Expired RetryKind (to_systime millis))
         else (case try_from_iter orig of None \<Rightarrow> Inl Invalid | Some c \<Rightarrow> Inr (Retry c (to_systime millis))), g')"
proof -
  let ?g1 = "write_identity_associated_data (g\<lparr>plaintext_buffer := token, reserve_buffer := []\<rparr>) addr"
  let ?g2 = "?g1\<lparr>tg_aead := aead_compare_and_update (tg_aead g)\<rparr>"
  let ?g3 = "?g2\<lparr>associated_data_buffer := retry_aad addr scid dcid\<rparr>"
  have ne: "token \<noteq> []" using alg(1) rng
    by (auto simp: token_def cipher_encrypt_and_pack_def aead_correct_def fills_def token_plaintext_def Let_def
        dest!: arg_cong [of _ _ length])
  have "decrypt_plaintext alg ?g1 = (False, ?g2)"
    using open_other_kind [of ?g1 ks rng alg 0 255 "octets addr" "tl (retry_aad addr scid dcid)"] g rng alg(1,3)
    by (simp add: write_identity_associated_data_def write_ip_addr_def write_kind_def token_def retry_aad_def)
  then have first: "verify_identity_token alg (g\<lparr>plaintext_buffer := token\<rparr>) addr now = (Inl Invalid, ?g2)"
    by (simp add: verify_identity_token_def)
  have "aead_cache.in_sync (tg_aead ?g3)" "aead_store (tg_aead ?g3) = ks"
    using g aead_update_facts by (simp_all add: write_identity_associated_data_def)
  from open_same [OF this rng alg(1,2), of "token_plaintext rng orig millis"]
  obtain a where "decrypt_plaintext alg ?g3 = (True, ?g3\<lparr>plaintext_buffer := token_plaintext rng orig millis,
      reserve_buffer := [], tg_aead := a\<rparr>)"
    by (simp add: token_def write_identity_associated_data_def)
  moreover have "write_retry_associated_data (?g2\<lparr>plaintext_buffer := token, reserve_buffer := []\<rparr>) addr scid dcid = Inr ?g3"
    using retry_associated_data_eq [OF len(1)] by (simp add: write_identity_associated_data_def)
  ultimately have second: "verify_retry_token alg (?g2\<lparr>plaintext_buffer := token\<rparr>) addr scid dcid now =
      Inr (extract_retry_plaintext_data (?g3\<lparr>plaintext_buffer := token_plaintext rng orig millis,
      reserve_buffer := [], tg_aead := a\<rparr>) now)"
    by (simp add: verify_retry_token_def)
  show ?thesis
    using ne first second len drain_token [OF len(3) rng ms]
    by (auto simp: verify_token_def max_cid_len_def extract_retry_plaintext_data_def Let_def split: option.splits)
qed

lemma verify_sealed_identity:
  fixes addr :: ip_addr
  assumes g: "aead_cache.in_sync (tg_aead g)" "aead_store (tg_aead g) = ks" and rng: "fills rng"
    and alg: "aead_correct alg" "aead_binds_key alg (set (store_keys ks))"
    and len: "length scid \<le> 20" "length dcid \<le> 20" and ms: "millis \<le> u64_max"
  defines "token \<equiv> cipher_encrypt_and_pack alg (active_key ks) rng (255 # octets addr) (token_plaintext rng [] millis)"
  shows "\<exists>g'. verify_token alg g addr scid dcid token now =
    Inr (if to_systime millis < now then Inl (Expired IdentityKind (to_systime millis))
         else Inr (Identity (to_systime millis)), g')"
proof -
  let ?g1 = "write_identity_associated_data (g\<lparr>plaintext_buffer := token, reserve_buffer := []\<rparr>) addr"
  have ne: "token \<noteq> []" using alg(1) rng
    by (auto simp: token_def cipher_encrypt_and_pack_def aead_correct_def fills_def token_plaintext_def Let_def
        dest!: arg_cong [of _ _ length])
  from open_same [of ?g1 ks rng alg "token_plaintext rng [] millis"] g rng alg
  obtain a where "decrypt_plaintext alg ?g1 = (True, ?g1\<lparr>plaintext_buffer := token_plaintext rng [] millis,
      reserve_buffer := [], tg_aead := a\<rparr>)"
    by (simp add: token_def write_identity_associated_data_def write_ip_addr_def write_kind_def)
  then have "verify_identity_token alg (g\<lparr>plaintext_buffer := token\<rparr>) addr now =
      extract_identity_plaintext_data (?g1\<lparr>plaintext_buffer := token_plaintext rng [] millis,
      reserve_buffer := [], tg_aead := a\<rparr>) now"
    by (simp add: verify_identity_token_def)
  with ne len drain_token [of "[]", OF _ rng ms] show ?thesis
    by (auto simp: verify_token_def max_cid_len_def extract_identity_plaintext_data_def Let_def)
qed

lemma padded_new_ok:
  assumes "padded_new malg (aead_new ks) h = Inr g"
  shows "aead_cache.in_sync (tg_aead g)" and "aead_store (tg_aead g) = ks"
  using assms new_in_sync(1) [of ks]
  by (auto simp: padded_new_def rust_simps aead_new_def aead_update_ciphers_def)

lemma generate_retry_eq:
  assumes g: "padded_new malg (aead_new ks) h = Inr g" and rng: "fills rng"
    and len: "length scid \<le> 20" "length dcid \<le> 20" "length orig \<le> 20"
  obtains g1 where "generate_retry_token alg rng g addr scid orig dcid e = Inr (Some
      (cipher_encrypt_and_pack alg (active_key ks) rng (retry_aad addr scid dcid)
        (token_plaintext rng orig (unwrap_or (to_millis e) 0))), g1)"
    and "aead_cache.in_sync (tg_aead g1)" and "aead_store (tg_aead g1) = ks"
proof -
  let ?g = "g\<lparr>associated_data_buffer := retry_aad addr scid dcid,
    plaintext_buffer := token_plaintext rng orig (unwrap_or (to_millis e) 0)\<rparr>"
  note ok = padded_new_ok [OF g]
  have "aead_cache.in_sync (tg_aead ?g)" using ok by simp
  from seal_plaintext_eq [OF this] ok len
  show thesis
    by (intro that [of "?g\<lparr>plaintext_buffer := cipher_encrypt_and_pack alg (active_key ks) rng (retry_aad addr scid dcid)
        (token_plaintext rng orig (unwrap_or (to_millis e) 0)), tg_aead := aead_compare_and_update (tg_aead g)\<rparr>"])
      (simp_all add: generate_retry_token_def max_cid_len_def retry_associated_data_eq retry_plaintext_eq [OF _ rng]
        aead_update_facts Let_def)
qed

lemma to_millis_nonneg:
  assumes "0 \<le> e" and "e \<le> 1000000 * int u64_max"
  shows "unwrap_or (to_millis e) 0 = nat (e div 1000000)" and "nat (e div 1000000) \<le> u64_max"
proof -
  have "e div 1000000 \<le> int u64_max" using assms(2) zdiv_mono1 [of e "1000000 * int u64_max" 1000000] by simp
  then show le: "nat (e div 1000000) \<le> u64_max" by simp
  with assms(1) show "unwrap_or (to_millis e) 0 = nat (e div 1000000)" by (simp add: to_millis_def unwrap_or_def)
qed

lemma systime_millis: "0 \<le> e \<Longrightarrow> to_systime (nat (e div 1000000)) = e - e mod 1000000"
  by (simp add: to_systime_def minus_mod_eq_div_mult pos_imp_zdiv_nonneg_iff)

lemma retry_token_verified:
  assumes "padded_new malg (aead_new ks) h = Inr g" and "fills rng" and "aead_correct alg"
    and "aead_binds_key alg (set (store_keys ks))" and "aead_binds_kind alg (set (store_keys ks))"
    and "length scid \<le> 20" and "length dcid \<le> 20" and "length orig \<le> 20"
    and "0 \<le> e" and "e \<le> 1000000 * int u64_max"
  shows "\<exists>token g1 g2. generate_retry_token alg rng g addr scid orig dcid e = Inr (Some token, g1) \<and>
     verify_token alg g1 addr scid dcid token now =
       Inr (if e - e mod 1000000 < now then Inl (Expired RetryKind (e - e mod 1000000))
            else (case try_from_iter orig of None \<Rightarrow> Inl Invalid | Some c \<Rightarrow> Inr (Retry c (e - e mod 1000000))), g2)"
proof -
  let ?m = "nat (e div 1000000)"
  note ms = to_millis_nonneg [OF assms(9,10)]
  let ?token = "cipher_encrypt_and_pack alg (active_key ks) rng (retry_aad addr scid dcid) (token_plaintext rng orig ?m)"
  obtain g1 where g1: "generate_retry_token alg rng g addr scid orig dcid e = Inr (Some ?token, g1)"
      "aead_cache.in_sync (tg_aead g1)" "aead_store (tg_aead g1) = ks"
    by (rule generate_retry_eq [OF assms(1,2,6-8), of alg addr e]) (use ms(1) in simp)
  from verify_sealed_retry [OF g1(2,3) assms(2-8) ms(2), of addr now] g1(1)
  show ?thesis unfolding systime_millis [OF assms(9)] by blast
qed

subsection \<open>Injectivity of the associated data\<close>

lemma be_bytes_inj:
  assumes "be_bytes n (unat v) = be_bytes n (unat w)" and "256 ^ n = (2 :: nat) ^ LENGTH('a :: len)"
  shows "v = (w :: 'a word)"
proof -
  have "unat x mod 256 ^ n = unat x" for x :: "'a word" using unsigned_less [of x] assms(2) by simp
  then show ?thesis
    using arg_cong [OF assms(1), of from_be_bytes] by (simp add: from_be_bytes_be_bytes word_unat_eq_iff)
qed

lemma octets_inj:
  assumes "octets a @ replicate (16 - length (octets a)) 0 @ [of_nat (16 - length (octets a))] =
           octets b @ replicate (16 - length (octets b)) 0 @ [of_nat (16 - length (octets b)) :: byte]"
  shows "a = b"
proof -
  have "(12 :: byte) \<noteq> 0" by simp
  with arg_cong [OF assms, of last] show ?thesis
    using assms by (cases a; cases b) (auto simp: octets_def dest!: be_bytes_inj)
qed

lemma padded_cid_inj:
  assumes "length s \<le> 20" and "length s' \<le> 20"
    and "s @ replicate (20 - length s) 0 @ [of_nat (20 - length s)] =
         s' @ replicate (20 - length s') 0 @ [of_nat (20 - length s') :: byte]"
  shows "s = s'"
proof -
  have "(of_nat (20 - length s) :: byte) = of_nat (20 - length s')" using arg_cong [OF assms(3), of last] by simp
  then have "unat (of_nat (20 - length s) :: byte) = unat (of_nat (20 - length s') :: byte)" by (rule arg_cong)
  then have "20 - length s = 20 - length s'" by (simp only: unat_small diff_le_self)
  then have "length s = length s'" using assms(1,2) by simp
  with assms(3) show ?thesis by simp
qed

lemma retry_aad_inj:
  assumes "retry_aad a s d = retry_aad a' s' d'" and "length s \<le> 20" and "length s' \<le> 20"
  shows "a = a' \<and> s = s' \<and> d = d'"
proof -
  let ?ip = "\<lambda>a. octets a @ replicate (16 - length (octets a)) 0 @ [of_nat (16 - length (octets a)) :: byte]"
  let ?cid = "\<lambda>s. s @ replicate (20 - length s) 0 @ [of_nat (20 - length s) :: byte]"
  have len: "length (?ip a) = 17" "length (?ip a') = 17" using length_octets [of a] length_octets [of a'] by simp_all
  have "?ip a @ ?cid s @ d = ?ip a' @ ?cid s' @ d'" using assms(1) by (simp add: retry_aad_def)
  then have "?ip a = ?ip a'" "?cid s @ d = ?cid s' @ d'" using len by (metis append_eq_append_conv)+
  moreover have "length (?cid s) = 21" "length (?cid s') = 21" using assms by simp_all
  ultimately have "?ip a = ?ip a'" "?cid s = ?cid s'" "d = d'" by (metis append_eq_append_conv)+
  with octets_inj padded_cid_inj [OF assms(2,3)] show ?thesis by blast
qed

subsection \<open>Properties\<close>


lemma toy_aead_binds_kind: "aead_binds_kind toy_aead ks"
  unfolding aead_binds_kind_def by (intro ballI allI impI toy_aead_rejects) (auto simp: toy_tag_def)

lemma toy_binds_single: "aead_binds_key toy_aead {[1]}"
  by (simp add: aead_binds_key_def)

definition demo_tokens :: token_generator where
  "demo_tokens = \<lparr>plaintext_buffer = [], associated_data_buffer = [], reserve_buffer = [],
     tg_aead = aead_new (random_key [1]), tg_hmac = hmac_new (random_key [2])\<rparr>"

lemma demo_tokens_new:
  "padded_new \<lparr>mac = (\<lambda>k d. replicate 16 0), output_size = 16\<rparr> (aead_new (random_key [1])) (hmac_new (random_key [2])) =
   Inr demo_tokens"
  by (simp add: padded_new_def demo_tokens_def)


text \<open>a retry token made for an original DCID of exactly 20 bytes, which QUIC allows and which
  \<open>generate_retry_token\<close> accepts, is always refused as \<open>Invalid\<close>, because its DCID is read back
  with \<open>try_from_iter\<close>.\<close>

lemma retry_token_full_dcid_refused:
  assumes "padded_new malg (aead_new ks) h = Inr g" and "fills rng" and "aead_correct alg"
    and "aead_binds_key alg (set (store_keys ks))" and "aead_binds_kind alg (set (store_keys ks))"
    and "length scid \<le> 20" and "length dcid \<le> 20" and "length orig = 20"
    and "0 \<le> e" and "e \<le> 1000000 * int u64_max" and "now \<le> e - e mod 1000000"
  shows "\<exists>token g1 g2. generate_retry_token alg rng g addr scid orig dcid e = Inr (Some token, g1) \<and>
     verify_token alg g1 addr scid dcid token now = Inr (Inl Invalid, g2)"
proof -
  have "try_from_iter orig = None" using assms(8) by (simp add: try_from_iter_eq max_cid_len_def)
  with retry_token_verified [OF assms(1-7) _ assms(9,10), of orig addr now] assms(8,11) show ?thesis by fastforce
qed

lemma retry_token_full_dcid_refused_witness:
  "\<exists>token g1 g2. generate_retry_token toy_aead (\<lambda>n. replicate n 9) demo_tokens (V4 16909060) [1] (replicate 20 6) [7] 3000000 =
       Inr (Some token, g1) \<and>
     verify_token toy_aead g1 (V4 16909060) [1] [7] token 2000000 = Inr (Inl Invalid, g2)"
  using toy_aead_correct toy_binds_single toy_aead_binds_kind
  by (intro retry_token_full_dcid_refused [OF demo_tokens_new])
    (auto simp: fills_def store_keys_def random_key_def u64_max_def)

text \<open>an identity token is accepted from the address it was made for, with whatever connection
  IDs the new connection uses, until it expires.\<close>

lemma identity_token_roundtrip:
  assumes "padded_new malg (aead_new ks) h = Inr g" and "fills rng" and "aead_correct alg"
    and "aead_binds_key alg (set (store_keys ks))" and "length scid \<le> 20" and "length dcid \<le> 20"
    and "0 \<le> e" and "e \<le> 1000000 * int u64_max"
  shows "\<exists>token g1 g2. generate_identity_token alg rng g addr e = Inr (token, g1) \<and>
     verify_token alg g1 addr scid dcid token now =
       Inr (if e - e mod 1000000 < now then Inl (Expired IdentityKind (e - e mod 1000000))
            else Inr (Identity (e - e mod 1000000)), g2)"
proof -
  note ok = padded_new_ok [OF assms(1)] and ms = to_millis_nonneg [OF assms(7,8)]
  let ?p = "token_plaintext rng [] (nat (e div 1000000))"
  let ?token = "cipher_encrypt_and_pack alg (active_key ks) rng (255 # octets addr) ?p"
  let ?g = "g\<lparr>associated_data_buffer := 255 # octets addr, plaintext_buffer := ?p\<rparr>"
  let ?g1 = "?g\<lparr>plaintext_buffer := ?token, tg_aead := aead_compare_and_update (tg_aead g)\<rparr>"
  have "aead_cache.in_sync (tg_aead ?g)" using ok by simp
  from seal_plaintext_eq [OF this] have "generate_identity_token alg rng g addr e = Inr (?token, ?g1)"
    using ok ms(1) by (simp add: generate_identity_token_def identity_plaintext_eq [OF assms(2)]
        write_identity_associated_data_def write_ip_addr_def write_kind_def Let_def)
  moreover have "aead_cache.in_sync (tg_aead ?g1)" "aead_store (tg_aead ?g1) = ks"
    using ok aead_update_facts by simp_all
  from verify_sealed_identity [OF this assms(2-6) ms(2), of addr now]
  obtain g2 where "verify_token alg ?g1 addr scid dcid ?token now =
       Inr (if e - e mod 1000000 < now then Inl (Expired IdentityKind (e - e mod 1000000))
            else Inr (Identity (e - e mod 1000000)), g2)"
    unfolding systime_millis [OF assms(7)] by blast
  ultimately show ?thesis by blast
qed

lemma identity_token_roundtrip_witness:
  "\<exists>token g1 g2. generate_identity_token toy_aead (\<lambda>n. replicate n 9) demo_tokens (V6 1) 3000000 = Inr (token, g1) \<and>
     verify_token toy_aead g1 (V6 1) [1] [7] token 5000000 = Inr (Inl (Expired IdentityKind 3000000), g2)"
  using identity_token_roundtrip [OF demo_tokens_new, of "\<lambda>n. replicate n 9" toy_aead "[1]" "[7]" 3000000
      "V6 1" 5000000] toy_aead_correct toy_binds_single
  by (auto simp: fills_def store_keys_def random_key_def u64_max_def)

text \<open>C11: the associated data of a retry token determines the address and both connection IDs, so the
  authentication tag binds all three; no shift of bytes between the two IDs or between an IPv4
  and an IPv6 address gives the same associated data.\<close>

theorem retry_associated_data_injective:
  assumes "write_retry_associated_data g addr scid dcid = Inr g1"
    and "write_retry_associated_data g' addr' scid' dcid' = Inr g2"
    and "associated_data_buffer g1 = associated_data_buffer g2"
  shows "addr = addr' \<and> scid = scid' \<and> dcid = dcid'"
proof -
  have len: "length scid \<le> 20" "length scid' \<le> 20"
    using assms(1,2) by (auto simp: write_retry_associated_data_def rust_simps max_cid_len_def Let_def)
  show ?thesis
    using assms len by (intro retry_aad_inj) (auto simp: retry_associated_data_eq)
qed

theorem retry_associated_data_injective_witness:
  "\<not> (\<exists>g1 g2. write_retry_associated_data demo_tokens (V4 1) [] [1, 2] = Inr g1 \<and>
     write_retry_associated_data demo_tokens (V4 1) [1] [2] = Inr g2 \<and>
     associated_data_buffer g1 = associated_data_buffer g2)"
  using retry_associated_data_injective [of demo_tokens "V4 1" "[]" "[1, 2]" _ demo_tokens "V4 1" "[1]" "[2]"]
  by auto

lemma reset_packet_layout:
  fixes first :: byte
  assumes "17 + u \<le> length out" and "fills rng" and "length token = 16"
  defines "b \<equiv> (first AND 0x3F) OR (0x40 :: byte)"
  defines "out' \<equiv> splice (1 + u) token (splice 1 (rng u) (out[0 := b]))"
  shows "length out' = length out" and "slice (1 + u) (17 + u) out' = token"
    and "out' ! 0 AND 0xC0 = 0x40" and "drop (17 + u) out' = drop (17 + u) out"
proof -
  let ?o = "splice 1 (rng u) (out[0 := b])"
  have lr: "length (rng u) = u" using assms(2) by (simp add: fills_def)
  have lo: "length ?o = length out" using assms(1) lr by (subst length_splice) simp_all
  have fits: "1 + u + length token \<le> length ?o" using assms(1,3) lo by simp
  show "slice (1 + u) (17 + u) out' = token"
    unfolding out'_def using slice_splice_same [OF fits] assms(3) by (simp add: ac_simps)
  have "out' ! 0 = b"
    unfolding out'_def using assms(1) lr by (cases out) (simp_all add: splice_def nth_append)
  moreover have "b AND 0xC0 = 0x40" by (simp add: b_def bit.conj_disj_distrib2 and.assoc)
  ultimately show "out' ! 0 AND 0xC0 = 0x40" by metis
  show "drop (17 + u) out' = drop (17 + u) out"
    unfolding out'_def using lr assms(1,3) by (simp add: splice_def)
  show "length out' = length out" unfolding out'_def using length_splice [OF fits] lo by simp
qed

lemma reset_packet_outcome:
  assumes "21 \<le> peer_len" and "profile_sub dbg max_len 17 = Inr m"
    and "\<And>a b. a \<le> b \<Longrightarrow> a \<le> pick a b \<and> pick a b \<le> b"
  obtains "min (peer_len - 18) m < 4 \<or> length out + 1 < peer_len"
      and "write_stateless_reset_packet dbg pick first rng peer_len max_len token out = Inr (None, out)"
  | u where "4 \<le> u" "u \<le> peer_len - 18" "u \<le> m" "17 + u \<le> length out"
      and "write_stateless_reset_packet dbg pick first rng peer_len max_len token out =
        Inr (Some (1 + u + length token), splice (1 + u) token (splice 1 (rng u) (out[0 := (first AND 0x3F) OR 0x40])))"
proof -
  let ?u = "pick 4 (min (peer_len - 18) m)"
  have u: "4 \<le> ?u \<and> ?u \<le> min (peer_len - 18) m" if "\<not> min (peer_len - 18) m < 4"
    using assms(3) that by (meson linorder_not_le)
  consider "min (peer_len - 18) m < 4" | "\<not> min (peer_len - 18) m < 4" "length out < 17 + ?u"
    | "\<not> min (peer_len - 18) m < 4" "17 + ?u \<le> length out" by linarith
  then show thesis
  proof cases
    case 1
    with assms(1,2) that(1) show thesis by (simp add: write_stateless_reset_packet_def Let_def)
  next
    case 2
    then have "length out + 1 < peer_len" using u assms(1) by linarith
    with 2 assms(1,2) that(1) show thesis by (simp add: write_stateless_reset_packet_def Let_def)
  next
    case 3
    then have "write_stateless_reset_packet dbg pick first rng peer_len max_len token out =
        Inr (Some (1 + ?u + length token), splice (1 + ?u) token (splice 1 (rng ?u) (out[0 := (first AND 0x3F) OR 0x40])))"
      using assms(1,2) by (simp add: write_stateless_reset_packet_def Let_def not_less)
    with u [OF 3(1)] 3(2) that(2) [of ?u] show thesis by simp
  qed
qed



text \<open>with a maximum of 10 bytes the release profile writes a packet of 21 bytes.\<close>

lemma stateless_reset_ignores_small_maximum:
  "\<exists>out'. write_stateless_reset_packet False (\<lambda>a b. a) 255 (\<lambda>n. replicate n 9) 30 10 (replicate 16 7) (replicate 30 0) =
      Inr (Some 21, out')"
  by (simp add: write_stateless_reset_packet_def profile_sub_def Let_def)

end
