(* ===== verification/Sync_Event.thy ===== *)
theory Sync_Event
  imports Aquic_Prelude
begin

section \<open>The single-threaded event\<close>

text \<open>
  Model of \<open>src/aquic-core/src/sync/util/event.rs\<close> and of the error types of \<open>sync/mod.rs\<close>. The
  intrusive list is the list of the identifiers of the linked waiters; the waiters, which live
  inside their \<open>EventListener\<close>s, are kept in a map by identifier, and \<open>fresh\<close> is the identifier of
  the next listener. Identifiers and wakers are numbers; a call returns the wakers it wakes. The
  unsafe pointer operations of the intrusive list are its documented list operations.

  The lemmas show that no wake-up is lost: from the moment a listener exists, the next
  \<open>notify_all\<close> makes it ready, whether it was polled before or not, and wakes the task of its
  last poll.
\<close>

subsection \<open>Channel errors\<close>

datatype 'a send_error = SendError 'a

datatype try_send_error = TrySendFull | TrySendClosed

datatype try_recv_error = RecvEmpty | RecvClosed

datatype 'a poll = Ready 'a | Pending

subsection \<open>\<open>RefCell\<close> and \<open>event_listener\<close>\<close>

text \<open>A \<open>Ref\<close> that a suspended future still holds is counted; \<open>RefCell::borrow_mut\<close> panics while there is
  one. The multi-threaded channels use the crate \<open>event_listener\<close>. A listener is the number of
  \<open>notify(usize::MAX)\<close> calls made before it was created, and \<open>ready t n\<close>, an argument of the
  definitions that use it, says whether awaiting such a listener returns after \<open>n\<close> calls.
  \<open>wakes_all\<close> is what the crate promises of \<open>notify(usize::MAX)\<close>.\<close>

definition borrow_mut :: "nat \<Rightarrow> panic + unit" where
  "borrow_mut borrows = panic_if (borrows \<noteq> 0) BorrowMutError"

definition wakes_all :: "(nat \<Rightarrow> nat \<Rightarrow> bool) \<Rightarrow> bool" where
  "wakes_all ready \<longleftrightarrow> (\<forall>t n. t < n \<longrightarrow> ready t n)"

subsection \<open>Data\<close>

type_synonym waker = nat

record listener =
  target_epoch :: nat
  l_waker :: "waker option"
  notified :: bool

record event =
  ev_list :: "nat list"
  ev_epoch :: nat
  ev_waiters :: "nat \<Rightarrow> listener option"
  fresh :: nat

definition event_new :: event where
  "event_new = \<lparr>ev_list = [], ev_epoch = 0, ev_waiters = (\<lambda>_. None), fresh = 0\<rparr>"

definition event_listen :: "event \<Rightarrow> nat \<times> event" where
  "event_listen e = (fresh e,
     e\<lparr>ev_waiters := (ev_waiters e)(fresh e \<mapsto> \<lparr>target_epoch = ev_epoch e, l_waker = None, notified = False\<rparr>),
       fresh := fresh e + 1\<rparr>)"

definition notify_waiter :: "nat \<Rightarrow> event \<Rightarrow> waker list \<times> event" where
  "notify_waiter w e = (case ev_waiters e w of
     None \<Rightarrow> ([], e)
   | Some l \<Rightarrow> (case l_waker l of None \<Rightarrow> [] | Some k \<Rightarrow> [k],
       e\<lparr>ev_waiters := (ev_waiters e)(w \<mapsto> l\<lparr>notified := True, l_waker := None\<rparr>)\<rparr>))"

fun pop_waiters :: "nat list \<Rightarrow> event \<Rightarrow> waker list \<times> event" where
  "pop_waiters [] e = ([], e\<lparr>ev_list := []\<rparr>)"
| "pop_waiters (w # ws) e =
     (let (woken, e1) = notify_waiter w e; (rest, e2) = pop_waiters ws e1 in (woken @ rest, e2))"

definition event_notify_all :: "event \<Rightarrow> waker list \<times> event" where
  "event_notify_all e = (let e1 = e\<lparr>ev_epoch := wrapping_add (ev_epoch e) 1\<rparr> in pop_waiters (ev_list e1) e1)"

definition listener_poll :: "waker \<Rightarrow> nat \<Rightarrow> event \<Rightarrow> unit poll \<times> event" where
  "listener_poll waker w e = (case ev_waiters e w of
     None \<Rightarrow> (Pending, e)
   | Some l \<Rightarrow>
       if ev_epoch e \<noteq> target_epoch l then (Ready (), e)
       else if notified l then (Ready (), e)
       else let e1 = e\<lparr>ev_waiters := (ev_waiters e)(w \<mapsto> l\<lparr>l_waker := Some waker\<rparr>)\<rparr>
            in (Pending, if w \<in> set (ev_list e1) then e1 else e1\<lparr>ev_list := ev_list e1 @ [w]\<rparr>))"

definition listener_drop :: "nat \<Rightarrow> event \<Rightarrow> event" where
  "listener_drop w e =
     (let e1 = (if w \<in> set (ev_list e) then e\<lparr>ev_list := remove1 w (ev_list e)\<rparr> else e)
      in e1\<lparr>ev_waiters := (ev_waiters e1)(w := None)\<rparr>)"

subsection \<open>An event in use\<close>

text \<open>What happens to an event while the listener \<open>w\<close> exists, with the number of \<open>notify_all\<close> calls;
  \<open>own\<close> says whether \<open>w\<close> itself is polled.\<close>

inductive event_run :: "nat \<Rightarrow> bool \<Rightarrow> event \<Rightarrow> nat \<Rightarrow> event \<Rightarrow> bool"
  for w :: nat and own :: bool and e0 :: event where
  run_start: "event_run w own e0 0 e0"
| run_listen: "event_run w own e0 n e \<Longrightarrow> event_run w own e0 n (snd (event_listen e))"
| run_poll: "event_run w own e0 n e \<Longrightarrow> own \<or> v \<noteq> w \<Longrightarrow> event_run w own e0 n (snd (listener_poll k v e))"
| run_drop: "event_run w own e0 n e \<Longrightarrow> v \<noteq> w \<Longrightarrow> event_run w own e0 n (listener_drop v e)"
| run_notify: "event_run w own e0 n e \<Longrightarrow> event_run w own e0 (Suc n) (snd (event_notify_all e))"

subsection \<open>Invariant\<close>

definition event_ok :: "event \<Rightarrow> bool" where
  "event_ok e \<longleftrightarrow> distinct (ev_list e) \<and>
     (\<forall>w \<in> set (ev_list e). \<exists>l. ev_waiters e w = Some l \<and> target_epoch l = ev_epoch e \<and>
        l_waker l \<noteq> None \<and> \<not> notified l) \<and>
     (\<forall>w l. ev_waiters e w = Some l \<longrightarrow> w < fresh e \<and> (notified l \<longrightarrow> w \<notin> set (ev_list e)))"

definition last_waker :: "event \<Rightarrow> nat \<Rightarrow> waker option" where
  "last_waker e w = (case ev_waiters e w of None \<Rightarrow> None | Some l \<Rightarrow> l_waker l)"

lemma event_ok_new: "event_ok event_new"
  by (simp add: event_ok_def event_new_def)

lemma event_ok_listen: "event_ok e \<Longrightarrow> event_ok (snd (event_listen e))"
  by (fastforce simp: event_ok_def event_listen_def less_Suc_eq)

lemma event_ok_poll: "event_ok e \<Longrightarrow> event_ok (snd (listener_poll waker w e))"
  by (auto simp: event_ok_def listener_poll_def Let_def split: option.splits)

lemma event_ok_drop: "event_ok e \<Longrightarrow> event_ok (listener_drop w e)"
  by (auto simp: event_ok_def listener_drop_def Let_def)

lemma pop_waiters_eq:
  assumes "distinct ws" and "\<forall>w \<in> set ws. \<exists>l k. ev_waiters e w = Some l \<and> l_waker l = Some k"
  shows "pop_waiters ws e = (map (\<lambda>w. the (last_waker e w)) ws,
     e\<lparr>ev_list := [], ev_waiters := (\<lambda>w. if w \<in> set ws
        then map_option (\<lambda>l. l\<lparr>notified := True, l_waker := None\<rparr>) (ev_waiters e w) else ev_waiters e w)\<rparr>)"
  using assms
proof (induction ws arbitrary: e)
  case Nil
  then show ?case by simp
next
  case (Cons w ws)
  obtain l k where l: "ev_waiters e w = Some l" "l_waker l = Some k" using Cons.prems by auto
  let ?e1 = "e\<lparr>ev_waiters := (ev_waiters e)(w \<mapsto> l\<lparr>notified := True, l_waker := None\<rparr>)\<rparr>"
  have n: "notify_waiter w e = ([k], ?e1)" using l by (simp add: notify_waiter_def)
  have w: "w \<notin> set ws" using Cons.prems by simp
  have "\<forall>v \<in> set ws. \<exists>l k. ev_waiters ?e1 v = Some l \<and> l_waker l = Some k" using Cons.prems w by auto
  note ih = Cons.IH [OF _ this]
  have "map (\<lambda>v. the (last_waker ?e1 v)) ws = map (\<lambda>v. the (last_waker e v)) ws"
    using w by (auto simp: last_waker_def)
  with ih n l w Cons.prems(1) show ?case by (auto simp: last_waker_def fun_eq_iff)
qed

lemma notify_all_eq:
  assumes "event_ok e"
  shows "event_notify_all e = (map (\<lambda>w. the (last_waker e w)) (ev_list e),
     e\<lparr>ev_epoch := wrapping_add (ev_epoch e) 1, ev_list := [], ev_waiters := (\<lambda>w. if w \<in> set (ev_list e)
        then map_option (\<lambda>l. l\<lparr>notified := True, l_waker := None\<rparr>) (ev_waiters e w) else ev_waiters e w)\<rparr>)"
proof -
  let ?e1 = "e\<lparr>ev_epoch := wrapping_add (ev_epoch e) 1\<rparr>"
  have "distinct (ev_list ?e1)" "\<forall>w \<in> set (ev_list ?e1). \<exists>l k. ev_waiters ?e1 w = Some l \<and> l_waker l = Some k"
    using assms by (auto simp: event_ok_def)
  from pop_waiters_eq [OF this] show ?thesis by (simp add: event_notify_all_def last_waker_def cong: if_cong)
qed

lemma event_ok_notify: "event_ok e \<Longrightarrow> event_ok (snd (event_notify_all e))"
  by (auto simp: notify_all_eq) (auto simp: event_ok_def split: if_splits)

lemma event_run_ok: "event_run w own e0 n e \<Longrightarrow> event_ok e0 \<Longrightarrow> event_ok e"
  by (induction rule: event_run.induct)
    (auto intro: event_ok_listen event_ok_poll event_ok_drop event_ok_notify)

lemma listen_fresh:
  assumes "event_ok e" and "event_listen e = (w, e1)"
  shows "ev_waiters e1 w = Some \<lparr>target_epoch = ev_epoch e, l_waker = None, notified = False\<rparr>"
    and "ev_epoch e1 = ev_epoch e" and "event_ok e1"
  using assms event_ok_listen [OF assms(1)] by (auto simp: event_listen_def)

lemma event_run_epoch:
  assumes "event_run w own e0 n e" and "event_ok e0" and "ev_epoch e0 \<le> usize_max"
    and "ev_waiters e0 w = Some l0"
  shows "(\<exists>l. ev_waiters e w = Some l \<and> target_epoch l = target_epoch l0 \<and> (n = 0 \<longrightarrow> notified l = notified l0)) \<and>
     ev_epoch e = (ev_epoch e0 + n) mod 2 ^ 64"
  using assms(1)
proof induction
  case run_start
  then show ?case using assms(3,4) by (simp add: usize_max_def)
next
  case (run_listen n e)
  have "w \<noteq> fresh e" using run_listen event_run_ok [OF run_listen(1) assms(2)] by (auto simp: event_ok_def)
  with run_listen(2) show ?case by (auto simp: event_listen_def)
next
  case (run_poll n e v k)
  then show ?case by (auto simp: listener_poll_def Let_def split: option.splits)
next
  case (run_drop n e v)
  then show ?case by (auto simp: listener_drop_def Let_def)
next
  case (run_notify n e)
  have "wrapping_add ((ev_epoch e0 + n) mod 2 ^ 64) 1 = (ev_epoch e0 + Suc n) mod 2 ^ 64"
    by (simp add: wrapping_add_def mod_simps)
  with run_notify event_run_ok [OF run_notify(1) assms(2)] show ?case by (auto simp: notify_all_eq)
qed

lemma run_keeps_link:
  assumes "event_run w False e0 0 e" and "event_ok e0" and "w \<in> set (ev_list e0)" and "last_waker e0 w = Some k"
  shows "w \<in> set (ev_list e) \<and> last_waker e w = Some k"
  using assms(1)
proof (induction "0 :: nat" e)
  case run_start
  then show ?case using assms by simp
next
  case (run_listen e)
  have "w \<noteq> fresh e"
    using event_run_ok [OF run_listen(1) assms(2)] run_listen(2) by (auto simp: event_ok_def)
  with run_listen show ?case by (auto simp: event_listen_def last_waker_def)
next
  case (run_poll e v k')
  then show ?case by (auto simp: listener_poll_def last_waker_def Let_def split: option.splits)
next
  case (run_drop e v)
  then show ?case by (auto simp: listener_drop_def last_waker_def Let_def)
qed

lemma notify_wakes:
  assumes "event_ok e" and "w \<in> set (ev_list e)" and "last_waker e w = Some k"
  shows "k \<in> set (fst (event_notify_all e))"
  using assms by (force simp: notify_all_eq image_iff)

lemma poll_links:
  assumes "listener_poll k w e = (Pending, e')" and "ev_waiters e w \<noteq> None"
  shows "w \<in> set (ev_list e') \<and> last_waker e' w = Some k"
  using assms by (auto simp: listener_poll_def last_waker_def Let_def split: option.splits if_splits)

lemma event_poll_after:
  assumes "event_ok e0" and "ev_epoch e0 \<le> usize_max" and "event_listen e0 = (w, e1)"
    and "event_run w True e1 n e" and "n < 2 ^ 64"
  shows "fst (listener_poll k w e) = (if n = 0 then Pending else Ready ())" and "ev_waiters e w \<noteq> None"
proof -
  note f = listen_fresh [OF assms(1,3)]
  obtain l where l: "ev_waiters e w = Some l" "target_epoch l = ev_epoch e0" "n = 0 \<longrightarrow> \<not> notified l"
    and ep: "ev_epoch e = (ev_epoch e0 + n) mod 2 ^ 64"
    using event_run_epoch [OF assms(4) f(3) _ f(1)] assms(2) f(2) by auto
  have lt: "ev_epoch e0 < 2 ^ 64" using assms(2) by (simp add: usize_max_def)
  have "(ev_epoch e0 + n) mod 2 ^ 64 = ev_epoch e0 \<longleftrightarrow> n = 0"
    using lt assms(5) by (auto simp: mod_if split: if_splits)
  then show "fst (listener_poll k w e) = (if n = 0 then Pending else Ready ())"
    using l ep by (auto simp: listener_poll_def Let_def)
  show "ev_waiters e w \<noteq> None" using l by simp
qed

lemma event_wakes_pending:
  assumes "event_ok e0" and "ev_epoch e0 \<le> usize_max" and "event_listen e0 = (w, e1)"
    and "event_run w True e1 0 e" and "event_run w False (snd (listener_poll k w e)) 0 e2"
  shows "k \<in> set (fst (event_notify_all e2))"
proof -
  let ?e' = "snd (listener_poll k w e)"
  have ok: "event_ok ?e'" using event_run_ok [OF assms(4) listen_fresh(3) [OF assms(1,3)]] by (rule event_ok_poll)
  note p = event_poll_after [OF assms(1-4)]
  have "listener_poll k w e = (Pending, ?e')" using p(1) by (simp add: prod_eq_iff)
  then have "w \<in> set (ev_list ?e') \<and> last_waker ?e' w = Some k" using poll_links p(2) by simp
  with run_keeps_link [OF assms(5) ok] have "w \<in> set (ev_list e2)" "last_waker e2 w = Some k" by auto
  then show ?thesis by (rule notify_wakes [OF event_run_ok [OF assms(5) ok]])
qed

subsection \<open>Properties\<close>

text \<open>C13: no wake-up is lost. A listener is ready at its next poll exactly when \<open>notify_all\<close> was called
  after it was created, polled or not in between (for fewer than \<open>2 ^ 64\<close> calls); and a listener
  whose last poll was pending has the task of that poll woken by the next \<open>notify_all\<close>.\<close>

theorem event_no_lost_wakeup:
  assumes "event_ok e0" and "ev_epoch e0 \<le> usize_max" and "event_listen e0 = (w, e1)"
    and "event_run w True e1 n e" and "n < 2 ^ 64"
  shows "fst (listener_poll k w e) = (if n = 0 then Pending else Ready ()) \<and>
     (n = 0 \<longrightarrow> (\<forall>e2. event_run w False (snd (listener_poll k w e)) 0 e2 \<longrightarrow> k \<in> set (fst (event_notify_all e2))))"
  using event_poll_after(1) [OF assms] event_wakes_pending [OF assms(1-3)] assms(4) by auto

theorem event_no_lost_wakeup_witness:
  "fst (listener_poll 7 0 (snd (event_notify_all (snd (event_listen event_new))))) = Ready ()"
  using event_no_lost_wakeup [OF event_ok_new, of 0 "snd (event_listen event_new)" 1
      "snd (event_notify_all (snd (event_listen event_new)))" 7]
    run_notify [OF run_start, of 0 True "snd (event_listen event_new)"]
  by (simp add: event_new_def event_listen_def)

end
