(* ===== verification/Sync_Oneshot.thy ===== *)
theory Sync_Oneshot
  imports Sync_Event
begin

section \<open>The oneshot channel\<close>

text \<open>
  Model of \<open>src/aquic-core/src/sync/mpmc/oneshot/\<close>: the single-threaded channel (\<open>st.rs\<close>, over the
  \<open>Event\<close> of \<open>Sync_Event\<close>) and the multi-threaded one (\<open>mt.rs\<close>, over \<open>OnceLock\<close>, two atomic
  counters and \<open>event_listener::Event\<close>). A handle is counted, not represented: \<open>Clone\<close> and \<open>Drop\<close>
  change the counters, which never overflow, since every handle is an object in memory. The future
  of \<open>recv\<close> is its state between polls.

  In \<open>st.rs\<close> the temporary \<open>Ref\<close> of \<open>self.shared.borrow().event.listen().await\<close> lives until the end of
  the match arm, so a suspended \<open>recv\<close> holds it: \<open>st_borrows\<close> counts these, and \<open>borrow_mut\<close> panics
  while there is one.

  The operations of \<open>mt.rs\<close> are first given as one step each, which is how one thread sees them;
  then \<open>mt_sys\<close> interleaves their atomic actions between any number of sender threads and a
  receiver, under sequential consistency. What \<open>OneshotSender\<close> and \<open>OneshotReceiver\<close> promise is the
  locale \<open>oneshot_channel\<close>, which both implementations satisfy.
\<close>

subsection \<open>Data\<close>

datatype 'a oneshot_error = OneshotFull 'a | OneshotClosed

record 'a oneshot_st =
  st_container :: "'a option"
  st_event :: event
  st_senders :: nat
  st_receivers :: nat
  st_borrows :: nat

record 'a oneshot_mt =
  mt_container :: "'a option"
  mt_notifications :: nat
  mt_senders :: nat
  mt_receivers :: nat

subsection \<open>\<open>st.rs\<close>\<close>

definition st_channel :: "'a oneshot_st" where
  "st_channel = \<lparr>st_container = None, st_event = event_new, st_senders = 1, st_receivers = 1, st_borrows = 0\<rparr>"

definition st_send :: "'a \<Rightarrow> 'a oneshot_st \<Rightarrow> panic + (('a oneshot_error + waker list) \<times> 'a oneshot_st)" where
  "st_send value sh = and_then (borrow_mut (st_borrows sh)) (\<lambda>_. Inr
     (if st_receivers sh = 0 then (Inl OneshotClosed, sh)
      else case st_container sh of
             Some current \<Rightarrow> (Inl (OneshotFull current), sh)
           | None \<Rightarrow>
               let sh1 = sh\<lparr>st_container := Some value\<rparr>; (woken, e) = event_notify_all (st_event sh1)
               in (Inr woken, sh1\<lparr>st_event := e\<rparr>)))"

definition st_sender_is_closed :: "'a oneshot_st \<Rightarrow> bool" where
  "st_sender_is_closed sh \<longleftrightarrow> st_receivers sh = 0"

definition st_clone_sender :: "'a oneshot_st \<Rightarrow> panic + 'a oneshot_st" where
  "st_clone_sender sh = and_then (borrow_mut (st_borrows sh)) (\<lambda>_. Inr (sh\<lparr>st_senders := st_senders sh + 1\<rparr>))"

definition st_drop_sender :: "'a oneshot_st \<Rightarrow> panic + (waker list \<times> 'a oneshot_st)" where
  "st_drop_sender sh = and_then (borrow_mut (st_borrows sh)) (\<lambda>_. Inr
     (let sh1 = sh\<lparr>st_senders := st_senders sh - 1\<rparr>
      in if st_senders sh1 = 0
         then let (woken, e) = event_notify_all (st_event sh1) in (woken, sh1\<lparr>st_event := e\<rparr>)
         else ([], sh1)))"

definition st_try_recv :: "'a oneshot_st \<Rightarrow> try_recv_error + 'a" where
  "st_try_recv sh = (case st_container sh of
     Some value \<Rightarrow> Inr value
   | None \<Rightarrow> if st_senders sh = 0 then Inl RecvClosed else Inl RecvEmpty)"

definition st_receiver_is_closed :: "'a oneshot_st \<Rightarrow> bool" where
  "st_receiver_is_closed sh \<longleftrightarrow> st_senders sh = 0"

definition st_clone_receiver :: "'a oneshot_st \<Rightarrow> panic + 'a oneshot_st" where
  "st_clone_receiver sh = and_then (borrow_mut (st_borrows sh)) (\<lambda>_. Inr (sh\<lparr>st_receivers := st_receivers sh + 1\<rparr>))"

definition st_drop_receiver :: "'a oneshot_st \<Rightarrow> panic + 'a oneshot_st" where
  "st_drop_receiver sh = and_then (borrow_mut (st_borrows sh)) (\<lambda>_. Inr (sh\<lparr>st_receivers := st_receivers sh - 1\<rparr>))"

datatype recv_future = RecvStart | RecvWait nat

definition st_recv_turn :: "waker \<Rightarrow> 'a oneshot_st \<Rightarrow> 'a option poll \<times> recv_future \<times> 'a oneshot_st" where
  "st_recv_turn k sh = (case st_try_recv sh of
     Inr value \<Rightarrow> (Ready (Some value), RecvStart, sh)
   | Inl RecvClosed \<Rightarrow> (Ready None, RecvStart, sh)
   | Inl RecvEmpty \<Rightarrow>
       let (w, e1) = event_listen (st_event sh); (_, e2) = listener_poll k w e1
       in (Pending, RecvWait w, sh\<lparr>st_event := e2, st_borrows := st_borrows sh + 1\<rparr>))"

definition st_recv_drop :: "recv_future \<Rightarrow> 'a oneshot_st \<Rightarrow> 'a oneshot_st" where
  "st_recv_drop fut sh = (case fut of
     RecvStart \<Rightarrow> sh
   | RecvWait w \<Rightarrow> sh\<lparr>st_event := listener_drop w (st_event sh), st_borrows := st_borrows sh - 1\<rparr>)"

definition st_recv_poll ::
  "waker \<Rightarrow> recv_future \<Rightarrow> 'a oneshot_st \<Rightarrow> 'a option poll \<times> recv_future \<times> 'a oneshot_st" where
  "st_recv_poll k fut sh = (case fut of
     RecvStart \<Rightarrow> st_recv_turn k sh
   | RecvWait w \<Rightarrow>
       (case listener_poll k w (st_event sh) of
          (Pending, e) \<Rightarrow> (Pending, RecvWait w, sh\<lparr>st_event := e\<rparr>)
        | (Ready _, e) \<Rightarrow> st_recv_turn k (st_recv_drop fut (sh\<lparr>st_event := e\<rparr>))))"

subsection \<open>\<open>mt.rs\<close>\<close>

definition mt_channel :: "'a oneshot_mt" where
  "mt_channel = \<lparr>mt_container = None, mt_notifications = 0, mt_senders = 1, mt_receivers = 1\<rparr>"

definition mt_sender_is_closed :: "'a oneshot_mt \<Rightarrow> bool" where
  "mt_sender_is_closed sh \<longleftrightarrow> mt_receivers sh = 0"

definition get_or_init :: "'a \<Rightarrow> 'a option \<Rightarrow> 'a \<times> 'a option \<times> 'a option" where
  "get_or_init value cell = (case cell of
     Some current \<Rightarrow> (current, Some value, cell)
   | None \<Rightarrow> (value, None, Some value))"

definition mt_send :: "'a \<Rightarrow> 'a oneshot_mt \<Rightarrow> ('a oneshot_error + unit) \<times> 'a oneshot_mt" where
  "mt_send value sh =
     (if mt_sender_is_closed sh then (Inl OneshotClosed, sh)
      else let (result, value', cell) = get_or_init value (mt_container sh);
               sh1 = sh\<lparr>mt_container := cell\<rparr>
           in if value' \<noteq> None then (Inl (OneshotFull result), sh1)
              else (Inr (), sh1\<lparr>mt_notifications := mt_notifications sh1 + 1\<rparr>))"

definition mt_clone_sender :: "'a oneshot_mt \<Rightarrow> 'a oneshot_mt" where
  "mt_clone_sender sh = sh\<lparr>mt_senders := mt_senders sh + 1\<rparr>"

definition mt_drop_sender :: "'a oneshot_mt \<Rightarrow> 'a oneshot_mt" where
  "mt_drop_sender sh =
     (let current_count = mt_senders sh - 1; sh1 = sh\<lparr>mt_senders := current_count\<rparr>
      in if current_count = 0 then sh1\<lparr>mt_notifications := mt_notifications sh1 + 1\<rparr> else sh1)"

definition mt_receiver_is_closed :: "'a oneshot_mt \<Rightarrow> bool" where
  "mt_receiver_is_closed sh \<longleftrightarrow> mt_senders sh = 0"

definition mt_try_recv :: "'a oneshot_mt \<Rightarrow> try_recv_error + 'a" where
  "mt_try_recv sh = (case mt_container sh of
     Some value \<Rightarrow> Inr value
   | None \<Rightarrow> if mt_receiver_is_closed sh then Inl RecvClosed else Inl RecvEmpty)"

definition mt_clone_receiver :: "'a oneshot_mt \<Rightarrow> 'a oneshot_mt" where
  "mt_clone_receiver sh = sh\<lparr>mt_receivers := mt_receivers sh + 1\<rparr>"

definition mt_drop_receiver :: "'a oneshot_mt \<Rightarrow> 'a oneshot_mt" where
  "mt_drop_receiver sh = sh\<lparr>mt_receivers := mt_receivers sh - 1\<rparr>"

datatype 'a sender_pc = SFree | SIdle | SInit 'a | SNotify | SLast

datatype 'a receiver_pc =
  RGet | RClosed | RListen | RGetAgain nat | RClosedAgain nat | RAwait nat | RDone "'a option"

record 'a mt_sys =
  sys_shared :: "'a oneshot_mt"
  sys_senders :: "nat \<Rightarrow> 'a sender_pc"
  sys_recv :: "'a receiver_pc"

definition mt_notify :: "'a oneshot_mt \<Rightarrow> 'a oneshot_mt" where
  "mt_notify sh = sh\<lparr>mt_notifications := mt_notifications sh + 1\<rparr>"

definition sender_act :: "'a \<Rightarrow> 'a sender_pc \<Rightarrow> 'a oneshot_mt \<Rightarrow> 'a sender_pc \<times> 'a oneshot_mt" where
  "sender_act v pc sh = (case pc of
     SFree \<Rightarrow> (SFree, sh)
   | SIdle \<Rightarrow> (if mt_sender_is_closed sh then SIdle else SInit v, sh)
   | SInit u \<Rightarrow>
       (case get_or_init u (mt_container sh) of
          (_, None, cell) \<Rightarrow> (SNotify, sh\<lparr>mt_container := cell\<rparr>)
        | (_, Some _, cell) \<Rightarrow> (SIdle, sh))
   | SNotify \<Rightarrow> (SIdle, mt_notify sh)
   | SLast \<Rightarrow> (SFree, mt_notify sh))"

definition sender_leave :: "'a oneshot_mt \<Rightarrow> 'a sender_pc \<times> 'a oneshot_mt" where
  "sender_leave sh =
     (let current_count = mt_senders sh - 1
      in (if current_count = 0 then SLast else SFree, sh\<lparr>mt_senders := current_count\<rparr>))"

definition receiver_act :: "(nat \<Rightarrow> nat \<Rightarrow> bool) \<Rightarrow> 'a receiver_pc \<Rightarrow> 'a oneshot_mt \<Rightarrow> 'a receiver_pc" where
  "receiver_act ready pc sh = (case pc of
     RGet \<Rightarrow> (case mt_container sh of Some v \<Rightarrow> RDone (Some v) | None \<Rightarrow> RClosed)
   | RClosed \<Rightarrow> if mt_receiver_is_closed sh then RDone None else RListen
   | RListen \<Rightarrow> RGetAgain (mt_notifications sh)
   | RGetAgain t \<Rightarrow> (case mt_container sh of Some v \<Rightarrow> RDone (Some v) | None \<Rightarrow> RClosedAgain t)
   | RClosedAgain t \<Rightarrow> if mt_receiver_is_closed sh then RDone None else RAwait t
   | RAwait t \<Rightarrow> if ready t (mt_notifications sh) then RGet else RAwait t
   | RDone r \<Rightarrow> RDone r)"

inductive mt_reach :: "(nat \<Rightarrow> nat \<Rightarrow> bool) \<Rightarrow> 'a mt_sys \<Rightarrow> bool" for ready :: "nat \<Rightarrow> nat \<Rightarrow> bool" where
  reach_channel: "mt_reach ready \<lparr>sys_shared = mt_channel, sys_senders = (\<lambda>_. SFree)(0 := SIdle), sys_recv = RGet\<rparr>"
| reach_sender: "mt_reach ready s \<Longrightarrow> sender_act v (sys_senders s i) (sys_shared s) = (pc, sh) \<Longrightarrow>
    mt_reach ready (s\<lparr>sys_shared := sh, sys_senders := (sys_senders s)(i := pc)\<rparr>)"
| reach_clone: "mt_reach ready s \<Longrightarrow> sys_senders s i = SIdle \<Longrightarrow> sys_senders s j = SFree \<Longrightarrow>
    mt_reach ready (s\<lparr>sys_shared := mt_clone_sender (sys_shared s), sys_senders := (sys_senders s)(j := SIdle)\<rparr>)"
| reach_drop: "mt_reach ready s \<Longrightarrow> sys_senders s i = SIdle \<Longrightarrow> sender_leave (sys_shared s) = (pc, sh) \<Longrightarrow>
    mt_reach ready (s\<lparr>sys_shared := sh, sys_senders := (sys_senders s)(i := pc)\<rparr>)"
| reach_clone_receiver: "mt_reach ready s \<Longrightarrow> mt_reach ready (s\<lparr>sys_shared := mt_clone_receiver (sys_shared s)\<rparr>)"
| reach_drop_receiver: "mt_reach ready s \<Longrightarrow> 1 < mt_receivers (sys_shared s) \<Longrightarrow>
    mt_reach ready (s\<lparr>sys_shared := mt_drop_receiver (sys_shared s)\<rparr>)"
| reach_receiver: "mt_reach ready s \<Longrightarrow>
    mt_reach ready (s\<lparr>sys_recv := receiver_act ready (sys_recv s) (sys_shared s)\<rparr>)"

subsection \<open>The contract of the channel\<close>

datatype 'a chan_op = is_OpSend: OpSend 'a | OpCloneSender | OpDropSender | OpCloneReceiver | OpDropReceiver

fun chan_run :: "('a chan_op \<Rightarrow> 's \<Rightarrow> panic + 's) \<Rightarrow> 'a chan_op list \<Rightarrow> 's \<Rightarrow> panic + 's" where
  "chan_run step [] s = Inr s"
| "chan_run step (c # cs) s = and_then (step c s) (chan_run step cs)"

locale oneshot_channel =
  fixes value_of :: "'s \<Rightarrow> 'a option"
    and senders :: "'s \<Rightarrow> nat"
    and receivers :: "'s \<Rightarrow> nat"
    and send :: "'a \<Rightarrow> 's \<Rightarrow> panic + (('a oneshot_error + 'w) \<times> 's)"
    and try_recv :: "'s \<Rightarrow> try_recv_error + 'a"
    and step :: "'a chan_op \<Rightarrow> 's \<Rightarrow> panic + 's"
  assumes send_closed: "send v s = Inr (r, s') \<Longrightarrow> receivers s = 0 \<Longrightarrow> r = Inl OneshotClosed \<and> s' = s"
    and send_full: "send v s = Inr (r, s') \<Longrightarrow> receivers s \<noteq> 0 \<Longrightarrow> value_of s = Some u \<Longrightarrow>
      r = Inl (OneshotFull u) \<and> s' = s"
    and send_first: "send v s = Inr (r, s') \<Longrightarrow> receivers s \<noteq> 0 \<Longrightarrow> value_of s = None \<Longrightarrow>
      (\<exists>x. r = Inr x) \<and> value_of s' = Some v"
    and try_recv_value: "value_of s = Some v \<Longrightarrow> try_recv s = Inr v"
    and try_recv_none: "value_of s = None \<Longrightarrow> try_recv s = Inl (if senders s = 0 then RecvClosed else RecvEmpty)"
    and step_send: "step (OpSend v) s = Inr s' \<Longrightarrow> \<exists>r. send v s = Inr (r, s')"
    and step_other: "step c s = Inr s' \<Longrightarrow> \<not> is_OpSend c \<Longrightarrow> value_of s' = value_of s"
begin

lemma step_keeps_value:
  assumes "value_of s = Some v" and "step c s = Inr s'"
  shows "value_of s' = Some v"
proof (cases c)
  case (OpSend u)
  then obtain r where r: "send u s = Inr (r, s')" using step_send assms(2) by blast
  show ?thesis
    using send_closed [OF r] send_full [OF r _ assms(1)] assms(1) by (cases "receivers s = 0") auto
qed (use step_other [OF assms(2)] assms(1) in auto)

lemma run_keeps_value: "value_of s = Some v \<Longrightarrow> chan_run step cs s = Inr s' \<Longrightarrow> value_of s' = Some v"
proof (induction cs arbitrary: s)
  case (Cons c cs)
  then obtain s1 where s1: "step c s = Inr s1" "chan_run step cs s1 = Inr s'"
    by (auto simp: and_then_def split: sum.splits)
  show ?case using Cons.IH [OF step_keeps_value [OF Cons.prems(1) s1(1)] s1(2)] .
qed simp

lemma first_value_wins:
  assumes "send v s = Inr (Inr x, s1)" and "chan_run step cs s1 = Inr s2"
  shows "try_recv s2 = Inr v \<and> (\<forall>u r s3. send u s2 = Inr (r, s3) \<longrightarrow> (\<exists>e. r = Inl e) \<and> s3 = s2)"
proof -
  have r: "receivers s \<noteq> 0" using send_closed [OF assms(1)] by auto
  have "value_of s = None"
    using send_full [OF assms(1) r] by (cases "value_of s") auto
  with send_first [OF assms(1) r] have "value_of s1 = Some v" by simp
  then have v: "value_of s2 = Some v" using assms(2) by (rule run_keeps_value)
  have "(\<exists>e. r = Inl e) \<and> s3 = s2" if s: "send u s2 = Inr (r, s3)" for u r s3
    using send_closed [OF s] send_full [OF s _ v] by (cases "receivers s2 = 0") auto
  with try_recv_value [OF v] show ?thesis by blast
qed

end

definition st_step :: "'a chan_op \<Rightarrow> 'a oneshot_st \<Rightarrow> panic + 'a oneshot_st" where
  "st_step c sh = (case c of
     OpSend v \<Rightarrow> map_sum id snd (st_send v sh)
   | OpCloneSender \<Rightarrow> st_clone_sender sh
   | OpDropSender \<Rightarrow> map_sum id snd (st_drop_sender sh)
   | OpCloneReceiver \<Rightarrow> st_clone_receiver sh
   | OpDropReceiver \<Rightarrow> st_drop_receiver sh)"

definition mt_step :: "'a chan_op \<Rightarrow> 'a oneshot_mt \<Rightarrow> panic + 'a oneshot_mt" where
  "mt_step c sh = Inr (case c of
     OpSend v \<Rightarrow> snd (mt_send v sh)
   | OpCloneSender \<Rightarrow> mt_clone_sender sh
   | OpDropSender \<Rightarrow> mt_drop_sender sh
   | OpCloneReceiver \<Rightarrow> mt_clone_receiver sh
   | OpDropReceiver \<Rightarrow> mt_drop_receiver sh)"

lemmas st_defs = st_send_def st_clone_sender_def st_drop_sender_def st_clone_receiver_def st_drop_receiver_def
  borrow_mut_def panic_if_def

lemmas mt_defs = mt_send_def mt_sender_is_closed_def mt_receiver_is_closed_def get_or_init_def
  mt_clone_sender_def mt_drop_sender_def mt_clone_receiver_def mt_drop_receiver_def

interpretation oneshot_st_channel: oneshot_channel st_container st_senders st_receivers st_send st_try_recv st_step
  by unfold_locales
    (auto simp: st_defs st_try_recv_def st_step_def and_then_def Let_def map_sum_def
      split: chan_op.splits prod.splits if_splits option.splits sum.splits)

interpretation oneshot_mt_channel: oneshot_channel mt_container mt_senders mt_receivers
  "\<lambda>v sh. Inr (mt_send v sh)" mt_try_recv mt_step
  by unfold_locales
    (auto simp: mt_defs mt_try_recv_def mt_step_def Let_def split: chan_op.splits if_splits option.splits)

subsection \<open>Invariant of the interleaved channel\<close>

definition notify_owed :: "'a mt_sys \<Rightarrow> bool" where
  "notify_owed s \<longleftrightarrow> (\<exists>i. sys_senders s i = SNotify \<or> sys_senders s i = SLast)"

definition mt_inv :: "'a mt_sys \<Rightarrow> bool" where
  "mt_inv s \<longleftrightarrow> (let sh = sys_shared s in case sys_recv s of
     RGetAgain t \<Rightarrow> t \<le> mt_notifications sh
   | RClosedAgain t \<Rightarrow> t \<le> mt_notifications sh \<and>
       (t < mt_notifications sh \<or> notify_owed s \<or> mt_container sh = None)
   | RAwait t \<Rightarrow> t \<le> mt_notifications sh \<and>
       (t < mt_notifications sh \<or> notify_owed s \<or> (mt_container sh = None \<and> 0 < mt_senders sh))
   | RDone (Some v) \<Rightarrow> mt_container sh = Some v
   | _ \<Rightarrow> True)"

lemma mt_inv_receiver:
  assumes "mt_inv s"
  shows "mt_inv (s\<lparr>sys_recv := receiver_act ready (sys_recv s) (sys_shared s)\<rparr>)"
  using assms
  by (auto simp: mt_inv_def receiver_act_def notify_owed_def mt_receiver_is_closed_def Let_def
      split: receiver_pc.splits option.splits if_splits)

lemma notify_owed_update:
  "notify_owed (s\<lparr>sys_shared := sh, sys_senders := (sys_senders s)(i := pc)\<rparr>) \<longleftrightarrow>
     pc = SNotify \<or> pc = SLast \<or> (\<exists>j. j \<noteq> i \<and> (sys_senders s j = SNotify \<or> sys_senders s j = SLast))"
  by (auto simp: notify_owed_def)

lemma mt_inv_sender:
  assumes inv: "mt_inv s"
    and keeps: "mt_container sh = mt_container (sys_shared s) \<or> (mt_container (sys_shared s) = None \<and> pc = SNotify)"
    and count: "mt_notifications (sys_shared s) \<le> mt_notifications sh"
    and senders: "0 < mt_senders (sys_shared s) \<longrightarrow> 0 < mt_senders sh \<or> pc = SLast"
    and debt: "sys_senders s i = SNotify \<or> sys_senders s i = SLast \<Longrightarrow>
      mt_notifications (sys_shared s) < mt_notifications sh \<and> mt_container sh = mt_container (sys_shared s)"
  shows "mt_inv (s\<lparr>sys_shared := sh, sys_senders := (sys_senders s)(i := pc)\<rparr>)"
proof -
  let ?s' = "s\<lparr>sys_shared := sh, sys_senders := (sys_senders s)(i := pc)\<rparr>"
  have owed: "notify_owed ?s' \<or> mt_notifications (sys_shared s) < mt_notifications sh" if "notify_owed s"
    using that debt unfolding notify_owed_update unfolding notify_owed_def by metis
  have new: "notify_owed ?s'" if "pc = SNotify \<or> pc = SLast"
    using that by (auto simp: notify_owed_update)
  show ?thesis
    using inv keeps count senders owed new
    by (cases "sys_recv s") (auto simp: mt_inv_def Let_def simp del: fun_upd_apply split: option.splits)
qed

lemma mt_reach_inv: "mt_reach ready s \<Longrightarrow> mt_inv s"
proof (induction rule: mt_reach.induct)
  case reach_channel
  then show ?case by (simp add: mt_inv_def)
next
  case (reach_sender s v i pc sh)
  show ?case
    by (rule mt_inv_sender [OF reach_sender.IH]; use reach_sender.hyps(2) in
        \<open>auto simp: sender_act_def mt_notify_def get_or_init_def split: sender_pc.splits option.splits if_splits\<close>)
next
  case (reach_clone s i j)
  show ?case
    by (rule mt_inv_sender [OF reach_clone.IH]) (use reach_clone.hyps in \<open>auto simp: mt_clone_sender_def\<close>)
next
  case (reach_drop s i pc sh)
  show ?case
    by (rule mt_inv_sender [OF reach_drop.IH])
      (use reach_drop.hyps in \<open>auto simp: sender_leave_def Let_def split: if_splits\<close>)
next
  case (reach_clone_receiver s)
  then show ?case
    by (auto simp: mt_inv_def notify_owed_def mt_clone_receiver_def Let_def split: receiver_pc.splits option.splits)
next
  case (reach_drop_receiver s)
  then show ?case
    by (auto simp: mt_inv_def notify_owed_def mt_drop_receiver_def Let_def split: receiver_pc.splits option.splits)
next
  case (reach_receiver s)
  then show ?case by (intro mt_inv_receiver)
qed

subsection \<open>Properties\<close>

text \<open>C14: on both channels the first value wins. After one successful \<open>send\<close>, whatever handles are
  cloned, dropped or used to send again, every \<open>try_recv\<close> returns that value, and every later
  \<open>send\<close> fails and changes nothing.\<close>

theorem oneshot_first_value_wins:
  "(\<forall>sh x sh1 sh2. st_send v sh = Inr (Inr x, sh1) \<longrightarrow> chan_run st_step cs sh1 = Inr sh2 \<longrightarrow>
      st_try_recv sh2 = Inr v \<and> (\<forall>u r sh3. st_send u sh2 = Inr (r, sh3) \<longrightarrow> (\<exists>e. r = Inl e) \<and> sh3 = sh2)) \<and>
   (\<forall>sh x sh1 sh2. mt_send v sh = (Inr x, sh1) \<longrightarrow> chan_run mt_step cs sh1 = Inr sh2 \<longrightarrow>
      mt_try_recv sh2 = Inr v \<and> (\<forall>u r sh3. mt_send u sh2 = (r, sh3) \<longrightarrow> (\<exists>e. r = Inl e) \<and> sh3 = sh2))"
  using oneshot_st_channel.first_value_wins [where v = v and cs = cs]
    oneshot_mt_channel.first_value_wins [where v = v and cs = cs]
  by (simp only: sum.inject) blast

theorem oneshot_first_value_wins_witness:
  "\<exists>x sh1 sh2. st_send (5 :: nat) st_channel = Inr (Inr x, sh1) \<and>
     chan_run st_step [OpDropSender, OpSend 6] sh1 = Inr sh2 \<and> st_try_recv sh2 = Inr 5"
proof -
  have "\<exists>x sh1 sh2. st_send (5 :: nat) st_channel = Inr (Inr x, sh1) \<and>
     chan_run st_step [OpDropSender, OpSend 6] sh1 = Inr sh2"
    by (simp add: st_defs st_channel_def st_step_def and_then_def event_notify_all_def event_new_def)
  with oneshot_first_value_wins [of 5 "[OpDropSender, OpSend 6]"] show ?thesis by blast
qed

text \<open>while a \<open>recv\<close> of the single-threaded channel is pending, its suspended future holds a shared
  borrow of the channel: until that future is polled to completion or dropped, every \<open>send\<close>, clone
  and drop of a handle panics with \<open>BorrowMutError\<close>, so that nothing can ever make the future ready.\<close>

lemma oneshot_pending_recv_panics:
  assumes "st_recv_poll k RecvStart sh = (Pending, fut, sh1)"
  shows "(\<forall>c. st_step c sh1 = Inl BorrowMutError) \<and> st_borrows (st_recv_drop fut sh1) = st_borrows sh \<and>
     (\<forall>k'. \<exists>sh2. st_recv_poll k' fut sh1 = (Pending, fut, sh2) \<and> st_borrows sh2 = st_borrows sh1)"
proof -
  have l: "listener_poll k (fresh e) (snd (event_listen e)) =
      (Pending, snd (listener_poll k (fresh e) (snd (event_listen e))))"
    and again: "fst (listener_poll k' (fresh e) (snd (listener_poll k (fresh e) (snd (event_listen e))))) = Pending"
    for e k'
    by (auto simp: event_listen_def listener_poll_def Let_def)
  have "fut = RecvWait (fresh (st_event sh))"
    and "st_event sh1 = snd (listener_poll k (fresh (st_event sh)) (snd (event_listen (st_event sh))))"
    and "st_borrows sh1 = st_borrows sh + 1"
    using assms by (auto simp: st_recv_poll_def st_recv_turn_def event_listen_def Let_def
        split: sum.splits try_recv_error.splits prod.splits)
  moreover from this(2) again [of _ "st_event sh"]
  have "\<exists>e. listener_poll k' (fresh (st_event sh)) (st_event sh1) = (Pending, e)" for k'
    by (metis prod.collapse)
  ultimately show ?thesis
    by (auto simp: st_recv_poll_def st_recv_drop_def st_step_def st_defs and_then_def
        split: chan_op.splits prod.splits poll.splits) (metis prod.inject poll.distinct(1))+
qed

lemma oneshot_pending_recv_panics_witness:
  "\<exists>fut sh1. st_recv_poll 3 RecvStart (st_channel :: nat oneshot_st) = (Pending, fut, sh1) \<and>
     st_step (OpSend 4) sh1 = Inl BorrowMutError"
proof -
  have "\<exists>fut sh1. st_recv_poll 3 RecvStart (st_channel :: nat oneshot_st) = (Pending, fut, sh1)"
    by (simp add: st_recv_poll_def st_recv_turn_def st_try_recv_def st_channel_def event_listen_def
        listener_poll_def event_new_def)
  with oneshot_pending_recv_panics [of 3 "st_channel :: nat oneshot_st"] show ?thesis by blast
qed

text \<open>C15: no wake-up is lost in the multi-threaded channel, for every interleaving of the atomic actions
  of any number of senders with a \<open>recv\<close>: when the receiver awaits its listener and every sender
  has finished its call, a stored value or the absence of senders means that the listener is
  notified. A \<open>recv\<close> that returns a value returns the stored one.\<close>

theorem oneshot_mt_no_lost_wakeup:
  assumes "wakes_all ready" and "mt_reach ready s" and "\<And>i. sys_senders s i \<notin> {SNotify, SLast}"
    and "sys_recv s = RAwait t" and "mt_container (sys_shared s) \<noteq> None \<or> mt_senders (sys_shared s) = 0"
  shows "receiver_act ready (sys_recv s) (sys_shared s) = RGet"
proof -
  have "\<not> notify_owed s" using assms(3) by (auto simp: notify_owed_def)
  with mt_reach_inv [OF assms(2)] assms(4,5) have "t < mt_notifications (sys_shared s)"
    by (auto simp: mt_inv_def Let_def)
  with assms(1,4) show ?thesis by (simp add: wakes_all_def receiver_act_def)
qed

theorem oneshot_mt_no_lost_wakeup_witness:
  "\<exists>s :: nat mt_sys. mt_reach (<) s \<and> sys_recv s = RAwait 0 \<and> mt_container (sys_shared s) = Some 5 \<and>
     receiver_act (<) (sys_recv s) (sys_shared s) = RGet"
proof -
  let ?sh = "mt_channel :: nat oneshot_mt"
  let ?s0 = "\<lparr>sys_shared = ?sh, sys_senders = (\<lambda>_. SFree)(0 := SIdle), sys_recv = RGet\<rparr>"
  let ?s = "\<lparr>sys_shared = ?sh\<lparr>mt_container := Some 5, mt_notifications := 1\<rparr>,
    sys_senders = (\<lambda>_. SFree)(0 := SIdle), sys_recv = RAwait 0\<rparr>"
  have "mt_reach (<) ?s"
    using reach_sender [OF reach_sender [OF reach_sender [OF reach_receiver [OF reach_receiver [OF reach_receiver
            [OF reach_receiver [OF reach_receiver [OF reach_channel]]]]],
          where v = 5 and i = 0 and pc = "SInit 5" and sh = ?sh], where v = 0 and i = 0 and pc = SNotify and sh = "?sh\<lparr>mt_container := Some 5\<rparr>"],
        where v = 0 and i = 0 and pc = SIdle and sh = "?sh\<lparr>mt_container := Some 5, mt_notifications := 1\<rparr>"]
    by (simp add: mt_channel_def receiver_act_def sender_act_def mt_notify_def mt_defs)
  moreover have "wakes_all (<)" by (simp add: wakes_all_def)
  ultimately show ?thesis using oneshot_mt_no_lost_wakeup [of "(<)" ?s 0] by (intro exI [of _ ?s]) auto
qed

text \<open>the two reads of \<open>try_recv\<close> in the multi-threaded channel are not atomic. A \<open>recv\<close> that finds no
  value, and then sees no sender because the last one sent its value and was dropped in between,
  returns \<open>None\<close> although the value was sent and stored.\<close>

lemma oneshot_mt_recv_misses_value:
  "\<exists>s. mt_reach ready s \<and> sys_recv s = RDone None \<and> mt_container (sys_shared s) = Some v"
proof -
  let ?sh = "mt_channel :: 'a oneshot_mt"
  let ?sh2 = "?sh\<lparr>mt_container := Some v, mt_notifications := 1\<rparr>"
  let ?s = "\<lparr>sys_shared = ?sh2\<lparr>mt_senders := 0\<rparr>, sys_senders = (\<lambda>_. SFree)(0 := SLast), sys_recv = RDone None\<rparr>"
  have "mt_reach ready ?s"
    using reach_receiver [OF reach_drop [OF reach_sender [OF reach_sender [OF reach_sender
            [OF reach_receiver [OF reach_channel], where v = v and i = 0 and pc = "SInit v" and sh = ?sh],
            where v = v and i = 0 and pc = SNotify and sh = "?sh\<lparr>mt_container := Some v\<rparr>"], where v = v and i = 0 and pc = SIdle and sh = ?sh2],
          where i = 0 and pc = SLast and sh = "?sh2\<lparr>mt_senders := 0\<rparr>"]]
    by (simp add: mt_channel_def receiver_act_def sender_act_def sender_leave_def mt_notify_def mt_defs)
  then show ?thesis by (intro exI [of _ ?s]) simp
qed

end
