(* ===== verification/Sync_Watch.thy ===== *)
theory Sync_Watch
  imports Sync_Event "HOL-Library.Sublist"
begin

section \<open>The watch channel\<close>

text \<open>
  Model of \<open>src/aquic-core/src/sync/mpmc/watch/\<close>: the single-threaded channel (\<open>st.rs\<close>) and the
  multi-threaded one (\<open>mt.rs\<close>, whose state is behind an \<open>RwLock\<close>, so that each operation on it is one
  step). A receiver is the version it saw last; the sender handles and the receiver handles are
  counted. As in the oneshot channel, a suspended \<open>recv\<close> of \<open>st.rs\<close> holds a \<open>Ref\<close> of the channel,
  which \<open>ws_borrows\<close> counts. The locale \<open>watch_channel\<close> is the contract of \<open>WatchSender\<close> and
  \<open>WatchReceiver\<close>; its lemmas show that a receiver gets a subsequence of the values that were sent,
  each at most once, and always the newest one.
\<close>

subsection \<open>Data\<close>

record 'a watch_item =
  wi_value :: 'a
  wi_version :: nat

record 'a watch_st =
  ws_item :: "'a watch_item option"
  ws_event :: event
  ws_senders :: nat
  ws_receivers :: nat
  ws_borrows :: nat

record 'a watch_mt =
  wm_item :: "'a watch_item option"
  wm_senders :: nat
  wm_receivers :: nat
  wm_notifications :: nat

definition initial_sender_version :: nat where
  "initial_sender_version = 0"

definition initial_receiver_version :: nat where
  "initial_receiver_version = usize_max"

definition next_version :: "'a watch_item option \<Rightarrow> panic + nat" where
  "next_version item = (case item of
     Some i \<Rightarrow> usize_add (wi_version i) 1
   | None \<Rightarrow> Inr initial_sender_version)"

subsection \<open>\<open>st.rs\<close>\<close>

definition watch_st_channel :: "'a watch_st" where
  "watch_st_channel =
     \<lparr>ws_item = None, ws_event = event_new, ws_senders = 1, ws_receivers = 1, ws_borrows = 0\<rparr>"

definition watch_st_send :: "'a \<Rightarrow> 'a watch_st \<Rightarrow> panic + (('a send_error + waker list) \<times> 'a watch_st)" where
  "watch_st_send value sh = and_then (borrow_mut (ws_borrows sh)) (\<lambda>_.
     if ws_receivers sh = 0 then Inr (Inl (SendError value), sh)
     else and_then (next_version (ws_item sh)) (\<lambda>version.
       let sh1 = sh\<lparr>ws_item := Some \<lparr>wi_value = value, wi_version = version\<rparr>\<rparr>;
           (woken, e) = event_notify_all (ws_event sh1)
       in Inr (Inr woken, sh1\<lparr>ws_event := e\<rparr>)))"

definition watch_st_sender_is_closed :: "'a watch_st \<Rightarrow> bool" where
  "watch_st_sender_is_closed sh \<longleftrightarrow> ws_receivers sh = 0"

definition watch_st_clone_sender :: "'a watch_st \<Rightarrow> panic + 'a watch_st" where
  "watch_st_clone_sender sh =
     and_then (borrow_mut (ws_borrows sh)) (\<lambda>_. Inr (sh\<lparr>ws_senders := ws_senders sh + 1\<rparr>))"

definition watch_st_drop_sender :: "'a watch_st \<Rightarrow> panic + (waker list \<times> 'a watch_st)" where
  "watch_st_drop_sender sh = and_then (borrow_mut (ws_borrows sh)) (\<lambda>_.
     and_then (usize_sub (ws_senders sh) 1) (\<lambda>count.
       let sh1 = sh\<lparr>ws_senders := count\<rparr>
       in if ws_senders sh1 = 0
          then let (woken, e) = event_notify_all (ws_event sh1) in Inr (woken, sh1\<lparr>ws_event := e\<rparr>)
          else Inr ([], sh1)))"

definition watch_st_try_recv_inner ::
  "bool \<Rightarrow> nat \<Rightarrow> 'a watch_st \<Rightarrow> (try_recv_error + 'a) \<times> nat" where
  "watch_st_try_recv_inner ignore_version last_seen sh =
     (let closed = (if ws_senders sh = 0 then RecvClosed else RecvEmpty) in
      case ws_item sh of
        Some item \<Rightarrow>
          if ignore_version \<or> last_seen \<noteq> wi_version item then (Inr (wi_value item), wi_version item)
          else (Inl closed, last_seen)
      | None \<Rightarrow> (Inl closed, last_seen))"

definition watch_st_try_recv :: "nat \<Rightarrow> 'a watch_st \<Rightarrow> (try_recv_error + 'a) \<times> nat" where
  "watch_st_try_recv = watch_st_try_recv_inner False"

definition watch_st_try_recv_any :: "nat \<Rightarrow> 'a watch_st \<Rightarrow> (try_recv_error + 'a) \<times> nat" where
  "watch_st_try_recv_any = watch_st_try_recv_inner True"

definition watch_st_receiver_is_closed :: "'a watch_st \<Rightarrow> bool" where
  "watch_st_receiver_is_closed sh \<longleftrightarrow> ws_senders sh = 0"

definition watch_st_clone_receiver :: "nat \<Rightarrow> 'a watch_st \<Rightarrow> panic + (nat \<times> 'a watch_st)" where
  "watch_st_clone_receiver last_seen sh =
     and_then (borrow_mut (ws_borrows sh)) (\<lambda>_. Inr (last_seen, sh\<lparr>ws_receivers := ws_receivers sh + 1\<rparr>))"

definition watch_st_drop_receiver :: "'a watch_st \<Rightarrow> panic + 'a watch_st" where
  "watch_st_drop_receiver sh = and_then (borrow_mut (ws_borrows sh)) (\<lambda>_.
     and_then (usize_sub (ws_receivers sh) 1) (\<lambda>count. Inr (sh\<lparr>ws_receivers := count\<rparr>)))"

datatype watch_future = WatchStart | WatchWait nat

definition watch_st_recv_turn ::
  "waker \<Rightarrow> nat \<Rightarrow> 'a watch_st \<Rightarrow> 'a option poll \<times> watch_future \<times> nat \<times> 'a watch_st" where
  "watch_st_recv_turn k last_seen sh = (case watch_st_try_recv last_seen sh of
     (Inr value, seen) \<Rightarrow> (Ready (Some value), WatchStart, seen, sh)
   | (Inl RecvClosed, seen) \<Rightarrow> (Ready None, WatchStart, seen, sh)
   | (Inl RecvEmpty, seen) \<Rightarrow>
       let (w, e1) = event_listen (ws_event sh); (_, e2) = listener_poll k w e1
       in (Pending, WatchWait w, seen, sh\<lparr>ws_event := e2, ws_borrows := ws_borrows sh + 1\<rparr>))"

definition watch_st_recv_drop :: "watch_future \<Rightarrow> 'a watch_st \<Rightarrow> 'a watch_st" where
  "watch_st_recv_drop fut sh = (case fut of
     WatchStart \<Rightarrow> sh
   | WatchWait w \<Rightarrow> sh\<lparr>ws_event := listener_drop w (ws_event sh), ws_borrows := ws_borrows sh - 1\<rparr>)"

definition watch_st_recv_poll ::
  "waker \<Rightarrow> watch_future \<Rightarrow> nat \<Rightarrow> 'a watch_st \<Rightarrow> 'a option poll \<times> watch_future \<times> nat \<times> 'a watch_st" where
  "watch_st_recv_poll k fut last_seen sh = (case fut of
     WatchStart \<Rightarrow> watch_st_recv_turn k last_seen sh
   | WatchWait w \<Rightarrow>
       (case listener_poll k w (ws_event sh) of
          (Pending, e) \<Rightarrow> (Pending, fut, last_seen, sh\<lparr>ws_event := e\<rparr>)
        | (Ready _, e) \<Rightarrow> watch_st_recv_turn k last_seen (watch_st_recv_drop fut (sh\<lparr>ws_event := e\<rparr>))))"

subsection \<open>\<open>mt.rs\<close>\<close>

definition watch_mt_channel :: "'a watch_mt" where
  "watch_mt_channel = \<lparr>wm_item = None, wm_senders = 1, wm_receivers = 1, wm_notifications = 0\<rparr>"

definition watch_mt_send :: "'a \<Rightarrow> 'a watch_mt \<Rightarrow> panic + (('a send_error + unit) \<times> 'a watch_mt)" where
  "watch_mt_send value sh =
     (if wm_receivers sh = 0 then Inr (Inl (SendError value), sh)
      else and_then (next_version (wm_item sh)) (\<lambda>version.
        let sh1 = sh\<lparr>wm_item := Some \<lparr>wi_value = value, wi_version = version\<rparr>\<rparr>
        in Inr (Inr (), sh1\<lparr>wm_notifications := wm_notifications sh1 + 1\<rparr>)))"

definition watch_mt_sender_is_closed :: "'a watch_mt \<Rightarrow> bool" where
  "watch_mt_sender_is_closed sh \<longleftrightarrow> wm_receivers sh = 0"

definition watch_mt_clone_sender :: "'a watch_mt \<Rightarrow> 'a watch_mt" where
  "watch_mt_clone_sender sh = sh"

definition watch_mt_drop_sender :: "'a watch_mt \<Rightarrow> panic + 'a watch_mt" where
  "watch_mt_drop_sender sh = and_then (usize_sub (wm_senders sh) 1) (\<lambda>current_count.
     let sh1 = sh\<lparr>wm_senders := current_count\<rparr>
     in Inr (if current_count = 0 then sh1\<lparr>wm_notifications := wm_notifications sh1 + 1\<rparr> else sh1))"

definition watch_mt_try_recv_inner ::
  "bool \<Rightarrow> nat \<Rightarrow> 'a watch_mt \<Rightarrow> (try_recv_error + 'a) \<times> nat" where
  "watch_mt_try_recv_inner ignore_version last_seen sh =
     (let closed = (if wm_receivers sh = 0 then RecvClosed else RecvEmpty) in
      case wm_item sh of
        Some item \<Rightarrow>
          if ignore_version \<or> last_seen \<noteq> wi_version item then (Inr (wi_value item), wi_version item)
          else (Inl closed, last_seen)
      | None \<Rightarrow> (Inl closed, last_seen))"

definition watch_mt_try_recv :: "nat \<Rightarrow> 'a watch_mt \<Rightarrow> (try_recv_error + 'a) \<times> nat" where
  "watch_mt_try_recv = watch_mt_try_recv_inner False"

definition watch_mt_try_recv_any :: "nat \<Rightarrow> 'a watch_mt \<Rightarrow> (try_recv_error + 'a) \<times> nat" where
  "watch_mt_try_recv_any = watch_mt_try_recv_inner True"

definition watch_mt_receiver_is_closed :: "'a watch_mt \<Rightarrow> bool" where
  "watch_mt_receiver_is_closed sh \<longleftrightarrow> wm_senders sh = 0"

definition watch_mt_clone_receiver :: "nat \<Rightarrow> 'a watch_mt \<Rightarrow> nat \<times> 'a watch_mt" where
  "watch_mt_clone_receiver last_seen sh = (last_seen, sh\<lparr>wm_receivers := wm_receivers sh + 1\<rparr>)"

definition watch_mt_drop_receiver :: "'a watch_mt \<Rightarrow> panic + 'a watch_mt" where
  "watch_mt_drop_receiver sh =
     and_then (usize_sub (wm_receivers sh) 1) (\<lambda>count. Inr (sh\<lparr>wm_receivers := count\<rparr>))"

text \<open>The actions of \<open>recv\<close>: it tests the channel, creates a listener, tests again and awaits.\<close>

datatype 'a watch_pc = WTest | WListen | WTestAgain nat | WAwait nat | WDone "'a option"

definition watch_mt_recv_act ::
  "(nat \<Rightarrow> nat \<Rightarrow> bool) \<Rightarrow> 'a watch_pc \<times> nat \<Rightarrow> 'a watch_mt \<Rightarrow> 'a watch_pc \<times> nat" where
  "watch_mt_recv_act ready r sh =
     (let test = (\<lambda>next. case watch_mt_try_recv_inner False (snd r) sh of
                    (Inr value, seen) \<Rightarrow> (WDone (Some value), seen)
                  | (Inl RecvClosed, seen) \<Rightarrow> (WDone None, seen)
                  | (Inl RecvEmpty, seen) \<Rightarrow> (next, seen))
      in case fst r of
           WTest \<Rightarrow> test WListen
         | WListen \<Rightarrow> (WTestAgain (wm_notifications sh), snd r)
         | WTestAgain t \<Rightarrow> test (WAwait t)
         | WAwait t \<Rightarrow> (if ready t (wm_notifications sh) then WTest else WAwait t, snd r)
         | WDone x \<Rightarrow> r)"

subsection \<open>The contract of the channel\<close>

datatype 'a watch_op =
  WatchSend 'a | WatchRecv | WatchCloneSender | WatchDropSender | WatchCloneReceiver | WatchDropReceiver

text \<open>A channel in use by one receiver, whose received values are collected; the other operations
  are those of the other handles.\<close>

fun watch_run ::
  "('a watch_op \<Rightarrow> 's \<Rightarrow> panic + 's) \<Rightarrow> (nat \<Rightarrow> 's \<Rightarrow> (try_recv_error + 'a) \<times> nat) \<Rightarrow>
   'a watch_op list \<Rightarrow> nat \<Rightarrow> 's \<Rightarrow> panic + ('a list \<times> nat \<times> 's)" where
  "watch_run step recv [] seen s = Inr ([], seen, s)"
| "watch_run step recv (c # cs) seen s =
     (if c = WatchRecv then
        case recv seen s of
          (Inr v, seen') \<Rightarrow> map_sum id (\<lambda>(got, r). (v # got, r)) (watch_run step recv cs seen' s)
        | (Inl _, seen') \<Rightarrow> watch_run step recv cs seen' s
      else and_then (step c s) (watch_run step recv cs seen))"

fun watch_sends :: "'a watch_op list \<Rightarrow> 'a list" where
  "watch_sends [] = []"
| "watch_sends (c # cs) = (case c of WatchSend v \<Rightarrow> [v] | _ \<Rightarrow> []) @ watch_sends cs"

definition watch_st_step :: "'a watch_op \<Rightarrow> 'a watch_st \<Rightarrow> panic + 'a watch_st" where
  "watch_st_step c sh = (case c of
     WatchSend v \<Rightarrow> map_sum id snd (watch_st_send v sh)
   | WatchRecv \<Rightarrow> Inr sh
   | WatchCloneSender \<Rightarrow> watch_st_clone_sender sh
   | WatchDropSender \<Rightarrow> map_sum id snd (watch_st_drop_sender sh)
   | WatchCloneReceiver \<Rightarrow> map_sum id snd (watch_st_clone_receiver 0 sh)
   | WatchDropReceiver \<Rightarrow> watch_st_drop_receiver sh)"

definition watch_mt_step :: "'a watch_op \<Rightarrow> 'a watch_mt \<Rightarrow> panic + 'a watch_mt" where
  "watch_mt_step c sh = (case c of
     WatchSend v \<Rightarrow> map_sum id snd (watch_mt_send v sh)
   | WatchRecv \<Rightarrow> Inr sh
   | WatchCloneSender \<Rightarrow> Inr (watch_mt_clone_sender sh)
   | WatchDropSender \<Rightarrow> watch_mt_drop_sender sh
   | WatchCloneReceiver \<Rightarrow> Inr (snd (watch_mt_clone_receiver 0 sh))
   | WatchDropReceiver \<Rightarrow> watch_mt_drop_receiver sh)"

definition watch_view :: "'a list \<Rightarrow> 'a list \<Rightarrow> nat \<Rightarrow> 'a watch_item option \<Rightarrow> bool" where
  "watch_view sent got seen item \<longleftrightarrow>
     item = (if sent = [] then None else Some \<lparr>wi_value = last sent, wi_version = length sent - 1\<rparr>) \<and>
     (got = [] \<and> seen = initial_receiver_version \<or> seen < length sent \<and> subseq got (take (Suc seen) sent))"

lemma watch_view_subseq: "watch_view sent got seen item \<Longrightarrow> subseq got sent"
  using subseq_order.order_trans [of got "take (Suc seen) sent" sent]
  by (auto simp: watch_view_def take_is_prefix prefix_imp_subseq)

lemma watch_view_send:
  assumes "watch_view sent got seen item" and "next_version item = Inr n"
  shows "watch_view (sent @ [v]) got seen (Some \<lparr>wi_value = v, wi_version = n\<rparr>)"
  using assms by (cases "sent = []")
    (auto simp: watch_view_def next_version_def usize_add_def initial_sender_version_def split: if_splits)

lemma watch_view_recv:
  assumes "watch_view sent got seen (Some i)" and "seen \<noteq> wi_version i"
  shows "watch_view sent (got @ [wi_value i]) (wi_version i) (Some i)"
proof -
  have i: "sent \<noteq> []" "wi_value i = last sent" "wi_version i = length sent - 1"
    using assms(1) by (auto simp: watch_view_def split: if_splits)
  have "subseq (got @ [last sent]) sent"
  proof (cases "seen < length sent")
    case True
    with assms i have lt: "Suc seen < length sent" by simp
    have "got = [] \<or> subseq got (take (Suc seen) sent)" using assms(1) by (auto simp: watch_view_def)
    moreover have "last sent \<in> set (drop (Suc seen) sent)" using lt by (metis last_drop last_in_set drop_eq_Nil not_le)
    then have "subseq [last sent] (drop (Suc seen) sent)" by (simp add: subseq_singleton_left)
    ultimately have "subseq (got @ [last sent]) (take (Suc seen) sent @ drop (Suc seen) sent)"
      by (intro list_emb_append_mono) auto
    then show ?thesis by simp
  next
    case False
    with assms(1) i(1) show ?thesis by (simp add: watch_view_def subseq_singleton_left)
  qed
  with i assms(1) show ?thesis by (simp add: watch_view_def)
qed

locale watch_channel =
  fixes item_of :: "'s \<Rightarrow> 'a watch_item option"
    and receivers :: "'s \<Rightarrow> nat"
    and step :: "'a watch_op \<Rightarrow> 's \<Rightarrow> panic + 's"
    and try_recv :: "nat \<Rightarrow> 's \<Rightarrow> (try_recv_error + 'a) \<times> nat"
  assumes step_send: "step (WatchSend v) s = Inr s' \<Longrightarrow> receivers s \<noteq> 0 \<Longrightarrow>
      \<exists>n. next_version (item_of s) = Inr n \<and> item_of s' = Some \<lparr>wi_value = v, wi_version = n\<rparr>"
    and step_send_closed: "step (WatchSend v) s = Inr s' \<Longrightarrow> receivers s = 0 \<Longrightarrow> item_of s' = item_of s"
    and step_other: "step c s = Inr s' \<Longrightarrow> (\<And>v. c \<noteq> WatchSend v) \<Longrightarrow> item_of s' = item_of s"
    and try_recv_new: "item_of s = Some i \<Longrightarrow> seen \<noteq> wi_version i \<Longrightarrow>
      try_recv seen s = (Inr (wi_value i), wi_version i)"
    and try_recv_seen: "item_of s = None \<or> item_of s = Some i \<and> seen = wi_version i \<Longrightarrow>
      \<exists>e. try_recv seen s = (Inl e, seen)"
begin

lemma step_view:
  assumes "watch_view sent got seen (item_of s)" and "step c s = Inr s'"
  shows "\<exists>new. subseq new (watch_sends [c]) \<and> watch_view (sent @ new) got seen (item_of s')"
proof (cases "\<exists>v. c = WatchSend v \<and> receivers s \<noteq> 0")
  case True
  then obtain v n where "c = WatchSend v" "next_version (item_of s) = Inr n"
    "item_of s' = Some \<lparr>wi_value = v, wi_version = n\<rparr>" using step_send assms(2) by blast
  with watch_view_send [OF assms(1), of n v] show ?thesis by (intro exI [of _ "[v]"]) simp
next
  case False
  have "item_of s' = item_of s"
  proof (cases "\<exists>v. c = WatchSend v")
    case True
    with False assms(2) step_send_closed show ?thesis by blast
  next
    case False
    then show ?thesis by (intro step_other [OF assms(2)]) simp
  qed
  with assms(1) show ?thesis by (intro exI [of _ "[]"]) simp
qed

lemma recv_view:
  assumes "watch_view sent got seen (item_of s)"
  obtains e where "try_recv seen s = (Inl e, seen)"
  | v n where "try_recv seen s = (Inr v, n)" and "watch_view sent (got @ [v]) n (item_of s)"
proof (cases "item_of s")
  case None
  with try_recv_seen [of s _ seen] that(1) show ?thesis by blast
next
  case (Some i)
  show ?thesis
  proof (cases "seen = wi_version i")
    case True
    with Some try_recv_seen [of s i seen] that(1) show ?thesis by blast
  next
    case False
    with Some assms watch_view_recv [of sent got seen i] try_recv_new [of s i seen] that(2) show ?thesis by simp
  qed
qed

lemma run_view:
  assumes "watch_view sent got seen (item_of s)" and "watch_run step try_recv cs seen s = Inr (later, seen', s')"
  shows "\<exists>new. subseq new (watch_sends cs) \<and> watch_view (sent @ new) (got @ later) seen' (item_of s')"
  using assms
proof (induction cs arbitrary: sent got seen s later)
  case Nil
  then show ?case by (intro exI [of _ "[]"]) simp
next
  case (Cons c cs)
  show ?case
  proof (cases "c = WatchRecv")
    case True
    from Cons.prems(1) show ?thesis
    proof (cases rule: recv_view)
      case (1 e)
      with Cons True show ?thesis by simp
    next
      case (2 v n)
      with Cons.prems(2) True obtain later' where m: "later = v # later'"
        "watch_run step try_recv cs n s = Inr (later', seen', s')"
        by (auto simp: map_sum_def split: sum.splits)
      from Cons.IH [OF 2(2) m(2)] m(1) True show ?thesis by simp
    qed
  next
    case False
    with Cons.prems(2) obtain s1 where s1: "step c s = Inr s1" "watch_run step try_recv cs seen s1 = Inr (later, seen', s')"
      by (auto simp: and_then_def split: sum.splits)
    obtain new where n: "subseq new (watch_sends [c])" "watch_view (sent @ new) got seen (item_of s1)"
      using step_view [OF Cons.prems(1) s1(1)] by blast
    obtain new' where "subseq new' (watch_sends cs)" "watch_view ((sent @ new) @ new') (got @ later) seen' (item_of s')"
      using Cons.IH [OF n(2) s1(2)] by blast
    then have "subseq (new @ new') (watch_sends [c] @ watch_sends cs) \<and>
        watch_view (sent @ (new @ new')) (got @ later) seen' (item_of s')"
      using n(1) by (simp add: list_emb_append_mono)
    moreover have "watch_sends (c # cs) = watch_sends [c] @ watch_sends cs" by simp
    ultimately show ?thesis by metis
  qed
qed

lemma delivers_subseq:
  assumes "item_of s = None" and "watch_run step try_recv cs initial_receiver_version s = Inr (got, seen, s')"
  shows "subseq got (watch_sends cs)"
proof -
  have "watch_view [] [] initial_receiver_version (item_of s)" using assms(1) by (simp add: watch_view_def)
  from run_view [OF this assms(2)] obtain sent where
    sent: "subseq sent (watch_sends cs)" "watch_view sent got seen (item_of s')" by auto
  show ?thesis using subseq_order.order_trans [OF watch_view_subseq [OF sent(2)] sent(1)] .
qed

lemma delivers_newest:
  assumes "item_of s = None" and "watch_run step try_recv cs initial_receiver_version s = Inr (got, seen, s1)"
    and "length cs < usize_max" and "receivers s1 \<noteq> 0" and "step (WatchSend v) s1 = Inr s2"
  shows "\<exists>n e. try_recv seen s2 = (Inr v, n) \<and> try_recv n s2 = (Inl e, n)"
proof -
  have "watch_view [] [] initial_receiver_version (item_of s)" using assms(1) by (simp add: watch_view_def)
  from run_view [OF this assms(2)] obtain sent where
    sent: "subseq sent (watch_sends cs)" "watch_view sent got seen (item_of s1)" by auto
  have "length (watch_sends cs) \<le> length cs" by (induction cs) (auto split: watch_op.splits)
  with list_emb_length [OF sent(1)] assms(3) have len: "length sent < usize_max" by linarith
  obtain n where n: "next_version (item_of s1) = Inr n" "item_of s2 = Some \<lparr>wi_value = v, wi_version = n\<rparr>"
    using step_send [OF assms(5,4)] by blast
  have "n = length sent"
    using sent(2) n(1) by (auto simp: watch_view_def next_version_def usize_add_def initial_sender_version_def split: if_splits)
  with sent(2) len have "seen \<noteq> n" by (auto simp: watch_view_def initial_receiver_version_def)
  with n(2) have "try_recv seen s2 = (Inr v, n)" by (simp add: try_recv_new)
  moreover obtain e where "try_recv n s2 = (Inl e, n)"
    using try_recv_seen [of s2 "\<lparr>wi_value = v, wi_version = n\<rparr>" n] n(2) by auto
  ultimately show ?thesis by blast
qed

end

lemmas watch_st_defs = watch_st_send_def watch_st_clone_sender_def watch_st_drop_sender_def
  watch_st_clone_receiver_def watch_st_drop_receiver_def watch_st_step_def
  watch_st_try_recv_def watch_st_try_recv_inner_def borrow_mut_def panic_if_def

lemmas watch_mt_defs = watch_mt_send_def watch_mt_clone_sender_def watch_mt_drop_sender_def
  watch_mt_clone_receiver_def watch_mt_drop_receiver_def watch_mt_step_def
  watch_mt_try_recv_def watch_mt_try_recv_inner_def

interpretation watch_st_channel: watch_channel ws_item ws_receivers watch_st_step watch_st_try_recv
  by unfold_locales
    (auto simp: watch_st_defs and_then_def Let_def map_sum_def usize_sub_def
      split: watch_op.splits prod.splits if_splits option.splits sum.splits)

interpretation watch_mt_channel: watch_channel wm_item wm_receivers watch_mt_step watch_mt_try_recv
  by unfold_locales
    (auto simp: watch_mt_defs and_then_def Let_def map_sum_def usize_sub_def
      split: watch_op.splits prod.splits if_splits option.splits sum.splits)

subsection \<open>Properties\<close>

text \<open>C16: on both channels a receiver gets, each at most once and in order, a subsequence of the values that
  were sent, whatever the other handles do; and while it has seen fewer than \<open>2 ^ 64 - 1\<close> operations
  it always gets the newest value, and gets it once.\<close>

theorem watch_delivers_in_order:
  "(\<forall>got seen sh. watch_run watch_st_step watch_st_try_recv cs initial_receiver_version watch_st_channel = Inr (got, seen, sh) \<longrightarrow>
      subseq got (watch_sends cs) \<and>
      (\<forall>v sh1. length cs < usize_max \<longrightarrow> ws_receivers sh \<noteq> 0 \<longrightarrow> watch_st_step (WatchSend v) sh = Inr sh1 \<longrightarrow>
        (\<exists>n e. watch_st_try_recv seen sh1 = (Inr v, n) \<and> watch_st_try_recv n sh1 = (Inl e, n)))) \<and>
   (\<forall>got seen sh. watch_run watch_mt_step watch_mt_try_recv cs initial_receiver_version watch_mt_channel = Inr (got, seen, sh) \<longrightarrow>
      subseq got (watch_sends cs) \<and>
      (\<forall>v sh1. length cs < usize_max \<longrightarrow> wm_receivers sh \<noteq> 0 \<longrightarrow> watch_mt_step (WatchSend v) sh = Inr sh1 \<longrightarrow>
        (\<exists>n e. watch_mt_try_recv seen sh1 = (Inr v, n) \<and> watch_mt_try_recv n sh1 = (Inl e, n))))"
proof -
  have st: "ws_item watch_st_channel = None" and mt: "wm_item watch_mt_channel = None"
    by (simp_all add: watch_st_channel_def watch_mt_channel_def)
  show ?thesis
    by (intro conjI allI impI)
      (rule watch_st_channel.delivers_subseq [OF st] watch_st_channel.delivers_newest [OF st]
        watch_mt_channel.delivers_subseq [OF mt] watch_mt_channel.delivers_newest [OF mt]; assumption)+
qed

theorem watch_delivers_in_order_witness:
  "\<exists>seen sh. watch_run watch_mt_step watch_mt_try_recv [WatchSend (1 :: nat), WatchRecv, WatchRecv, WatchSend 2, WatchSend 3, WatchRecv]
       initial_receiver_version watch_mt_channel = Inr ([1, 3], seen, sh) \<and> subseq [1, 3] [1, 2, 3 :: nat]"
proof -
  let ?cs = "[WatchSend (1 :: nat), WatchRecv, WatchRecv, WatchSend 2, WatchSend 3, WatchRecv]"
  have "\<exists>seen sh. watch_run watch_mt_step watch_mt_try_recv ?cs initial_receiver_version watch_mt_channel = Inr ([1, 3], seen, sh)"
    by (simp add: watch_mt_defs watch_mt_channel_def next_version_def usize_add_def usize_max_def
        initial_receiver_version_def initial_sender_version_def and_then_def Let_def)
  moreover have "watch_sends ?cs = [1, 2, 3]" by simp
  ultimately show ?thesis using watch_delivers_in_order [of ?cs] by metis
qed

text \<open>the multi-threaded channel never reports that it is closed. With no sender left and nothing new
  to see, \<open>try_recv\<close> says \<open>Empty\<close>, as long as the receiver that asks is counted, and \<open>recv\<close> never
  returns, however often its future is resumed; the single-threaded channel says \<open>Closed\<close>.\<close>

lemma watch_mt_never_closed:
  assumes "wm_receivers sh \<noteq> 0" and "wm_senders sh = 0" and "\<And>i. wm_item sh = Some i \<Longrightarrow> wi_version i = seen"
    and "ws_senders sh' = 0" and "ws_item sh' = wm_item sh"
  shows "watch_mt_receiver_is_closed sh \<and> fst (watch_mt_try_recv seen sh) = Inl RecvEmpty \<and>
     fst (((\<lambda>r. watch_mt_recv_act ready r sh) ^^ n) (WTest, seen)) \<noteq> WDone x \<and>
     fst (watch_st_try_recv seen sh') = Inl RecvClosed"
proof -
  have t: "watch_mt_try_recv_inner False seen sh = (Inl RecvEmpty, seen)"
    using assms(1,3) by (simp add: watch_mt_try_recv_inner_def split: option.splits)
  have "fst (((\<lambda>r. watch_mt_recv_act ready r sh) ^^ n) (WTest, seen)) \<notin> range WDone \<and>
      snd (((\<lambda>r. watch_mt_recv_act ready r sh) ^^ n) (WTest, seen)) = seen"
    by (induction n) (auto simp: watch_mt_recv_act_def t split: watch_pc.splits)
  with t assms show ?thesis
    by (auto simp: watch_mt_receiver_is_closed_def watch_mt_try_recv_def watch_st_try_recv_def
        watch_st_try_recv_inner_def split: option.splits)
qed

lemma watch_mt_never_closed_witness:
  "\<exists>sh :: nat watch_mt. watch_mt_drop_sender watch_mt_channel = Inr sh \<and>
     fst (watch_mt_try_recv initial_receiver_version sh) = Inl RecvEmpty"
  using watch_mt_never_closed [of "\<lparr>wm_item = None, wm_senders = 0, wm_receivers = 1, wm_notifications = 1\<rparr> :: nat watch_mt"
      initial_receiver_version "watch_st_channel\<lparr>ws_senders := 0\<rparr>" 0 "(<)" None]
  by (simp add: watch_mt_drop_sender_def watch_mt_channel_def watch_st_channel_def usize_sub_def and_then_def)

text \<open>A clone of a multi-threaded sender is not counted: dropping it and its original underflows the
  counter of senders.\<close>

lemma watch_mt_clone_drop_panics:
  "watch_run watch_mt_step watch_mt_try_recv [WatchCloneSender, WatchDropSender, WatchDropSender] seen watch_mt_channel =
     Inl ArithOverflow"
  by (simp add: watch_mt_defs watch_mt_channel_def usize_sub_def and_then_def)

text \<open>A pending \<open>recv\<close> of the single-threaded channel makes every \<open>send\<close> panic.\<close>

lemma watch_pending_recv_panics:
  assumes "watch_st_recv_poll k WatchStart seen sh = (Pending, fut, seen', sh1)"
  shows "watch_st_step (WatchSend v) sh1 = Inl BorrowMutError"
  using assms
  by (auto simp: watch_st_recv_poll_def watch_st_recv_turn_def watch_st_step_def watch_st_send_def borrow_mut_def
      panic_if_def and_then_def Let_def split: sum.splits try_recv_error.splits prod.splits)

end
