(* ===== verification/Sync_Unbounded.thy ===== *)
theory Sync_Unbounded
  imports Sync_Event
begin

section \<open>The unbounded channel\<close>

text \<open>
  Model of the single-threaded channel \<open>src/aquic-core/src/sync/mpsc/unbounded/st.rs\<close>. \<open>ub_rc\<close> is the
  strong count of the shared \<open>Rc\<close>, by which the receiver knows whether a sender is left; the
  \<open>RefCell\<close> is never borrowed across a suspension here, so no borrow can fail. The multi-threaded
  \<open>mt.rs\<close> passes every call on to the crate \<open>crossfire\<close>, whose operations are the record \<open>crossfire\<close>; what
  its documentation promises is the locale \<open>crossfire_queue\<close>. The locale \<open>fifo_channel\<close> is what both
  promise to the channels built on them: the single-threaded channel satisfies it, and the
  multi-threaded one wherever \<open>crossfire_queue\<close> holds.
\<close>

subsection \<open>Operations\<close>

record 'a unbounded =
  ub_deque :: "'a list"
  ub_receiver_waker :: "waker option"
  ub_receiver_exists :: bool
  ub_rc :: nat

definition unbounded_channel :: "'a unbounded" where
  "unbounded_channel = \<lparr>ub_deque = [], ub_receiver_waker = None, ub_receiver_exists = True, ub_rc = 2\<rparr>"

definition take_waker :: "'a unbounded \<Rightarrow> waker list \<times> 'a unbounded" where
  "take_waker sh = (case ub_receiver_waker sh of
     Some k \<Rightarrow> ([k], sh\<lparr>ub_receiver_waker := None\<rparr>)
   | None \<Rightarrow> ([], sh))"

definition unbounded_send :: "'a \<Rightarrow> 'a unbounded \<Rightarrow> ('a send_error + waker list) \<times> 'a unbounded" where
  "unbounded_send value sh =
     (if \<not> ub_receiver_exists sh then (Inl (SendError value), sh)
      else let (woken, sh1) = take_waker (sh\<lparr>ub_deque := ub_deque sh @ [value]\<rparr>) in (Inr woken, sh1))"

definition unbounded_sender_is_closed :: "'a unbounded \<Rightarrow> bool" where
  "unbounded_sender_is_closed sh \<longleftrightarrow> \<not> ub_receiver_exists sh"

definition unbounded_clone_sender :: "'a unbounded \<Rightarrow> 'a unbounded" where
  "unbounded_clone_sender sh = sh\<lparr>ub_rc := ub_rc sh + 1\<rparr>"

definition unbounded_drop_sender :: "'a unbounded \<Rightarrow> waker list \<times> 'a unbounded" where
  "unbounded_drop_sender sh =
     (let (woken, sh1) = (if ub_rc sh = 2 \<and> ub_receiver_exists sh then take_waker sh else ([], sh))
      in (woken, sh1\<lparr>ub_rc := ub_rc sh1 - 1\<rparr>))"

definition unbounded_is_closed :: "'a unbounded \<Rightarrow> bool" where
  "unbounded_is_closed sh \<longleftrightarrow> ub_rc sh = 1"

definition unbounded_recv_poll :: "waker \<Rightarrow> 'a unbounded \<Rightarrow> 'a option poll \<times> 'a unbounded" where
  "unbounded_recv_poll k sh = (case ub_deque sh of
     value # rest \<Rightarrow> (Ready (Some value), sh\<lparr>ub_deque := rest\<rparr>)
   | [] \<Rightarrow> if unbounded_is_closed sh then (Ready None, sh)
           else (Pending, sh\<lparr>ub_receiver_waker := Some k\<rparr>))"

definition unbounded_try_recv :: "'a unbounded \<Rightarrow> (try_recv_error + 'a) \<times> 'a unbounded" where
  "unbounded_try_recv sh = (case ub_deque sh of
     value # rest \<Rightarrow> (Inr value, sh\<lparr>ub_deque := rest\<rparr>)
   | [] \<Rightarrow> if unbounded_is_closed sh then (Inl RecvClosed, sh) else (Inl RecvEmpty, sh))"

definition unbounded_len :: "'a unbounded \<Rightarrow> nat" where
  "unbounded_len sh = length (ub_deque sh)"

definition unbounded_is_empty :: "'a unbounded \<Rightarrow> bool" where
  "unbounded_is_empty sh \<longleftrightarrow> unbounded_len sh = 0"

definition unbounded_drop_receiver :: "'a unbounded \<Rightarrow> 'a unbounded" where
  "unbounded_drop_receiver sh =
     sh\<lparr>ub_deque := [], ub_receiver_waker := None, ub_receiver_exists := False, ub_rc := ub_rc sh - 1\<rparr>"

subsection \<open>The contract of a queue\<close>

datatype 'a fifo_op = FifoSend 'a | FifoRecv

fun fifo_run ::
  "('a \<Rightarrow> 's \<Rightarrow> ('a send_error + 'w) \<times> 's) \<Rightarrow> ('s \<Rightarrow> (try_recv_error + 'a) \<times> 's) \<Rightarrow> 'a fifo_op list \<Rightarrow> 's \<Rightarrow> 'a list \<times> 's" where
  "fifo_run send try_recv [] s = ([], s)"
| "fifo_run send try_recv (FifoSend v # cs) s = fifo_run send try_recv cs (snd (send v s))"
| "fifo_run send try_recv (FifoRecv # cs) s = (case try_recv s of
     (Inr v, s1) \<Rightarrow> (let (got, s2) = fifo_run send try_recv cs s1 in (v # got, s2))
   | (Inl _, s1) \<Rightarrow> fifo_run send try_recv cs s1)"

fun fifo_sends :: "'a fifo_op list \<Rightarrow> 'a list" where
  "fifo_sends [] = []"
| "fifo_sends (FifoSend v # cs) = v # fifo_sends cs"
| "fifo_sends (FifoRecv # cs) = fifo_sends cs"

locale fifo_channel =
  fixes queue :: "'s \<Rightarrow> 'a list"
    and closed :: "'s \<Rightarrow> bool"
    and send :: "'a \<Rightarrow> 's \<Rightarrow> ('a send_error + 'w) \<times> 's"
    and try_recv :: "'s \<Rightarrow> (try_recv_error + 'a) \<times> 's"
  assumes send_open: "\<not> closed s \<Longrightarrow>
      \<exists>w s'. send v s = (Inr w, s') \<and> queue s' = queue s @ [v] \<and> \<not> closed s'"
    and send_closed: "closed s \<Longrightarrow> send v s = (Inl (SendError v), s)"
    and recv_some: "queue s = v # vs \<Longrightarrow> \<exists>s'. try_recv s = (Inr v, s') \<and> queue s' = vs \<and> closed s' = closed s"
    and recv_empty: "queue s = [] \<Longrightarrow> \<exists>e s'. try_recv s = (Inl e, s') \<and> queue s' = [] \<and> closed s' = closed s"
begin

lemma run_fifo:
  assumes "\<not> closed s" and "fifo_run send try_recv cs s = (got, s')"
  shows "queue s @ fifo_sends cs = got @ queue s' \<and> \<not> closed s'"
  using assms
proof (induction cs arbitrary: s got)
  case (Cons c cs)
  show ?case
  proof (cases c)
    case (FifoSend v)
    obtain w s1 where s1: "send v s = (Inr w, s1)" "queue s1 = queue s @ [v]" "\<not> closed s1"
      using send_open [OF Cons.prems(1)] by blast
    from Cons.IH [OF s1(3)] Cons.prems(2) s1 FifoSend show ?thesis by simp
  next
    case FifoRecv
    show ?thesis
    proof (cases "queue s")
      case Nil
      obtain e s1 where "try_recv s = (Inl e, s1)" "queue s1 = []" "closed s1 = closed s"
        using recv_empty [OF Nil] by blast
      with Cons.IH [of s1 got] Cons.prems FifoRecv Nil show ?thesis by simp
    next
      case (Cons v vs)
      obtain s1 where "try_recv s = (Inr v, s1)" "queue s1 = vs" "closed s1 = closed s"
        using recv_some [OF Cons] by blast
      with Cons.IH [of s1] Cons.prems FifoRecv Cons show ?thesis by (auto split: prod.splits)
    qed
  qed
qed simp

end

lemmas unbounded_defs = unbounded_send_def unbounded_try_recv_def unbounded_sender_is_closed_def
  unbounded_clone_sender_def unbounded_drop_sender_def unbounded_recv_poll_def take_waker_def
  unbounded_is_closed_def unbounded_drop_receiver_def

interpretation unbounded_fifo: fifo_channel ub_deque unbounded_sender_is_closed unbounded_send unbounded_try_recv
  by unfold_locales (auto simp: unbounded_defs split: option.splits)

subsection \<open>The multi-threaded channel\<close>

text \<open>The calls on the two halves of \<open>crossfire::mpsc::unbounded_async\<close>, and the errors they return. A failed
  \<open>send\<close> gives the value back; \<open>cf_recv\<close> is one poll of the future of \<open>recv\<close>.\<close>

datatype crossfire_try_recv_error = CfEmpty | CfDisconnected

record ('a, 'q) crossfire =
  cf_unbounded_async :: 'q
  cf_clone :: "'q \<Rightarrow> 'q"
  cf_send :: "'a \<Rightarrow> 'q \<Rightarrow> ('a + waker list) \<times> 'q"
  cf_tx_is_disconnected :: "'q \<Rightarrow> bool"
  cf_recv :: "waker \<Rightarrow> 'q \<Rightarrow> (unit + 'a) poll \<times> 'q"
  cf_try_recv :: "'q \<Rightarrow> (crossfire_try_recv_error + 'a) \<times> 'q"
  cf_rx_is_disconnected :: "'q \<Rightarrow> bool"
  cf_len :: "'q \<Rightarrow> nat"
  cf_is_empty :: "'q \<Rightarrow> bool"

definition unbounded_mt_channel :: "('a, 'q) crossfire \<Rightarrow> 'q" where
  "unbounded_mt_channel cf = cf_unbounded_async cf"

definition unbounded_mt_clone_sender :: "('a, 'q) crossfire \<Rightarrow> 'q \<Rightarrow> 'q" where
  "unbounded_mt_clone_sender cf q = cf_clone cf q"

definition unbounded_mt_send :: "('a, 'q) crossfire \<Rightarrow> 'a \<Rightarrow> 'q \<Rightarrow> ('a send_error + waker list) \<times> 'q" where
  "unbounded_mt_send cf value q = map_prod (map_sum SendError (\<lambda>woken. woken)) (\<lambda>q. q) (cf_send cf value q)"

definition unbounded_mt_sender_is_closed :: "('a, 'q) crossfire \<Rightarrow> 'q \<Rightarrow> bool" where
  "unbounded_mt_sender_is_closed cf q = cf_tx_is_disconnected cf q"

definition unbounded_mt_recv_poll :: "('a, 'q) crossfire \<Rightarrow> waker \<Rightarrow> 'q \<Rightarrow> 'a option poll \<times> 'q" where
  "unbounded_mt_recv_poll cf k q = (case cf_recv cf k q of
     (Ready (Inr value), q1) \<Rightarrow> (Ready (Some value), q1)
   | (Ready (Inl _), q1) \<Rightarrow> (Ready None, q1)
   | (Pending, q1) \<Rightarrow> (Pending, q1))"

definition unbounded_mt_try_recv :: "('a, 'q) crossfire \<Rightarrow> 'q \<Rightarrow> (try_recv_error + 'a) \<times> 'q" where
  "unbounded_mt_try_recv cf q = (case cf_try_recv cf q of
     (Inr value, q1) \<Rightarrow> (Inr value, q1)
   | (Inl CfEmpty, q1) \<Rightarrow> (Inl RecvEmpty, q1)
   | (Inl CfDisconnected, q1) \<Rightarrow> (Inl RecvClosed, q1))"

definition unbounded_mt_is_closed :: "('a, 'q) crossfire \<Rightarrow> 'q \<Rightarrow> bool" where
  "unbounded_mt_is_closed cf q = cf_rx_is_disconnected cf q"

definition unbounded_mt_len :: "('a, 'q) crossfire \<Rightarrow> 'q \<Rightarrow> nat" where
  "unbounded_mt_len cf q = cf_len cf q"

definition unbounded_mt_is_empty :: "('a, 'q) crossfire \<Rightarrow> 'q \<Rightarrow> bool" where
  "unbounded_mt_is_empty cf q = cf_is_empty cf q"

lemmas unbounded_mt_defs = unbounded_mt_send_def unbounded_mt_try_recv_def unbounded_mt_recv_poll_def unbounded_mt_sender_is_closed_def
  unbounded_mt_is_closed_def unbounded_mt_len_def unbounded_mt_is_empty_def unbounded_mt_channel_def

locale crossfire_queue =
  fixes queue :: "'q \<Rightarrow> 'a list" and cf :: "('a, 'q) crossfire"
  assumes cf_send_connected: "\<not> cf_tx_is_disconnected cf q \<Longrightarrow>
      \<exists>woken q'. cf_send cf v q = (Inr woken, q') \<and> queue q' = queue q @ [v] \<and> \<not> cf_tx_is_disconnected cf q'"
    and cf_send_disconnected: "cf_tx_is_disconnected cf q \<Longrightarrow> cf_send cf v q = (Inl v, q)"
    and cf_try_recv_first: "queue q = v # vs \<Longrightarrow>
      \<exists>q'. cf_try_recv cf q = (Inr v, q') \<and> queue q' = vs \<and> cf_tx_is_disconnected cf q' = cf_tx_is_disconnected cf q"
    and cf_try_recv_none: "queue q = [] \<Longrightarrow>
      cf_try_recv cf q = (Inl (if cf_rx_is_disconnected cf q then CfDisconnected else CfEmpty), q)"
    and cf_recv_ready: "cf_try_recv cf q = (Inr v, q') \<Longrightarrow> cf_recv cf k q = (Ready (Inr v), q')"
    and cf_recv_ended: "cf_try_recv cf q = (Inl CfDisconnected, q') \<Longrightarrow> cf_recv cf k q = (Ready (Inl ()), q')"
    and cf_recv_wait: "cf_try_recv cf q = (Inl CfEmpty, q') \<Longrightarrow> \<exists>q1. cf_recv cf k q = (Pending, q1) \<and> queue q1 = []"
    and cf_new: "queue (cf_unbounded_async cf) = []"
begin

text \<open>\<open>recv\<close> and \<open>try_recv\<close> agree: the one returns what the other does and waits where it reports an empty queue.\<close>

lemma recv_agrees_try_recv:
  "case fst (unbounded_mt_try_recv cf q) of
     Inr v \<Rightarrow> fst (unbounded_mt_recv_poll cf k q) = Ready (Some v)
   | Inl RecvClosed \<Rightarrow> fst (unbounded_mt_recv_poll cf k q) = Ready None
   | Inl RecvEmpty \<Rightarrow> fst (unbounded_mt_recv_poll cf k q) = Pending"
proof (cases "cf_try_recv cf q")
  case (Pair r q')
  show ?thesis
  proof (cases r)
    case (Inl e)
    then show ?thesis using Pair cf_recv_ended [of q q' k] cf_recv_wait [of q q' k]
      by (cases e) (auto simp: unbounded_mt_defs)
  next
    case (Inr v)
    then show ?thesis using Pair cf_recv_ready [of q v q' k] by (simp add: unbounded_mt_defs)
  qed
qed

end

sublocale crossfire_queue \<subseteq> mt_fifo: fifo_channel queue "unbounded_mt_sender_is_closed cf" "unbounded_mt_send cf" "unbounded_mt_try_recv cf"
proof unfold_locales
  fix q :: 'q and v :: 'a and vs :: "'a list"
  show "\<not> unbounded_mt_sender_is_closed cf q \<Longrightarrow>
      \<exists>w s'. unbounded_mt_send cf v q = (Inr w, s') \<and> queue s' = queue q @ [v] \<and> \<not> unbounded_mt_sender_is_closed cf s'"
    using cf_send_connected [of q v] by (auto simp: unbounded_mt_defs)
  show "unbounded_mt_sender_is_closed cf q \<Longrightarrow> unbounded_mt_send cf v q = (Inl (SendError v), q)"
    by (simp add: unbounded_mt_defs cf_send_disconnected)
  show "queue q = v # vs \<Longrightarrow> \<exists>s'. unbounded_mt_try_recv cf q = (Inr v, s') \<and> queue s' = vs \<and>
      unbounded_mt_sender_is_closed cf s' = unbounded_mt_sender_is_closed cf q"
    using cf_try_recv_first [of q v vs] by (auto simp: unbounded_mt_defs)
  show "queue q = [] \<Longrightarrow> \<exists>e s'. unbounded_mt_try_recv cf q = (Inl e, s') \<and> queue s' = [] \<and>
      unbounded_mt_sender_is_closed cf s' = unbounded_mt_sender_is_closed cf q"
    using cf_try_recv_none [of q] by (simp add: unbounded_mt_defs)
qed

context crossfire_queue
begin

lemma mt_run_fifo:
  assumes "fifo_run (unbounded_mt_send cf) (unbounded_mt_try_recv cf) cs (unbounded_mt_channel cf) = (got, q)"
    and "\<not> unbounded_mt_sender_is_closed cf (unbounded_mt_channel cf)"
  shows "fifo_sends cs = got @ queue q \<and> \<not> unbounded_mt_sender_is_closed cf q"
  using mt_fifo.run_fifo [OF assms(2,1)] cf_new by (simp add: unbounded_mt_channel_def)

end

text \<open>The single-threaded channel is such a queue, so the two implementations are interchangeable.\<close>

definition unbounded_crossfire :: "('a, 'a unbounded) crossfire" where
  "unbounded_crossfire = \<lparr>cf_unbounded_async = unbounded_channel, cf_clone = unbounded_clone_sender,
     cf_send = (\<lambda>v sh. map_prod (map_sum (\<lambda>e. case e of SendError v \<Rightarrow> v) (\<lambda>woken. woken)) (\<lambda>sh. sh) (unbounded_send v sh)),
     cf_tx_is_disconnected = unbounded_sender_is_closed,
     cf_recv = (\<lambda>k sh. case unbounded_recv_poll k sh of
         (Ready (Some v), sh1) \<Rightarrow> (Ready (Inr v), sh1) | (Ready None, sh1) \<Rightarrow> (Ready (Inl ()), sh1) | (Pending, sh1) \<Rightarrow> (Pending, sh1)),
     cf_try_recv = (\<lambda>sh. map_prod (map_sum (\<lambda>e. case e of RecvEmpty \<Rightarrow> CfEmpty | RecvClosed \<Rightarrow> CfDisconnected) (\<lambda>v. v)) (\<lambda>sh. sh) (unbounded_try_recv sh)),
     cf_rx_is_disconnected = unbounded_is_closed, cf_len = unbounded_len, cf_is_empty = unbounded_is_empty\<rparr>"

interpretation unbounded_st_crossfire: crossfire_queue ub_deque unbounded_crossfire
  by unfold_locales (auto simp: unbounded_crossfire_def unbounded_defs unbounded_channel_def Let_def split: option.splits list.splits if_splits)

lemma unbounded_mt_same_as_st:
  "unbounded_mt_send unbounded_crossfire = unbounded_send" "unbounded_mt_try_recv unbounded_crossfire = unbounded_try_recv"
  "unbounded_mt_recv_poll unbounded_crossfire = unbounded_recv_poll"
  by (auto simp: fun_eq_iff unbounded_mt_defs unbounded_crossfire_def unbounded_defs Let_def split: option.splits list.splits)

subsection \<open>A channel in use\<close>

datatype 'a unbounded_op =
  UbSend 'a | UbCloneSender | UbDropSender | UbRecvPoll waker | UbTryRecv

definition unbounded_step :: "'a unbounded_op \<Rightarrow> 'a unbounded \<Rightarrow> 'a list \<times> waker list \<times> 'a unbounded" where
  "unbounded_step c sh = (case c of
     UbSend v \<Rightarrow> (case unbounded_send v sh of (Inr woken, sh1) \<Rightarrow> ([], woken, sh1) | (Inl _, sh1) \<Rightarrow> ([], [], sh1))
   | UbCloneSender \<Rightarrow> ([], [], unbounded_clone_sender sh)
   | UbDropSender \<Rightarrow> ([], unbounded_drop_sender sh)
   | UbRecvPoll k \<Rightarrow>
       (case unbounded_recv_poll k sh of (Ready (Some v), sh1) \<Rightarrow> ([v], [], sh1) | (_, sh1) \<Rightarrow> ([], [], sh1))
   | UbTryRecv \<Rightarrow> (case unbounded_try_recv sh of (Inr v, sh1) \<Rightarrow> ([v], [], sh1) | (Inl _, sh1) \<Rightarrow> ([], [], sh1)))"

fun unbounded_run :: "'a unbounded_op list \<Rightarrow> 'a unbounded \<Rightarrow> 'a list \<times> waker list \<times> 'a unbounded" where
  "unbounded_run [] sh = ([], [], sh)"
| "unbounded_run (c # cs) sh =
     (let (got, woken, sh1) = unbounded_step c sh; (got', woken', sh2) = unbounded_run cs sh1
      in (got @ got', woken @ woken', sh2))"

fun unbounded_sends :: "'a unbounded_op list \<Rightarrow> 'a list" where
  "unbounded_sends [] = []"
| "unbounded_sends (c # cs) = (case c of UbSend v \<Rightarrow> [v] | _ \<Rightarrow> []) @ unbounded_sends cs"

lemma unbounded_step_fifo:
  assumes "ub_receiver_exists sh" and "unbounded_step c sh = (got, woken, sh1)"
  shows "ub_deque sh @ unbounded_sends [c] = got @ ub_deque sh1 \<and> ub_receiver_exists sh1"
  using assms
  by (auto simp: unbounded_step_def unbounded_defs Let_def split: unbounded_op.splits option.splits list.splits if_splits)

lemma unbounded_step_waker:
  assumes "ub_receiver_exists sh" and "ub_receiver_waker sh = Some k" and "unbounded_step c sh = (got, woken, sh1)"
    and "\<And>k'. c \<noteq> UbRecvPoll k'"
  shows "ub_receiver_waker sh1 = Some k \<or> k \<in> set woken"
  using assms
  by (auto simp: unbounded_step_def unbounded_defs Let_def split: unbounded_op.splits option.splits list.splits if_splits)

lemma unbounded_run_waker:
  assumes "ub_receiver_exists sh" and "ub_receiver_waker sh = Some k" and "unbounded_run cs sh = (got, woken, sh1)"
    and "k \<notin> set woken" and "\<forall>k'. UbRecvPoll k' \<notin> set cs" and "UbTryRecv \<notin> set cs"
  shows "ub_deque sh1 = ub_deque sh \<and> (2 \<le> ub_rc sh \<longrightarrow> 2 \<le> ub_rc sh1)"
  using assms
proof (induction cs arbitrary: sh got woken)
  case (Cons c cs)
  obtain g1 w1 sh2 where s: "unbounded_step c sh = (g1, w1, sh2)" by (cases "unbounded_step c sh")
  obtain g2 w2 where r: "unbounded_run cs sh2 = (g2, w2, sh1)" "woken = w1 @ w2"
    using Cons.prems(3) s by (auto split: prod.splits)
  have w: "ub_receiver_waker sh2 = Some k"
    using unbounded_step_waker [OF Cons.prems(1,2) s] Cons.prems(4,5) r(2) by auto
  have e: "ub_receiver_exists sh2" using unbounded_step_fifo [OF Cons.prems(1) s] by simp
  have "ub_deque sh2 = ub_deque sh \<and> (2 \<le> ub_rc sh \<longrightarrow> 2 \<le> ub_rc sh2)"
    using s w Cons.prems(1,2,5,6)
    by (auto simp: unbounded_step_def unbounded_defs Let_def split: unbounded_op.splits option.splits list.splits if_splits)
  with Cons.IH [OF e w r(1)] Cons.prems(4-6) r(2) show ?case by auto
qed simp

lemma unbounded_run_fifo:
  assumes "ub_receiver_exists sh" and "unbounded_run cs sh = (got, woken, sh1)"
  shows "ub_deque sh @ unbounded_sends cs = got @ ub_deque sh1 \<and> ub_receiver_exists sh1"
  using assms
proof (induction cs arbitrary: sh got woken)
  case (Cons c cs)
  obtain g1 w1 sh2 where s: "unbounded_step c sh = (g1, w1, sh2)" by (cases "unbounded_step c sh")
  obtain g2 w2 where r: "unbounded_run cs sh2 = (g2, w2, sh1)" "got = g1 @ g2"
    using Cons.prems(2) s by (auto split: prod.splits)
  note f = unbounded_step_fifo [OF Cons.prems(1) s]
  with Cons.IH [OF _ r(1)] have "ub_deque sh2 @ unbounded_sends cs = g2 @ ub_deque sh1 \<and> ub_receiver_exists sh1" by simp
  moreover have "unbounded_sends (c # cs) = unbounded_sends [c] @ unbounded_sends cs" by simp
  ultimately show ?case using f r(2) by (metis append.assoc)
qed simp

subsection \<open>Properties\<close>

text \<open>C17: the channel is first in, first out, and loses nothing: while the receiver exists, what it has
  received followed by what is still queued is exactly what was sent. A pending \<open>recv\<close> sleeps only as
  long as it has to: unless its task is woken, the queue is still empty and a sender is left.\<close>

theorem unbounded_fifo_and_wakes:
  "(unbounded_run cs unbounded_channel = (got, woken, sh) \<longrightarrow> unbounded_sends cs = got @ ub_deque sh) \<and>
   (ub_receiver_exists sh \<and> 1 \<le> ub_rc sh \<and> unbounded_recv_poll k sh = (Pending, sh1) \<and> unbounded_run ds sh1 = (got', woken', sh2) \<and>
     (\<forall>k'. UbRecvPoll k' \<notin> set ds) \<and> UbTryRecv \<notin> set ds \<and> k \<notin> set woken' \<longrightarrow>
    ub_deque sh2 = [] \<and> \<not> unbounded_is_closed sh2)"
proof (intro conjI impI)
  assume "unbounded_run cs unbounded_channel = (got, woken, sh)"
  from unbounded_run_fifo [OF _ this] show "unbounded_sends cs = got @ ub_deque sh" by (simp add: unbounded_channel_def)
next
  assume a: "ub_receiver_exists sh \<and> 1 \<le> ub_rc sh \<and> unbounded_recv_poll k sh = (Pending, sh1) \<and> unbounded_run ds sh1 = (got', woken', sh2) \<and>
     (\<forall>k'. UbRecvPoll k' \<notin> set ds) \<and> UbTryRecv \<notin> set ds \<and> k \<notin> set woken'"
  then have p: "ub_receiver_exists sh1" "ub_receiver_waker sh1 = Some k" "ub_deque sh1 = []" "2 \<le> ub_rc sh1"
    by (auto simp: unbounded_recv_poll_def unbounded_is_closed_def split: list.splits if_splits)
  from unbounded_run_waker [OF p(1,2), of ds got' woken' sh2] a p(3,4)
  have "ub_deque sh2 = [] \<and> 2 \<le> ub_rc sh2" by simp
  then show "ub_deque sh2 = []" "\<not> unbounded_is_closed sh2" by (simp_all add: unbounded_is_closed_def)
qed

theorem unbounded_fifo_and_wakes_witness:
  "\<exists>woken sh. unbounded_run [UbRecvPoll 7, UbSend (1 :: nat), UbSend 2, UbDropSender, UbTryRecv] unbounded_channel = ([1], woken, sh) \<and>
     [1, 2] = [1] @ ub_deque sh"
proof -
  let ?cs = "[UbRecvPoll 7, UbSend (1 :: nat), UbSend 2, UbDropSender, UbTryRecv]"
  obtain woken sh where r: "unbounded_run ?cs unbounded_channel = ([1], woken, sh)"
    by (simp add: unbounded_step_def unbounded_defs unbounded_channel_def)
  with unbounded_fifo_and_wakes [of ?cs "[1]" woken sh] show ?thesis by simp
qed

end
