(* ===== verification/Sync_Weighted.thy ===== *)
theory Sync_Weighted
  imports Sync_Unbounded "HOL-Library.Multiset"
begin

section \<open>The weighted channel\<close>

text \<open>
  Model of \<open>src/aquic-core/src/sync/mpsc/weighted/\<close>: a bounded channel whose items have weights, over the
  unbounded channel. \<open>st.rs\<close> is a state and its operations. \<open>mt.rs\<close> is a step relation that
  interleaves the atomic actions of any number of sender threads (each with the program counter of
  its \<open>send\<close> or \<open>try_send\<close>) with those of the receiver, under sequential consistency; the compare and
  exchange may fail without a reason. The queue below \<open>mt.rs\<close> is \<open>crossfire\<close>, a parameter: \<open>queue_ops\<close>
  are the calls made to it, and the locale \<open>weighted_queue\<close> is what it promises.

  The lemmas show that the occupation is exactly the weight of what is queued or about to be, that it
  exceeds the bound only by one item that had the channel for itself, that no subtraction
  underflows, and that a sleeping sender is notified as soon as there is room for it.
\<close>

subsection \<open>\<open>mod.rs\<close> and \<open>st.rs\<close>\<close>

definition has_capacity :: "nat \<Rightarrow> nat \<Rightarrow> nat \<Rightarrow> bool" where
  "has_capacity current_occupation item_weight bound =
     (if current_occupation = 0 then True
      else case checked_add current_occupation item_weight of
             Some n \<Rightarrow> n \<le> bound
           | None \<Rightarrow> False)"

record 'a weighted =
  wt_queue :: "('a \<times> nat) unbounded"
  wt_event :: event
  wt_occupation :: nat
  wt_bound :: nat

definition weighted_channel :: "nat \<Rightarrow> 'a weighted" where
  "weighted_channel bound =
     \<lparr>wt_queue = unbounded_channel, wt_event = event_new, wt_occupation = 0, wt_bound = max bound 1\<rparr>"

definition weighted_notify :: "'a weighted \<Rightarrow> waker list \<times> 'a weighted" where
  "weighted_notify sh = (let (woken, e) = event_notify_all (wt_event sh) in (woken, sh\<lparr>wt_event := e\<rparr>))"

definition weighted_push :: "'a \<Rightarrow> nat \<Rightarrow> 'a weighted \<Rightarrow> ('a send_error + waker list) \<times> waker list \<times> 'a weighted" where
  "weighted_push value weight sh = (case unbounded_send (value, weight) (wt_queue sh) of
     (Inl (SendError (v, _)), q) \<Rightarrow>
       let (woken, sh1) = weighted_notify (sh\<lparr>wt_queue := q, wt_occupation := 0\<rparr>) in (Inl (SendError v), woken, sh1)
   | (Inr woken, q) \<Rightarrow> (Inr woken, [], sh\<lparr>wt_queue := q\<rparr>))"

datatype send_future = SendStart | SendWait nat

definition weighted_send_turn ::
  "waker \<Rightarrow> 'a \<Rightarrow> nat \<Rightarrow> 'a weighted \<Rightarrow> panic + (('a send_error + unit) poll \<times> send_future \<times> waker list \<times> 'a weighted)" where
  "weighted_send_turn k value weight sh =
     (if unbounded_sender_is_closed (wt_queue sh) then Inr (Ready (Inl (SendError value)), SendStart, [], sh)
      else if has_capacity (wt_occupation sh) weight (wt_bound sh) then
        and_then (usize_add (wt_occupation sh) weight) (\<lambda>occupation. Inr
          (case weighted_push value weight (sh\<lparr>wt_occupation := occupation\<rparr>) of
             (Inl e, woken, sh1) \<Rightarrow> (Ready (Inl e), SendStart, woken, sh1)
           | (Inr woken, _, sh1) \<Rightarrow> (Ready (Inr ()), SendStart, woken, sh1)))
      else
        let (w, e1) = event_listen (wt_event sh); (_, e2) = listener_poll k w e1
        in Inr (Pending, SendWait w, [], sh\<lparr>wt_event := e2\<rparr>))"

definition weighted_send_poll ::
  "waker \<Rightarrow> send_future \<Rightarrow> 'a \<Rightarrow> nat \<Rightarrow> 'a weighted \<Rightarrow>
   panic + (('a send_error + unit) poll \<times> send_future \<times> waker list \<times> 'a weighted)" where
  "weighted_send_poll k fut value weight sh = (case fut of
     SendStart \<Rightarrow> weighted_send_turn k value weight sh
   | SendWait w \<Rightarrow>
       (case listener_poll k w (wt_event sh) of
          (Pending, e) \<Rightarrow> Inr (Pending, fut, [], sh\<lparr>wt_event := e\<rparr>)
        | (Ready _, e) \<Rightarrow> weighted_send_turn k value weight (sh\<lparr>wt_event := listener_drop w e\<rparr>)))"

definition weighted_try_send ::
  "'a \<Rightarrow> nat \<Rightarrow> 'a weighted \<Rightarrow> panic + ((try_send_error + unit) \<times> waker list \<times> 'a weighted)" where
  "weighted_try_send value weight sh =
     (if unbounded_sender_is_closed (wt_queue sh) then Inr (Inl TrySendClosed, [], sh)
      else if \<not> has_capacity (wt_occupation sh) weight (wt_bound sh) then Inr (Inl TrySendFull, [], sh)
      else and_then (usize_add (wt_occupation sh) weight) (\<lambda>occupation. Inr
        (case weighted_push value weight (sh\<lparr>wt_occupation := occupation\<rparr>) of
           (Inl _, woken, sh1) \<Rightarrow> (Inl TrySendClosed, woken, sh1)
         | (Inr woken, _, sh1) \<Rightarrow> (Inr (), woken, sh1))))"

definition weighted_taken :: "nat \<Rightarrow> 'a weighted \<Rightarrow> panic + (waker list \<times> 'a weighted)" where
  "weighted_taken weight sh = and_then (usize_sub (wt_occupation sh) weight) (\<lambda>occupation.
     let sh1 = sh\<lparr>wt_occupation := occupation\<rparr>
     in Inr (if has_capacity (wt_occupation sh1) weight (wt_bound sh1) then weighted_notify sh1 else ([], sh1)))"

definition weighted_recv_poll :: "waker \<Rightarrow> 'a weighted \<Rightarrow> panic + ('a option poll \<times> waker list \<times> 'a weighted)" where
  "weighted_recv_poll k sh = (case unbounded_recv_poll k (wt_queue sh) of
     (Pending, q) \<Rightarrow> Inr (Pending, [], sh\<lparr>wt_queue := q\<rparr>)
   | (Ready None, q) \<Rightarrow> Inr (Ready None, [], sh\<lparr>wt_queue := q\<rparr>)
   | (Ready (Some (value, weight)), q) \<Rightarrow>
       and_then (weighted_taken weight (sh\<lparr>wt_queue := q\<rparr>)) (\<lambda>(woken, sh1). Inr (Ready (Some value), woken, sh1)))"

definition weighted_try_recv :: "'a weighted \<Rightarrow> panic + ((try_recv_error + 'a) \<times> waker list \<times> 'a weighted)" where
  "weighted_try_recv sh = (case unbounded_try_recv (wt_queue sh) of
     (Inl e, q) \<Rightarrow> Inr (Inl e, [], sh\<lparr>wt_queue := q\<rparr>)
   | (Inr (value, weight), q) \<Rightarrow>
       and_then (weighted_taken weight (sh\<lparr>wt_queue := q\<rparr>)) (\<lambda>(woken, sh1). Inr (Inr value, woken, sh1)))"

definition weighted_sender_is_closed :: "'a weighted \<Rightarrow> bool" where
  "weighted_sender_is_closed sh \<longleftrightarrow> unbounded_sender_is_closed (wt_queue sh)"

definition weighted_receiver_is_closed :: "'a weighted \<Rightarrow> bool" where
  "weighted_receiver_is_closed sh \<longleftrightarrow> unbounded_is_closed (wt_queue sh)"

definition weighted_clone_sender :: "'a weighted \<Rightarrow> 'a weighted" where
  "weighted_clone_sender sh = sh\<lparr>wt_queue := unbounded_clone_sender (wt_queue sh)\<rparr>"

definition weighted_drop_sender :: "'a weighted \<Rightarrow> waker list \<times> 'a weighted" where
  "weighted_drop_sender sh =
     (let (woken, q) = unbounded_drop_sender (wt_queue sh) in (woken, sh\<lparr>wt_queue := q\<rparr>))"

definition weighted_drop_receiver :: "'a weighted \<Rightarrow> waker list \<times> 'a weighted" where
  "weighted_drop_receiver sh =
     (let (woken, sh1) = weighted_notify (sh\<lparr>wt_occupation := 0\<rparr>)
      in (woken, sh1\<lparr>wt_queue := unbounded_drop_receiver (wt_queue sh1)\<rparr>))"

subsection \<open>\<open>mt.rs\<close>\<close>

record ('a, 'q) queue_ops =
  qo_send :: "'a \<times> nat \<Rightarrow> 'q \<Rightarrow> (('a \<times> nat) send_error + waker list) \<times> 'q"
  qo_try_recv :: "'q \<Rightarrow> (try_recv_error + ('a \<times> nat)) \<times> 'q"
  qo_is_closed :: "'q \<Rightarrow> bool"
  qo_drop_sender :: "'q \<Rightarrow> 'q"
  qo_drop_receiver :: "'q \<Rightarrow> 'q"

record 'q weighted_mt =
  wq_queue :: 'q
  wq_notifications :: nat
  wq_occupation :: nat
  wq_bound :: nat

definition weighted_mt_channel :: "'q \<Rightarrow> nat \<Rightarrow> 'q weighted_mt" where
  "weighted_mt_channel q bound =
     \<lparr>wq_queue = q, wq_notifications = 0, wq_occupation = 0, wq_bound = max bound 1\<rparr>"

text \<open>The program counter of a sender: \<open>send\<close> runs from \<open>PLoad\<close>, \<open>try_send\<close> from \<open>TClosed\<close>; \<open>PPush\<close> and
  what follows it are the common end.\<close>

datatype 'a sender_state =
    PIdle
  | PLoad 'a nat
  | PCheck 'a nat nat
  | PCas 'a nat nat
  | PListen 'a nat
  | PClosed 'a nat nat
  | PReload 'a nat nat
  | PAwait 'a nat nat
  | TClosed 'a nat
  | TLoad 'a nat
  | TCheck 'a nat nat
  | TCas 'a nat nat
  | PPush 'a nat
  | PReset 'a
  | PResetNotify 'a

datatype receiver_state =
    QIdle
  | QSub nat
  | QNotify nat nat
  | QDropNotify
  | QDropQueue
  | QGone

definition notify_all_mt :: "'q weighted_mt \<Rightarrow> 'q weighted_mt" where
  "notify_all_mt sh = sh\<lparr>wq_notifications := wq_notifications sh + 1\<rparr>"

definition cas_weak :: "bool \<Rightarrow> nat \<Rightarrow> nat \<Rightarrow> 'q weighted_mt \<Rightarrow> (nat + unit) \<times> 'q weighted_mt" where
  "cas_weak spurious current new sh =
     (if wq_occupation sh = current \<and> \<not> spurious then (Inr (), sh\<lparr>wq_occupation := new\<rparr>)
      else (Inl (wq_occupation sh), sh))"

definition weighted_push_act ::
  "('a, 'q) queue_ops \<Rightarrow> 'a sender_state \<Rightarrow> 'q weighted_mt \<Rightarrow> 'a sender_state \<times> 'q weighted_mt" where
  "weighted_push_act ops pc sh = (case pc of
     PPush v w \<Rightarrow>
       (case qo_send ops (v, w) (wq_queue sh) of
          (Inl _, q) \<Rightarrow> (PReset v, sh\<lparr>wq_queue := q\<rparr>)
        | (Inr _, q) \<Rightarrow> (PIdle, sh\<lparr>wq_queue := q\<rparr>))
   | PReset v \<Rightarrow> (PResetNotify v, sh\<lparr>wq_occupation := 0\<rparr>)
   | PResetNotify v \<Rightarrow> (PIdle, notify_all_mt sh)
   | _ \<Rightarrow> (pc, sh))"

definition weighted_send_act ::
  "('a, 'q) queue_ops \<Rightarrow> (nat \<Rightarrow> nat \<Rightarrow> bool) \<Rightarrow> bool \<Rightarrow> 'a sender_state \<Rightarrow> 'q weighted_mt \<Rightarrow> 'a sender_state \<times> 'q weighted_mt" where
  "weighted_send_act ops ready spurious pc sh = (case pc of
     PLoad v w \<Rightarrow> (PCheck v w (wq_occupation sh), sh)
   | PCheck v w current \<Rightarrow>
       (if qo_is_closed ops (wq_queue sh) then PIdle
        else if has_capacity current w (wq_bound sh) then PCas v w current else PListen v w, sh)
   | PCas v w current \<Rightarrow>
       (case cas_weak spurious current (current + w) sh of
          (Inr _, sh1) \<Rightarrow> (PPush v w, sh1)
        | (Inl new, sh1) \<Rightarrow> (PCheck v w new, sh1))
   | PListen v w \<Rightarrow> (PClosed v w (wq_notifications sh), sh)
   | PClosed v w t \<Rightarrow> (if qo_is_closed ops (wq_queue sh) then PIdle else PReload v w t, sh)
   | PReload v w t \<Rightarrow>
       (if has_capacity (wq_occupation sh) w (wq_bound sh) then PCheck v w (wq_occupation sh) else PAwait v w t, sh)
   | PAwait v w t \<Rightarrow> (if ready t (wq_notifications sh) then PLoad v w else PAwait v w t, sh)
   | _ \<Rightarrow> weighted_push_act ops pc sh)"

definition weighted_try_send_act ::
  "('a, 'q) queue_ops \<Rightarrow> bool \<Rightarrow> 'a sender_state \<Rightarrow> 'q weighted_mt \<Rightarrow> 'a sender_state \<times> 'q weighted_mt" where
  "weighted_try_send_act ops spurious pc sh = (case pc of
     TClosed v w \<Rightarrow> (if qo_is_closed ops (wq_queue sh) then PIdle else TLoad v w, sh)
   | TLoad v w \<Rightarrow> (TCheck v w (wq_occupation sh), sh)
   | TCheck v w current \<Rightarrow> (if has_capacity current w (wq_bound sh) then TCas v w current else PIdle, sh)
   | TCas v w current \<Rightarrow>
       (case cas_weak spurious current (current + w) sh of
          (Inr _, sh1) \<Rightarrow> (PPush v w, sh1)
        | (Inl new, sh1) \<Rightarrow> (TCheck v w new, sh1))
   | _ \<Rightarrow> weighted_push_act ops pc sh)"

fun in_try_send :: "'a sender_state \<Rightarrow> bool" where
  "in_try_send (TClosed v w) \<longleftrightarrow> True"
| "in_try_send (TLoad v w) \<longleftrightarrow> True"
| "in_try_send (TCheck v w c) \<longleftrightarrow> True"
| "in_try_send (TCas v w c) \<longleftrightarrow> True"
| "in_try_send _ \<longleftrightarrow> False"

definition weighted_sender_act ::
  "('a, 'q) queue_ops \<Rightarrow> (nat \<Rightarrow> nat \<Rightarrow> bool) \<Rightarrow> bool \<Rightarrow> 'a sender_state \<Rightarrow> 'q weighted_mt \<Rightarrow> 'a sender_state \<times> 'q weighted_mt" where
  "weighted_sender_act ops ready spurious pc sh =
     (if in_try_send pc then weighted_try_send_act ops spurious pc sh else weighted_send_act ops ready spurious pc sh)"

definition weighted_recv_act ::
  "('a, 'q) queue_ops \<Rightarrow> receiver_state \<Rightarrow> 'q weighted_mt \<Rightarrow> panic + (receiver_state \<times> 'q weighted_mt)" where
  "weighted_recv_act ops pc sh = (case pc of
     QIdle \<Rightarrow> Inr
       (case qo_try_recv ops (wq_queue sh) of
          (Inl _, q) \<Rightarrow> (QIdle, sh\<lparr>wq_queue := q\<rparr>)
        | (Inr (_, weight), q) \<Rightarrow> (QSub weight, sh\<lparr>wq_queue := q\<rparr>))
   | QSub weight \<Rightarrow> and_then (usize_sub (wq_occupation sh) weight) (\<lambda>current.
       Inr (QNotify current weight, sh\<lparr>wq_occupation := current\<rparr>))
   | QNotify current weight \<Rightarrow>
       Inr (QIdle, if has_capacity current weight (wq_bound sh) then notify_all_mt sh else sh)
   | _ \<Rightarrow> Inr (pc, sh))"

definition weighted_drop_act ::
  "('a, 'q) queue_ops \<Rightarrow> receiver_state \<Rightarrow> 'q weighted_mt \<Rightarrow> receiver_state \<times> 'q weighted_mt" where
  "weighted_drop_act ops pc sh = (case pc of
     QIdle \<Rightarrow> (QDropNotify, sh\<lparr>wq_occupation := 0\<rparr>)
   | QDropNotify \<Rightarrow> (QDropQueue, notify_all_mt sh)
   | QDropQueue \<Rightarrow> (QGone, sh\<lparr>wq_queue := qo_drop_receiver ops (wq_queue sh)\<rparr>)
   | _ \<Rightarrow> (pc, sh))"

definition weighted_receiver_act ::
  "('a, 'q) queue_ops \<Rightarrow> bool \<Rightarrow> receiver_state \<Rightarrow> 'q weighted_mt \<Rightarrow> panic + (receiver_state \<times> 'q weighted_mt)" where
  "weighted_receiver_act ops drops pc sh =
     (if drops \<and> pc = QIdle \<or> pc = QDropNotify \<or> pc = QDropQueue then Inr (weighted_drop_act ops pc sh)
      else weighted_recv_act ops pc sh)"

record ('a, 'q) weighted_sys =
  wy_shared :: "'q weighted_mt"
  wy_senders :: "'a sender_state list"
  wy_recv :: receiver_state

inductive weighted_reach ::
  "('a, 'q) queue_ops \<Rightarrow> (nat \<Rightarrow> nat \<Rightarrow> bool) \<Rightarrow> 'q \<Rightarrow> nat \<Rightarrow> ('a, 'q) weighted_sys \<Rightarrow> bool"
  for ops :: "('a, 'q) queue_ops" and ready :: "nat \<Rightarrow> nat \<Rightarrow> bool" and q0 :: 'q and bound :: nat where
  wreach_channel: "weighted_reach ops ready q0 bound
    \<lparr>wy_shared = weighted_mt_channel q0 bound, wy_senders = [PIdle], wy_recv = QIdle\<rparr>"
| wreach_clone: "weighted_reach ops ready q0 bound s \<Longrightarrow>
    weighted_reach ops ready q0 bound (s\<lparr>wy_senders := wy_senders s @ [PIdle]\<rparr>)"
| wreach_call: "weighted_reach ops ready q0 bound s \<Longrightarrow> i < length (wy_senders s) \<Longrightarrow> wy_senders s ! i = PIdle \<Longrightarrow>
    w \<le> usize_max \<Longrightarrow> pc = PLoad v w \<or> pc = TClosed v w \<Longrightarrow>
    weighted_reach ops ready q0 bound (s\<lparr>wy_senders := (wy_senders s)[i := pc]\<rparr>)"
| wreach_cancel: "weighted_reach ops ready q0 bound s \<Longrightarrow> i < length (wy_senders s) \<Longrightarrow> wy_senders s ! i = PAwait v w t \<Longrightarrow>
    weighted_reach ops ready q0 bound (s\<lparr>wy_senders := (wy_senders s)[i := PIdle]\<rparr>)"
| wreach_sender: "weighted_reach ops ready q0 bound s \<Longrightarrow> i < length (wy_senders s) \<Longrightarrow>
    weighted_sender_act ops ready spurious (wy_senders s ! i) (wy_shared s) = (pc, sh) \<Longrightarrow>
    weighted_reach ops ready q0 bound (s\<lparr>wy_shared := sh, wy_senders := (wy_senders s)[i := pc]\<rparr>)"
| wreach_receiver: "weighted_reach ops ready q0 bound s \<Longrightarrow>
    weighted_receiver_act ops drops (wy_recv s) (wy_shared s) = Inr (r, sh) \<Longrightarrow>
    weighted_reach ops ready q0 bound (s\<lparr>wy_shared := sh, wy_recv := r\<rparr>)"

lemmas sender_act_defs = weighted_sender_act_def weighted_send_act_def weighted_try_send_act_def weighted_push_act_def

lemmas receiver_act_defs = weighted_receiver_act_def weighted_recv_act_def weighted_drop_act_def

subsection \<open>Capacity\<close>

lemma has_capacity_antimono: "has_capacity n w b \<Longrightarrow> m \<le> n \<Longrightarrow> has_capacity m w b"
  by (auto simp: has_capacity_def checked_add_def split: if_splits option.splits)

lemma has_capacity_total: "m + w \<le> b \<Longrightarrow> m + w \<le> usize_max \<Longrightarrow> has_capacity m w b"
  by (simp add: has_capacity_def checked_add_def)

lemma has_capacity_fits:
  "has_capacity m w b \<Longrightarrow> w \<le> usize_max \<Longrightarrow> m + w \<le> usize_max \<and> (m = 0 \<or> m + w \<le> b)"
  by (auto simp: has_capacity_def checked_add_def split: if_splits)

subsection \<open>Weights in flight\<close>

definition nonzero :: "nat list \<Rightarrow> nat multiset" where
  "nonzero ws = filter_mset (\<lambda>w. w \<noteq> 0) (mset ws)"

fun reserved :: "'a sender_state \<Rightarrow> nat" where
  "reserved (PPush v w) = w"
| "reserved _ = 0"

fun taken :: "receiver_state \<Rightarrow> nat" where
  "taken (QSub w) = w"
| "taken _ = 0"

fun alive :: "receiver_state \<Rightarrow> bool" where
  "alive QIdle \<longleftrightarrow> True"
| "alive (QSub w) \<longleftrightarrow> True"
| "alive (QNotify c w) \<longleftrightarrow> True"
| "alive _ \<longleftrightarrow> False"

lemma nonzero_simps [simp]:
  "nonzero [] = {#}" "nonzero (xs @ ys) = nonzero xs + nonzero ys"
  "nonzero [0] = {#}" "sum_mset (nonzero xs) = sum_list xs"
proof -
  show "sum_mset (nonzero xs) = sum_list xs" by (induction xs) (simp_all add: nonzero_def)
qed (simp_all add: nonzero_def)

lemma nonzero_Cons: "nonzero (x # xs) = nonzero [x] + nonzero xs"
  by (simp add: nonzero_def)

lemma nonzero_single: "w \<noteq> 0 \<Longrightarrow> nonzero [w] = {#w#}"
  by (simp add: nonzero_def)

lemma nonzero_update:
  assumes "i < length ws"
  shows "nonzero (ws[i := w]) + nonzero [ws ! i] = nonzero ws + nonzero [w]"
proof -
  have "add_mset (ws ! i) (mset (ws[i := w])) = add_mset w (mset ws)"
    using assms nth_mem_mset [OF assms] by (simp add: mset_update insert_DiffM add_mset_commute)
  then have "filter_mset (\<lambda>w. w \<noteq> 0) (add_mset (ws ! i) (mset (ws[i := w]))) = filter_mset (\<lambda>w. w \<noteq> 0) (add_mset w (mset ws))"
    by simp
  then show ?thesis by (simp add: nonzero_def split: if_splits)
qed

definition in_flight :: "('q \<Rightarrow> ('a \<times> nat) list) \<Rightarrow> ('a, 'q) weighted_sys \<Rightarrow> nat multiset" where
  "in_flight queue s =
     nonzero (map snd (queue (wq_queue (wy_shared s)))) + nonzero (map reserved (wy_senders s)) + nonzero [taken (wy_recv s)]"

fun pc_ok :: "'q weighted_mt \<Rightarrow> receiver_state \<Rightarrow> 'a sender_state \<Rightarrow> bool" where
  "pc_ok sh r (PLoad v w) \<longleftrightarrow> w \<le> usize_max"
| "pc_ok sh r (PCheck v w c) \<longleftrightarrow> w \<le> usize_max"
| "pc_ok sh r (PCas v w c) \<longleftrightarrow> w \<le> usize_max \<and> has_capacity c w (wq_bound sh)"
| "pc_ok sh r (PListen v w) \<longleftrightarrow> w \<le> usize_max"
| "pc_ok sh r (PClosed v w t) \<longleftrightarrow> w \<le> usize_max \<and> t \<le> wq_notifications sh"
| "pc_ok sh r (PReload v w t) \<longleftrightarrow> w \<le> usize_max \<and> t \<le> wq_notifications sh"
| "pc_ok sh r (PAwait v w t) \<longleftrightarrow> w \<le> usize_max \<and> t \<le> wq_notifications sh \<and>
     (t < wq_notifications sh \<or> \<not> has_capacity (wq_occupation sh) w (wq_bound sh) \<or>
      (\<exists>c u. r = QNotify c u \<and> has_capacity c u (wq_bound sh)))"
| "pc_ok sh r (TClosed v w) \<longleftrightarrow> w \<le> usize_max"
| "pc_ok sh r (TLoad v w) \<longleftrightarrow> w \<le> usize_max"
| "pc_ok sh r (TCheck v w c) \<longleftrightarrow> w \<le> usize_max"
| "pc_ok sh r (TCas v w c) \<longleftrightarrow> w \<le> usize_max \<and> has_capacity c w (wq_bound sh)"
| "pc_ok sh r (PPush v w) \<longleftrightarrow> True"
| "pc_ok sh r (PReset v) \<longleftrightarrow> False"
| "pc_ok sh r (PResetNotify v) \<longleftrightarrow> False"
| "pc_ok sh r PIdle \<longleftrightarrow> True"

definition weighted_inv ::
  "('q \<Rightarrow> ('a \<times> nat) list) \<Rightarrow> ('a, 'q) queue_ops \<Rightarrow> nat \<Rightarrow> ('a, 'q) weighted_sys \<Rightarrow> bool" where
  "weighted_inv queue ops bound s \<longleftrightarrow> wq_bound (wy_shared s) = max bound 1 \<and> (alive (wy_recv s) \<longrightarrow>
     \<not> qo_is_closed ops (wq_queue (wy_shared s)) \<and>
     wq_occupation (wy_shared s) = sum_mset (in_flight queue s) \<and>
     wq_occupation (wy_shared s) \<le> usize_max \<and>
     (wq_occupation (wy_shared s) \<le> wq_bound (wy_shared s) \<or> size (in_flight queue s) \<le> 1) \<and>
     (\<forall>pc \<in> set (wy_senders s). pc_ok (wy_shared s) (wy_recv s) pc))"

locale weighted_queue = fifo_channel queue "qo_is_closed ops" "qo_send ops" "qo_try_recv ops"
  for queue :: "'q \<Rightarrow> ('a \<times> nat) list" and ops :: "('a, 'q) queue_ops" +
  assumes drop_closes: "qo_is_closed ops (qo_drop_receiver ops q)"
    and drop_clears: "queue (qo_drop_receiver ops q) = []"
begin

lemma in_flight_update:
  assumes "i < length (wy_senders s)"
  shows "in_flight queue (s\<lparr>wy_shared := sh, wy_senders := (wy_senders s)[i := pc]\<rparr>) +
      (nonzero [reserved (wy_senders s ! i)] + nonzero (map snd (queue (wq_queue (wy_shared s))))) =
    in_flight queue s + (nonzero [reserved pc] + nonzero (map snd (queue (wq_queue sh))))"
  using nonzero_update [of i "map reserved (wy_senders s)" "reserved pc"] assms
  by (simp add: in_flight_def map_update ac_simps)

lemma inv_update:
  assumes inv: "weighted_inv queue ops bound s" and i: "i < length (wy_senders s)"
    and q: "nonzero [reserved (wy_senders s ! i)] + nonzero (map snd (queue (wq_queue (wy_shared s)))) =
      nonzero [reserved pc] + nonzero (map snd (queue (wq_queue sh)))"
    and sh: "wq_bound sh = wq_bound (wy_shared s)" "wq_occupation sh = wq_occupation (wy_shared s)"
      "wq_notifications sh = wq_notifications (wy_shared s)"
      "qo_is_closed ops (wq_queue sh) = qo_is_closed ops (wq_queue (wy_shared s))"
    and pc: "alive (wy_recv s) \<Longrightarrow> pc_ok sh (wy_recv s) pc"
  shows "weighted_inv queue ops bound (s\<lparr>wy_shared := sh, wy_senders := (wy_senders s)[i := pc]\<rparr>)"
proof -
  have f: "in_flight queue (s\<lparr>wy_shared := sh, wy_senders := (wy_senders s)[i := pc]\<rparr>) = in_flight queue s"
    using in_flight_update [OF i, of pc sh] by (simp add: q)
  have k: "pc_ok sh r x = pc_ok (wy_shared s) r x" for r and x :: "'a sender_state"
    using sh by (cases x) simp_all
  show ?thesis using inv pc sh unfolding weighted_inv_def
    by (auto simp: f k dest!: in_set_update)
qed

lemma inv_reserve:
  assumes inv: "weighted_inv queue ops bound s" and i: "i < length (wy_senders s)"
    and pc: "reserved (wy_senders s ! i) = 0"
    and cap: "alive (wy_recv s) \<Longrightarrow> has_capacity (wq_occupation (wy_shared s)) w (wq_bound (wy_shared s)) \<and> w \<le> usize_max"
  shows "weighted_inv queue ops bound (s\<lparr>wy_shared := (wy_shared s)\<lparr>wq_occupation := wq_occupation (wy_shared s) + w\<rparr>,
     wy_senders := (wy_senders s)[i := PPush v w]\<rparr>)"
proof -
  let ?sh = "(wy_shared s)\<lparr>wq_occupation := wq_occupation (wy_shared s) + w\<rparr>"
  let ?s = "s\<lparr>wy_shared := ?sh, wy_senders := (wy_senders s)[i := PPush v w]\<rparr>"
  have f: "in_flight queue ?s = in_flight queue s + nonzero [w]"
    using in_flight_update [OF i, of "PPush v w" ?sh] pc by (simp add: ac_simps)
  have size: "size (nonzero [w]) \<le> 1" by (simp add: nonzero_def)
  have empty: "in_flight queue s = {#}" if "sum_mset (in_flight queue s) = 0"
    using that by (auto simp: in_flight_def nonzero_def split: if_splits)
  have ok: "pc_ok ?sh r x" if "pc_ok (wy_shared s) r x" for r and x :: "'a sender_state"
    using that by (cases x) (auto dest: has_capacity_antimono [OF _ le_add1])
  show ?thesis
  proof (cases "alive (wy_recv s)")
    case True
    let ?occ = "wq_occupation (wy_shared s)" and ?b = "wq_bound (wy_shared s)"
    have i: "?occ = sum_mset (in_flight queue s)" "\<forall>x \<in> set (wy_senders s). pc_ok (wy_shared s) (wy_recv s) x"
      using inv True by (simp_all add: weighted_inv_def)
    have fits: "?occ + w \<le> usize_max" "?occ = 0 \<or> ?occ + w \<le> ?b" using cap [OF True] has_capacity_fits by blast+
    have "?occ + w = sum_mset (in_flight queue ?s)" unfolding f using i(1) by simp
    moreover have "?occ + w \<le> ?b \<or> size (in_flight queue ?s) \<le> 1" unfolding f using fits(2) size empty i(1) by auto
    moreover have "\<forall>x \<in> set ((wy_senders s)[i := PPush v w]). pc_ok ?sh (wy_recv s) x"
      using i(2) ok by (auto dest!: in_set_update)
    ultimately show ?thesis using inv True fits(1) by (simp add: weighted_inv_def)
  qed (use inv in \<open>simp add: weighted_inv_def\<close>)
qed

lemma inv_dead:
  assumes "weighted_inv queue ops bound s" and "\<not> alive (wy_recv s')" and "wq_bound (wy_shared s') = wq_bound (wy_shared s)"
  shows "weighted_inv queue ops bound s'"
  using assms by (simp add: weighted_inv_def)

lemma sender_act_bound: "weighted_sender_act ops ready spurious pc sh = (pc', sh') \<Longrightarrow> wq_bound sh' = wq_bound sh"
  by (cases pc) (auto simp: sender_act_defs cas_weak_def notify_all_mt_def split: if_splits sum.splits prod.splits)

lemma sender_act_cases:
  assumes "weighted_sender_act ops ready spurious pc sh = (pc', sh')" and "pc_ok sh r pc"
    and "\<not> qo_is_closed ops (wq_queue sh)" and "\<And>v w. pc \<noteq> PPush v w"
  shows "reserved pc = 0 \<and>
    ((\<exists>v w. pc' = PPush v w \<and> has_capacity (wq_occupation sh) w (wq_bound sh) \<and> w \<le> usize_max \<and>
        sh' = sh\<lparr>wq_occupation := wq_occupation sh + w\<rparr>) \<or>
     (sh' = sh \<and> reserved pc' = 0 \<and> pc_ok sh r pc'))"
  using assms by (cases pc) (auto simp: sender_act_defs cas_weak_def split: if_splits)

lemma inv_sender:
  assumes inv: "weighted_inv queue ops bound s" and i: "i < length (wy_senders s)"
    and act: "weighted_sender_act ops ready spurious (wy_senders s ! i) (wy_shared s) = (pc, sh)"
  shows "weighted_inv queue ops bound (s\<lparr>wy_shared := sh, wy_senders := (wy_senders s)[i := pc]\<rparr>)"
proof (cases "alive (wy_recv s)")
  case False
  then show ?thesis by (intro inv_dead [OF inv]) (simp_all add: sender_act_bound [OF act])
next
  case True
  let ?pc = "wy_senders s ! i" and ?sh = "wy_shared s"
  have ok: "pc_ok ?sh (wy_recv s) ?pc" and opn: "\<not> qo_is_closed ops (wq_queue ?sh)"
    using inv True i by (auto simp: weighted_inv_def)
  consider (cas) v w where "pc = PPush v w" "reserved ?pc = 0" "has_capacity (wq_occupation ?sh) w (wq_bound ?sh)"
      "w \<le> usize_max" "sh = ?sh\<lparr>wq_occupation := wq_occupation ?sh + w\<rparr>"
    | (push) v w where "?pc = PPush v w"
    | (local) "sh = ?sh" "reserved ?pc = 0" "reserved pc = 0" "pc_ok ?sh (wy_recv s) pc"
    using sender_act_cases [OF act ok opn] by metis
  then show ?thesis
  proof cases
    case cas
    then show ?thesis using inv_reserve [OF inv i] by simp
  next
    case push
    obtain woken q where q: "qo_send ops (v, w) (wq_queue ?sh) = (Inr woken, q)" "queue q = queue (wq_queue ?sh) @ [(v, w)]"
      "\<not> qo_is_closed ops q" using send_open [OF opn] by blast
    then have "pc = PIdle" "sh = ?sh\<lparr>wq_queue := q\<rparr>" using act push by (simp_all add: sender_act_defs)
    with q push opn show ?thesis by (intro inv_update [OF inv i]) (simp_all add: ac_simps)
  next
    case local
    then show ?thesis by (intro inv_update [OF inv i]) simp_all
  qed
qed

lemma pc_ok_taken:
  assumes "pc_ok sh (QSub w) x"
    and "w = 0 \<or> has_capacity n w (wq_bound sh)" and "wq_occupation sh = n + w"
  shows "pc_ok (sh\<lparr>wq_occupation := n\<rparr>) (QNotify n w) x"
  using assms by (cases x) auto

lemma taken_capacity:
  assumes "weighted_inv queue ops bound s" and "wy_recv s = QSub w"
  shows "w \<le> wq_occupation (wy_shared s) \<and>
     (w = 0 \<or> has_capacity (wq_occupation (wy_shared s) - w) w (wq_bound (wy_shared s)))"
proof (cases "w = 0")
  case False
  let ?occ = "wq_occupation (wy_shared s)"
  obtain M where M: "in_flight queue s = add_mset w M"
    using False assms(2) by (simp add: in_flight_def nonzero_single)
  have i: "?occ = w + sum_mset M" "?occ \<le> usize_max" "?occ \<le> wq_bound (wy_shared s) \<or> M = {#}"
    using assms M by (auto simp: weighted_inv_def)
  then show ?thesis by (auto simp: has_capacity_def checked_add_def ac_simps)
qed simp

lemma inv_receiver:
  assumes inv: "weighted_inv queue ops bound s"
    and act: "weighted_receiver_act ops drops (wy_recv s) (wy_shared s) = Inr (r, sh)"
  shows "weighted_inv queue ops bound (s\<lparr>wy_shared := sh, wy_recv := r\<rparr>)"
proof (cases "wy_recv s")
  case QIdle
  show ?thesis
  proof (cases drops)
    case True
    with act QIdle show ?thesis by (intro inv_dead [OF inv]) (auto simp: receiver_act_defs)
  next
    case False
    let ?q = "wq_queue (wy_shared s)"
    have k: "pc_ok ((wy_shared s)\<lparr>wq_queue := q\<rparr>) (QSub w) x" "pc_ok ((wy_shared s)\<lparr>wq_queue := q\<rparr>) QIdle x"
      if "pc_ok (wy_shared s) QIdle x" for q w and x :: "'a sender_state"
      using that by (cases x; simp)+
    show ?thesis
    proof (cases "queue ?q")
      case Nil
      obtain e q where "qo_try_recv ops ?q = (Inl e, q)" "queue q = []" "qo_is_closed ops q = qo_is_closed ops ?q"
        using recv_empty [OF Nil] by blast
      with act inv QIdle False Nil k show ?thesis
        by (auto simp: receiver_act_defs weighted_inv_def in_flight_def)
    next
      case (Cons p ps)
      obtain v w where p: "p = (v, w)" by (cases p)
      obtain q where q: "qo_try_recv ops ?q = (Inr p, q)" "queue q = ps" "qo_is_closed ops q = qo_is_closed ops ?q"
        using recv_some [OF Cons] by blast
      have n: "r = QSub w" "sh = (wy_shared s)\<lparr>wq_queue := q\<rparr>"
        using act QIdle False q(1) p by (simp_all add: receiver_act_defs)
      have "nonzero (map snd (queue ?q)) = nonzero [w] + nonzero (map snd ps)"
        unfolding Cons p using nonzero_Cons [of w "map snd ps"] by simp
      then have "in_flight queue (s\<lparr>wy_shared := sh, wy_recv := r\<rparr>) = in_flight queue s"
        using n q(2) QIdle by (simp add: in_flight_def ac_simps)
      then show ?thesis using inv QIdle n q(3) k(1) by (auto simp: weighted_inv_def)
    qed
  qed
next
  case (QSub w)
  let ?n = "wq_occupation (wy_shared s) - w"
  have n: "r = QNotify ?n w" "sh = (wy_shared s)\<lparr>wq_occupation := ?n\<rparr>"
    using act QSub taken_capacity [OF inv QSub] by (auto simp: receiver_act_defs usize_sub_def and_then_def)
  note c = taken_capacity [OF inv QSub]
  have f: "in_flight queue s = in_flight queue (s\<lparr>wy_shared := sh, wy_recv := r\<rparr>) + nonzero [w]"
    using n QSub by (simp add: in_flight_def)
  have "pc_ok sh r x" if "x \<in> set (wy_senders s)" for x
    using pc_ok_taken [of "wy_shared s" w x ?n] c inv that QSub n by (auto simp: weighted_inv_def)
  moreover have "size (in_flight queue (s\<lparr>wy_shared := sh, wy_recv := r\<rparr>)) \<le> size (in_flight queue s)"
    "sum_mset (in_flight queue s) = sum_mset (in_flight queue (s\<lparr>wy_shared := sh, wy_recv := r\<rparr>)) + w"
    unfolding f by simp_all
  moreover have "?n \<le> b" if "wq_occupation (wy_shared s) \<le> b" for b using that by simp
  ultimately show ?thesis using inv QSub n c by (auto simp: weighted_inv_def)
next
  case (QNotify c w)
  have k: "pc_ok (wy_shared s) QIdle x" if "pc_ok (wy_shared s) (QNotify c w) x" "\<not> has_capacity c w (wq_bound (wy_shared s))"
    for x :: "'a sender_state" using that by (cases x) auto
  have k': "pc_ok (notify_all_mt (wy_shared s)) QIdle x" if "pc_ok (wy_shared s) (QNotify c w) x"
    for x :: "'a sender_state" using that by (cases x) (auto simp: notify_all_mt_def)
  show ?thesis using act inv QNotify k k'
    by (auto simp: receiver_act_defs weighted_inv_def in_flight_def notify_all_mt_def split: if_splits)
qed (use act in \<open>auto intro!: inv_dead [OF inv] simp: receiver_act_defs notify_all_mt_def\<close>)

lemma reach_inv:
  assumes "queue q0 = []" and "\<not> qo_is_closed ops q0" and "weighted_reach ops ready q0 bound s"
  shows "weighted_inv queue ops bound s"
  using assms(3)
proof (induction rule: weighted_reach.induct)
  case wreach_channel
  then show ?case using assms(1,2) by (simp add: weighted_inv_def weighted_mt_channel_def in_flight_def)
next
  case (wreach_clone s)
  then show ?case by (auto simp: weighted_inv_def in_flight_def)
next
  case (wreach_call s i w pc v)
  then show ?case using inv_update [of bound s i pc "wy_shared s"] by auto
next
  case (wreach_cancel s i v w t)
  then show ?case using inv_update [of bound s i PIdle "wy_shared s"] by simp
next
  case (wreach_sender s i spurious pc sh)
  then show ?case by (blast intro: inv_sender)
next
  case (wreach_receiver s drops r sh)
  then show ?case by (blast intro: inv_receiver)
qed

lemma never_underflows:
  assumes "weighted_inv queue ops bound s"
  shows "\<exists>r. weighted_receiver_act ops drops (wy_recv s) (wy_shared s) = Inr r"
  using assms taken_capacity [OF assms]
  by (cases "wy_recv s") (auto simp: receiver_act_defs usize_sub_def and_then_def)

lemma await_ready:
  assumes "weighted_inv queue ops bound s" and "wakes_all ready" and "wy_recv s \<in> {QIdle, QSub u}"
    and "PAwait v w t \<in> set (wy_senders s)" and "has_capacity (wq_occupation (wy_shared s)) w (wq_bound (wy_shared s))"
  shows "weighted_sender_act ops ready spurious (PAwait v w t) (wy_shared s) = (PLoad v w, wy_shared s)"
proof -
  have "pc_ok (wy_shared s) (wy_recv s) (PAwait v w t)" using assms(1,3,4) by (auto simp: weighted_inv_def)
  with assms(3,5) have "t < wq_notifications (wy_shared s)" by auto
  with assms(2) show ?thesis by (simp add: sender_act_defs wakes_all_def)
qed

end

definition unbounded_ops :: "('a, ('a \<times> nat) unbounded) queue_ops" where
  "unbounded_ops = \<lparr>qo_send = unbounded_send, qo_try_recv = unbounded_try_recv,
     qo_is_closed = unbounded_sender_is_closed,
     qo_drop_sender = (\<lambda>q. snd (unbounded_drop_sender q)), qo_drop_receiver = unbounded_drop_receiver\<rparr>"

interpretation unbounded_queue: weighted_queue ub_deque unbounded_ops
  by (simp add: weighted_queue_def weighted_queue_axioms_def unbounded_ops_def unbounded_fifo.fifo_channel_axioms)
    (simp add: unbounded_defs)

subsection \<open>Schedules\<close>

datatype 'a weighted_event =
  EvClone | EvSend nat 'a nat | EvTrySend nat 'a nat | EvSender nat | EvReceiver | EvDropReceiver

fun weighted_sched ::
  "('a, 'q) queue_ops \<Rightarrow> (nat \<Rightarrow> nat \<Rightarrow> bool) \<Rightarrow> 'a weighted_event list \<Rightarrow> ('a, 'q) weighted_sys \<Rightarrow> ('a, 'q) weighted_sys option" where
  "weighted_sched ops ready [] s = Some s"
| "weighted_sched ops ready (ev # evs) s =
     (let call = (\<lambda>i w pc. if i < length (wy_senders s) \<and> w \<le> usize_max \<and> (case wy_senders s ! i of PIdle \<Rightarrow> True | _ \<Rightarrow> False)
                 then weighted_sched ops ready evs (s\<lparr>wy_senders := (wy_senders s)[i := pc]\<rparr>) else None);
          recv = (\<lambda>drops. case weighted_receiver_act ops drops (wy_recv s) (wy_shared s) of
                   Inl _ \<Rightarrow> None | Inr (r, sh) \<Rightarrow> weighted_sched ops ready evs (s\<lparr>wy_shared := sh, wy_recv := r\<rparr>))
      in case ev of
           EvClone \<Rightarrow> weighted_sched ops ready evs (s\<lparr>wy_senders := wy_senders s @ [PIdle]\<rparr>)
         | EvSend i v w \<Rightarrow> call i w (PLoad v w)
         | EvTrySend i v w \<Rightarrow> call i w (TClosed v w)
         | EvSender i \<Rightarrow>
             if i < length (wy_senders s)
             then (case weighted_sender_act ops ready False (wy_senders s ! i) (wy_shared s) of
                     (pc, sh) \<Rightarrow> weighted_sched ops ready evs (s\<lparr>wy_shared := sh, wy_senders := (wy_senders s)[i := pc]\<rparr>))
             else None
         | EvReceiver \<Rightarrow> recv False
         | EvDropReceiver \<Rightarrow> recv True)"

lemma weighted_sched_reach:
  assumes "weighted_reach ops ready q0 bound s" and "weighted_sched ops ready evs s = Some s'"
  shows "weighted_reach ops ready q0 bound s'"
  using assms
proof (induction evs arbitrary: s)
  case (Cons ev evs)
  note step = wreach_clone [OF Cons.prems(1)] wreach_call [OF Cons.prems(1)] wreach_sender [OF Cons.prems(1)]
    wreach_receiver [OF Cons.prems(1)]
  show ?case using Cons.prems(2)
    by (auto simp: Let_def split: weighted_event.splits if_splits sum.splits prod.splits sender_state.splits
        elim!: Cons.IH [rotated] intro: step)
qed simp

subsection \<open>The single-threaded channel in use\<close>

datatype 'a weighted_op =
    WtSend waker send_future 'a nat | WtTrySend 'a nat | WtRecv waker | WtTryRecv
  | WtCloneSender | WtDropSender | WtDropReceiver

definition weighted_step :: "'a weighted_op \<Rightarrow> 'a weighted \<Rightarrow> panic + 'a weighted" where
  "weighted_step c sh = (case c of
     WtSend k fut v w \<Rightarrow> map_sum id (snd \<circ> snd \<circ> snd) (weighted_send_poll k fut v w sh)
   | WtTrySend v w \<Rightarrow> map_sum id (snd \<circ> snd) (weighted_try_send v w sh)
   | WtRecv k \<Rightarrow> map_sum id (snd \<circ> snd) (weighted_recv_poll k sh)
   | WtTryRecv \<Rightarrow> map_sum id (snd \<circ> snd) (weighted_try_recv sh)
   | WtCloneSender \<Rightarrow> Inr (weighted_clone_sender sh)
   | WtDropSender \<Rightarrow> Inr (snd (weighted_drop_sender sh))
   | WtDropReceiver \<Rightarrow> Inr (snd (weighted_drop_receiver sh)))"

fun weighted_run :: "'a weighted_op list \<Rightarrow> 'a weighted \<Rightarrow> panic + 'a weighted" where
  "weighted_run [] sh = Inr sh"
| "weighted_run (c # cs) sh = and_then (weighted_step c sh) (weighted_run cs)"

fun op_weight :: "'a weighted_op \<Rightarrow> nat" where
  "op_weight (WtSend k fut v w) = w"
| "op_weight (WtTrySend v w) = w"
| "op_weight _ = 0"

definition weighted_ok :: "'a weighted \<Rightarrow> bool" where
  "weighted_ok sh \<longleftrightarrow> wt_occupation sh = sum_list (map snd (ub_deque (wt_queue sh))) \<and> wt_occupation sh \<le> usize_max \<and>
     (wt_occupation sh \<le> wt_bound sh \<or> size (nonzero (map snd (ub_deque (wt_queue sh)))) \<le> 1)"

lemma weighted_ok_event: "weighted_ok (sh\<lparr>wt_event := e\<rparr>) = weighted_ok sh"
  by (simp add: weighted_ok_def)

lemma weighted_ok_push:
  assumes "weighted_ok sh" and "\<not> unbounded_sender_is_closed (wt_queue sh)"
    and "has_capacity (wt_occupation sh) w (wt_bound sh)" and "w \<le> usize_max"
  shows "\<exists>woken sh1. weighted_push v w (sh\<lparr>wt_occupation := wt_occupation sh + w\<rparr>) = (Inr woken, [], sh1) \<and>
     weighted_ok sh1 \<and> wt_occupation sh + w \<le> usize_max"
proof -
  obtain woken q where q: "unbounded_send (v, w) (wt_queue sh) = (Inr woken, q)" "ub_deque q = ub_deque (wt_queue sh) @ [(v, w)]"
    using unbounded_fifo.send_open [OF assms(2)] by blast
  note f = has_capacity_fits [OF assms(3,4)]
  have "size (nonzero [w]) \<le> 1" by (simp add: nonzero_def)
  moreover have "nonzero (map snd (ub_deque (wt_queue sh))) = {#}" if "wt_occupation sh = 0"
    using that assms(1) by (auto simp: weighted_ok_def nonzero_def)
  ultimately show ?thesis using f q assms(1) by (auto simp: weighted_push_def weighted_ok_def)
qed

lemma weighted_ok_taken:
  assumes "weighted_ok sh" and "ub_deque (wt_queue sh) = (v, w) # ps" and "ub_deque q = ps"
  shows "\<exists>woken sh1. weighted_taken w (sh\<lparr>wt_queue := q\<rparr>) = Inr (woken, sh1) \<and> weighted_ok sh1 \<and>
     (w \<noteq> 0 \<longrightarrow> woken = fst (event_notify_all (wt_event sh)))"
proof -
  have f: "nonzero (map snd (ub_deque (wt_queue sh))) = nonzero [w] + nonzero (map snd ps)"
    using nonzero_Cons [of w "map snd ps"] assms(2) by simp
  have occ: "wt_occupation sh = w + sum_list (map snd ps)" using assms(1,2) by (simp add: weighted_ok_def)
  have small: "wt_occupation sh \<le> wt_bound sh \<or> size (nonzero [w]) + size (nonzero (map snd ps)) \<le> 1"
    using assms(1) by (auto simp: weighted_ok_def f)
  have cap: "has_capacity (sum_list (map snd ps)) w (wt_bound sh)" if "w \<noteq> 0"
  proof (cases "wt_occupation sh \<le> wt_bound sh")
    case True
    then show ?thesis using occ assms(1) by (intro has_capacity_total) (simp_all add: weighted_ok_def)
  next
    case False
    with small that have "nonzero (map snd ps) = {#}" by (simp add: nonzero_single)
    then have "sum_mset (nonzero (map snd ps)) = 0" by simp
    then show ?thesis by (simp add: has_capacity_def)
  qed
  let ?sh = "sh\<lparr>wt_queue := q, wt_occupation := sum_list (map snd ps)\<rparr>"
  have ok: "weighted_ok ?sh" using small occ assms(1,3) by (auto simp: weighted_ok_def)
  have ok': "weighted_ok (?sh\<lparr>wt_event := e\<rparr>)" for e using ok by (simp only: weighted_ok_event)
  show ?thesis using occ ok ok' cap
    by (auto simp: weighted_taken_def usize_sub_def and_then_def weighted_notify_def Let_def split: prod.splits)
qed

lemma weighted_send_turn_ok:
  assumes "weighted_ok sh" and "w \<le> usize_max"
  shows "\<exists>r fut woken sh1. weighted_send_turn k v w sh = Inr (r, fut, woken, sh1) \<and> weighted_ok sh1"
  using weighted_ok_push [OF assms(1) _ _ assms(2), of v] assms(1)
  by (auto simp: weighted_send_turn_def usize_add_def and_then_def weighted_ok_event Let_def split: prod.splits)

lemma weighted_send_poll_ok:
  assumes "weighted_ok sh" and "w \<le> usize_max"
  shows "\<exists>r fut' woken sh1. weighted_send_poll k fut v w sh = Inr (r, fut', woken, sh1) \<and> weighted_ok sh1"
  using weighted_send_turn_ok [of _ w k v] assms
  by (auto simp: weighted_send_poll_def weighted_ok_event split: send_future.splits prod.splits poll.splits)

lemma weighted_try_send_ok:
  assumes "weighted_ok sh" and "w \<le> usize_max"
  shows "\<exists>r woken sh1. weighted_try_send v w sh = Inr (r, woken, sh1) \<and> weighted_ok sh1"
  using weighted_ok_push [OF assms(1) _ _ assms(2), of v] assms(1)
  by (auto simp: weighted_try_send_def usize_add_def and_then_def)

lemma weighted_recv_ok:
  assumes "weighted_ok sh"
  shows "\<exists>r woken sh1. weighted_recv_poll k sh = Inr (r, woken, sh1) \<and> weighted_ok sh1"
    and "\<exists>r woken sh1. weighted_try_recv sh = Inr (r, woken, sh1) \<and> weighted_ok sh1"
proof -
  have e: "weighted_ok (sh\<lparr>wt_queue := q\<rparr>)" if "ub_deque q = ub_deque (wt_queue sh)" for q
    using assms that by (auto simp: weighted_ok_def)
  have t: "\<exists>woken sh1. weighted_taken w (sh\<lparr>wt_queue := q\<rparr>) = Inr (woken, sh1) \<and> weighted_ok sh1"
    if "ub_deque (wt_queue sh) = (v, w) # ub_deque q" for v w q using weighted_ok_taken [OF assms that] by blast
  have "(\<exists>r woken sh1. weighted_recv_poll k sh = Inr (r, woken, sh1) \<and> weighted_ok sh1) \<and>
    (\<exists>r woken sh1. weighted_try_recv sh = Inr (r, woken, sh1) \<and> weighted_ok sh1)"
  proof (cases "ub_deque (wt_queue sh)")
    case Nil
    then show ?thesis using e assms
      by (simp add: weighted_recv_poll_def unbounded_recv_poll_def weighted_try_recv_def unbounded_try_recv_def)
  next
    case (Cons p ps)
    obtain v w where p: "p = (v, w)" by (cases p)
    from t [of v w "(wt_queue sh)\<lparr>ub_deque := ps\<rparr>"] Cons p show ?thesis
      by (auto simp: weighted_recv_poll_def unbounded_recv_poll_def weighted_try_recv_def unbounded_try_recv_def and_then_def)
  qed
  then show "\<exists>r woken sh1. weighted_recv_poll k sh = Inr (r, woken, sh1) \<and> weighted_ok sh1"
    "\<exists>r woken sh1. weighted_try_recv sh = Inr (r, woken, sh1) \<and> weighted_ok sh1" by simp_all
qed

lemma weighted_step_ok:
  assumes "weighted_ok sh" and "op_weight c \<le> usize_max"
  shows "\<exists>sh1. weighted_step c sh = Inr sh1 \<and> weighted_ok sh1"
proof (cases c)
  case (WtSend k fut v w)
  then show ?thesis using weighted_send_poll_ok [OF assms(1), of w k fut v] assms(2) by (auto simp: weighted_step_def)
next
  case (WtTrySend v w)
  then show ?thesis using weighted_try_send_ok [OF assms(1), of w v] assms(2) by (auto simp: weighted_step_def)
next
  case (WtRecv k)
  then show ?thesis using weighted_recv_ok(1) [OF assms(1), of k] by (auto simp: weighted_step_def)
next
  case WtTryRecv
  then show ?thesis using weighted_recv_ok(2) [OF assms(1)] by (auto simp: weighted_step_def)
qed (use assms(1) in \<open>auto simp: weighted_step_def weighted_ok_def weighted_clone_sender_def weighted_drop_sender_def
    weighted_drop_receiver_def weighted_notify_def unbounded_defs Let_def split: prod.splits option.splits\<close>)

lemma weighted_run_ok:
  assumes "weighted_ok sh" and "\<forall>c \<in> set cs. op_weight c \<le> usize_max"
  shows "\<exists>sh1. weighted_run cs sh = Inr sh1 \<and> weighted_ok sh1"
  using assms
proof (induction cs arbitrary: sh)
  case (Cons c cs)
  then obtain sh1 where "weighted_step c sh = Inr sh1" "weighted_ok sh1" using weighted_step_ok [of sh c] by auto
  with Cons show ?case by (simp add: and_then_def)
qed simp

subsection \<open>Properties\<close>

text \<open>C18: in the multi-threaded channel, for every interleaving of the senders and the receiver, as long as
  the receiver lives the occupation is exactly the weight of the queued items, of those reserved by
  a sender that has not pushed yet and of the one the receiver has taken and not yet accounted for;
  it exceeds the bound only when a single item of non-zero weight is in flight; and the subtraction
  in \<open>recv\<close> never underflows.\<close>

theorem weighted_mt_occupation:
  assumes "weighted_queue queue ops" and "queue q0 = []" and "\<not> qo_is_closed ops q0"
    and "weighted_reach ops ready q0 bound s" and "alive (wy_recv s)"
  shows "wq_occupation (wy_shared s) =
      sum_list (map snd (queue (wq_queue (wy_shared s)))) + sum_list (map reserved (wy_senders s)) + taken (wy_recv s) \<and>
    (wq_occupation (wy_shared s) \<le> max bound 1 \<or> size (in_flight queue s) \<le> 1) \<and>
    (\<exists>r. weighted_receiver_act ops drops (wy_recv s) (wy_shared s) = Inr r)"
proof -
  have inv: "weighted_inv queue ops bound s" by (rule weighted_queue.reach_inv [OF assms(1-4)])
  then have "wq_occupation (wy_shared s) = sum_mset (in_flight queue s)" using assms(5) by (simp add: weighted_inv_def)
  with inv weighted_queue.never_underflows [OF assms(1) inv] assms(5) show ?thesis
    by (auto simp: weighted_inv_def in_flight_def)
qed

theorem weighted_mt_occupation_witness:
  "\<exists>s. weighted_sched unbounded_ops (<) [EvTrySend 0 True 5, EvSender 0, EvSender 0, EvSender 0, EvSender 0, EvSender 0]
       \<lparr>wy_shared = weighted_mt_channel unbounded_channel 3, wy_senders = [PIdle], wy_recv = QIdle\<rparr> = Some s \<and>
     wq_occupation (wy_shared s) = 5 \<and> size (in_flight ub_deque s) \<le> 1"
proof -
  let ?s0 = "\<lparr>wy_shared = weighted_mt_channel unbounded_channel 3, wy_senders = [PIdle], wy_recv = QIdle\<rparr>"
  obtain s where s: "weighted_sched unbounded_ops (<) [EvTrySend 0 True 5, EvSender 0, EvSender 0, EvSender 0, EvSender 0, EvSender 0]
       ?s0 = Some s" and r: "wy_recv s = QIdle" "wq_occupation (wy_shared s) = 5"
    by (simp add: weighted_mt_channel_def sender_act_defs cas_weak_def
        unbounded_ops_def unbounded_channel_def unbounded_defs has_capacity_def usize_max_def)
  have "ub_deque unbounded_channel = ([] :: (bool \<times> nat) list)" "\<not> qo_is_closed unbounded_ops unbounded_channel"
    by (simp_all add: unbounded_channel_def unbounded_ops_def unbounded_sender_is_closed_def)
  from weighted_mt_occupation [OF unbounded_queue.weighted_queue_axioms this weighted_sched_reach [OF wreach_channel s]] r s
  show ?thesis by simp
qed

text \<open>C19: no sender of the multi-threaded channel sleeps while there is room for it. As long as the receiver
  lives and is not just about to notify, a sender that awaits its listener although the channel has
  capacity for its item has been notified, so its next poll goes on.\<close>

theorem weighted_mt_no_lost_wakeup:
  assumes "weighted_queue queue ops" and "queue q0 = []" and "\<not> qo_is_closed ops q0" and "wakes_all ready"
    and "weighted_reach ops ready q0 bound s" and "wy_recv s \<in> {QIdle, QSub u}"
    and "PAwait v w t \<in> set (wy_senders s)" and "has_capacity (wq_occupation (wy_shared s)) w (wq_bound (wy_shared s))"
  shows "weighted_sender_act ops ready spurious (PAwait v w t) (wy_shared s) = (PLoad v w, wy_shared s)"
  by (rule weighted_queue.await_ready [OF assms(1) weighted_queue.reach_inv [OF assms(1-3,5)] assms(4,6-8)])

theorem weighted_mt_no_lost_wakeup_witness:
  "\<exists>s. weighted_reach unbounded_ops (<) unbounded_channel 1 s \<and> PAwait True 1 0 \<in> set (wy_senders s) \<and>
     weighted_sender_act unbounded_ops (<) False (PAwait True 1 0) (wy_shared s) = (PLoad True 1, wy_shared s)"
proof -
  let ?s0 = "\<lparr>wy_shared = weighted_mt_channel unbounded_channel 1, wy_senders = [PIdle], wy_recv = QIdle\<rparr>"
  let ?evs = "[EvClone, EvTrySend 0 True 1, EvSender 0, EvSender 0, EvSender 0, EvSender 0, EvSender 0,
    EvSend 1 True 1, EvSender 1, EvSender 1, EvSender 1, EvSender 1, EvSender 1, EvReceiver, EvReceiver, EvReceiver]"
  obtain s where s: "weighted_sched unbounded_ops (<) ?evs ?s0 = Some s"
    and r: "wy_recv s \<in> {QIdle, QSub 0}" "PAwait True 1 0 \<in> set (wy_senders s)"
      "has_capacity (wq_occupation (wy_shared s)) 1 (wq_bound (wy_shared s))"
    by (simp add: weighted_mt_channel_def receiver_act_defs sender_act_defs notify_all_mt_def cas_weak_def
        unbounded_ops_def unbounded_channel_def unbounded_defs has_capacity_def checked_add_def usize_max_def
        usize_sub_def and_then_def)
  have "ub_deque unbounded_channel = ([] :: (bool \<times> nat) list)" "\<not> qo_is_closed unbounded_ops unbounded_channel"
    "wakes_all (<)" by (simp_all add: unbounded_channel_def unbounded_ops_def unbounded_sender_is_closed_def wakes_all_def)
  with weighted_mt_no_lost_wakeup [OF unbounded_queue.weighted_queue_axioms this weighted_sched_reach [OF wreach_channel s] r]
    weighted_sched_reach [OF wreach_channel s] r(2)
  show ?thesis by blast
qed

text \<open>the receiver of the multi-threaded channel is dropped in the wrong order: \<open>Drop\<close> resets the
  occupation and notifies before the queue below is closed. A sender that comes in between fills the
  channel again, another one goes to sleep, and when the queue is closed nobody notifies it: its
  \<open>send\<close> never returns although the channel is closed.\<close>

lemma weighted_mt_drop_strands_sender:
  "\<exists>s. weighted_reach unbounded_ops (<) unbounded_channel 1 s \<and> wy_recv s = QGone \<and>
     qo_is_closed unbounded_ops (wq_queue (wy_shared s)) \<and> wy_senders s = [PIdle, PAwait v 1 1] \<and>
     weighted_sender_act unbounded_ops (<) spurious (PAwait v 1 1) (wy_shared s) = (PAwait v 1 1, wy_shared s)"
proof -
  let ?s0 = "\<lparr>wy_shared = weighted_mt_channel unbounded_channel 1, wy_senders = [PIdle], wy_recv = QIdle\<rparr>"
  let ?evs = "[EvClone, EvDropReceiver, EvReceiver, EvTrySend 0 v 1, EvSender 0, EvSender 0, EvSender 0, EvSender 0, EvSender 0,
    EvSend 1 v 1, EvSender 1, EvSender 1, EvSender 1, EvSender 1, EvSender 1, EvReceiver]"
  obtain s where s: "weighted_sched unbounded_ops (<) ?evs ?s0 = Some s"
    and "wy_recv s = QGone" "qo_is_closed unbounded_ops (wq_queue (wy_shared s))" "wy_senders s = [PIdle, PAwait v 1 1]"
      "wq_notifications (wy_shared s) = 1"
    by (simp add: weighted_mt_channel_def receiver_act_defs sender_act_defs notify_all_mt_def cas_weak_def
        unbounded_ops_def unbounded_channel_def unbounded_defs has_capacity_def checked_add_def usize_max_def)
  moreover from weighted_sched_reach [OF wreach_channel s] have "weighted_reach unbounded_ops (<) unbounded_channel 1 s" .
  ultimately show ?thesis by (intro exI [of _ s]) (simp add: sender_act_defs)
qed

text \<open>the single-threaded channel never panics, whatever is sent, received, cloned or dropped, when every
  weight is a \<open>usize\<close>; its occupation is exactly the weight of the queue and exceeds the bound only for
  a single item of non-zero weight; and a receive that frees any weight wakes every sleeping sender.\<close>

lemma weighted_st_occupation:
  assumes "\<forall>c \<in> set cs. op_weight c \<le> usize_max"
  shows "\<exists>sh. weighted_run cs (weighted_channel bound) = Inr sh \<and>
     wt_occupation sh = sum_list (map snd (ub_deque (wt_queue sh))) \<and>
     (wt_occupation sh \<le> wt_bound sh \<or> size (nonzero (map snd (ub_deque (wt_queue sh)))) \<le> 1) \<and>
     (\<forall>v w ps. ub_deque (wt_queue sh) = (v, w) # ps \<and> w \<noteq> 0 \<longrightarrow>
       (\<exists>sh1. weighted_try_recv sh = Inr (Inr v, fst (event_notify_all (wt_event sh)), sh1)))"
proof -
  have "weighted_ok (weighted_channel bound)" by (simp add: weighted_ok_def weighted_channel_def unbounded_channel_def)
  from weighted_run_ok [OF this assms] obtain sh where sh: "weighted_run cs (weighted_channel bound) = Inr sh" "weighted_ok sh" by blast
  have "\<exists>sh1. weighted_try_recv sh = Inr (Inr v, fst (event_notify_all (wt_event sh)), sh1)"
    if "ub_deque (wt_queue sh) = (v, w) # ps" "w \<noteq> 0" for v w ps
    using weighted_ok_taken [OF sh(2) that(1), of "(wt_queue sh)\<lparr>ub_deque := ps\<rparr>"] that
    by (auto simp: weighted_try_recv_def unbounded_try_recv_def and_then_def)
  with sh show ?thesis by (intro exI [of _ sh]) (auto simp: weighted_ok_def)
qed

lemma weighted_st_occupation_witness:
  "\<exists>sh. weighted_run [WtTrySend True 5, WtSend 7 SendStart True 1, WtTryRecv] (weighted_channel 3) = Inr sh \<and>
     wt_occupation sh = sum_list (map snd (ub_deque (wt_queue sh)))"
  using weighted_st_occupation [of "[WtTrySend True 5, WtSend 7 SendStart True 1, WtTryRecv]" 3]
  by (auto simp: usize_max_def)

end
