(* ===== verification/Sync_Poll.thy ===== *)
theory Sync_Poll
  imports Sync_Oneshot Sync_Watch Sync_Weighted
begin

section \<open>The multi-threaded channels, one poll at a time\<close>

text \<open>
  The futures of \<open>recv\<close> of the oneshot channel (\<open>src/aquic-core/src/sync/mpmc/oneshot/mt.rs\<close>) and of
  \<open>send\<close> and \<open>recv\<close> of the weighted channel (\<open>sync/mpsc/weighted/mt.rs\<close>) as the channels built on them
  see them: a state between polls and a function that polls once. A poll here is the run of the
  atomic actions of \<open>Sync_Oneshot\<close> and \<open>Sync_Weighted\<close> without another thread in between; the lemmas
  \<open>recv_poll_actions\<close> and \<open>send_poll_actions\<close> say so. What the interleavings add is shown in those
  theories.

  A future that has returned \<open>Ready\<close> panics when it is polled again, as the compiled code of an
  \<open>async fn\<close> does. The locale \<open>mpsc_queue\<close> extends the contract of the queue below by its senders.
\<close>

subsection \<open>Futures\<close>

datatype mt_future = MtStart | MtWait nat | MtFinished

definition mt_recv_turn :: "'a oneshot_mt \<Rightarrow> 'a option poll \<times> mt_future" where
  "mt_recv_turn sh = (case mt_try_recv sh of
     Inr value \<Rightarrow> (Ready (Some value), MtFinished)
   | Inl RecvClosed \<Rightarrow> (Ready None, MtFinished)
   | Inl RecvEmpty \<Rightarrow> (Pending, MtWait (mt_notifications sh)))"

definition mt_recv_poll ::
  "(nat \<Rightarrow> nat \<Rightarrow> bool) \<Rightarrow> mt_future \<Rightarrow> 'a oneshot_mt \<Rightarrow> panic + ('a option poll \<times> mt_future)" where
  "mt_recv_poll ready fut sh = (case fut of
     MtStart \<Rightarrow> Inr (mt_recv_turn sh)
   | MtWait t \<Rightarrow> Inr (if ready t (mt_notifications sh) then mt_recv_turn sh else (Pending, MtWait t))
   | MtFinished \<Rightarrow> Inl ResumedAfterCompletion)"

definition weighted_mt_reserve ::
  "('a, 'q) queue_ops \<Rightarrow> 'a \<Rightarrow> nat \<Rightarrow> 'q weighted_mt \<Rightarrow> ('a send_error + unit) \<times> 'q weighted_mt" where
  "weighted_mt_reserve ops v w sh =
     (case qo_send ops (v, w) (wq_queue sh) of
        (Inl (SendError (v', _)), q) \<Rightarrow> (Inl (SendError v'), notify_all_mt (sh\<lparr>wq_occupation := 0, wq_queue := q\<rparr>))
      | (Inr _, q) \<Rightarrow> (Inr (), sh\<lparr>wq_occupation := wq_occupation sh + w, wq_queue := q\<rparr>))"

definition weighted_mt_send_turn ::
  "('a, 'q) queue_ops \<Rightarrow> 'a \<Rightarrow> nat \<Rightarrow> 'q weighted_mt \<Rightarrow> ('a send_error + unit) poll \<times> mt_future \<times> 'q weighted_mt" where
  "weighted_mt_send_turn ops v w sh =
     (if qo_is_closed ops (wq_queue sh) then (Ready (Inl (SendError v)), MtFinished, sh)
      else if has_capacity (wq_occupation sh) w (wq_bound sh)
        then let (r, sh1) = weighted_mt_reserve ops v w sh in (Ready r, MtFinished, sh1)
      else (Pending, MtWait (wq_notifications sh), sh))"

definition weighted_mt_send_poll ::
  "('a, 'q) queue_ops \<Rightarrow> (nat \<Rightarrow> nat \<Rightarrow> bool) \<Rightarrow> mt_future \<Rightarrow> 'a \<Rightarrow> nat \<Rightarrow> 'q weighted_mt \<Rightarrow>
   panic + (('a send_error + unit) poll \<times> mt_future \<times> 'q weighted_mt)" where
  "weighted_mt_send_poll ops ready fut v w sh = (case fut of
     MtStart \<Rightarrow> Inr (weighted_mt_send_turn ops v w sh)
   | MtWait t \<Rightarrow> Inr (if ready t (wq_notifications sh) then weighted_mt_send_turn ops v w sh else (Pending, MtWait t, sh))
   | MtFinished \<Rightarrow> Inl ResumedAfterCompletion)"

definition weighted_mt_try_send ::
  "('a, 'q) queue_ops \<Rightarrow> 'a \<Rightarrow> nat \<Rightarrow> 'q weighted_mt \<Rightarrow> (try_send_error + unit) \<times> 'q weighted_mt" where
  "weighted_mt_try_send ops v w sh =
     (if qo_is_closed ops (wq_queue sh) then (Inl TrySendClosed, sh)
      else if \<not> has_capacity (wq_occupation sh) w (wq_bound sh) then (Inl TrySendFull, sh)
      else case weighted_mt_reserve ops v w sh of
             (Inl _, sh1) \<Rightarrow> (Inl TrySendClosed, sh1)
           | (Inr _, sh1) \<Rightarrow> (Inr (), sh1))"

definition weighted_mt_taken :: "nat \<Rightarrow> 'q weighted_mt \<Rightarrow> panic + 'q weighted_mt" where
  "weighted_mt_taken w sh = and_then (usize_sub (wq_occupation sh) w) (\<lambda>current.
     let sh1 = sh\<lparr>wq_occupation := current\<rparr>
     in Inr (if has_capacity current w (wq_bound sh1) then notify_all_mt sh1 else sh1))"

definition weighted_mt_try_recv ::
  "('a, 'q) queue_ops \<Rightarrow> 'q weighted_mt \<Rightarrow> panic + ((try_recv_error + 'a) \<times> 'q weighted_mt)" where
  "weighted_mt_try_recv ops sh = (case qo_try_recv ops (wq_queue sh) of
     (Inl e, q) \<Rightarrow> Inr (Inl e, sh\<lparr>wq_queue := q\<rparr>)
   | (Inr (v, w), q) \<Rightarrow> and_then (weighted_mt_taken w (sh\<lparr>wq_queue := q\<rparr>)) (\<lambda>sh1. Inr (Inr v, sh1)))"

definition weighted_mt_recv_poll ::
  "('a, 'q) queue_ops \<Rightarrow> 'q weighted_mt \<Rightarrow> panic + ('a option poll \<times> 'q weighted_mt)" where
  "weighted_mt_recv_poll ops sh = and_then (weighted_mt_try_recv ops sh) (\<lambda>(r, sh1). Inr
     (case r of Inr v \<Rightarrow> Ready (Some v) | Inl RecvClosed \<Rightarrow> Ready None | Inl RecvEmpty \<Rightarrow> Pending, sh1))"

definition weighted_mt_drop_sender :: "('a, 'q) queue_ops \<Rightarrow> 'q weighted_mt \<Rightarrow> 'q weighted_mt" where
  "weighted_mt_drop_sender ops sh = sh\<lparr>wq_queue := qo_drop_sender ops (wq_queue sh)\<rparr>"

definition weighted_mt_drop_receiver :: "('a, 'q) queue_ops \<Rightarrow> 'q weighted_mt \<Rightarrow> 'q weighted_mt" where
  "weighted_mt_drop_receiver ops sh =
     (let sh1 = notify_all_mt (sh\<lparr>wq_occupation := 0\<rparr>) in sh1\<lparr>wq_queue := qo_drop_receiver ops (wq_queue sh1)\<rparr>)"

subsection \<open>A poll is a run of the atomic actions\<close>

fun recv_pc :: "mt_future \<Rightarrow> 'a receiver_pc" where
  "recv_pc MtStart = RGet"
| "recv_pc (MtWait t) = RAwait t"
| "recv_pc MtFinished = RDone None"

fun recv_result_pc :: "'a option poll \<Rightarrow> mt_future \<Rightarrow> 'a receiver_pc" where
  "recv_result_pc (Ready r) fut = RDone r"
| "recv_result_pc Pending fut = recv_pc fut"

lemma recv_turn_actions:
  "\<exists>n. ((\<lambda>pc. receiver_act ready pc sh) ^^ n) RGet = (case mt_recv_turn sh of (r, fut) \<Rightarrow> recv_result_pc r fut)"
proof (cases "mt_container sh")
  case None
  show ?thesis
  proof (cases "mt_receiver_is_closed sh")
    case True
    with None have "((\<lambda>pc. receiver_act ready pc sh) ^^ 2) RGet = (case mt_recv_turn sh of (r, fut) \<Rightarrow> recv_result_pc r fut)"
      by (simp add: numeral_2_eq_2 receiver_act_def mt_recv_turn_def mt_try_recv_def)
    then show ?thesis by blast
  next
    case False
    with None have "((\<lambda>pc. receiver_act ready pc sh) ^^ 5) RGet = (case mt_recv_turn sh of (r, fut) \<Rightarrow> recv_result_pc r fut)"
      by (simp add: eval_nat_numeral receiver_act_def mt_recv_turn_def mt_try_recv_def)
    then show ?thesis by blast
  qed
next
  case (Some v)
  then have "((\<lambda>pc. receiver_act ready pc sh) ^^ 1) RGet = (case mt_recv_turn sh of (r, fut) \<Rightarrow> recv_result_pc r fut)"
    by (simp add: receiver_act_def mt_recv_turn_def mt_try_recv_def)
  then show ?thesis by blast
qed

lemma recv_poll_actions:
  assumes "mt_recv_poll ready fut sh = Inr (r, fut')"
  shows "\<exists>n. ((\<lambda>pc. receiver_act ready pc sh) ^^ n) (recv_pc fut) = recv_result_pc r fut'"
proof -
  obtain n where n: "((\<lambda>pc. receiver_act ready pc sh) ^^ n) RGet = (case mt_recv_turn sh of (r, fut) \<Rightarrow> recv_result_pc r fut)"
    using recv_turn_actions by blast
  show ?thesis
  proof (cases fut)
    case MtStart
    with n assms show ?thesis by (auto simp: mt_recv_poll_def)
  next
    case (MtWait t)
    show ?thesis
    proof (cases "ready t (mt_notifications sh)")
      case True
      with n MtWait assms have "((\<lambda>pc. receiver_act ready pc sh) ^^ Suc n) (recv_pc fut) = recv_result_pc r fut'"
        by (simp add: mt_recv_poll_def receiver_act_def funpow_Suc_right del: funpow.simps)
      then show ?thesis by blast
    next
      case False
      with MtWait assms have "((\<lambda>pc. receiver_act ready pc sh) ^^ 0) (recv_pc fut) = recv_result_pc r fut'"
        by (simp add: mt_recv_poll_def)
      then show ?thesis by blast
    qed
  qed (use assms in \<open>simp add: mt_recv_poll_def\<close>)
qed

definition send_action ::
  "('a, 'q) queue_ops \<Rightarrow> (nat \<Rightarrow> nat \<Rightarrow> bool) \<Rightarrow> 'a sender_state \<times> 'q weighted_mt \<Rightarrow> 'a sender_state \<times> 'q weighted_mt" where
  "send_action ops ready = (\<lambda>(pc, sh). weighted_send_act ops ready False pc sh)"

lemma send_action_step:
  "(send_action ops ready ^^ Suc n) (pc, sh) = (send_action ops ready ^^ n) (weighted_send_act ops ready False pc sh)"
  by (simp add: funpow_Suc_right send_action_def del: funpow.simps)

lemma send_turn_actions:
  assumes "weighted_mt_send_turn ops v w sh = (r, fut, sh1)"
  shows "\<exists>n. (send_action ops ready ^^ n) (PLoad v w, sh) =
    (case fut of MtWait t \<Rightarrow> PAwait v w t | _ \<Rightarrow> PIdle, sh1)"
proof -
  note acts = weighted_send_act_def weighted_push_act_def cas_weak_def send_action_step
  consider (closed) "qo_is_closed ops (wq_queue sh)"
    | (push) "\<not> qo_is_closed ops (wq_queue sh)" "has_capacity (wq_occupation sh) w (wq_bound sh)"
    | (full) "\<not> qo_is_closed ops (wq_queue sh)" "\<not> has_capacity (wq_occupation sh) w (wq_bound sh)" by blast
  then show ?thesis
  proof cases
    case closed
    then have "(send_action ops ready ^^ Suc (Suc 0)) (PLoad v w, sh) = (PIdle, sh)" "fut = MtFinished" "sh1 = sh"
      using assms by (auto simp: acts weighted_mt_send_turn_def simp del: funpow.simps(2))
    then show ?thesis by (intro exI [of _ "Suc (Suc 0)"]) simp
  next
    case push
    obtain x q where x: "qo_send ops (v, w) (wq_queue sh) = (x, q)" by fastforce
    show ?thesis
    proof (cases x)
      case (Inl e)
      have "(send_action ops ready ^^ Suc (Suc (Suc (Suc (Suc (Suc 0)))))) (PLoad v w, sh) = (PIdle, sh1)" "fut = MtFinished"
        using assms push x Inl
        by (auto simp: acts weighted_mt_send_turn_def weighted_mt_reserve_def notify_all_mt_def simp del: funpow.simps(2)
            split: send_error.splits)
      then show ?thesis by (intro exI [of _ "Suc (Suc (Suc (Suc (Suc (Suc 0)))))"]) simp
    next
      case (Inr u)
      have "(send_action ops ready ^^ Suc (Suc (Suc (Suc 0)))) (PLoad v w, sh) = (PIdle, sh1)" "fut = MtFinished"
        using assms push x Inr
        by (auto simp: acts weighted_mt_send_turn_def weighted_mt_reserve_def simp del: funpow.simps(2))
      then show ?thesis by (intro exI [of _ "Suc (Suc (Suc (Suc 0)))"]) simp
    qed
  next
    case full
    then have "(send_action ops ready ^^ Suc (Suc (Suc (Suc (Suc 0))))) (PLoad v w, sh) = (PAwait v w (wq_notifications sh), sh)"
      "fut = MtWait (wq_notifications sh)" "sh1 = sh"
      using assms by (auto simp: acts weighted_mt_send_turn_def simp del: funpow.simps(2))
    then show ?thesis by (intro exI [of _ "Suc (Suc (Suc (Suc (Suc 0))))"]) simp
  qed
qed

fun send_pc :: "'a \<Rightarrow> nat \<Rightarrow> mt_future \<Rightarrow> 'a sender_state" where
  "send_pc v w MtStart = PLoad v w"
| "send_pc v w (MtWait t) = PAwait v w t"
| "send_pc v w MtFinished = PIdle"

lemma send_poll_actions:
  assumes "weighted_mt_send_poll ops ready fut v w sh = Inr (r, fut', sh1)"
  shows "\<exists>n. (send_action ops ready ^^ n) (send_pc v w fut, sh) = (send_pc v w fut', sh1)"
proof -
  have turn: "\<exists>n. (send_action ops ready ^^ n) (PLoad v w, sh) = (send_pc v w fut', sh1)"
    if "weighted_mt_send_turn ops v w sh = (r, fut', sh1)"
  proof -
    have "fut' \<noteq> MtStart" using that by (auto simp: weighted_mt_send_turn_def split: if_splits prod.splits)
    with send_turn_actions [OF that] show ?thesis by (cases fut') auto
  qed
  show ?thesis
  proof (cases fut)
    case (MtWait t)
    show ?thesis
    proof (cases "ready t (wq_notifications sh)")
      case True
      with MtWait assms have "weighted_mt_send_turn ops v w sh = (r, fut', sh1)" by (simp add: weighted_mt_send_poll_def)
      from turn [OF this] obtain n where "(send_action ops ready ^^ n) (PLoad v w, sh) = (send_pc v w fut', sh1)" by blast
      with True MtWait have "(send_action ops ready ^^ Suc n) (send_pc v w fut, sh) = (send_pc v w fut', sh1)"
        by (simp add: send_action_step weighted_send_act_def del: funpow.simps)
      then show ?thesis by blast
    qed (use MtWait assms in \<open>auto simp: weighted_mt_send_poll_def intro!: exI [of _ 0]\<close>)
  qed (use turn assms in \<open>auto simp: weighted_mt_send_poll_def\<close>)
qed

subsection \<open>A oneshot channel as the reason of a closed direction\<close>

text \<open>The stream and the datagram channel keep the reason why they were closed in a oneshot channel of which
  each half holds both handles, so that it is set once and read by both.\<close>

definition first_reason :: "'a \<Rightarrow> 'a option \<Rightarrow> 'a option" where
  "first_reason e r = (case r of None \<Rightarrow> Some e | Some e' \<Rightarrow> Some e')"

definition reason_fut_ok :: "'a oneshot_mt \<Rightarrow> mt_future \<Rightarrow> bool" where
  "reason_fut_ok er f = (case f of
     MtStart \<Rightarrow> True
   | MtWait t \<Rightarrow> t < mt_notifications er \<or> t = mt_notifications er \<and> mt_container er = None
   | MtFinished \<Rightarrow> False)"

definition set_reason :: "'a \<Rightarrow> 'a oneshot_mt \<Rightarrow> 'a oneshot_mt" where
  "set_reason e er = (case mt_container er of
     Some _ \<Rightarrow> er
   | None \<Rightarrow> er\<lparr>mt_container := Some e, mt_notifications := mt_notifications er + 1\<rparr>)"

lemma set_reason_simps [simp]:
  "mt_container (set_reason e er) = first_reason e (mt_container er)"
  "mt_senders (set_reason e er) = mt_senders er"
  "mt_receivers (set_reason e er) = mt_receivers er"
  by (simp_all add: set_reason_def first_reason_def split: option.splits)

lemma first_reason_simps [simp]:
  "first_reason e (Some r) = Some r" "first_reason e None = Some e"
  by (simp_all add: first_reason_def)

lemma set_reason_same [simp]: "mt_container er = Some r \<Longrightarrow> set_reason e er = er"
  by (simp add: set_reason_def)

lemma reason_fut_set: "reason_fut_ok er f \<Longrightarrow> reason_fut_ok (set_reason e er) f"
  by (auto simp: reason_fut_ok_def set_reason_def split: mt_future.splits option.splits)

lemma reason_poll:
  assumes "reason_fut_ok er f" and "wakes_all ready" and "mt_senders er \<noteq> 0"
  shows "mt_container er = Some e \<Longrightarrow> mt_recv_poll ready f er = Inr (Ready (Some e), MtFinished)"
    and "mt_container er = None \<Longrightarrow> \<exists>f'. mt_recv_poll ready f er = Inr (Pending, f') \<and> reason_fut_ok er f'"
  using assms
  by (auto simp: mt_recv_poll_def reason_fut_ok_def wakes_all_def mt_recv_turn_def mt_try_recv_def mt_receiver_is_closed_def
      split: mt_future.splits option.splits)

lemma mt_send_reason:
  assumes "mt_receivers er \<noteq> 0"
  shows "mt_send e er = (case mt_container er of Some r \<Rightarrow> (Inl (OneshotFull r), er) | None \<Rightarrow> (Inr (), set_reason e er))"
  using assms by (simp add: mt_send_def mt_sender_is_closed_def get_or_init_def set_reason_def split: option.splits)

lemma mt_try_recv_reason:
  "mt_senders er \<noteq> 0 \<Longrightarrow> mt_try_recv er = (case mt_container er of Some r \<Rightarrow> Inr r | None \<Rightarrow> Inl RecvEmpty)"
  by (simp add: mt_try_recv_def mt_receiver_is_closed_def split: option.splits)

subsection \<open>The contract of the queue and of the weighted channel over it\<close>

definition weighted_mt_ok :: "('q \<Rightarrow> ('a \<times> nat) list) \<Rightarrow> 'q weighted_mt \<Rightarrow> bool" where
  "weighted_mt_ok queue sh \<longleftrightarrow>
     wq_occupation sh = sum_list (map snd (queue (wq_queue sh))) \<and> wq_occupation sh \<le> usize_max \<and>
     (wq_occupation sh \<le> wq_bound sh \<or> size (nonzero (map snd (queue (wq_queue sh)))) \<le> 1)"

locale mpsc_queue = weighted_queue queue ops
  for queue :: "'q \<Rightarrow> ('a \<times> nat) list" and ops :: "('a, 'q) queue_ops" +
  fixes valid :: "'q \<Rightarrow> bool" and senders :: "'q \<Rightarrow> nat"
  assumes recv_empty_error: "valid q \<Longrightarrow> \<not> qo_is_closed ops q \<Longrightarrow> queue q = [] \<Longrightarrow>
      fst (qo_try_recv ops q) = Inl (if senders q = 0 then RecvClosed else RecvEmpty)"
    and send_keeps: "valid q \<Longrightarrow> valid (snd (qo_send ops x q)) \<and> senders (snd (qo_send ops x q)) = senders q"
    and recv_keeps: "valid q \<Longrightarrow> valid (snd (qo_try_recv ops q)) \<and> senders (snd (qo_try_recv ops q)) = senders q"
    and drop_sender_keeps: "valid q \<Longrightarrow> 0 < senders q \<Longrightarrow>
      valid (qo_drop_sender ops q) \<and> senders (qo_drop_sender ops q) = senders q - 1 \<and>
      queue (qo_drop_sender ops q) = queue q \<and> qo_is_closed ops (qo_drop_sender ops q) = qo_is_closed ops q"
    and drop_receiver_keeps: "valid q \<Longrightarrow> \<not> qo_is_closed ops q \<Longrightarrow>
      valid (qo_drop_receiver ops q) \<and> senders (qo_drop_receiver ops q) = senders q"
begin

lemma reserve_ok:
  assumes ok: "weighted_mt_ok queue sh" and v: "valid (wq_queue sh)" and c: "\<not> qo_is_closed ops (wq_queue sh)"
    and cap: "has_capacity (wq_occupation sh) w (wq_bound sh)" and w: "w \<le> usize_max"
  shows "\<exists>q. weighted_mt_reserve ops x w sh = (Inr (), sh\<lparr>wq_occupation := wq_occupation sh + w, wq_queue := q\<rparr>) \<and>
     weighted_mt_ok queue (sh\<lparr>wq_occupation := wq_occupation sh + w, wq_queue := q\<rparr>) \<and> valid q \<and>
     senders q = senders (wq_queue sh) \<and> \<not> qo_is_closed ops q \<and> queue q = queue (wq_queue sh) @ [(x, w)]"
proof -
  obtain u q where q: "qo_send ops (x, w) (wq_queue sh) = (Inr u, q)" "queue q = queue (wq_queue sh) @ [(x, w)]"
    "\<not> qo_is_closed ops q" using send_open [OF c, of "(x, w)"] by blast
  have s: "valid q \<and> senders q = senders (wq_queue sh)" using send_keeps [OF v, of "(x, w)"] q(1) by simp
  have f: "wq_occupation sh + w \<le> usize_max \<and> (wq_occupation sh = 0 \<or> wq_occupation sh + w \<le> wq_bound sh)"
    using has_capacity_fits [OF cap w] .
  have z: "nonzero (map snd (queue (wq_queue sh))) = {#}" if "wq_occupation sh = 0"
    using that ok by (auto simp: weighted_mt_ok_def nonzero_def split: if_splits)
  have "size (nonzero [w]) \<le> 1" by (simp add: nonzero_def)
  with ok f z q(2) have "weighted_mt_ok queue (sh\<lparr>wq_occupation := wq_occupation sh + w, wq_queue := q\<rparr>)"
    by (auto simp: weighted_mt_ok_def)
  with q s show ?thesis by (intro exI [of _ q]) (simp add: weighted_mt_reserve_def)
qed

lemma taken_ok:
  assumes "weighted_mt_ok queue sh" and "queue (wq_queue sh) = (x, w) # ps" and "queue q = ps"
  shows "\<exists>n. weighted_mt_taken w (sh\<lparr>wq_queue := q\<rparr>) =
      Inr (sh\<lparr>wq_queue := q, wq_occupation := sum_list (map snd ps), wq_notifications := n\<rparr>) \<and>
    weighted_mt_ok queue (sh\<lparr>wq_queue := q, wq_occupation := sum_list (map snd ps), wq_notifications := n\<rparr>) \<and>
    wq_notifications sh \<le> n \<and> (w \<noteq> 0 \<longrightarrow> wq_notifications sh < n)"
proof -
  have f: "nonzero (map snd (queue (wq_queue sh))) = nonzero [w] + nonzero (map snd ps)"
    using nonzero_Cons [of w "map snd ps"] assms(2) by simp
  have occ: "wq_occupation sh = w + sum_list (map snd ps)" using assms(1,2) by (simp add: weighted_mt_ok_def)
  have small: "wq_occupation sh \<le> wq_bound sh \<or> size (nonzero [w]) + size (nonzero (map snd ps)) \<le> 1"
    using assms(1) by (auto simp: weighted_mt_ok_def f)
  have cap: "has_capacity (sum_list (map snd ps)) w (wq_bound sh)" if "w \<noteq> 0"
  proof (cases "wq_occupation sh \<le> wq_bound sh")
    case True
    then show ?thesis using occ assms(1) by (intro has_capacity_total) (simp_all add: weighted_mt_ok_def)
  next
    case False
    with small that have "sum_mset (nonzero (map snd ps)) = 0" by (simp add: nonzero_single)
    then show ?thesis by (simp add: has_capacity_def)
  qed
  define n where "n = (if has_capacity (sum_list (map snd ps)) w (wq_bound sh) then wq_notifications sh + 1 else wq_notifications sh)"
  let ?sh = "sh\<lparr>wq_queue := q, wq_occupation := sum_list (map snd ps), wq_notifications := n\<rparr>"
  have "weighted_mt_taken w (sh\<lparr>wq_queue := q\<rparr>) = Inr ?sh"
    using occ by (simp add: weighted_mt_taken_def usize_sub_def notify_all_mt_def n_def)
  moreover have "weighted_mt_ok queue ?sh" using occ small assms(1,3) by (auto simp: weighted_mt_ok_def)
  ultimately show ?thesis using cap by (intro exI [of _ n]) (auto simp: n_def)
qed

lemma try_recv_ok:
  assumes ok: "weighted_mt_ok queue sh" and v: "valid (wq_queue sh)" and c: "\<not> qo_is_closed ops (wq_queue sh)"
  shows "\<exists>r q n. weighted_mt_try_recv ops sh =
      Inr (r, sh\<lparr>wq_queue := q, wq_occupation := sum_list (map snd (queue q)), wq_notifications := n\<rparr>) \<and>
    weighted_mt_ok queue (sh\<lparr>wq_queue := q, wq_occupation := sum_list (map snd (queue q)), wq_notifications := n\<rparr>) \<and>
    valid q \<and> senders q = senders (wq_queue sh) \<and> \<not> qo_is_closed ops q \<and>
    wq_notifications sh \<le> n \<and> (sum_list (map snd (queue q)) < wq_occupation sh \<longrightarrow> wq_notifications sh < n) \<and>
    sum_list (map snd (queue q)) \<le> wq_occupation sh \<and>
    (case queue (wq_queue sh) of
       [] \<Rightarrow> r = Inl (if senders q = 0 then RecvClosed else RecvEmpty) \<and> queue q = []
     | (x, w) # ps \<Rightarrow> r = Inr x \<and> queue q = ps)"
proof (cases "queue (wq_queue sh)")
  case Nil
  obtain e q where q: "qo_try_recv ops (wq_queue sh) = (Inl e, q)" "queue q = []" "qo_is_closed ops q = qo_is_closed ops (wq_queue sh)"
    using recv_empty [OF Nil] by blast
  have "valid q \<and> senders q = senders (wq_queue sh)" using recv_keeps [OF v] q(1) by simp
  moreover have "e = (if senders q = 0 then RecvClosed else RecvEmpty)"
    using recv_empty_error [OF v c Nil] q(1) calculation by simp
  moreover have "wq_occupation sh = 0" using ok Nil by (simp add: weighted_mt_ok_def)
  ultimately show ?thesis using ok q c Nil
    by (intro exI [of _ "Inl e"] exI [of _ q] exI [of _ "wq_notifications sh"])
      (simp add: weighted_mt_try_recv_def weighted_mt_ok_def)
next
  case (Cons p ps)
  obtain x w where p: "p = (x, w)" by (cases p)
  with Cons have qs: "queue (wq_queue sh) = (x, w) # ps" by simp
  obtain q where q: "qo_try_recv ops (wq_queue sh) = (Inr (x, w), q)" "queue q = ps" "qo_is_closed ops q = qo_is_closed ops (wq_queue sh)"
    using recv_some [OF qs] by blast
  have s: "valid q \<and> senders q = senders (wq_queue sh)" using recv_keeps [OF v] q(1) by simp
  have o: "wq_occupation sh = w + sum_list (map snd ps)" using ok qs by (simp add: weighted_mt_ok_def)
  from taken_ok [OF ok qs q(2)] obtain n where
    "weighted_mt_taken w (sh\<lparr>wq_queue := q\<rparr>) = Inr (sh\<lparr>wq_queue := q, wq_occupation := sum_list (map snd ps), wq_notifications := n\<rparr>)"
    "weighted_mt_ok queue (sh\<lparr>wq_queue := q, wq_occupation := sum_list (map snd ps), wq_notifications := n\<rparr>)"
    "wq_notifications sh \<le> n" "w \<noteq> 0 \<longrightarrow> wq_notifications sh < n" by blast
  with q s c o qs show ?thesis
    by (intro exI [of _ "Inr x"] exI [of _ q] exI [of _ n]) (auto simp: weighted_mt_try_recv_def)
qed

end

definition unbounded_senders :: "'a unbounded \<Rightarrow> nat" where
  "unbounded_senders sh = ub_rc sh - (if ub_receiver_exists sh then 1 else 0)"

definition unbounded_valid :: "'a unbounded \<Rightarrow> bool" where
  "unbounded_valid sh \<longleftrightarrow> (ub_receiver_exists sh \<longrightarrow> 1 \<le> ub_rc sh)"

lemmas unbounded_mpsc_defs = unbounded_ops_def unbounded_senders_def unbounded_valid_def unbounded_defs

interpretation unbounded_mpsc: mpsc_queue ub_deque unbounded_ops unbounded_valid unbounded_senders
  by unfold_locales (auto simp: unbounded_mpsc_defs Let_def split: option.splits list.splits)

end
