(* ===== verification/Stream_Channel.thy ===== *)
theory Stream_Channel
  imports Sync_Poll Stream_Types
begin

section \<open>The channel of a stream direction\<close>

text \<open>
  Model of \<open>src/aquic-core/src/sync/stream.rs\<close> for the default feature \<open>async-send\<close>: items go through a
  weighted channel, the reason why the direction was closed through a oneshot channel whose two
  handles both halves share, priorities through a watch channel. \<open>ops\<close> is the queue below the
  weighted channel (crate \<open>crossfire\<close>), \<open>ready\<close> the behaviour of \<open>event_listener\<close>, \<open>estimate\<close> the
  \<open>Estimate\<close> of the application's items. The generic parameter is left out of the type names that
  \<open>type_name\<close> puts into messages.

  \<open>stream_step\<close> is the use of the channel by its two owners, one poll or one call at a time; a future
  borrows its half, so a half has at most one. \<open>spec_step\<close> is what the documentation of the two
  halves promises, on a list of items and a reason. The theorem \<open>stream_channel_refines\<close> shows that
  the code does exactly that, under the discipline \<open>spec_allowed\<close>, and the theorems after it show
  what happens without it.
\<close>

subsection \<open>Data\<close>

type_synonym ('c, 'd, 'e) reason = "('c, 'd, 'e) stream_error"

record ('c, 'd, 'e, 'q) stream_chan =
  sc_items :: "'q weighted_mt"
  sc_error :: "('c, 'd, 'e) reason oneshot_mt"
  sc_priority :: "priority watch_mt"
  sc_seen :: nat
  sc_establish :: "unit oneshot_mt"
  sc_shutdown_warn :: "nat oneshot_mt"

definition stream_channel :: "'q \<Rightarrow> nat \<Rightarrow> unit oneshot_mt \<Rightarrow> nat oneshot_mt \<Rightarrow> ('c, 'd, 'e, 'q) stream_chan" where
  "stream_channel q bound conn_establish conn_shutdown_warn =
     \<lparr>sc_items = weighted_mt_channel q bound, sc_error = mt_channel, sc_priority = watch_mt_channel,
      sc_seen = initial_receiver_version, sc_establish = conn_establish, sc_shutdown_warn = conn_shutdown_warn\<rparr>"

subsection \<open>Messages\<close>

definition sender_err_rx_fallback :: "('c, 'd, 'e) reason" where
  "sender_err_rx_fallback = HangUp ''Sender.error_receiver is unavailable''"

definition receiver_err_rx_fallback :: "('c, 'd, 'e) reason" where
  "receiver_err_rx_fallback = HangUp ''Receiver.error_receiver is unavailable''"

definition item_rx_fallback :: "('c, 'd, 'e) reason" where
  "item_rx_fallback = HangUp ''Receiver.item_receiver is unavailable''"

definition item_tx_unavailable :: "('c, 'd, 'e) reason" where
  "item_tx_unavailable = HangUp ''Sender.item_sender is unavailable''"

subsection \<open>\<open>Sender\<close>\<close>

definition sender_close ::
  "('c, 'd, 'e) reason \<Rightarrow> ('c, 'd, 'e, 'q) stream_chan \<Rightarrow> ('c, 'd, 'e) reason \<times> ('c, 'd, 'e, 'q) stream_chan" where
  "sender_close err sh = (case mt_send err (sc_error sh) of
     (Inr _, o1) \<Rightarrow> (err, sh\<lparr>sc_error := o1\<rparr>)
   | (Inl OneshotClosed, o1) \<Rightarrow> (sender_err_rx_fallback, sh\<lparr>sc_error := o1\<rparr>)
   | (Inl (OneshotFull actual), o1) \<Rightarrow> (actual, sh\<lparr>sc_error := o1\<rparr>))"

record 'i send_item_future =
  sf_item :: "'i payload"
  sf_error :: mt_future
  sf_send :: mt_future

definition send_item :: "'i payload \<Rightarrow> 'i send_item_future" where
  "send_item item = \<lparr>sf_item = item, sf_error = MtStart, sf_send = MtStart\<rparr>"

definition after_send ::
  "'i payload \<Rightarrow> ('i payload send_error + unit) \<Rightarrow> ('c, 'd, 'e, 'q) stream_chan \<Rightarrow>
   (('c, 'd, 'e) reason + unit) \<times> ('c, 'd, 'e, 'q) stream_chan" where
  "after_send item result sh = (case result of
     Inl _ \<Rightarrow> (let (err, sh1) = sender_close item_tx_unavailable sh in (Inl err, sh1))
   | Inr _ \<Rightarrow>
       if is_fin item then
         (case sender_close Finish sh of
            (Finish, sh1) \<Rightarrow> (Inr (), sh1)
          | (err, sh1) \<Rightarrow> (Inl err, sh1))
       else (Inr (), sh))"

definition send_item_poll ::
  "('i payload, 'q) queue_ops \<Rightarrow> (nat \<Rightarrow> nat \<Rightarrow> bool) \<Rightarrow> ('i \<Rightarrow> nat) \<Rightarrow> 'i send_item_future \<Rightarrow> ('c, 'd, 'e, 'q) stream_chan \<Rightarrow>
   panic + ((('c, 'd, 'e) reason + unit) poll \<times> 'i send_item_future \<times> ('c, 'd, 'e, 'q) stream_chan)" where
  "send_item_poll ops ready estimate f sh =
     and_then (mt_recv_poll ready (sf_error f) (sc_error sh)) (\<lambda>(r, ef).
       case r of
         Ready err \<Rightarrow>
           let (err1, sh1) = sender_close (case err of Some e \<Rightarrow> e | None \<Rightarrow> sender_err_rx_fallback) sh
           in Inr (Ready (Inl err1), f\<lparr>sf_error := ef\<rparr>, sh1)
       | Pending \<Rightarrow>
           and_then (weighted_mt_send_poll ops ready (sf_send f) (sf_item f) (payload_estimate estimate (sf_item f)) (sc_items sh))
             (\<lambda>(r, wf, items).
               let f1 = f\<lparr>sf_error := ef, sf_send := wf\<rparr>; sh1 = sh\<lparr>sc_items := items\<rparr> in
               case r of
                 Pending \<Rightarrow> Inr (Pending, f1, sh1)
               | Ready result \<Rightarrow> let (res, sh2) = after_send (sf_item f) result sh1 in Inr (Ready res, f1, sh2)))"

definition sender_send :: "'i \<Rightarrow> 'i send_item_future" where
  "sender_send value = send_item (Item value)"

definition sender_send_final :: "'i \<Rightarrow> 'i send_item_future" where
  "sender_send_final value = send_item (Last value)"

definition sender_finish :: "'i send_item_future" where
  "sender_finish = send_item Done"

definition sender_terminate :: "'c \<Rightarrow> ('c, 'd, 'e, 'q) stream_chan \<Rightarrow> ('c, 'd, 'e, 'q) stream_chan" where
  "sender_terminate err sh = snd (sender_close (Reset err) sh)"

definition sender_terminate_due_decoder :: "'d \<Rightarrow> ('c, 'd, 'e, 'q) stream_chan \<Rightarrow> ('c, 'd, 'e, 'q) stream_chan" where
  "sender_terminate_due_decoder err sh = snd (sender_close (DecoderError err) sh)"

definition sender_terminate_due_connection :: "('c, 'd, 'e, 'q) stream_chan \<Rightarrow> ('c, 'd, 'e, 'q) stream_chan" where
  "sender_terminate_due_connection sh = snd (sender_close ConnectionError sh)"

definition sender_hangup :: "string \<Rightarrow> ('c, 'd, 'e, 'q) stream_chan \<Rightarrow> ('c, 'd, 'e, 'q) stream_chan" where
  "sender_hangup message sh = snd (sender_close (HangUp message) sh)"

definition sender_error :: "('c, 'd, 'e, 'q) stream_chan \<Rightarrow> ('c, 'd, 'e) reason option" where
  "sender_error sh = (case mt_try_recv (sc_error sh) of
     Inr err \<Rightarrow> Some err
   | Inl RecvClosed \<Rightarrow> Some sender_err_rx_fallback
   | Inl RecvEmpty \<Rightarrow> None)"

definition set_priority :: "priority \<Rightarrow> ('c, 'd, 'e, 'q) stream_chan \<Rightarrow> panic + ('c, 'd, 'e, 'q) stream_chan" where
  "set_priority p sh = and_then (watch_mt_send p (sc_priority sh)) (\<lambda>(_, w). Inr (sh\<lparr>sc_priority := w\<rparr>))"

definition sender_drop_reason :: "bool \<Rightarrow> ('c, 'd, 'e) reason" where
  "sender_drop_reason panicking = HangUp
     (if panicking then ''Sender is dropped due to panic'' else ''Sender is dropped without manual termination'')"

definition sender_drop ::
  "('i payload, 'q) queue_ops \<Rightarrow> bool \<Rightarrow> ('c, 'd, 'e, 'q) stream_chan \<Rightarrow> ('c, 'd, 'e, 'q) stream_chan" where
  "sender_drop ops panicking sh =
     (let sh1 = snd (sender_close (sender_drop_reason panicking) sh)
      in sh1\<lparr>sc_items := weighted_mt_drop_sender ops (sc_items sh1)\<rparr>)"

subsection \<open>\<open>Receiver\<close>\<close>

definition receiver_close ::
  "('c, 'd, 'e) reason \<Rightarrow> ('c, 'd, 'e, 'q) stream_chan \<Rightarrow> ('c, 'd, 'e) reason \<times> ('c, 'd, 'e, 'q) stream_chan" where
  "receiver_close err sh = (case mt_send err (sc_error sh) of
     (Inr _, o1) \<Rightarrow> (err, sh\<lparr>sc_error := o1\<rparr>)
   | (Inl OneshotClosed, o1) \<Rightarrow> (receiver_err_rx_fallback, sh\<lparr>sc_error := o1\<rparr>)
   | (Inl (OneshotFull actual), o1) \<Rightarrow> (actual, sh\<lparr>sc_error := o1\<rparr>))"

definition received ::
  "'i payload \<Rightarrow> ('c, 'd, 'e, 'q) stream_chan \<Rightarrow> (('c, 'd, 'e) reason + 'i payload) \<times> ('c, 'd, 'e, 'q) stream_chan" where
  "received item sh =
     (if is_fin item then
        (case receiver_close Finish sh of
           (Finish, sh1) \<Rightarrow> (Inr item, sh1)
         | (err, sh1) \<Rightarrow> (Inl err, sh1))
      else (Inr item, sh))"

definition ignore_finish :: "('c, 'd, 'e) reason option poll \<Rightarrow> ('c, 'd, 'e) reason option poll" where
  "ignore_finish r = (case r of Ready (Some Finish) \<Rightarrow> Pending | other \<Rightarrow> other)"

definition receiver_recv_poll ::
  "('i payload, 'q) queue_ops \<Rightarrow> (nat \<Rightarrow> nat \<Rightarrow> bool) \<Rightarrow> mt_future \<Rightarrow> ('c, 'd, 'e, 'q) stream_chan \<Rightarrow>
   panic + ((('c, 'd, 'e) reason + 'i payload) poll \<times> mt_future \<times> ('c, 'd, 'e, 'q) stream_chan)" where
  "receiver_recv_poll ops ready recv_error_fut sh =
     and_then (mt_recv_poll ready recv_error_fut (sc_error sh)) (\<lambda>(r, ef).
       case ignore_finish r of
         Ready err \<Rightarrow>
           let (err1, sh1) = receiver_close (case err of Some e \<Rightarrow> e | None \<Rightarrow> receiver_err_rx_fallback) sh
           in Inr (Ready (Inl err1), ef, sh1)
       | Pending \<Rightarrow>
           and_then (weighted_mt_recv_poll ops (sc_items sh)) (\<lambda>(r, items).
             let sh1 = sh\<lparr>sc_items := items\<rparr> in
             case r of
               Pending \<Rightarrow> Inr (Pending, ef, sh1)
             | Ready (Some item) \<Rightarrow> let (res, sh2) = received item sh1 in Inr (Ready res, ef, sh2)
             | Ready None \<Rightarrow> let (err, sh2) = receiver_close item_rx_fallback sh1 in Inr (Ready (Inl err), ef, sh2)))"

definition receiver_try_recv ::
  "('i payload, 'q) queue_ops \<Rightarrow> ('c, 'd, 'e, 'q) stream_chan \<Rightarrow>
   panic + ((('c, 'd, 'e) reason + 'i payload option) \<times> ('c, 'd, 'e, 'q) stream_chan)" where
  "receiver_try_recv ops sh = (case mt_try_recv (sc_error sh) of
     Inr e \<Rightarrow> let (err, sh1) = receiver_close e sh in Inr (Inl err, sh1)
   | Inl RecvClosed \<Rightarrow> let (err, sh1) = receiver_close receiver_err_rx_fallback sh in Inr (Inl err, sh1)
   | Inl RecvEmpty \<Rightarrow>
       and_then (weighted_mt_try_recv ops (sc_items sh)) (\<lambda>(r, items).
         let sh1 = sh\<lparr>sc_items := items\<rparr> in Inr
         (case r of
            Inr item \<Rightarrow> (case received item sh1 of (Inr it, sh2) \<Rightarrow> (Inr (Some it), sh2) | (Inl err, sh2) \<Rightarrow> (Inl err, sh2))
          | Inl RecvEmpty \<Rightarrow> (Inr None, sh1)
          | Inl RecvClosed \<Rightarrow> let (err, sh2) = receiver_close item_rx_fallback sh1 in (Inl err, sh2))))"

definition receiver_terminate :: "'c \<Rightarrow> ('c, 'd, 'e, 'q) stream_chan \<Rightarrow> ('c, 'd, 'e, 'q) stream_chan" where
  "receiver_terminate err sh = snd (receiver_close (Stop err) sh)"

definition receiver_terminate_due_encoder :: "'e \<Rightarrow> ('c, 'd, 'e, 'q) stream_chan \<Rightarrow> ('c, 'd, 'e, 'q) stream_chan" where
  "receiver_terminate_due_encoder err sh = snd (receiver_close (EncoderError err) sh)"

definition receiver_terminate_due_connection :: "('c, 'd, 'e, 'q) stream_chan \<Rightarrow> ('c, 'd, 'e, 'q) stream_chan" where
  "receiver_terminate_due_connection sh = snd (receiver_close ConnectionError sh)"

definition receiver_hangup :: "string \<Rightarrow> ('c, 'd, 'e, 'q) stream_chan \<Rightarrow> ('c, 'd, 'e, 'q) stream_chan" where
  "receiver_hangup message sh = snd (receiver_close (HangUp message) sh)"

definition is_conn_established :: "('c, 'd, 'e, 'q) stream_chan \<Rightarrow> bool" where
  "is_conn_established sh = (case mt_try_recv (sc_establish sh) of Inr _ \<Rightarrow> True | Inl _ \<Rightarrow> False)"

definition receiver_error :: "('c, 'd, 'e, 'q) stream_chan \<Rightarrow> ('c, 'd, 'e) reason option" where
  "receiver_error sh = (case mt_try_recv (sc_error sh) of
     Inr err \<Rightarrow> Some err
   | Inl RecvClosed \<Rightarrow> Some receiver_err_rx_fallback
   | Inl RecvEmpty \<Rightarrow> None)"

definition priority_once :: "('c, 'd, 'e, 'q) stream_chan \<Rightarrow> priority option \<times> ('c, 'd, 'e, 'q) stream_chan" where
  "priority_once sh = (let (r, seen) = watch_mt_try_recv (sc_seen sh) (sc_priority sh)
     in (case r of Inr p \<Rightarrow> Some p | Inl _ \<Rightarrow> None, sh\<lparr>sc_seen := seen\<rparr>))"

definition receiver_drop_reason :: "bool \<Rightarrow> ('c, 'd, 'e) reason" where
  "receiver_drop_reason panicking = HangUp
     (if panicking then ''Receiver is dropped due to panic'' else ''Receiver is dropped without manual termination'')"

definition receiver_drop ::
  "('i payload, 'q) queue_ops \<Rightarrow> bool \<Rightarrow> ('c, 'd, 'e, 'q) stream_chan \<Rightarrow> ('c, 'd, 'e, 'q) stream_chan" where
  "receiver_drop ops panicking sh =
     (let sh1 = snd (receiver_close (receiver_drop_reason panicking) sh)
      in sh1\<lparr>sc_items := weighted_mt_drop_receiver ops (sc_items sh1)\<rparr>)"

subsection \<open>The channel in use\<close>

definition bytes_estimate :: "byte list \<Rightarrow> nat" where
  "bytes_estimate bs = length bs"

datatype ('i, 'c, 'd, 'e) stream_use =
    UseSend "'i payload" | UseSendPoll | UseSendCancel | UseSenderEnd "('c, 'd, 'e) stream_error" | UseSenderError
  | UseSenderDrop bool
  | UseRecv | UseRecvPoll | UseRecvCancel | UseTryRecv | UseReceiverEnd "('c, 'd, 'e) stream_error" | UseReceiverError
  | UseReceiverDrop bool

datatype ('i, 'c, 'd, 'e) use_result =
    ResNone
  | ResSend "(('c, 'd, 'e) stream_error + unit) poll"
  | ResRecv "(('c, 'd, 'e) stream_error + 'i payload) poll"
  | ResTry "('c, 'd, 'e) stream_error + 'i payload option"
  | ResError "('c, 'd, 'e) stream_error option"

record ('i, 'c, 'd, 'e, 'q) stream_sys =
  ss_chan :: "('c, 'd, 'e, 'q) stream_chan"
  ss_sending :: "'i send_item_future option"
  ss_receiving :: "mt_future option"
  ss_sender :: bool
  ss_receiver :: bool

definition sender_end :: "('c, 'd, 'e) reason \<Rightarrow> ('c, 'd, 'e, 'q) stream_chan \<Rightarrow> ('c, 'd, 'e, 'q) stream_chan" where
  "sender_end e sh = (case e of
     Reset c \<Rightarrow> sender_terminate c sh
   | DecoderError d \<Rightarrow> sender_terminate_due_decoder d sh
   | ConnectionError \<Rightarrow> sender_terminate_due_connection sh
   | HangUp m \<Rightarrow> sender_hangup m sh
   | _ \<Rightarrow> sh)"

definition receiver_end :: "('c, 'd, 'e) reason \<Rightarrow> ('c, 'd, 'e, 'q) stream_chan \<Rightarrow> ('c, 'd, 'e, 'q) stream_chan" where
  "receiver_end e sh = (case e of
     Stop c \<Rightarrow> receiver_terminate c sh
   | EncoderError x \<Rightarrow> receiver_terminate_due_encoder x sh
   | ConnectionError \<Rightarrow> receiver_terminate_due_connection sh
   | HangUp m \<Rightarrow> receiver_hangup m sh
   | _ \<Rightarrow> sh)"

definition sender_idle :: "('i, 'c, 'd, 'e, 'q) stream_sys \<Rightarrow> bool" where
  "sender_idle s \<longleftrightarrow> ss_sender s \<and> ss_sending s = None"

definition receiver_idle :: "('i, 'c, 'd, 'e, 'q) stream_sys \<Rightarrow> bool" where
  "receiver_idle s \<longleftrightarrow> ss_receiver s \<and> ss_receiving s = None"

definition stream_step ::
  "('i payload, 'q) queue_ops \<Rightarrow> (nat \<Rightarrow> nat \<Rightarrow> bool) \<Rightarrow> ('i \<Rightarrow> nat) \<Rightarrow> ('i, 'c, 'd, 'e) stream_use \<Rightarrow>
   ('i, 'c, 'd, 'e, 'q) stream_sys \<Rightarrow> panic + (('i, 'c, 'd, 'e) use_result \<times> ('i, 'c, 'd, 'e, 'q) stream_sys)" where
  "stream_step ops ready estimate u s = (case u of
     UseSend p \<Rightarrow> Inr (ResNone, if sender_idle s then s\<lparr>ss_sending := Some (send_item p)\<rparr> else s)
   | UseSendPoll \<Rightarrow>
       (case ss_sending s of
          None \<Rightarrow> Inr (ResNone, s)
        | Some f \<Rightarrow> and_then (send_item_poll ops ready estimate f (ss_chan s)) (\<lambda>(r, f1, sh).
            Inr (ResSend r, s\<lparr>ss_chan := sh, ss_sending := (case r of Pending \<Rightarrow> Some f1 | Ready _ \<Rightarrow> None)\<rparr>)))
   | UseSendCancel \<Rightarrow> Inr (ResNone, s\<lparr>ss_sending := None\<rparr>)
   | UseSenderEnd e \<Rightarrow> Inr (ResNone, if sender_idle s then s\<lparr>ss_chan := sender_end e (ss_chan s)\<rparr> else s)
   | UseSenderError \<Rightarrow> Inr (if sender_idle s then ResError (sender_error (ss_chan s)) else ResNone, s)
   | UseSenderDrop p \<Rightarrow> Inr (ResNone,
       if sender_idle s then s\<lparr>ss_chan := sender_drop ops p (ss_chan s), ss_sender := False\<rparr> else s)
   | UseRecv \<Rightarrow> Inr (ResNone, if receiver_idle s then s\<lparr>ss_receiving := Some MtStart\<rparr> else s)
   | UseRecvPoll \<Rightarrow>
       (case ss_receiving s of
          None \<Rightarrow> Inr (ResNone, s)
        | Some f \<Rightarrow> and_then (receiver_recv_poll ops ready f (ss_chan s)) (\<lambda>(r, f1, sh).
            Inr (ResRecv r, s\<lparr>ss_chan := sh, ss_receiving := (case r of Pending \<Rightarrow> Some f1 | Ready _ \<Rightarrow> None)\<rparr>)))
   | UseRecvCancel \<Rightarrow> Inr (ResNone, s\<lparr>ss_receiving := None\<rparr>)
   | UseTryRecv \<Rightarrow>
       if receiver_idle s
       then and_then (receiver_try_recv ops (ss_chan s)) (\<lambda>(r, sh). Inr (ResTry r, s\<lparr>ss_chan := sh\<rparr>))
       else Inr (ResNone, s)
   | UseReceiverEnd e \<Rightarrow> Inr (ResNone, if receiver_idle s then s\<lparr>ss_chan := receiver_end e (ss_chan s)\<rparr> else s)
   | UseReceiverError \<Rightarrow> Inr (if receiver_idle s then ResError (receiver_error (ss_chan s)) else ResNone, s)
   | UseReceiverDrop p \<Rightarrow> Inr (ResNone,
       if receiver_idle s then s\<lparr>ss_chan := receiver_drop ops p (ss_chan s), ss_receiver := False\<rparr> else s))"

fun stream_run ::
  "('i payload, 'q) queue_ops \<Rightarrow> (nat \<Rightarrow> nat \<Rightarrow> bool) \<Rightarrow> ('i \<Rightarrow> nat) \<Rightarrow> ('i, 'c, 'd, 'e) stream_use list \<Rightarrow>
   ('i, 'c, 'd, 'e, 'q) stream_sys \<Rightarrow> panic + (('i, 'c, 'd, 'e) use_result list \<times> ('i, 'c, 'd, 'e, 'q) stream_sys)" where
  "stream_run ops ready estimate [] s = Inr ([], s)"
| "stream_run ops ready estimate (u # us) s = and_then (stream_step ops ready estimate u s) (\<lambda>(r, s1).
     and_then (stream_run ops ready estimate us s1) (\<lambda>(rs, s2). Inr (r # rs, s2)))"

definition stream_open :: "'q \<Rightarrow> nat \<Rightarrow> unit oneshot_mt \<Rightarrow> nat oneshot_mt \<Rightarrow> ('i, 'c, 'd, 'e, 'q) stream_sys" where
  "stream_open q bound conn_establish conn_shutdown_warn =
     \<lparr>ss_chan = stream_channel q bound conn_establish conn_shutdown_warn, ss_sending = None, ss_receiving = None,
      ss_sender = True, ss_receiver = True\<rparr>"

subsection \<open>The documented behaviour\<close>

record ('i, 'c, 'd, 'e) stream_spec =
  sp_items :: "('i payload \<times> nat) list"
  sp_bound :: nat
  sp_reason :: "('c, 'd, 'e) stream_error option"
  sp_sending :: "'i payload option"
  sp_receiving :: bool
  sp_sender :: bool
  sp_receiver :: bool

definition spec_open :: "nat \<Rightarrow> ('i, 'c, 'd, 'e) stream_spec" where
  "spec_open bound = \<lparr>sp_items = [], sp_bound = max bound 1, sp_reason = None, sp_sending = None, sp_receiving = False,
     sp_sender = True, sp_receiver = True\<rparr>"

definition spec_close :: "('c, 'd, 'e) reason \<Rightarrow> ('i, 'c, 'd, 'e) stream_spec \<Rightarrow> ('i, 'c, 'd, 'e) stream_spec" where
  "spec_close e a = a\<lparr>sp_reason := first_reason e (sp_reason a)\<rparr>"

definition finish_if :: "'i payload \<Rightarrow> ('i, 'c, 'd, 'e) stream_spec \<Rightarrow> ('i, 'c, 'd, 'e) stream_spec" where
  "finish_if p a = (if is_fin p then spec_close Finish a else a)"

definition spec_send ::
  "('i \<Rightarrow> nat) \<Rightarrow> 'i payload \<Rightarrow> ('i, 'c, 'd, 'e) stream_spec \<Rightarrow> (('c, 'd, 'e) reason + unit) poll \<times> ('i, 'c, 'd, 'e) stream_spec" where
  "spec_send estimate p a = (case sp_reason a of
     Some e \<Rightarrow> (Ready (Inl e), a)
   | None \<Rightarrow>
       if has_capacity (sum_list (map snd (sp_items a))) (payload_estimate estimate p) (sp_bound a)
       then (Ready (Inr ()), finish_if p (a\<lparr>sp_items := sp_items a @ [(p, payload_estimate estimate p)]\<rparr>))
       else (Pending, a))"

definition spec_recv ::
  "('i, 'c, 'd, 'e) stream_spec \<Rightarrow> (('c, 'd, 'e) reason + 'i payload) poll \<times> ('i, 'c, 'd, 'e) stream_spec" where
  "spec_recv a =
     (if sp_reason a \<noteq> None \<and> sp_reason a \<noteq> Some Finish then (Ready (Inl (the (sp_reason a))), a)
      else case sp_items a of
             (p, w) # ps \<Rightarrow> (Ready (Inr p), finish_if p (a\<lparr>sp_items := ps\<rparr>))
           | [] \<Rightarrow> (case sp_reason a of Some e \<Rightarrow> (Ready (Inl e), a) | None \<Rightarrow> (Pending, a)))"

definition spec_sender_end :: "('c, 'd, 'e) reason \<Rightarrow> bool" where
  "spec_sender_end e = (case e of Reset _ \<Rightarrow> True | DecoderError _ \<Rightarrow> True | ConnectionError \<Rightarrow> True | HangUp _ \<Rightarrow> True | _ \<Rightarrow> False)"

definition spec_receiver_end :: "('c, 'd, 'e) reason \<Rightarrow> bool" where
  "spec_receiver_end e = (case e of Stop _ \<Rightarrow> True | EncoderError _ \<Rightarrow> True | ConnectionError \<Rightarrow> True | HangUp _ \<Rightarrow> True | _ \<Rightarrow> False)"

definition spec_step ::
  "('i \<Rightarrow> nat) \<Rightarrow> ('i, 'c, 'd, 'e) stream_use \<Rightarrow> ('i, 'c, 'd, 'e) stream_spec \<Rightarrow>
   ('i, 'c, 'd, 'e) use_result \<times> ('i, 'c, 'd, 'e) stream_spec" where
  "spec_step estimate u a =
     (let idle_s = sp_sender a \<and> sp_sending a = None; idle_r = sp_receiver a \<and> \<not> sp_receiving a in
      case u of
        UseSend p \<Rightarrow> (ResNone, if idle_s then a\<lparr>sp_sending := Some p\<rparr> else a)
      | UseSendPoll \<Rightarrow>
          (case sp_sending a of
             None \<Rightarrow> (ResNone, a)
           | Some p \<Rightarrow> let (r, a1) = spec_send estimate p a
               in (ResSend r, if r = Pending then a1 else a1\<lparr>sp_sending := None\<rparr>))
      | UseSendCancel \<Rightarrow> (ResNone, a\<lparr>sp_sending := None\<rparr>)
      | UseSenderEnd e \<Rightarrow> (ResNone, if idle_s \<and> spec_sender_end e then spec_close e a else a)
      | UseSenderError \<Rightarrow> (if idle_s then ResError (sp_reason a) else ResNone, a)
      | UseSenderDrop p \<Rightarrow> (ResNone, if idle_s then (spec_close (sender_drop_reason p) a)\<lparr>sp_sender := False\<rparr> else a)
      | UseRecv \<Rightarrow> (ResNone, if idle_r then a\<lparr>sp_receiving := True\<rparr> else a)
      | UseRecvPoll \<Rightarrow>
          if sp_receiving a
          then let (r, a1) = spec_recv a in (ResRecv r, if r = Pending then a1 else a1\<lparr>sp_receiving := False\<rparr>)
          else (ResNone, a)
      | UseRecvCancel \<Rightarrow> (ResNone, a\<lparr>sp_receiving := False\<rparr>)
      | UseTryRecv \<Rightarrow>
          if idle_r
          then (case spec_recv a of
                  (Pending, a1) \<Rightarrow> (ResTry (Inr None), a1)
                | (Ready (Inl e), a1) \<Rightarrow> (ResTry (Inl e), a1)
                | (Ready (Inr p), a1) \<Rightarrow> (ResTry (Inr (Some p)), a1))
          else (ResNone, a)
      | UseReceiverEnd e \<Rightarrow> (ResNone, if idle_r \<and> spec_receiver_end e then spec_close e a else a)
      | UseReceiverError \<Rightarrow> (if idle_r then ResError (sp_reason a) else ResNone, a)
      | UseReceiverDrop p \<Rightarrow>
          (ResNone, if idle_r then (spec_close (receiver_drop_reason p) a)\<lparr>sp_receiver := False, sp_items := []\<rparr> else a))"

fun spec_run ::
  "('i \<Rightarrow> nat) \<Rightarrow> ('i, 'c, 'd, 'e) stream_use list \<Rightarrow> ('i, 'c, 'd, 'e) stream_spec \<Rightarrow>
   ('i, 'c, 'd, 'e) use_result list \<times> ('i, 'c, 'd, 'e) stream_spec" where
  "spec_run estimate [] a = ([], a)"
| "spec_run estimate (u # us) a =
     (let (r, a1) = spec_step estimate u a; (rs, a2) = spec_run estimate us a1 in (r # rs, a2))"

text \<open>The discipline: once the direction is finished, \<open>try_recv\<close> is not used while items are left, and \<open>recv\<close>
  not after the last one as long as the sender is there.\<close>

definition spec_allowed :: "('i, 'c, 'd, 'e) stream_use \<Rightarrow> ('i, 'c, 'd, 'e) stream_spec \<Rightarrow> bool" where
  "spec_allowed u a = (case u of
     UseTryRecv \<Rightarrow> \<not> (sp_reason a = Some Finish \<and> sp_items a \<noteq> [])
   | UseRecvPoll \<Rightarrow> \<not> (sp_reason a = Some Finish \<and> sp_items a = [] \<and> sp_sender a)
   | _ \<Rightarrow> True)"

fun spec_allowed_run :: "('i \<Rightarrow> nat) \<Rightarrow> ('i, 'c, 'd, 'e) stream_use list \<Rightarrow> ('i, 'c, 'd, 'e) stream_spec \<Rightarrow> bool" where
  "spec_allowed_run estimate [] a \<longleftrightarrow> True"
| "spec_allowed_run estimate (u # us) a \<longleftrightarrow>
     spec_allowed u a \<and> spec_allowed_run estimate us (snd (spec_step estimate u a))"

subsection \<open>Closing and polling\<close>

lemma close_eq:
  assumes "mt_receivers (sc_error sh) \<noteq> 0"
  shows "sender_close e sh = (the (first_reason e (mt_container (sc_error sh))), sh\<lparr>sc_error := set_reason e (sc_error sh)\<rparr>)"
    and "receiver_close e sh = (the (first_reason e (mt_container (sc_error sh))), sh\<lparr>sc_error := set_reason e (sc_error sh)\<rparr>)"
  using assms
  by (auto simp: sender_close_def receiver_close_def mt_send_def mt_sender_is_closed_def get_or_init_def first_reason_def
      set_reason_def split: option.splits)

lemma error_eq:
  assumes "mt_senders (sc_error sh) \<noteq> 0"
  shows "sender_error sh = mt_container (sc_error sh)" and "receiver_error sh = mt_container (sc_error sh)"
  using assms by (auto simp: sender_error_def receiver_error_def mt_try_recv_def mt_receiver_is_closed_def split: option.splits)

lemma end_eq:
  assumes "mt_receivers (sc_error sh) \<noteq> 0"
  shows "sender_end e sh = (if spec_sender_end e then sh\<lparr>sc_error := set_reason e (sc_error sh)\<rparr> else sh)"
    and "receiver_end e sh = (if spec_receiver_end e then sh\<lparr>sc_error := set_reason e (sc_error sh)\<rparr> else sh)"
  using assms
  by (simp_all add: sender_end_def receiver_end_def spec_sender_end_def spec_receiver_end_def close_eq
      sender_terminate_def sender_terminate_due_decoder_def sender_terminate_due_connection_def sender_hangup_def
      receiver_terminate_def receiver_terminate_due_encoder_def receiver_terminate_due_connection_def receiver_hangup_def
      split: stream_error.splits)

subsection \<open>Refinement\<close>

locale stream_env = mpsc_queue queue ops valid senders
  for queue :: "'q \<Rightarrow> ('i payload \<times> nat) list" and ops :: "('i payload, 'q) queue_ops"
    and valid :: "'q \<Rightarrow> bool" and senders :: "'q \<Rightarrow> nat" +
  fixes ready :: "nat \<Rightarrow> nat \<Rightarrow> bool" and estimate :: "'i \<Rightarrow> nat"
  assumes ready_wakes: "wakes_all ready" and estimate_bound: "estimate x \<le> usize_max"
begin

lemma payload_bound: "payload_estimate estimate p \<le> usize_max"
  by (cases p) (simp_all add: payload_estimate_def estimate_bound)

definition items_ok :: "'q weighted_mt \<Rightarrow> bool" where
  "items_ok it \<longleftrightarrow> \<not> qo_is_closed ops (wq_queue it) \<and> weighted_mt_ok queue it"

definition send_fut_ok :: "'q weighted_mt \<Rightarrow> 'i send_item_future \<Rightarrow> bool" where
  "send_fut_ok it f = (case sf_send f of
     MtStart \<Rightarrow> True
   | MtWait t \<Rightarrow> t < wq_notifications it \<or> t = wq_notifications it \<and>
       \<not> has_capacity (wq_occupation it) (payload_estimate estimate (sf_item f)) (wq_bound it)
   | MtFinished \<Rightarrow> False)"

lemma send_fut_error [simp]: "send_fut_ok it (f\<lparr>sf_error := ef, sf_send := sfut\<rparr>) = send_fut_ok it (f\<lparr>sf_send := sfut\<rparr>)"
  by (simp add: send_fut_ok_def split: mt_future.splits)

definition sys_ok :: "('i, 'c, 'd, 'e, 'q) stream_sys \<Rightarrow> bool" where
  "sys_ok s \<longleftrightarrow> (let it = sc_items (ss_chan s); er = sc_error (ss_chan s) in
     mt_senders er = 1 \<and> mt_receivers er = 1 \<and> valid (wq_queue it) \<and>
     senders (wq_queue it) = (if ss_sender s then 1 else 0) \<and>
     (if ss_receiver s then items_ok it
      else ss_receiving s = None \<and> queue (wq_queue it) = []) \<and>
     (\<not> ss_sender s \<or> \<not> ss_receiver s \<longrightarrow> mt_container er \<noteq> None) \<and>
     (\<not> ss_sender s \<longrightarrow> ss_sending s = None) \<and>
     (\<forall>f. ss_sending s = Some f \<longrightarrow> reason_fut_ok er (sf_error f) \<and> (mt_container er = None \<longrightarrow> send_fut_ok it f)) \<and>
     (\<forall>f. ss_receiving s = Some f \<longrightarrow> reason_fut_ok er f))"

definition abs_sys :: "('i, 'c, 'd, 'e, 'q) stream_sys \<Rightarrow> ('i, 'c, 'd, 'e) stream_spec" where
  "abs_sys s = \<lparr>sp_items = queue (wq_queue (sc_items (ss_chan s))), sp_bound = wq_bound (sc_items (ss_chan s)),
     sp_reason = mt_container (sc_error (ss_chan s)), sp_sending = map_option sf_item (ss_sending s),
     sp_receiving = (ss_receiving s \<noteq> None), sp_sender = ss_sender s, sp_receiver = ss_receiver s\<rparr>"

lemmas abs_simps = abs_sys_def spec_step_def spec_close_def sender_idle_def receiver_idle_def stream_step_def

definition refines_step :: "('i, 'c, 'd, 'e) stream_use \<Rightarrow> ('i, 'c, 'd, 'e, 'q) stream_sys \<Rightarrow> bool" where
  "refines_step u s \<longleftrightarrow> (\<exists>s'. stream_step ops ready estimate u s = Inr (fst (spec_step estimate u (abs_sys s)), s') \<and>
     abs_sys s' = snd (spec_step estimate u (abs_sys s)) \<and> sys_ok s')"

lemma send_poll_eq:
  assumes "send_fut_ok it f" and "items_ok it" and "valid (wq_queue it)"
  shows "\<exists>r wf it'. weighted_mt_send_poll ops ready (sf_send f) (sf_item f) (payload_estimate estimate (sf_item f)) it = Inr (r, wf, it') \<and>
    (if has_capacity (wq_occupation it) (payload_estimate estimate (sf_item f)) (wq_bound it)
     then r = Ready (Inr ()) \<and> items_ok it' \<and> valid (wq_queue it') \<and> senders (wq_queue it') = senders (wq_queue it) \<and>
       queue (wq_queue it') = queue (wq_queue it) @ [(sf_item f, payload_estimate estimate (sf_item f))] \<and> wq_bound it' = wq_bound it
     else r = Pending \<and> it' = it \<and> send_fut_ok it (f\<lparr>sf_send := wf\<rparr>))"
proof -
  let ?w = "payload_estimate estimate (sf_item f)"
  have turn: "weighted_mt_send_poll ops ready (sf_send f) (sf_item f) ?w it = Inr (weighted_mt_send_turn ops (sf_item f) ?w it) \<or>
    \<not> has_capacity (wq_occupation it) ?w (wq_bound it) \<and> weighted_mt_send_poll ops ready (sf_send f) (sf_item f) ?w it = Inr (Pending, sf_send f, it)"
    using assms(1) ready_wakes by (auto simp: send_fut_ok_def weighted_mt_send_poll_def wakes_all_def split: mt_future.splits)
  have c: "\<not> qo_is_closed ops (wq_queue it)" "weighted_mt_ok queue it" using assms(2) by (simp_all add: items_ok_def)
  show ?thesis
  proof (cases "has_capacity (wq_occupation it) ?w (wq_bound it)")
    case True
    from reserve_ok [OF c(2) assms(3) c(1) True payload_bound, of "sf_item f"] True turn c(1) show ?thesis
      by (auto simp: weighted_mt_send_turn_def items_ok_def)
  next
    case False
    with turn c(1) assms(1) show ?thesis
      by (auto simp: weighted_mt_send_turn_def send_fut_ok_def split: mt_future.splits)
  qed
qed

lemma send_poll_refines:
  assumes "sys_ok s" shows "refines_step UseSendPoll s"
proof (cases "ss_sending s")
  case None
  then show ?thesis using assms by (simp add: refines_step_def abs_simps)
next
  case (Some f)
  let ?er = "sc_error (ss_chan s)" and ?it = "sc_items (ss_chan s)"
  have ok: "mt_senders ?er \<noteq> 0" "mt_receivers ?er \<noteq> 0" "reason_fut_ok ?er (sf_error f)"
    using assms Some by (simp_all add: sys_ok_def Let_def)
  note poll = reason_poll [OF ok(3) ready_wakes ok(1)]
  show ?thesis
  proof (cases "mt_container ?er")
    case (Some e)
    note p = poll(1) [OF Some]
    have "send_item_poll ops ready estimate f (ss_chan s) = Inr (Ready (Inl e), f\<lparr>sf_error := MtFinished\<rparr>, ss_chan s)"
      using Some ok(2) by (simp add: send_item_poll_def p close_eq)
    with Some \<open>ss_sending s = Some f\<close> assms show ?thesis
      by (simp add: refines_step_def abs_simps spec_send_def sys_ok_def Let_def)
  next
    case None
    from poll(2) [OF None] obtain ef where ef: "mt_recv_poll ready (sf_error f) ?er = Inr (Pending, ef)" "reason_fut_ok ?er ef"
      by blast
    have r: "ss_receiver s" "ss_sender s" "items_ok ?it" "send_fut_ok ?it f" "valid (wq_queue ?it)" "senders (wq_queue ?it) = 1"
      using assms None Some by (auto simp: sys_ok_def Let_def split: if_splits)
    have occ: "wq_occupation ?it = sum_list (map snd (queue (wq_queue ?it)))" using r(3) by (simp add: items_ok_def weighted_mt_ok_def)
    from send_poll_eq [OF r(4,3,5)] obtain x wf it' where
      p: "weighted_mt_send_poll ops ready (sf_send f) (sf_item f) (payload_estimate estimate (sf_item f)) ?it = Inr (x, wf, it')"
      and q: "if has_capacity (wq_occupation ?it) (payload_estimate estimate (sf_item f)) (wq_bound ?it)
        then x = Ready (Inr ()) \<and> items_ok it' \<and> valid (wq_queue it') \<and> senders (wq_queue it') = senders (wq_queue ?it) \<and>
          queue (wq_queue it') = queue (wq_queue ?it) @ [(sf_item f, payload_estimate estimate (sf_item f))] \<and> wq_bound it' = wq_bound ?it
        else x = Pending \<and> it' = ?it \<and> send_fut_ok ?it (f\<lparr>sf_send := wf\<rparr>)" by blast
    note facts = Some None ef p ok r assms
    show ?thesis
    proof (cases "has_capacity (wq_occupation ?it) (payload_estimate estimate (sf_item f)) (wq_bound ?it)")
      case True
      with q facts occ show ?thesis
        by (auto simp: refines_step_def abs_simps send_item_poll_def after_send_def close_eq spec_send_def finish_if_def
            sys_ok_def Let_def reason_fut_set)
    next
      case False
      with q facts occ show ?thesis
        by (auto simp: refines_step_def abs_simps send_item_poll_def spec_send_def sys_ok_def Let_def)
    qed
  qed
qed

lemma send_fut_antimono:
  assumes "send_fut_ok it f" and "wq_notifications it \<le> wq_notifications it'" and "wq_bound it' = wq_bound it"
    and "wq_occupation it' < wq_occupation it \<longrightarrow> wq_notifications it < wq_notifications it'" and "wq_occupation it' \<le> wq_occupation it"
  shows "send_fut_ok it' f"
  using assms by (auto simp: send_fut_ok_def split: mt_future.splits)

definition recv_facts :: "('i, 'c, 'd, 'e, 'q) stream_sys \<Rightarrow> (try_recv_error + 'i payload) \<Rightarrow> 'q weighted_mt \<Rightarrow> bool" where
  "recv_facts s r it' \<longleftrightarrow> items_ok it' \<and> valid (wq_queue it') \<and>
    senders (wq_queue it') = (if ss_sender s then 1 else 0) \<and> wq_bound it' = wq_bound (sc_items (ss_chan s)) \<and>
    (\<forall>f. send_fut_ok (sc_items (ss_chan s)) f \<longrightarrow> send_fut_ok it' f) \<and>
    (queue (wq_queue (sc_items (ss_chan s))) = [] \<longrightarrow>
       r = Inl (if ss_sender s then RecvEmpty else RecvClosed) \<and> queue (wq_queue it') = []) \<and>
    (\<forall>x w ps. queue (wq_queue (sc_items (ss_chan s))) = (x, w) # ps \<longrightarrow> r = Inr x \<and> queue (wq_queue it') = ps)"

lemma recv_facts:
  assumes "sys_ok s" and "ss_receiver s"
  shows "\<exists>r it'. weighted_mt_try_recv ops (sc_items (ss_chan s)) = Inr (r, it') \<and> recv_facts s r it'"
proof -
  let ?it = "sc_items (ss_chan s)"
  have i: "items_ok ?it" "valid (wq_queue ?it)" "senders (wq_queue ?it) = (if ss_sender s then 1 else 0)"
    using assms by (simp_all add: sys_ok_def Let_def)
  then have c: "\<not> qo_is_closed ops (wq_queue ?it)" "weighted_mt_ok queue ?it" by (simp_all add: items_ok_def)
  from try_recv_ok [OF c(2) i(2) c(1)] obtain r q n where
    t: "weighted_mt_try_recv ops ?it = Inr (r, ?it\<lparr>wq_queue := q, wq_occupation := sum_list (map snd (queue q)), wq_notifications := n\<rparr>)"
      "weighted_mt_ok queue (?it\<lparr>wq_queue := q, wq_occupation := sum_list (map snd (queue q)), wq_notifications := n\<rparr>)"
      "valid q" "senders q = senders (wq_queue ?it)" "\<not> qo_is_closed ops q"
      "wq_notifications ?it \<le> n" "sum_list (map snd (queue q)) < wq_occupation ?it \<longrightarrow> wq_notifications ?it < n"
      "sum_list (map snd (queue q)) \<le> wq_occupation ?it"
      "case queue (wq_queue ?it) of [] \<Rightarrow> r = Inl (if senders q = 0 then RecvClosed else RecvEmpty) \<and> queue q = []
       | (x, w) # ps \<Rightarrow> r = Inr x \<and> queue q = ps"
    by (elim exE conjE) (rule that)
  let ?it' = "?it\<lparr>wq_queue := q, wq_occupation := sum_list (map snd (queue q)), wq_notifications := n\<rparr>"
  have "send_fut_ok ?it' f" if "send_fut_ok ?it f" for f by (rule send_fut_antimono [OF that]) (use t(6-8) in simp_all)
  with t(1-5,9) i(3) show ?thesis by (intro exI [of _ r] exI [of _ ?it']) (auto simp: recv_facts_def items_ok_def)
qed

lemma sys_ok_recv:
  assumes "sys_ok s" and "ss_receiver s" and "recv_facts s r it'" and "fut = None \<or> (\<exists>f. fut = Some f \<and> reason_fut_ok er f)"
    and "er = sc_error (ss_chan s) \<or> er = set_reason e (sc_error (ss_chan s))"
    and "\<not> ss_sender s \<longrightarrow> mt_container er \<noteq> None"
  shows "sys_ok (s\<lparr>ss_chan := (ss_chan s)\<lparr>sc_items := it', sc_error := er\<rparr>, ss_receiving := fut\<rparr>)"
  using assms by (auto simp: sys_ok_def recv_facts_def Let_def reason_fut_set)

lemma receive_eq:
  assumes "sys_ok s" and "ss_receiver s" and "queue (wq_queue (sc_items (ss_chan s))) = (x, w) # ps"
    and "mt_container (sc_error (ss_chan s)) = None \<or> mt_container (sc_error (ss_chan s)) = Some Finish"
  shows "received x ((ss_chan s)\<lparr>sc_items := it'\<rparr>) = (Inr x, (ss_chan s)\<lparr>sc_items := it',
    sc_error := (if is_fin x then set_reason Finish (sc_error (ss_chan s)) else sc_error (ss_chan s))\<rparr>)"
proof -
  have "mt_receivers (sc_error (ss_chan s)) \<noteq> 0" using assms(1) by (simp add: sys_ok_def Let_def)
  with assms(4) show ?thesis by (auto simp: received_def close_eq)
qed

lemma recv_poll_refines:
  assumes "sys_ok s" and "spec_allowed UseRecvPoll (abs_sys s)" shows "refines_step UseRecvPoll s"
proof (cases "ss_receiving s")
  case None
  then show ?thesis using assms by (simp add: refines_step_def abs_simps)
next
  case (Some f)
  let ?er = "sc_error (ss_chan s)" and ?q = "queue (wq_queue (sc_items (ss_chan s)))"
  have ok: "mt_senders ?er \<noteq> 0" "mt_receivers ?er \<noteq> 0" "reason_fut_ok ?er f" "ss_receiver s"
    using assms(1) Some by (auto simp: sys_ok_def Let_def split: if_splits)
  note poll = reason_poll [OF ok(3) ready_wakes ok(1)]
  from recv_facts [OF assms(1) ok(4)] obtain r it' where
    r: "weighted_mt_try_recv ops (sc_items (ss_chan s)) = Inr (r, it')" "recv_facts s r it'" by blast
  consider (err) e where "mt_container ?er = Some e" "e \<noteq> Finish"
    | (readable) "mt_container ?er = None \<or> mt_container ?er = Some Finish" by (cases "mt_container ?er") auto
  then show ?thesis
  proof cases
    case err
    have "receiver_recv_poll ops ready f (ss_chan s) = Inr (Ready (Inl e), MtFinished, ss_chan s)"
      using err ok(2) by (simp add: receiver_recv_poll_def poll(1) [OF err(1)] ignore_finish_def close_eq split: stream_error.splits)
    with err Some assms(1) show ?thesis by (simp add: refines_step_def abs_simps spec_recv_def sys_ok_def Let_def)
  next
    case readable
    obtain x ef where x: "mt_recv_poll ready f ?er = Inr (x, ef)" "ignore_finish x = Pending"
      "mt_container ?er = None \<longrightarrow> reason_fut_ok ?er ef"
      using readable poll by (fastforce simp: ignore_finish_def)
    show ?thesis
    proof (cases ?q)
      case Nil
      show ?thesis
      proof (cases "mt_container ?er")
        case None
        then have "ss_sender s" using assms(1) by (auto simp: sys_ok_def Let_def)
        with r x Nil have p: "receiver_recv_poll ops ready f (ss_chan s) = Inr (Pending, ef, (ss_chan s)\<lparr>sc_items := it'\<rparr>)"
          by (simp add: receiver_recv_poll_def weighted_mt_recv_poll_def recv_facts_def)
        have "sys_ok (s\<lparr>ss_chan := (ss_chan s)\<lparr>sc_items := it'\<rparr>, ss_receiving := Some ef\<rparr>)"
          using sys_ok_recv [OF assms(1) ok(4) r(2), of "Some ef" ?er] x(3) None \<open>ss_sender s\<close> by simp
        with p None Nil Some r(2) show ?thesis by (simp add: refines_step_def abs_simps spec_recv_def recv_facts_def)
      next
        case (Some e)
        with readable assms(2) Nil have e: "e = Finish" "\<not> ss_sender s" by (auto simp: spec_allowed_def abs_sys_def)
        with r x Nil Some ok(2) have p: "receiver_recv_poll ops ready f (ss_chan s) = Inr (Ready (Inl Finish), ef, (ss_chan s)\<lparr>sc_items := it'\<rparr>)"
          by (simp add: receiver_recv_poll_def weighted_mt_recv_poll_def recv_facts_def close_eq)
        have "sys_ok (s\<lparr>ss_chan := (ss_chan s)\<lparr>sc_items := it'\<rparr>, ss_receiving := None\<rparr>)"
          using sys_ok_recv [OF assms(1) ok(4) r(2), of None ?er] Some by simp
        with p Nil e Some \<open>ss_receiving s = Some f\<close> r(2) show ?thesis
          by (simp add: refines_step_def abs_simps spec_recv_def recv_facts_def)
      qed
    next
      case (Cons p ps)
      obtain y w where q: "?q = (y, w) # ps" using Cons by (cases p) auto
      with r(2) have y: "r = Inr y" "queue (wq_queue it') = ps" by (auto simp: recv_facts_def)
      let ?er' = "if is_fin y then set_reason Finish ?er else ?er"
      have p: "receiver_recv_poll ops ready f (ss_chan s) = Inr (Ready (Inr y), ef, (ss_chan s)\<lparr>sc_items := it', sc_error := ?er'\<rparr>)"
        using r(1) x y receive_eq [OF assms(1) ok(4) q readable, of it'] by (simp add: receiver_recv_poll_def weighted_mt_recv_poll_def)
      have "sys_ok (s\<lparr>ss_chan := (ss_chan s)\<lparr>sc_items := it', sc_error := ?er'\<rparr>, ss_receiving := None\<rparr>)"
        by (rule sys_ok_recv [OF assms(1) ok(4) r(2)]) (use assms(1) in \<open>auto simp: sys_ok_def Let_def\<close>)
      with p q y Some readable r(2) show ?thesis
        by (auto simp: refines_step_def abs_simps spec_recv_def recv_facts_def finish_if_def)
    qed
  qed
qed

lemma try_recv_refines:
  assumes "sys_ok s" and "spec_allowed UseTryRecv (abs_sys s)" shows "refines_step UseTryRecv s"
proof (cases "receiver_idle s")
  case False
  then show ?thesis using assms by (auto simp: refines_step_def abs_simps)
next
  case True
  let ?er = "sc_error (ss_chan s)" and ?q = "queue (wq_queue (sc_items (ss_chan s)))"
  have ok: "mt_senders ?er \<noteq> 0" "mt_receivers ?er \<noteq> 0" "ss_receiver s" "ss_receiving s = None"
    using assms(1) True by (auto simp: sys_ok_def receiver_idle_def Let_def)
  have upd: "s\<lparr>ss_chan := c, ss_receiving := None\<rparr> = s\<lparr>ss_chan := c\<rparr>" for c using ok(4) by (cases s) simp
  from recv_facts [OF assms(1) ok(3)] obtain r it' where
    r: "weighted_mt_try_recv ops (sc_items (ss_chan s)) = Inr (r, it')" "recv_facts s r it'" by blast
  show ?thesis
  proof (cases "mt_container ?er")
    case (Some e)
    then have "receiver_try_recv ops (ss_chan s) = Inr (Inl e, ss_chan s)"
      using ok by (simp add: receiver_try_recv_def mt_try_recv_def close_eq)
    with Some assms ok show ?thesis
      by (auto simp: refines_step_def abs_simps spec_recv_def spec_allowed_def)
  next
    case None
    then have t: "mt_try_recv ?er = Inl RecvEmpty" "ss_sender s"
      using ok(1) assms(1) by (auto simp: mt_try_recv_def mt_receiver_is_closed_def sys_ok_def Let_def)
    show ?thesis
    proof (cases ?q)
      case Nil
      with t r have p: "receiver_try_recv ops (ss_chan s) = Inr (Inr None, (ss_chan s)\<lparr>sc_items := it'\<rparr>)"
        by (simp add: receiver_try_recv_def recv_facts_def)
      have "sys_ok (s\<lparr>ss_chan := (ss_chan s)\<lparr>sc_items := it'\<rparr>, ss_receiving := None\<rparr>)"
        using sys_ok_recv [OF assms(1) ok(3) r(2), of None ?er] t(2) by simp
      with p None Nil True ok r(2) show ?thesis by (simp add: upd refines_step_def abs_simps spec_recv_def recv_facts_def)
    next
      case (Cons p ps)
      obtain y w where q: "?q = (y, w) # ps" using Cons by (cases p) auto
      with r(2) have y: "r = Inr y" "queue (wq_queue it') = ps" by (auto simp: recv_facts_def)
      let ?er' = "if is_fin y then set_reason Finish ?er else ?er"
      have p: "receiver_try_recv ops (ss_chan s) = Inr (Inr (Some y), (ss_chan s)\<lparr>sc_items := it', sc_error := ?er'\<rparr>)"
        using r(1) t y receive_eq [OF assms(1) ok(3) q, of it'] None by (simp add: receiver_try_recv_def)
      have "sys_ok (s\<lparr>ss_chan := (ss_chan s)\<lparr>sc_items := it', sc_error := ?er'\<rparr>, ss_receiving := None\<rparr>)"
        by (rule sys_ok_recv [OF assms(1) ok(3) r(2)]) (use assms(1) t in \<open>auto simp: sys_ok_def Let_def\<close>)
      with p q y ok None r(2) show ?thesis
        by (auto simp: upd refines_step_def abs_simps spec_recv_def recv_facts_def finish_if_def)
    qed
  qed
qed

lemma end_refines:
  assumes "sys_ok s" shows "refines_step (UseSenderEnd e) s" and "refines_step (UseReceiverEnd e) s"
proof -
  let ?s = "s\<lparr>ss_chan := (ss_chan s)\<lparr>sc_error := set_reason e (sc_error (ss_chan s))\<rparr>\<rparr>"
  have r: "mt_receivers (sc_error (ss_chan s)) \<noteq> 0" using assms by (simp add: sys_ok_def Let_def)
  have "sys_ok ?s" using assms by (auto simp: sys_ok_def Let_def reason_fut_set first_reason_def split: option.splits)
  with assms r show "refines_step (UseSenderEnd e) s" "refines_step (UseReceiverEnd e) s"
    by (auto simp: refines_step_def abs_simps end_eq)
qed

lemma drop_refines:
  assumes "sys_ok s" shows "refines_step (UseSenderDrop p) s" and "refines_step (UseReceiverDrop p) s"
proof -
  let ?er = "sc_error (ss_chan s)" and ?it = "sc_items (ss_chan s)"
  have r: "mt_receivers ?er \<noteq> 0" "valid (wq_queue ?it)" using assms by (simp_all add: sys_ok_def Let_def)
  have "refines_step (UseSenderDrop p) s" if "sender_idle s"
  proof -
    have "senders (wq_queue ?it) = 1" using that assms by (simp add: sys_ok_def sender_idle_def Let_def)
    with drop_sender_keeps [OF r(2)] have d: "valid (qo_drop_sender ops (wq_queue ?it))" "senders (qo_drop_sender ops (wq_queue ?it)) = 0"
      "queue (qo_drop_sender ops (wq_queue ?it)) = queue (wq_queue ?it)"
      "qo_is_closed ops (qo_drop_sender ops (wq_queue ?it)) = qo_is_closed ops (wq_queue ?it)" by simp_all
    let ?s = "s\<lparr>ss_chan := (ss_chan s)\<lparr>sc_error := set_reason (sender_drop_reason p) ?er,
      sc_items := ?it\<lparr>wq_queue := qo_drop_sender ops (wq_queue ?it)\<rparr>\<rparr>, ss_sender := False\<rparr>"
    have "sys_ok ?s" using assms d that
      by (auto simp: sys_ok_def Let_def reason_fut_set first_reason_def items_ok_def weighted_mt_ok_def sender_idle_def split: option.splits)
    with that d r show ?thesis
      by (auto simp: refines_step_def abs_simps sender_drop_def close_eq weighted_mt_drop_sender_def)
  qed
  moreover have "refines_step (UseReceiverDrop p) s" if "receiver_idle s"
  proof -
    have "\<not> qo_is_closed ops (wq_queue ?it)" using that assms by (simp add: sys_ok_def receiver_idle_def Let_def items_ok_def)
    with drop_receiver_keeps [OF r(2)] have d: "valid (qo_drop_receiver ops (wq_queue ?it))"
      "senders (qo_drop_receiver ops (wq_queue ?it)) = senders (wq_queue ?it)" by simp_all
    let ?s = "s\<lparr>ss_chan := (ss_chan s)\<lparr>sc_error := set_reason (receiver_drop_reason p) ?er,
      sc_items := weighted_mt_drop_receiver ops ?it\<rparr>, ss_receiver := False\<rparr>"
    have "sys_ok ?s" using assms d that
      by (auto simp: sys_ok_def Let_def reason_fut_set first_reason_def receiver_idle_def weighted_mt_drop_receiver_def notify_all_mt_def
          drop_clears split: option.splits)
    with that d r show ?thesis
      by (auto simp: refines_step_def abs_simps receiver_drop_def close_eq weighted_mt_drop_receiver_def notify_all_mt_def drop_clears)
  qed
  ultimately show "refines_step (UseSenderDrop p) s" and "refines_step (UseReceiverDrop p) s"
    using assms by (auto simp: refines_step_def abs_simps)
qed

lemma step_refines:
  assumes "sys_ok s" and "spec_allowed u (abs_sys s)" shows "refines_step u s"
proof -
  have e: "mt_senders (sc_error (ss_chan s)) \<noteq> 0" using assms(1) by (simp add: sys_ok_def Let_def)
  have i: "sys_ok (s\<lparr>ss_sending := None\<rparr>)" "sys_ok (s\<lparr>ss_receiving := None\<rparr>)"
    "sender_idle s \<Longrightarrow> sys_ok (s\<lparr>ss_sending := Some (send_item p)\<rparr>)" "receiver_idle s \<Longrightarrow> sys_ok (s\<lparr>ss_receiving := Some MtStart\<rparr>)" for p
    using assms(1) by (auto simp: sys_ok_def Let_def sender_idle_def receiver_idle_def send_item_def reason_fut_ok_def send_fut_ok_def)
  show ?thesis
  proof (cases u)
    case UseSendPoll then show ?thesis using send_poll_refines assms by simp
  next
    case UseRecvPoll then show ?thesis using recv_poll_refines assms by simp
  next
    case UseTryRecv then show ?thesis using try_recv_refines assms by simp
  next
    case (UseSenderEnd x) then show ?thesis using end_refines assms by simp
  next
    case (UseReceiverEnd x) then show ?thesis using end_refines assms by simp
  next
    case (UseSenderDrop x) then show ?thesis using drop_refines assms by simp
  next
    case (UseReceiverDrop x) then show ?thesis using drop_refines assms by simp
  qed (use i e assms(1) in \<open>auto simp: refines_step_def abs_simps error_eq send_item_def\<close>)
qed

lemma run_refines:
  assumes "sys_ok s" and "spec_allowed_run estimate us (abs_sys s)"
  shows "\<exists>s'. stream_run ops ready estimate us s = Inr (fst (spec_run estimate us (abs_sys s)), s') \<and>
    abs_sys s' = snd (spec_run estimate us (abs_sys s)) \<and> sys_ok s'"
  using assms
proof (induction us arbitrary: s)
  case (Cons u us)
  then have "refines_step u s" by (intro step_refines) simp_all
  then obtain s1 where s1: "stream_step ops ready estimate u s = Inr (fst (spec_step estimate u (abs_sys s)), s1)"
    "abs_sys s1 = snd (spec_step estimate u (abs_sys s))" "sys_ok s1" unfolding refines_step_def by blast
  with Cons.IH [OF s1(3)] Cons.prems(2) show ?case by (auto simp: split_beta)
qed simp

lemma open_ok:
  assumes "queue q = []" and "\<not> qo_is_closed ops q" and "valid q" and "senders q = 1"
  shows "sys_ok (stream_open q bound a b)" and "abs_sys (stream_open q bound a b) = spec_open bound"
  using assms by (simp_all add: stream_open_def stream_channel_def sys_ok_def abs_sys_def spec_open_def mt_channel_def
      weighted_mt_channel_def items_ok_def weighted_mt_ok_def usize_max_def)

end

interpretation unbounded_stream: stream_env ub_deque unbounded_ops unbounded_valid unbounded_senders "(<)"
  "\<lambda>bs. min (bytes_estimate bs) usize_max"
  by unfold_locales (simp_all add: wakes_all_def)

lemmas stream_eval = stream_step_def stream_open_def stream_channel_def sender_idle_def receiver_idle_def send_item_def
  send_item_poll_def after_send_def receiver_recv_poll_def receiver_try_recv_def received_def ignore_finish_def sender_close_def
  receiver_close_def sender_drop_def mt_recv_poll_def mt_recv_turn_def mt_try_recv_def mt_receiver_is_closed_def mt_send_def
  mt_sender_is_closed_def get_or_init_def mt_channel_def weighted_mt_channel_def weighted_mt_send_poll_def weighted_mt_send_turn_def
  weighted_mt_reserve_def weighted_mt_try_recv_def weighted_mt_recv_poll_def weighted_mt_taken_def weighted_mt_drop_sender_def
  notify_all_mt_def payload_estimate_def is_fin_def unbounded_channel_def unbounded_ops_def unbounded_defs

lemmas stream_spec_eval = spec_step_def spec_open_def spec_send_def spec_recv_def finish_if_def spec_close_def spec_allowed_def
  spec_receiver_end_def payload_estimate_def is_fin_def

subsection \<open>Properties\<close>



text \<open>\<open>try_recv\<close> loses data. After two items were sent, the second one with \<open>FIN\<close>, and none was received,
  \<open>try_recv\<close> reports that the direction is finished, and goes on to do so, although both items are
  queued and the documentation of \<open>error\<close> says to call it in order to consume them; the specification
  returns the first item.\<close>

lemma try_recv_loses_items:
  "\<exists>s. stream_run unbounded_ops (<) (\<lambda>_. 1)
      [UseSend (Item a), UseSendPoll, UseSend (Last b), UseSendPoll, UseTryRecv, UseTryRecv] (stream_open unbounded_channel 2 mt_channel mt_channel) =
      Inr ([ResNone, ResSend (Ready (Inr ())), ResNone, ResSend (Ready (Inr ())), ResTry (Inl Finish), ResTry (Inl Finish)], s) \<and>
    ub_deque (wq_queue (sc_items (ss_chan s))) = [(Item a, 1), (Last b, 1)] \<and>
    fst (spec_run (\<lambda>_. 1) [UseSend (Item a), UseSendPoll, UseSend (Last b), UseSendPoll, UseTryRecv] (spec_open 2)) =
      [ResNone, ResSend (Ready (Inr ())), ResNone, ResSend (Ready (Inr ())), ResTry (Inr (Some (Item a)))]"
  by (simp add: stream_eval stream_spec_eval has_capacity_def checked_add_def usize_max_def Let_def)

text \<open>\<open>recv\<close> does not return \<open>Finish\<close> after the end. Once the final payload was received and while the
  sender is still there, the next \<open>recv\<close> is pending instead of returning \<open>Finish\<close> as documented, and
  the poll after that, which the drop of the sender causes, panics: it polls the error future again,
  which had completed and whose \<open>Finish\<close> was ignored.\<close>

lemma recv_after_finish_panics:
  "\<exists>s. stream_run unbounded_ops (<) estimate
      [UseSend Done, UseSendPoll, UseRecv, UseRecvPoll, UseRecv, UseRecvPoll] (stream_open unbounded_channel bound conn_establish conn_warn) =
      Inr ([ResNone, ResSend (Ready (Inr ())), ResNone, ResRecv (Ready (Inr Done)), ResNone, ResRecv Pending], s) \<and>
    stream_run unbounded_ops (<) estimate [UseSenderDrop panicking, UseRecvPoll] s = Inl ResumedAfterCompletion"
  by (simp add: stream_eval has_capacity_def usize_sub_def Let_def)

end
