(* ===== verification/Sync_Rpc.thy ===== *)
theory Sync_Rpc
  imports Sync_Unbounded
begin

section \<open>Remote calls\<close>

text \<open>
  Model of \<open>src/aquic-core/src/sync/mpsc/rpc/\<close>: a client sends a call with a callback through the unbounded
  channel and awaits the slot that the callback fills.

  In \<open>mt.rs\<close> the slots live in a \<open>sharded_slab::Slab\<close>, a parameter: \<open>new_key\<close> is the key that \<open>insert\<close>
  gives, if any. The life of one slot is \<open>rpc_step\<close>, which interleaves the atomic actions of its
  \<open>Callback\<close> and of its \<open>ResponseFuture\<close> under sequential consistency. An entry that is held stays
  usable after its removal, as the slab promises; \<open>get\<close> fails after the removal. \<open>AtomicWaker\<close> (crate
  \<open>futures\<close>) keeps the task of the last registration until it is woken; \<open>rs_woken\<close> are the tasks woken
  so far.

  \<open>st.rs\<close> has the slots in a \<open>RefCell\<close>, whose borrow is a flag.
\<close>

subsection \<open>\<open>mod.rs\<close>\<close>

datatype rpc_send_error = RpcClosed | NoResponse

record ('t, 'k) remote_call =
  call_args :: 't
  call_callback :: "'k option"

subsection \<open>\<open>mt.rs\<close>: the slot\<close>

datatype slot_state = SlotPending | SlotReady | SlotHangUp

definition slot_state_from :: "nat \<Rightarrow> panic + slot_state" where
  "slot_state_from v = (if v = 0 then Inr SlotPending else if v = 1 then Inr SlotReady else if v = 2 then Inr SlotHangUp else Inl ExplicitPanic)"

definition slot_state_into :: "slot_state \<Rightarrow> nat" where
  "slot_state_into s = (case s of SlotPending \<Rightarrow> 0 | SlotReady \<Rightarrow> 1 | SlotHangUp \<Rightarrow> 2)"

record 'r slot =
  sl_state :: slot_state
  sl_waker :: "waker option"
  sl_result :: "'r option"

definition new_slot :: "'r slot" where
  "new_slot = \<lparr>sl_state = SlotPending, sl_waker = None, sl_result = None\<rparr>"

text \<open>The program counters: \<open>on_result\<close> runs from \<open>CbHeld\<close>, \<open>Drop\<close> from \<open>CbDrop\<close>, where it also ends, since
  it consumes the callback; \<open>poll\<close> runs from \<open>FuIdle\<close>.\<close>

datatype 'r callback_pc = CbHeld | CbGot 'r | CbWritten | CbStored | CbDrop | CbDropGot | CbHang | CbGone

datatype 'r future_pc =
  FuIdle | FuGot waker | FuRegister waker | FuReload waker | FuSleep waker | FuMatch slot_state | FuDone "rpc_send_error + 'r" | FuDropped

record 'r rpc_sys =
  rs_slot :: "'r slot"
  rs_present :: bool
  rs_callback :: "'r callback_pc"
  rs_future :: "'r future_pc"
  rs_woken :: "waker list"

definition waker_wake :: "'r rpc_sys \<Rightarrow> 'r rpc_sys" where
  "waker_wake s = s\<lparr>rs_slot := (rs_slot s)\<lparr>sl_waker := None\<rparr>,
     rs_woken := (case sl_waker (rs_slot s) of Some k \<Rightarrow> k # rs_woken s | None \<Rightarrow> rs_woken s)\<rparr>"

definition on_result :: "'r \<Rightarrow> 'r rpc_sys \<Rightarrow> 'r rpc_sys" where
  "on_result result s = (case rs_callback s of
     CbHeld \<Rightarrow> s\<lparr>rs_callback := (if rs_present s then CbGot result else CbDrop)\<rparr>
   | CbGot r \<Rightarrow> s\<lparr>rs_slot := (rs_slot s)\<lparr>sl_result := Some r\<rparr>, rs_callback := CbWritten\<rparr>
   | CbWritten \<Rightarrow> s\<lparr>rs_slot := (rs_slot s)\<lparr>sl_state := SlotReady\<rparr>, rs_callback := CbStored\<rparr>
   | CbStored \<Rightarrow> (waker_wake s)\<lparr>rs_callback := CbDrop\<rparr>
   | _ \<Rightarrow> s)"

definition callback_drop :: "'r rpc_sys \<Rightarrow> 'r rpc_sys" where
  "callback_drop s = (case rs_callback s of
     CbHeld \<Rightarrow> s\<lparr>rs_callback := CbDrop\<rparr>
   | CbDrop \<Rightarrow> s\<lparr>rs_callback := (if rs_present s then CbDropGot else CbGone)\<rparr>
   | CbDropGot \<Rightarrow>
       if sl_state (rs_slot s) = SlotPending
       then s\<lparr>rs_slot := (rs_slot s)\<lparr>sl_state := SlotHangUp\<rparr>, rs_callback := CbHang\<rparr>
       else s\<lparr>rs_callback := CbGone\<rparr>
   | CbHang \<Rightarrow> (waker_wake s)\<lparr>rs_callback := CbGone\<rparr>
   | _ \<Rightarrow> s)"

definition future_poll :: "waker \<Rightarrow> 'r rpc_sys \<Rightarrow> 'r rpc_sys" where
  "future_poll k s = (case rs_future s of
     FuIdle \<Rightarrow> s\<lparr>rs_future := (if rs_present s then FuGot k else FuDone (Inl NoResponse))\<rparr>
   | FuSleep _ \<Rightarrow> s\<lparr>rs_future := (if rs_present s then FuGot k else FuDone (Inl NoResponse))\<rparr>
   | FuGot k \<Rightarrow> s\<lparr>rs_future := (if sl_state (rs_slot s) = SlotPending then FuRegister k else FuMatch (sl_state (rs_slot s)))\<rparr>
   | FuRegister k \<Rightarrow> s\<lparr>rs_slot := (rs_slot s)\<lparr>sl_waker := Some k\<rparr>, rs_future := FuReload k\<rparr>
   | FuReload k \<Rightarrow> s\<lparr>rs_future := (if sl_state (rs_slot s) = SlotPending then FuSleep k else FuMatch (sl_state (rs_slot s)))\<rparr>
   | FuMatch st \<Rightarrow>
       (case st of
          SlotPending \<Rightarrow> s
        | SlotHangUp \<Rightarrow> s\<lparr>rs_future := FuDone (Inl NoResponse)\<rparr>
        | SlotReady \<Rightarrow> s\<lparr>rs_slot := (rs_slot s)\<lparr>sl_result := None\<rparr>,
            rs_future := FuDone (case sl_result (rs_slot s) of Some r \<Rightarrow> Inr r | None \<Rightarrow> Inl NoResponse)\<rparr>)
   | _ \<Rightarrow> s)"

definition future_drop :: "'r rpc_sys \<Rightarrow> 'r rpc_sys" where
  "future_drop s = s\<lparr>rs_present := False, rs_future := FuDropped\<rparr>"

definition rpc_start :: "'r rpc_sys" where
  "rpc_start = \<lparr>rs_slot = new_slot, rs_present = True, rs_callback = CbHeld, rs_future = FuIdle, rs_woken = []\<rparr>"

inductive rpc_reach :: "'r \<Rightarrow> 'r rpc_sys \<Rightarrow> bool" for result :: 'r where
  rpc_init: "rpc_reach result rpc_start"
| rpc_result: "rpc_reach result s \<Longrightarrow> rpc_reach result (on_result result s)"
| rpc_drop: "rpc_reach result s \<Longrightarrow> rpc_reach result (callback_drop s)"
| rpc_poll: "rpc_reach result s \<Longrightarrow> rpc_reach result (future_poll k s)"
| rpc_cancel: "rpc_reach result s \<Longrightarrow> rs_future s \<in> {FuIdle, FuSleep k, FuDone r} \<Longrightarrow> rpc_reach result (future_drop s)"

subsection \<open>\<open>mt.rs\<close>: \<open>Remote\<close>\<close>

record ('t, 'r, 'q) remote =
  re_queue :: 'q
  re_storage :: "nat \<Rightarrow> 'r slot option"

definition remote_new :: "'q \<Rightarrow> ('t, 'r, 'q) remote" where
  "remote_new q = \<lparr>re_queue = q, re_storage = (\<lambda>_. None)\<rparr>"

definition remote_send ::
  "(('t, nat) remote_call \<Rightarrow> 'q \<Rightarrow> (('t, nat) remote_call send_error + 'w) \<times> 'q) \<Rightarrow> ((nat \<Rightarrow> 'r slot option) \<Rightarrow> nat option) \<Rightarrow> bool \<Rightarrow>
   't \<Rightarrow> ('t, 'r, 'q) remote \<Rightarrow> panic + ((rpc_send_error + nat) \<times> ('t, 'r, 'q) remote)" where
  "remote_send qsend new_key debug args re = (case new_key (re_storage re) of
     None \<Rightarrow> and_then (panic_if debug ExplicitPanic) (\<lambda>_. Inr (Inl NoResponse, re))
   | Some key \<Rightarrow>
       (case qsend \<lparr>call_args = args, call_callback = Some key\<rparr> (re_queue re) of
          (Inl _, q) \<Rightarrow> Inr (Inl RpcClosed, re\<lparr>re_queue := q, re_storage := (re_storage re)(key := None)\<rparr>)
        | (Inr _, q) \<Rightarrow> Inr (Inr key, re\<lparr>re_queue := q, re_storage := (re_storage re)(key := Some new_slot)\<rparr>)))"

definition remote_send_and_forget ::
  "(('t, nat) remote_call \<Rightarrow> 'q \<Rightarrow> (('t, nat) remote_call send_error + 'w) \<times> 'q) \<Rightarrow> 't \<Rightarrow> ('t, 'r, 'q) remote \<Rightarrow>
   (rpc_send_error + unit) \<times> ('t, 'r, 'q) remote" where
  "remote_send_and_forget qsend args re = (case qsend \<lparr>call_args = args, call_callback = None\<rparr> (re_queue re) of
     (Inr _, q) \<Rightarrow> (Inr (), re\<lparr>re_queue := q\<rparr>)
   | (Inl _, q) \<Rightarrow> (Inl RpcClosed, re\<lparr>re_queue := q\<rparr>))"

subsection \<open>\<open>st.rs\<close>\<close>

datatype 'r st_slot = StPending "waker option" | StReady 'r | StHangUp

record ('t, 'r, 'q) remote_st =
  rt_queue :: 'q
  rt_storage :: "nat \<Rightarrow> 'r st_slot option"
  rt_borrowed :: bool

definition st_borrow_mut :: "('t, 'r, 'q) remote_st \<Rightarrow> panic + ('t, 'r, 'q) remote_st" where
  "st_borrow_mut re = (if rt_borrowed re then Inl BorrowMutError else Inr (re\<lparr>rt_borrowed := True\<rparr>))"

definition st_release :: "('t, 'r, 'q) remote_st \<Rightarrow> ('t, 'r, 'q) remote_st" where
  "st_release re = re\<lparr>rt_borrowed := False\<rparr>"

definition st_fill :: "'r st_slot \<Rightarrow> nat \<Rightarrow> ('t, 'r, 'q) remote_st \<Rightarrow> waker list \<times> ('t, 'r, 'q) remote_st" where
  "st_fill state key re = (case rt_storage re key of
     Some (StPending w) \<Rightarrow> (case w of Some k \<Rightarrow> [k] | None \<Rightarrow> [], re\<lparr>rt_storage := (rt_storage re)(key \<mapsto> state)\<rparr>)
   | _ \<Rightarrow> ([], re))"

definition st_callback_drop :: "nat \<Rightarrow> ('t, 'r, 'q) remote_st \<Rightarrow> waker list \<times> ('t, 'r, 'q) remote_st" where
  "st_callback_drop key re = (if rt_borrowed re then ([], re) else st_fill StHangUp key re)"

definition st_on_result :: "'r \<Rightarrow> nat \<Rightarrow> ('t, 'r, 'q) remote_st \<Rightarrow> panic + (waker list \<times> ('t, 'r, 'q) remote_st)" where
  "st_on_result result key re = and_then (st_borrow_mut re) (\<lambda>re1.
     let (woken, re2) = st_fill (StReady result) key re1;
         (woken', re3) = st_callback_drop key (st_release re2)
     in Inr (woken @ woken', re3))"

definition st_future_poll ::
  "waker \<Rightarrow> nat \<Rightarrow> ('t, 'r, 'q) remote_st \<Rightarrow> panic + ((rpc_send_error + 'r) poll \<times> ('t, 'r, 'q) remote_st)" where
  "st_future_poll k key re = and_then (st_borrow_mut re) (\<lambda>re1. Inr
     (case rt_storage re1 key of
        None \<Rightarrow> (Ready (Inl NoResponse), st_release re1)
      | Some (StPending _) \<Rightarrow> (Pending, st_release (re1\<lparr>rt_storage := (rt_storage re1)(key \<mapsto> StPending (Some k))\<rparr>))
      | Some (StReady v) \<Rightarrow> (Ready (Inr v), st_release (re1\<lparr>rt_storage := (rt_storage re1)(key := None)\<rparr>))
      | Some StHangUp \<Rightarrow> (Ready (Inl NoResponse), st_release re1)))"

definition st_future_drop :: "nat \<Rightarrow> ('t, 'r, 'q) remote_st \<Rightarrow> ('t, 'r, 'q) remote_st" where
  "st_future_drop key re = (if rt_borrowed re then re else re\<lparr>rt_storage := (rt_storage re)(key := None)\<rparr>)"

text \<open>The first poll of \<open>send\<close>: \<open>storage\<close>, the \<open>RefMut\<close>, lives to the end of the function, so it is still
  held when the response is awaited.\<close>

definition st_remote_send ::
  "(('t, nat) remote_call \<Rightarrow> 'q \<Rightarrow> (('t, nat) remote_call send_error + 'w) \<times> 'q) \<Rightarrow> ((nat \<Rightarrow> 'r st_slot option) \<Rightarrow> nat) \<Rightarrow>
   waker \<Rightarrow> 't \<Rightarrow> ('t, 'r, 'q) remote_st \<Rightarrow> panic + ((rpc_send_error + 'r) poll \<times> ('t, 'r, 'q) remote_st)" where
  "st_remote_send qsend new_key k args re = and_then (st_borrow_mut re) (\<lambda>re1.
     let key = new_key (rt_storage re1); re2 = re1\<lparr>rt_storage := (rt_storage re1)(key \<mapsto> StPending None)\<rparr> in
     case qsend \<lparr>call_args = args, call_callback = Some key\<rparr> (rt_queue re2) of
       (Inl _, q) \<Rightarrow>
         let (_, re3) = st_callback_drop key (re2\<lparr>rt_queue := q\<rparr>)
         in Inr (Ready (Inl RpcClosed), st_release (re3\<lparr>rt_storage := (rt_storage re3)(key := None)\<rparr>))
     | (Inr _, q) \<Rightarrow> st_future_poll k key (re2\<lparr>rt_queue := q\<rparr>))"

definition st_send_and_forget ::
  "(('t, nat) remote_call \<Rightarrow> 'q \<Rightarrow> (('t, nat) remote_call send_error + 'w) \<times> 'q) \<Rightarrow> 't \<Rightarrow> ('t, 'r, 'q) remote_st \<Rightarrow>
   (rpc_send_error + unit) \<times> ('t, 'r, 'q) remote_st" where
  "st_send_and_forget qsend args re = (case qsend \<lparr>call_args = args, call_callback = None\<rparr> (rt_queue re) of
     (Inr _, q) \<Rightarrow> (Inr (), re\<lparr>rt_queue := q\<rparr>)
   | (Inl _, q) \<Rightarrow> (Inl RpcClosed, re\<lparr>rt_queue := q\<rparr>))"

subsection \<open>The invariant of a slot\<close>

lemma slot_state_roundtrip: "slot_state_from (slot_state_into s) = Inr s"
  by (cases s) (simp_all add: slot_state_from_def slot_state_into_def)

fun callback_ok :: "'r \<Rightarrow> 'r rpc_sys \<Rightarrow> 'r callback_pc \<Rightarrow> bool" where
  "callback_ok v s (CbGot r) \<longleftrightarrow> r = v \<and> sl_state (rs_slot s) = SlotPending \<and> sl_result (rs_slot s) = None"
| "callback_ok v s CbHeld \<longleftrightarrow> sl_state (rs_slot s) = SlotPending \<and> sl_result (rs_slot s) = None"
| "callback_ok v s CbWritten \<longleftrightarrow> sl_state (rs_slot s) = SlotPending \<and> sl_result (rs_slot s) = Some v"
| "callback_ok v s CbStored \<longleftrightarrow> sl_state (rs_slot s) = SlotReady"
| "callback_ok v s CbDrop \<longleftrightarrow> sl_state (rs_slot s) \<noteq> SlotHangUp \<and> (sl_state (rs_slot s) = SlotPending \<longrightarrow> sl_result (rs_slot s) = None)"
| "callback_ok v s CbDropGot \<longleftrightarrow> sl_state (rs_slot s) \<noteq> SlotHangUp \<and> (sl_state (rs_slot s) = SlotPending \<longrightarrow> sl_result (rs_slot s) = None)"
| "callback_ok v s CbHang \<longleftrightarrow> sl_state (rs_slot s) = SlotHangUp"
| "callback_ok v s CbGone \<longleftrightarrow> (rs_present s \<longrightarrow> sl_state (rs_slot s) \<noteq> SlotPending)"

definition unread :: "'r \<Rightarrow> 'r rpc_sys \<Rightarrow> bool" where
  "unread v s \<longleftrightarrow> (sl_state (rs_slot s) = SlotReady \<longrightarrow> sl_result (rs_slot s) = Some v)"

definition about_to_wake :: "'r rpc_sys \<Rightarrow> bool" where
  "about_to_wake s \<longleftrightarrow> rs_callback s = CbStored \<or> rs_callback s = CbHang"

fun future_ok :: "'r \<Rightarrow> 'r rpc_sys \<Rightarrow> 'r future_pc \<Rightarrow> bool" where
  "future_ok v s FuIdle \<longleftrightarrow> rs_present s \<and> unread v s"
| "future_ok v s (FuGot k) \<longleftrightarrow> rs_present s \<and> unread v s"
| "future_ok v s (FuRegister k) \<longleftrightarrow> rs_present s \<and> unread v s"
| "future_ok v s (FuReload k) \<longleftrightarrow> rs_present s \<and> unread v s \<and>
     (sl_state (rs_slot s) = SlotPending \<or> about_to_wake s \<longrightarrow> sl_waker (rs_slot s) = Some k \<or> sl_state (rs_slot s) \<noteq> SlotPending)"
| "future_ok v s (FuSleep k) \<longleftrightarrow> rs_present s \<and> unread v s \<and>
     (if sl_state (rs_slot s) = SlotPending \<or> about_to_wake s then sl_waker (rs_slot s) = Some k else k \<in> set (rs_woken s))"
| "future_ok v s (FuMatch st) \<longleftrightarrow> rs_present s \<and> unread v s \<and> st = sl_state (rs_slot s) \<and> st \<noteq> SlotPending"
| "future_ok v s (FuDone r) \<longleftrightarrow> rs_present s \<and> r \<in> {Inl NoResponse, Inr v} \<and>
     r = (if sl_state (rs_slot s) = SlotReady then Inr v else Inl NoResponse) \<and> sl_state (rs_slot s) \<noteq> SlotPending"
| "future_ok v s FuDropped \<longleftrightarrow> \<not> rs_present s"

definition rpc_inv :: "'r \<Rightarrow> 'r rpc_sys \<Rightarrow> bool" where
  "rpc_inv v s \<longleftrightarrow> callback_ok v s (rs_callback s) \<and> future_ok v s (rs_future s)"

lemma rpc_inv_result: "rpc_inv v s \<Longrightarrow> rpc_inv v (on_result v s)"
  by (cases "rs_callback s"; cases "rs_future s")
    (auto simp: rpc_inv_def on_result_def unread_def about_to_wake_def waker_wake_def split: option.splits)

lemma rpc_inv_drop: "rpc_inv v s \<Longrightarrow> rpc_inv v (callback_drop s)"
  by (cases "rs_callback s"; cases "rs_future s")
    (auto simp: rpc_inv_def callback_drop_def unread_def about_to_wake_def waker_wake_def split: option.splits)

lemma rpc_inv_poll: "rpc_inv v s \<Longrightarrow> rpc_inv v (future_poll k s)"
  by (cases "rs_callback s"; cases "rs_future s")
    (auto simp: rpc_inv_def future_poll_def unread_def about_to_wake_def split: option.splits slot_state.splits)

lemma rpc_inv_reach: "rpc_reach v s \<Longrightarrow> rpc_inv v s"
proof (induction rule: rpc_reach.induct)
  case rpc_init
  then show ?case by (simp add: rpc_start_def rpc_inv_def new_slot_def unread_def)
next
  case (rpc_cancel s k r)
  then show ?case by (cases "rs_callback s") (auto simp: rpc_inv_def future_drop_def)
qed (simp_all add: rpc_inv_result rpc_inv_drop rpc_inv_poll)

text \<open>\<open>send\<close> never touches the slot of another call, provided that the slab gives out free keys, and leaves
  none behind when the channel is closed.\<close>

lemma remote_send_slots:
  assumes "\<And>st key. new_key st = Some key \<Longrightarrow> st key = None" and "remote_send qsend new_key debug args re = Inr (r, re')"
  shows "case r of
      Inl _ \<Rightarrow> re_storage re' = re_storage re
    | Inr key \<Rightarrow> re_storage re key = None \<and> re_storage re' = (re_storage re)(key \<mapsto> new_slot)"
  using assms by (auto simp: remote_send_def panic_if_def fun_upd_idem split: option.splits prod.splits sum.splits if_splits)

subsection \<open>Properties\<close>

text \<open>C21: the unsafe accesses to the result of a call never race. In every interleaving of the callback and the
  response future, when the future is about to take the result, the callback has written it and set
  the state and will not write again, and the future takes exactly the value that was passed to
  \<open>on_result\<close>.\<close>

theorem rpc_result_race_free:
  assumes "rpc_reach v s" and "rs_future s = FuMatch SlotReady"
  shows "rs_callback s \<in> {CbStored, CbDrop, CbDropGot, CbGone} \<and> sl_result (rs_slot s) = Some v \<and>
    rs_future (future_poll k s) = FuDone (Inr v)"
proof -
  have "sl_state (rs_slot s) = SlotReady" "sl_result (rs_slot s) = Some v" "callback_ok v s (rs_callback s)"
    using rpc_inv_reach [OF assms(1)] assms(2) by (auto simp: rpc_inv_def unread_def)
  with assms(2) show ?thesis by (cases "rs_callback s") (auto simp: future_poll_def)
qed

theorem rpc_result_race_free_witness:
  "rs_future (future_poll 7 (future_poll 7 (future_poll 7 (on_result (5 :: nat) (on_result (5 :: nat) (on_result (5 :: nat) rpc_start)))))) = FuDone (Inr (5 :: nat))"
proof -
  let ?s = "future_poll 7 (future_poll 7 (on_result (5 :: nat) (on_result (5 :: nat) (on_result (5 :: nat) rpc_start))))"
  have "rpc_reach (5 :: nat) ?s" by (intro rpc_init rpc_result rpc_poll)
  moreover have "rs_future ?s = FuMatch SlotReady"
    by (simp add: rpc_start_def on_result_def future_poll_def new_slot_def)
  ultimately show ?thesis using rpc_result_race_free [of "(5 :: nat)" ?s 7] by simp
qed

text \<open>C22: no response is lost. When the callback is gone, whether it was used or dropped, a future that sleeps has
  been woken, and the next poll of a future that has not returned yet does return: the result if
  there was one, \<open>NoResponse\<close> if not.\<close>

theorem rpc_answered:
  assumes "rpc_reach v s" and "rs_callback s = CbGone" and "rs_future s = FuIdle \<or> rs_future s = FuSleep k"
  shows "(rs_future s = FuSleep k \<longrightarrow> k \<in> set (rs_woken s)) \<and>
    rs_future ((future_poll k' ^^ 3) s) = FuDone (if sl_state (rs_slot s) = SlotReady then Inr v else Inl NoResponse)"
proof -
  have i: "rs_present s" "sl_state (rs_slot s) \<noteq> SlotPending" "unread v s" "rs_future s = FuSleep k \<longrightarrow> k \<in> set (rs_woken s)"
    using rpc_inv_reach [OF assms(1)] assms(2,3) by (auto simp: rpc_inv_def about_to_wake_def)
  let ?st = "sl_state (rs_slot s)"
  have 1: "future_poll k' s = s\<lparr>rs_future := FuGot k'\<rparr>" using i(1) assms(3) by (auto simp: future_poll_def)
  have 2: "future_poll k' (s\<lparr>rs_future := FuGot k'\<rparr>) = s\<lparr>rs_future := FuMatch ?st\<rparr>" using i(2) by (simp add: future_poll_def)
  have 3: "rs_future (future_poll k' (s\<lparr>rs_future := FuMatch ?st\<rparr>)) = FuDone (if ?st = SlotReady then Inr v else Inl NoResponse)"
    using i(2,3) by (cases ?st) (auto simp: future_poll_def unread_def)
  have "(future_poll k' ^^ 3) s = future_poll k' (future_poll k' (future_poll k' s))" by (simp add: eval_nat_numeral)
  with 1 2 3 i(4) show ?thesis by simp
qed

theorem rpc_answered_witness:
  "\<exists>s. rpc_reach (5 :: nat) s \<and> rs_future s = FuSleep 7 \<and> 7 \<in> set (rs_woken s) \<and>
     rs_future ((future_poll 8 ^^ 3) s) = FuDone (Inl NoResponse)"
proof -
  let ?s = "callback_drop (callback_drop (callback_drop (callback_drop (future_poll 7 (future_poll 7 (future_poll 7 (future_poll 7
    (rpc_start :: nat rpc_sys))))))))"
  have r: "rpc_reach (5 :: nat) ?s" by (intro rpc_init rpc_drop rpc_poll)
  have c: "rs_callback ?s = CbGone" "rs_future ?s = FuSleep 7" "sl_state (rs_slot ?s) = SlotHangUp"
    by (simp_all add: rpc_start_def callback_drop_def future_poll_def new_slot_def waker_wake_def)
  from rpc_answered [OF r c(1) disjI2 [OF c(2)], of 8] r c(2,3) show ?thesis by (intro exI [of _ ?s]) simp
qed

text \<open>without the feature \<open>async-send\<close> no call is ever answered. \<open>send\<close> of \<open>st.rs\<close> keeps the storage borrowed
  while it awaits the response, and the poll of the response borrows it again: on an open channel
  the first poll of every call panics, and on a closed one it returns \<open>Closed\<close>.\<close>

lemma rpc_st_send_panics:
  "st_remote_send unbounded_send new_key k args re =
     (if rt_borrowed re \<or> ub_receiver_exists (rt_queue re) then Inl BorrowMutError
      else Inr (Ready (Inl RpcClosed), re\<lparr>rt_storage := (rt_storage re)(new_key (rt_storage re) := None), rt_borrowed := False\<rparr>))"
  by (auto simp: st_remote_send_def st_borrow_mut_def unbounded_send_def st_future_poll_def st_callback_drop_def st_release_def Let_def
      split: prod.splits)

end
