(* ===== verification/Backend_Events.thy ===== *)
theory Backend_Events
  imports Stream_Types
begin

section \<open>Events and errors of a backend\<close>

text \<open>
  Model of \<open>src/aquic-core/src/backend/event.rs\<close> and \<open>backend/error.rs\<close>: what a QUIC backend reports to the
  core, and the vector that collects it. \<open>'c\<close> is the stable connection identifier of the backend.
\<close>

datatype backend_error =
    ErrClosed
  | Illegal
  | BufferSize
  | UnknownConnection
  | UnknownStream
  | StreamsExhausted
  | StreamStop nat
  | StreamReset nat
  | DgramDisabled
  | OtherError string

datatype halt_kind =
    UnknownVersion
  | HaltTimeout
  | MigrationFailed
  | StatelessReset
  | HaltError "byte list"

datatype 'c connection_event =
    EvNew 'c bool
  | EvEstablished 'c
  | EvStreamsAvailable 'c bool
  | EvClosed 'c nat "byte list" bool bool
  | EvHalted 'c halt_kind

datatype 'c stream_event =
    EvAvailable 'c stream_id
  | EvReset 'c stream_id nat

datatype 'c datagram_event =
    EvInAvailable 'c
  | EvOutAvailable 'c
  | EvOutNewSize 'c nat

datatype 'c backend_event =
    ConnectionEv "'c connection_event"
  | StreamEv "'c stream_event"
  | DatagramEv "'c datagram_event"

type_synonym 'c backend_events = "'c backend_event list"

definition connection_event_id :: "'c connection_event \<Rightarrow> 'c" where
  "connection_event_id e = (case e of
     EvNew c _ \<Rightarrow> c | EvEstablished c \<Rightarrow> c | EvStreamsAvailable c _ \<Rightarrow> c | EvClosed c _ _ _ _ \<Rightarrow> c | EvHalted c _ \<Rightarrow> c)"

definition stream_event_id :: "'c stream_event \<Rightarrow> 'c" where
  "stream_event_id e = (case e of EvAvailable c _ \<Rightarrow> c | EvReset c _ _ \<Rightarrow> c)"

definition stream_event_stream :: "'c stream_event \<Rightarrow> stream_id" where
  "stream_event_stream e = (case e of EvAvailable _ s \<Rightarrow> s | EvReset _ s _ \<Rightarrow> s)"

definition datagram_event_id :: "'c datagram_event \<Rightarrow> 'c" where
  "datagram_event_id e = (case e of EvInAvailable c \<Rightarrow> c | EvOutAvailable c \<Rightarrow> c | EvOutNewSize c _ \<Rightarrow> c)"

definition events_push :: "'c backend_event \<Rightarrow> 'c backend_events \<Rightarrow> 'c backend_events" where
  "events_push e es = es @ [e]"

definition events_extend :: "'c backend_event list \<Rightarrow> 'c backend_events \<Rightarrow> 'c backend_events" where
  "events_extend new es = es @ new"

text \<open>\<open>consume\<close> pops from the end of the vector: it hands out the events last in, first out, and keeps none.\<close>

function events_consume :: "('c backend_event \<Rightarrow> 's \<Rightarrow> 's) \<Rightarrow> 'c backend_events \<Rightarrow> 's \<Rightarrow> 's \<times> 'c backend_events" where
  "events_consume func es s = (if es = [] then (s, es) else events_consume func (butlast es) (func (last es) s))"
  by pat_completeness auto
termination
  by (relation "measure (\<lambda>(func, es, s). length es)") auto

declare events_consume.simps [simp del]

lemma events_consume_fold: "events_consume func es s = (fold func (rev es) s, [])"
proof (induction func es s rule: events_consume.induct)
  case (1 func es s)
  then show ?case by (cases es rule: rev_cases) (simp_all add: events_consume.simps [of func _ s])
qed

lemma events_push_extend: "events_push e es = events_extend [e] es"
  by (simp add: events_push_def events_extend_def)

definition is_close_event :: "'c \<Rightarrow> 'c backend_event \<Rightarrow> bool" where
  "is_close_event c e = (case e of
     ConnectionEv (EvClosed c' _ _ _ _) \<Rightarrow> c' = c
   | ConnectionEv (EvHalted c' _) \<Rightarrow> c' = c
   | _ \<Rightarrow> False)"

definition close_events :: "'c \<Rightarrow> 'c backend_events \<Rightarrow> nat" where
  "close_events c es = length (filter (is_close_event c) es)"

lemma close_events_simps [simp]:
  "close_events c [] = 0"
  "close_events c (es @ es') = close_events c es + close_events c es'"
  "close_events c (e # es) = (if is_close_event c e then 1 else 0) + close_events c es"
  by (simp_all add: close_events_def)

end
