(* ===== verification/Stream_Io.thy ===== *)
theory Stream_Io
  imports Stream_Channel Sync_Rpc Backend_Events
begin

section \<open>The tasks of a stream\<close>

text \<open>
  Model of \<open>src/aquic-core/src/stream/incoming.rs\<close> and \<open>stream/outgoing.rs\<close>: the tasks that move the data of
  one direction of a stream between the backend, the application's codec and the stream channel.
  The codec is a parameter (traits \<open>Decoder\<close>, \<open>Encoder\<close>), and so is the backend's side: the bodies of
  \<open>InStreamBackend\<close> and \<open>OutStreamBackend\<close> (\<open>core/command/stream.rs\<close>) are \<open>todo!()\<close>, so that only their
  signatures are known, and an \<open>await\<close> of one of their calls is the value it returns. The stream channel is the
  one of \<open>Stream_Channel\<close>: an \<open>await\<close> of \<open>send_item\<close> or \<open>recv\<close> is polled. A future that is pending is a field
  of the task, which the next poll resumes (\<open>in_sending\<close>, \<open>out_receiving\<close>); between two polls the application
  uses its half. Text of messages is shortened to what distinguishes them.

  A poll of a loop takes a number of turns; the result \<open>None\<close> says that it is not suspended after them. \<open>in_run\<close>
  is the incoming task together with the application: a batch of uses of the receiving half, then a poll.
\<close>

subsection \<open>Parameters\<close>

record ('i, 'd, 'c, 'x, 'q, 'b) in_env =
  ie_recv :: "'d \<Rightarrow> 'b \<Rightarrow> (rpc_send_error + (backend_error + 'd)) \<times> 'b"
  ie_terminate :: "'c \<Rightarrow> 'b \<Rightarrow> 'b"
  ie_terminate_decoder :: "'x \<Rightarrow> 'b \<Rightarrow> 'b"
  ie_hangup :: "string \<Rightarrow> 'b \<Rightarrow> 'b"
  ie_decode :: "'d \<Rightarrow> ('x + 'i payload option) \<times> 'd"
  ie_ready :: "nat \<Rightarrow> nat \<Rightarrow> bool"
  ie_estimate :: "'i \<Rightarrow> nat"
  ie_code :: "nat \<Rightarrow> 'c"
  ie_ops :: "('i payload, 'q) queue_ops"

record ('i, 'n, 'c, 'e, 'q, 'b) out_env =
  oe_send :: "'n \<Rightarrow> 'b \<Rightarrow> (rpc_send_error + (backend_error + 'n)) \<times> 'b"
  oe_set_priority :: "priority \<Rightarrow> 'b \<Rightarrow> 'b"
  oe_terminate :: "'c \<Rightarrow> 'b \<Rightarrow> 'b"
  oe_terminate_encoder :: "'e \<Rightarrow> 'b \<Rightarrow> 'b"
  oe_hangup :: "string \<Rightarrow> 'b \<Rightarrow> 'b"
  oe_encode :: "'i payload \<Rightarrow> 'n \<Rightarrow> ('e + unit) \<times> 'n"
  oe_should_flush :: "'n \<Rightarrow> bool"
  oe_ready :: "nat \<Rightarrow> nat \<Rightarrow> bool"
  oe_code :: "nat \<Rightarrow> 'c"
  oe_ops :: "('i payload, 'q) queue_ops"

definition dpanic_or_hangup :: "bool \<Rightarrow> string \<Rightarrow> panic + ('c, 'x, 'e) stream_error" where
  "dpanic_or_hangup debug msg = and_then (panic_if debug ExplicitPanic) (\<lambda>_. Inr (HangUp msg))"

subsection \<open>\<open>incoming.rs\<close>\<close>

text \<open>\<open>in_sending\<close> is the future of \<open>send_item\<close> while \<open>send_to_app\<close> awaits it.\<close>

record ('i, 'd, 'c, 'x, 'e, 'q, 'b) incoming =
  in_backend :: 'b
  in_decoder :: "'d option"
  in_sender :: "('c, 'x, 'e, 'q) stream_chan"
  in_cancel :: "('c, 'x, 'e) stream_error oneshot_mt"
  in_drained :: bool
  in_finished :: bool
  in_sending :: "'i send_item_future option"

definition incoming_new :: "'d \<Rightarrow> 'b \<Rightarrow> ('c, 'x, 'e, 'q) stream_chan \<Rightarrow> ('i, 'd, 'c, 'x, 'e, 'q, 'b) incoming" where
  "incoming_new decoder backend item_sender =
     \<lparr>in_backend = backend, in_decoder = Some decoder, in_sender = item_sender, in_cancel = mt_channel,
      in_drained = True, in_finished = False, in_sending = None\<rparr>"

definition in_backend_error :: "('i, 'd, 'c, 'x, 'q, 'b) in_env \<Rightarrow> backend_error \<Rightarrow> ('c, 'x, 'e) stream_error" where
  "in_backend_error env e = (case e of
     StreamReset code \<Rightarrow> Reset (ie_code env code)
   | ErrClosed \<Rightarrow> ConnectionError
   | UnknownConnection \<Rightarrow> ConnectionError
   | _ \<Rightarrow> HangUp ''QUIC backend RPC channel responded with an error'')"

definition read_from_stream ::
  "('i, 'd, 'c, 'x, 'q, 'b) in_env \<Rightarrow> ('i, 'd, 'c, 'x, 'e, 'q, 'b) incoming \<Rightarrow>
   (('c, 'x, 'e) stream_error + unit) \<times> ('i, 'd, 'c, 'x, 'e, 'q, 'b) incoming" where
  "read_from_stream env st =
     (if in_finished st \<or> \<not> in_drained st then (Inr (), st)
      else case in_decoder st of
        None \<Rightarrow> (Inr (), st)
      | Some decoder \<Rightarrow>
          let st1 = st\<lparr>in_decoder := None, in_drained := False\<rparr>;
              (call_result, b) = ie_recv env decoder (in_backend st1); st2 = st1\<lparr>in_backend := b\<rparr>
          in case call_result of
               Inl _ \<Rightarrow> (Inl (HangUp ''QUIC backend RPC channel is unavailable''), st2)
             | Inr (Inr d) \<Rightarrow> (Inr (), st2\<lparr>in_decoder := Some d\<rparr>)
             | Inr (Inl e) \<Rightarrow> (Inl (in_backend_error env e), st2))"

definition in_decode ::
  "('i, 'd, 'c, 'x, 'q, 'b) in_env \<Rightarrow> ('i, 'd, 'c, 'x, 'e, 'q, 'b) incoming \<Rightarrow>
   (('c, 'x, 'e) stream_error + 'i payload option) \<times> ('i, 'd, 'c, 'x, 'e, 'q, 'b) incoming" where
  "in_decode env st =
     (if in_finished st \<or> in_drained st then (Inr None, st)
      else case in_decoder st of
        None \<Rightarrow> (Inr None, st)
      | Some decoder \<Rightarrow>
          (case ie_decode env decoder of
             (Inl x, d) \<Rightarrow> (Inl (DecoderError x), st\<lparr>in_decoder := Some d\<rparr>)
           | (Inr (Some p), d) \<Rightarrow> (Inr (Some p), st\<lparr>in_decoder := Some d, in_finished := is_fin p\<rparr>)
           | (Inr None, d) \<Rightarrow> (Inr None, st\<lparr>in_decoder := Some d, in_drained := True\<rparr>)))"

definition sent_to_app ::
  "bool \<Rightarrow> (('c, 'x, 'e) stream_error + unit) \<Rightarrow> panic + (('c, 'x, 'e) stream_error + unit)" where
  "sent_to_app debug r = (case r of
     Inr _ \<Rightarrow> Inr (Inr ())
   | Inl (Stop c) \<Rightarrow> Inr (Inl (Stop c))
   | Inl (HangUp m) \<Rightarrow> Inr (Inl (HangUp (''decoded items channel is unavailable: '' @ m)))
   | Inl _ \<Rightarrow> and_then (dpanic_or_hangup debug ''decoded items channel is unavailable'') (\<lambda>e. Inr (Inl e)))"

definition send_to_app ::
  "bool \<Rightarrow> ('i, 'd, 'c, 'x, 'q, 'b) in_env \<Rightarrow> ('i, 'd, 'c, 'x, 'e, 'q, 'b) incoming \<Rightarrow>
   panic + ((('c, 'x, 'e) stream_error + unit) poll \<times> ('i, 'd, 'c, 'x, 'e, 'q, 'b) incoming)" where
  "send_to_app debug env st = (case in_sending st of
     None \<Rightarrow> Inr (Ready (Inr ()), st)
   | Some f \<Rightarrow> and_then (send_item_poll (ie_ops env) (ie_ready env) (ie_estimate env) f (in_sender st)) (\<lambda>(r, f1, ch).
       case r of
         Pending \<Rightarrow> Inr (Pending, st\<lparr>in_sender := ch, in_sending := Some f1\<rparr>)
       | Ready r1 \<Rightarrow> and_then (sent_to_app debug r1) (\<lambda>r2. Inr (Ready r2, st\<lparr>in_sender := ch, in_sending := None\<rparr>))))"

text \<open>A turn reads and decodes, and starts to send the item if there is one; a suspended turn goes on with its \<open>send_item\<close>.\<close>

definition in_fetch ::
  "('i, 'd, 'c, 'x, 'q, 'b) in_env \<Rightarrow> ('i, 'd, 'c, 'x, 'e, 'q, 'b) incoming \<Rightarrow>
   (('c, 'x, 'e) stream_error + unit) \<times> ('i, 'd, 'c, 'x, 'e, 'q, 'b) incoming" where
  "in_fetch env st =
     (case (if in_drained st then read_from_stream env st else (Inr (), st)) of
        (Inl e, st1) \<Rightarrow> (Inl e, st1)
      | (Inr _, st1) \<Rightarrow>
          (case in_decode env st1 of
             (Inl e, st2) \<Rightarrow> (Inl e, st2)
           | (Inr None, st2) \<Rightarrow> (Inr (), st2)
           | (Inr (Some item), st2) \<Rightarrow> (Inr (), st2\<lparr>in_sending := Some (send_item item)\<rparr>)))"

definition in_turn ::
  "bool \<Rightarrow> ('i, 'd, 'c, 'x, 'q, 'b) in_env \<Rightarrow> ('i, 'd, 'c, 'x, 'e, 'q, 'b) incoming \<Rightarrow>
   panic + ((('c, 'x, 'e) stream_error + unit) option poll \<times> ('i, 'd, 'c, 'x, 'e, 'q, 'b) incoming)" where
  "in_turn debug env st = (case (if in_sending st = None then in_fetch env st else (Inr (), st)) of
     (Inl e, st1) \<Rightarrow> Inr (Ready (Some (Inl e)), st1)
   | (Inr _, st1) \<Rightarrow> and_then (send_to_app debug env st1) (\<lambda>(r, st2). Inr
       (case r of
          Pending \<Rightarrow> Pending
        | Ready (Inl e) \<Rightarrow> Ready (Some (Inl e))
        | Ready (Inr _) \<Rightarrow> Ready (if in_finished st2 then Some (Inr ()) else None), st2)))"

fun in_io_loop ::
  "nat \<Rightarrow> bool \<Rightarrow> ('i, 'd, 'c, 'x, 'q, 'b) in_env \<Rightarrow> ('i, 'd, 'c, 'x, 'e, 'q, 'b) incoming \<Rightarrow>
   panic + ((('c, 'x, 'e) stream_error + unit) poll option \<times> ('i, 'd, 'c, 'x, 'e, 'q, 'b) incoming)" where
  "in_io_loop 0 debug env st = Inr (None, st)"
| "in_io_loop (Suc n) debug env st = and_then (in_turn debug env st) (\<lambda>(r, st1).
     case r of
       Pending \<Rightarrow> Inr (Some Pending, st1)
     | Ready (Some x) \<Rightarrow> Inr (Some (Ready x), st1)
     | Ready None \<Rightarrow> in_io_loop n debug env st1)"

definition in_close ::
  "bool \<Rightarrow> ('i, 'd, 'c, 'x, 'q, 'b) in_env \<Rightarrow> ('c, 'x, 'e) stream_error \<Rightarrow> ('i, 'd, 'c, 'x, 'e, 'q, 'b) incoming \<Rightarrow>
   panic + ('i, 'd, 'c, 'x, 'e, 'q, 'b) incoming" where
  "in_close debug env err st = (case mt_send err (in_cancel st) of
     (Inl _, o1) \<Rightarrow> Inr (st\<lparr>in_cancel := o1\<rparr>)
   | (Inr _, o1) \<Rightarrow>
       let st1 = st\<lparr>in_cancel := o1\<rparr>; hangup_both = (\<lambda>m. st1\<lparr>in_sender := sender_hangup m (in_sender st1),
             in_backend := ie_hangup env m (in_backend st1)\<rparr>) in
       case err of
         Finish \<Rightarrow> Inr st1
       | Stop c \<Rightarrow> Inr (st1\<lparr>in_backend := ie_terminate env c (in_backend st1)\<rparr>)
       | Reset c \<Rightarrow> Inr (st1\<lparr>in_sender := sender_terminate c (in_sender st1)\<rparr>)
       | DecoderError x \<Rightarrow> Inr (st1\<lparr>in_sender := sender_terminate_due_decoder x (in_sender st1),
             in_backend := ie_terminate_decoder env x (in_backend st1)\<rparr>)
       | ConnectionError \<Rightarrow> Inr (st1\<lparr>in_sender := sender_terminate_due_connection (in_sender st1)\<rparr>)
       | HangUp m \<Rightarrow> Inr (hangup_both m)
       | EncoderError _ \<Rightarrow> and_then (panic_if debug ExplicitPanic) (\<lambda>_. Inr (hangup_both ''received an unexpected encoder error'')))"

text \<open>\<open>read\<close> polls the loop, the cancellation and the application's error in this order and closes with the
  first that is ready; \<open>close\<close> consumes the task, which drops its half of the channel.\<close>

definition in_app_error :: "('c, 'x, 'e) stream_error option poll \<Rightarrow> ('c, 'x, 'e) stream_error poll" where
  "in_app_error r = (case r of
     Ready (Some (Stop c)) \<Rightarrow> Ready (Stop c)
   | Ready (Some (HangUp m)) \<Rightarrow> Ready (HangUp m)
   | Ready None \<Rightarrow> Ready (HangUp ''error channel is unavailable'')
   | _ \<Rightarrow> Pending)"

definition task_select ::
  "(('c, 'x, 'e) stream_error + unit) poll \<Rightarrow> ('c, 'x, 'e) stream_error option poll \<Rightarrow> ('c, 'x, 'e) stream_error poll \<Rightarrow>
   ('c, 'x, 'e) stream_error poll" where
  "task_select io cancel app = (case io of
     Ready (Inr _) \<Rightarrow> Ready Finish
   | Ready (Inl e) \<Rightarrow> Ready e
   | Pending \<Rightarrow>
       (case cancel of
          Ready (Some e) \<Rightarrow> Ready e
        | Ready None \<Rightarrow> Ready (HangUp ''cancellation-signal channel is unavailable'')
        | Pending \<Rightarrow> app))"

definition in_read :: "('i, 'd, 'c, 'x, 'e, 'q, 'b) incoming \<Rightarrow> ('i, 'd, 'c, 'x, 'e, 'q, 'b) incoming" where
  "in_read st = st\<lparr>in_cancel := mt_clone_receiver (mt_clone_sender (in_cancel st))\<rparr>"

definition in_end ::
  "bool \<Rightarrow> ('i, 'd, 'c, 'x, 'q, 'b) in_env \<Rightarrow> ('c, 'x, 'e) stream_error \<Rightarrow> ('i, 'd, 'c, 'x, 'e, 'q, 'b) incoming \<Rightarrow>
   panic + ('i, 'd, 'c, 'x, 'e, 'q, 'b) incoming" where
  "in_end debug env err st = and_then (in_close debug env err st) (\<lambda>st1.
     Inr (st1\<lparr>in_sender := sender_drop (ie_ops env) False (in_sender st1)\<rparr>))"

text \<open>The task and the application's half of its channel: before each poll of the loop, of at most \<open>n\<close> turns, the
  application uses its half; \<open>rf\<close> is its \<open>recv\<close> that is pending.\<close>

definition task_sys ::
  "('i, 'd, 'c, 'x, 'e, 'q, 'b) incoming \<Rightarrow> mt_future option \<Rightarrow> ('i, 'c, 'x, 'e, 'q) stream_sys" where
  "task_sys st rf = \<lparr>ss_chan = in_sender st, ss_sending = in_sending st, ss_receiving = rf, ss_sender = True, ss_receiver = True\<rparr>"

fun in_run ::
  "nat \<Rightarrow> bool \<Rightarrow> ('i, 'd, 'c, 'x, 'q, 'b) in_env \<Rightarrow> ('i, 'c, 'x, 'e) stream_use list list \<Rightarrow>
   ('i, 'd, 'c, 'x, 'e, 'q, 'b) incoming \<Rightarrow> mt_future option \<Rightarrow>
   panic + ((('c, 'x, 'e) stream_error + unit) option \<times> ('i, 'c, 'x, 'e) use_result list \<times> ('i, 'd, 'c, 'x, 'e, 'q, 'b) incoming)" where
  "in_run n debug env [] st rf = Inr (None, [], st)"
| "in_run n debug env (us # uss) st rf =
     and_then (stream_run (ie_ops env) (ie_ready env) (ie_estimate env) us (task_sys st rf)) (\<lambda>(rs, s).
     and_then (in_io_loop n debug env (st\<lparr>in_sender := ss_chan s\<rparr>)) (\<lambda>(r, st1).
       case r of
         Some (Ready x) \<Rightarrow> Inr (Some x, rs, st1)
       | _ \<Rightarrow> and_then (in_run n debug env uss st1 (ss_receiving s)) (\<lambda>(x, rs1, st2). Inr (x, rs @ rs1, st2))))"

subsection \<open>\<open>outgoing.rs\<close>\<close>

record ('n, 'c, 'x, 'e, 'q, 'b) outgoing =
  out_backend :: 'b
  out_encoder :: "'n option"
  out_receiver :: "('c, 'x, 'e, 'q) stream_chan"
  out_cancel :: "('c, 'x, 'e) stream_error oneshot_mt"
  out_finished :: bool
  out_receiving :: "mt_future option"

definition outgoing_new :: "'n \<Rightarrow> 'b \<Rightarrow> ('c, 'x, 'e, 'q) stream_chan \<Rightarrow> ('n, 'c, 'x, 'e, 'q, 'b) outgoing" where
  "outgoing_new encoder backend item_receiver =
     \<lparr>out_backend = backend, out_encoder = Some encoder, out_receiver = item_receiver, out_cancel = mt_channel, out_finished = False,
      out_receiving = None\<rparr>"

definition out_payload_error :: "bool \<Rightarrow> ('c, 'x, 'e) stream_error \<Rightarrow> panic + ('c, 'x, 'e) stream_error" where
  "out_payload_error debug e = (case e of
     HangUp m \<Rightarrow> Inr (HangUp (''items channel is unavailable: '' @ m))
   | Reset c \<Rightarrow> Inr (Reset c)
   | _ \<Rightarrow> dpanic_or_hangup debug ''items channel returned an unexpected error'')"

definition item_received ::
  "bool \<Rightarrow> ('i, 'n, 'c, 'e, 'q, 'b) out_env \<Rightarrow> 'n \<Rightarrow> (('c, 'x, 'e) stream_error + 'i payload option) \<Rightarrow>
   ('n, 'c, 'x, 'e, 'q, 'b) outgoing \<Rightarrow> panic + ((('c, 'x, 'e) stream_error + bool) poll \<times> ('n, 'c, 'x, 'e, 'q, 'b) outgoing)" where
  "item_received debug env encoder r st = (case r of
     Inl e \<Rightarrow> and_then (out_payload_error debug e) (\<lambda>e1. Inr (Ready (Inl e1), st))
   | Inr None \<Rightarrow> Inr (Ready (Inr False), st)
   | Inr (Some p) \<Rightarrow>
       let st1 = st\<lparr>out_finished := is_fin p\<rparr> in
       (case oe_encode env p encoder of
          (Inl e, n) \<Rightarrow> Inr (Ready (Inl (EncoderError e)), st1\<lparr>out_encoder := Some n\<rparr>)
        | (Inr _, n) \<Rightarrow> Inr (Ready (Inr True), st1\<lparr>out_encoder := Some n\<rparr>)))"

definition recv_item ::
  "bool \<Rightarrow> ('i, 'n, 'c, 'e, 'q, 'b) out_env \<Rightarrow> bool \<Rightarrow> ('n, 'c, 'x, 'e, 'q, 'b) outgoing \<Rightarrow>
   panic + ((('c, 'x, 'e) stream_error + bool) poll \<times> ('n, 'c, 'x, 'e, 'q, 'b) outgoing)" where
  "recv_item debug env blocking st =
     (if out_finished st then Inr (Ready (Inr False), st)
      else case out_encoder st of
        None \<Rightarrow> Inr (Ready (Inr False), st)
      | Some encoder \<Rightarrow>
          if blocking then
            and_then (receiver_recv_poll (oe_ops env) (oe_ready env)
                (case out_receiving st of Some f \<Rightarrow> f | None \<Rightarrow> MtStart) (out_receiver st)) (\<lambda>(r, f, ch).
              case r of
                Pending \<Rightarrow> Inr (Pending, st\<lparr>out_receiver := ch, out_receiving := Some f\<rparr>)
              | Ready r1 \<Rightarrow> item_received debug env encoder (case r1 of Inr p \<Rightarrow> Inr (Some p) | Inl e \<Rightarrow> Inl e)
                  (st\<lparr>out_receiver := ch, out_receiving := None\<rparr>))
          else and_then (receiver_try_recv (oe_ops env) (out_receiver st)) (\<lambda>(r, ch).
            item_received debug env encoder r (st\<lparr>out_receiver := ch\<rparr>)))"

fun recv_more ::
  "nat \<Rightarrow> bool \<Rightarrow> ('i, 'n, 'c, 'e, 'q, 'b) out_env \<Rightarrow> ('n, 'c, 'x, 'e, 'q, 'b) outgoing \<Rightarrow>
   panic + ((('c, 'x, 'e) stream_error + unit) poll option \<times> ('n, 'c, 'x, 'e, 'q, 'b) outgoing)" where
  "recv_more 0 debug env st = Inr (None, st)"
| "recv_more (Suc n) debug env st =
     (if out_finished st then Inr (Some (Ready (Inr ())), st)
      else if (case out_encoder st of Some e \<Rightarrow> oe_should_flush env e | None \<Rightarrow> False) then Inr (Some (Ready (Inr ())), st)
      else and_then (recv_item debug env False st) (\<lambda>(r, st1).
        case r of
          Pending \<Rightarrow> Inr (Some Pending, st1)
        | Ready (Inl e) \<Rightarrow> Inr (Some (Ready (Inl e)), st1)
        | Ready (Inr False) \<Rightarrow> Inr (Some (Ready (Inr ())), st1)
        | Ready (Inr True) \<Rightarrow> recv_more n debug env st1))"

definition recv_from_app ::
  "nat \<Rightarrow> bool \<Rightarrow> ('i, 'n, 'c, 'e, 'q, 'b) out_env \<Rightarrow> ('n, 'c, 'x, 'e, 'q, 'b) outgoing \<Rightarrow>
   panic + ((('c, 'x, 'e) stream_error + unit) poll option \<times> ('n, 'c, 'x, 'e, 'q, 'b) outgoing)" where
  "recv_from_app n debug env st =
     (if out_finished st then Inr (Some (Ready (Inr ())), st)
      else and_then (recv_item debug env True st) (\<lambda>(r, st1).
        case r of
          Pending \<Rightarrow> Inr (Some Pending, st1)
        | Ready (Inl e) \<Rightarrow> Inr (Some (Ready (Inl e)), st1)
        | Ready (Inr False) \<Rightarrow> Inr (Some (Ready (Inr ())), st1)
        | Ready (Inr True) \<Rightarrow> recv_more n debug env st1))"

definition out_backend_error :: "('i, 'n, 'c, 'e, 'q, 'b) out_env \<Rightarrow> backend_error \<Rightarrow> ('c, 'x, 'e) stream_error" where
  "out_backend_error env e = (case e of
     StreamStop code \<Rightarrow> Stop (oe_code env code)
   | ErrClosed \<Rightarrow> ConnectionError
   | UnknownConnection \<Rightarrow> ConnectionError
   | _ \<Rightarrow> HangUp ''QUIC backend responded with an unexpected error'')"

definition write_to_stream ::
  "('i, 'n, 'c, 'e, 'q, 'b) out_env \<Rightarrow> ('n, 'c, 'x, 'e, 'q, 'b) outgoing \<Rightarrow>
   (('c, 'x, 'e) stream_error + unit) \<times> ('n, 'c, 'x, 'e, 'q, 'b) outgoing" where
  "write_to_stream env st =
     (let (pr, ch) = priority_once (out_receiver st);
          st1 = st\<lparr>out_receiver := ch, out_backend := (case pr of Some p \<Rightarrow> oe_set_priority env p (out_backend st) | None \<Rightarrow> out_backend st)\<rparr>
      in case out_encoder st1 of
           None \<Rightarrow> (Inr (), st1)
         | Some encoder \<Rightarrow>
             let (call_result, b) = oe_send env encoder (out_backend st1); st2 = st1\<lparr>out_encoder := None, out_backend := b\<rparr>
             in case call_result of
                  Inl _ \<Rightarrow> (Inl (HangUp ''QUIC backend RPC channel is unavailable''), st2)
                | Inr (Inr n) \<Rightarrow> (Inr (), st2\<lparr>out_encoder := Some n\<rparr>)
                | Inr (Inl e) \<Rightarrow> (Inl (out_backend_error env e), st2))"

fun out_io_loop ::
  "nat \<Rightarrow> bool \<Rightarrow> ('i, 'n, 'c, 'e, 'q, 'b) out_env \<Rightarrow> ('n, 'c, 'x, 'e, 'q, 'b) outgoing \<Rightarrow>
   panic + ((('c, 'x, 'e) stream_error + unit) poll option \<times> ('n, 'c, 'x, 'e, 'q, 'b) outgoing)" where
  "out_io_loop 0 debug env st = Inr (None, st)"
| "out_io_loop (Suc n) debug env st = and_then (recv_from_app n debug env st) (\<lambda>(r, st1).
     case r of
       None \<Rightarrow> Inr (None, st1)
     | Some Pending \<Rightarrow> Inr (Some Pending, st1)
     | Some (Ready (Inl e)) \<Rightarrow> Inr (Some (Ready (Inl e)), st1)
     | Some (Ready (Inr _)) \<Rightarrow>
         (case write_to_stream env st1 of
            (Inl e, st2) \<Rightarrow> Inr (Some (Ready (Inl e)), st2)
          | (Inr _, st2) \<Rightarrow> if out_finished st2 then Inr (Some (Ready (Inr ())), st2) else out_io_loop n debug env st2))"

definition out_close ::
  "bool \<Rightarrow> ('i, 'n, 'c, 'e, 'q, 'b) out_env \<Rightarrow> ('c, 'x, 'e) stream_error \<Rightarrow> ('n, 'c, 'x, 'e, 'q, 'b) outgoing \<Rightarrow>
   panic + ('n, 'c, 'x, 'e, 'q, 'b) outgoing" where
  "out_close debug env err st = (case mt_send err (out_cancel st) of
     (Inl _, o1) \<Rightarrow> Inr (st\<lparr>out_cancel := o1\<rparr>)
   | (Inr _, o1) \<Rightarrow>
       let st1 = st\<lparr>out_cancel := o1\<rparr>; hangup_both = (\<lambda>m. st1\<lparr>out_receiver := receiver_hangup m (out_receiver st1),
             out_backend := oe_hangup env m (out_backend st1)\<rparr>) in
       case err of
         Finish \<Rightarrow> Inr st1
       | Stop c \<Rightarrow> Inr (st1\<lparr>out_receiver := receiver_terminate c (out_receiver st1)\<rparr>)
       | Reset c \<Rightarrow> Inr (st1\<lparr>out_backend := oe_terminate env c (out_backend st1)\<rparr>)
       | EncoderError x \<Rightarrow> Inr (st1\<lparr>out_receiver := receiver_terminate_due_encoder x (out_receiver st1),
             out_backend := oe_terminate_encoder env x (out_backend st1)\<rparr>)
       | ConnectionError \<Rightarrow> Inr (st1\<lparr>out_receiver := receiver_terminate_due_connection (out_receiver st1)\<rparr>)
       | HangUp m \<Rightarrow> Inr (hangup_both m)
       | DecoderError _ \<Rightarrow> and_then (panic_if debug ExplicitPanic) (\<lambda>_. Inr (hangup_both ''received an unexpected encoder error'')))"

definition out_app_error :: "('c, 'x, 'e) stream_error option poll \<Rightarrow> ('c, 'x, 'e) stream_error poll" where
  "out_app_error r = (case r of
     Ready (Some (Reset c)) \<Rightarrow> Ready (Reset c)
   | Ready (Some (HangUp m)) \<Rightarrow> Ready (HangUp m)
   | Ready None \<Rightarrow> Ready (HangUp ''error channel is unavailable'')
   | _ \<Rightarrow> Pending)"

definition out_write :: "('n, 'c, 'x, 'e, 'q, 'b) outgoing \<Rightarrow> ('n, 'c, 'x, 'e, 'q, 'b) outgoing" where
  "out_write st = st\<lparr>out_cancel := mt_clone_receiver (mt_clone_sender (out_cancel st))\<rparr>"

definition out_end ::
  "bool \<Rightarrow> ('i, 'n, 'c, 'e, 'q, 'b) out_env \<Rightarrow> ('c, 'x, 'e) stream_error \<Rightarrow> ('n, 'c, 'x, 'e, 'q, 'b) outgoing \<Rightarrow>
   panic + ('n, 'c, 'x, 'e, 'q, 'b) outgoing" where
  "out_end debug env err st = and_then (out_close debug env err st) (\<lambda>st1.
     Inr (st1\<lparr>out_receiver := receiver_drop (oe_ops env) False (out_receiver st1)\<rparr>))"

subsection \<open>What an incoming stream yields\<close>

text \<open>\<open>in_yields env d b xs\<close>: with the decoder in state \<open>d\<close> and the backend in state \<open>b\<close>, the items up to the one
  with \<open>FIN\<close> are \<open>xs\<close>, where the decoder is asked for items until it has none and then given to the
  backend for more data.\<close>

inductive in_yields :: "('i, 'd, 'c, 'x, 'q, 'b) in_env \<Rightarrow> 'd \<Rightarrow> 'b \<Rightarrow> 'i payload list \<Rightarrow> bool"
  for env :: "('i, 'd, 'c, 'x, 'q, 'b) in_env" where
  yields_fin: "ie_decode env d = (Inr (Some p), d1) \<Longrightarrow> is_fin p \<Longrightarrow> in_yields env d b [p]"
| yields_item: "ie_decode env d = (Inr (Some p), d1) \<Longrightarrow> \<not> is_fin p \<Longrightarrow> in_yields env d1 b xs \<Longrightarrow> in_yields env d b (p # xs)"
| yields_more: "ie_decode env d = (Inr None, d1) \<Longrightarrow> ie_recv env d1 b = (Inr (Inr d2), b1) \<Longrightarrow> in_yields env d2 b1 xs \<Longrightarrow>
    in_yields env d b xs"

text \<open>The same with the number of decoder calls, which bounds the turns the loop needs.\<close>

inductive in_todo :: "('i, 'd, 'c, 'x, 'q, 'b) in_env \<Rightarrow> nat \<Rightarrow> 'd \<Rightarrow> 'b \<Rightarrow> 'i payload list \<Rightarrow> bool"
  for env :: "('i, 'd, 'c, 'x, 'q, 'b) in_env" where
  todo_fin: "ie_decode env d = (Inr (Some p), d1) \<Longrightarrow> is_fin p \<Longrightarrow> in_todo env (Suc m) d b [p]"
| todo_item: "ie_decode env d = (Inr (Some p), d1) \<Longrightarrow> \<not> is_fin p \<Longrightarrow> in_todo env m d1 b xs \<Longrightarrow> in_todo env (Suc m) d b (p # xs)"
| todo_more: "ie_decode env d = (Inr None, d1) \<Longrightarrow> ie_recv env d1 b = (Inr (Inr d2), b1) \<Longrightarrow> in_todo env m d2 b1 xs \<Longrightarrow>
    in_todo env (Suc m) d b xs"

lemma in_yields_todo: "in_yields env d b xs \<Longrightarrow> \<exists>m. in_todo env m d b xs"
  by (induction rule: in_yields.induct) (blast intro: in_todo.intros)+

definition in_will :: "('i, 'd, 'c, 'x, 'q, 'b) in_env \<Rightarrow> ('i, 'd, 'c, 'x, 'e, 'q, 'b) incoming \<Rightarrow> nat \<Rightarrow> 'i payload list \<Rightarrow> bool" where
  "in_will env st m xs \<longleftrightarrow> (case in_sending st of
     None \<Rightarrow> \<not> in_finished st \<and> (\<exists>d. in_decoder st = Some d \<and>
       (if in_drained st then \<exists>d1 b1. ie_recv env d (in_backend st) = (Inr (Inr d1), b1) \<and> in_todo env m d1 b1 xs
        else in_todo env m d (in_backend st) xs))
   | Some f \<Rightarrow> \<not> in_drained st \<and> in_finished st = is_fin (sf_item f) \<and> 0 < m \<and>
       (\<exists>d ys. in_decoder st = Some d \<and> xs = sf_item f # ys \<and>
         (if is_fin (sf_item f) then ys = [] else in_todo env (m - 1) d (in_backend st) ys)))"

lemma in_will_channel [simp]: "in_will env (st\<lparr>in_sender := ch\<rparr>) m xs = in_will env st m xs"
  by (cases "in_sending st") (simp_all add: in_will_def cong: if_cong split del: if_split)

lemma in_will_future:
  "in_sending st = Some f \<Longrightarrow> sf_item f1 = sf_item f \<Longrightarrow> in_will env (st\<lparr>in_sending := Some f1\<rparr>) m xs = in_will env st m xs"
  by (simp add: in_will_def cong: if_cong split del: if_split)

subsection \<open>The application's uses of its half\<close>

definition receiving_use :: "('i, 'c, 'x, 'e) stream_use \<Rightarrow> bool" where
  "receiving_use u = (case u of UseRecv \<Rightarrow> True | UseRecvPoll \<Rightarrow> True | UseRecvCancel \<Rightarrow> True | UseTryRecv \<Rightarrow> True
     | UseReceiverError \<Rightarrow> True | _ \<Rightarrow> False)"

fun items_taken :: "('i, 'c, 'x, 'e) use_result list \<Rightarrow> 'i payload list" where
  "items_taken [] = []"
| "items_taken (r # rs) = (case r of ResRecv (Ready (Inr p)) \<Rightarrow> [p] | ResTry (Inr (Some p)) \<Rightarrow> [p] | _ \<Rightarrow> []) @ items_taken rs"

lemma items_taken_append [simp]: "items_taken (rs @ rs') = items_taken rs @ items_taken rs'"
  by (induction rs) simp_all

definition quiet_spec :: "('i, 'c, 'x, 'e) stream_spec \<Rightarrow> bool" where
  "quiet_spec a \<longleftrightarrow> sp_reason a = None \<and> sp_receiver a \<and> (\<forall>p \<in> set (map fst (sp_items a)). \<not> is_fin p)"

lemma spec_use:
  assumes "quiet_spec a" and "receiving_use u" and "spec_step estimate u a = (r, a')"
  shows "spec_allowed u a" and "quiet_spec a'" and "items_taken [r] @ map fst (sp_items a') = map fst (sp_items a)"
  using assms
  by (auto simp: quiet_spec_def receiving_use_def spec_step_def spec_allowed_def spec_recv_def finish_if_def Let_def
      split: stream_use.splits list.splits if_splits) fastforce+

lemma spec_uses:
  assumes "quiet_spec a" and "\<forall>u \<in> set us. receiving_use u" and "spec_run estimate us a = (rs, a')"
  shows "spec_allowed_run estimate us a" and "quiet_spec a'" and "items_taken rs @ map fst (sp_items a') = map fst (sp_items a)"
proof -
  have "spec_allowed_run estimate us a \<and> quiet_spec a' \<and> items_taken rs @ map fst (sp_items a') = map fst (sp_items a)"
    using assms
  proof (induction us arbitrary: a rs)
    case (Cons u us)
    obtain r a1 where r: "spec_step estimate u a = (r, a1)" by fastforce
    obtain rs1 where rs: "spec_run estimate us a1 = (rs1, a')" "rs = r # rs1"
      using Cons.prems(3) r by (auto split: prod.splits)
    note s = spec_use [OF Cons.prems(1) _ r]
    have "spec_allowed_run estimate us a1 \<and> quiet_spec a' \<and> items_taken rs1 @ map fst (sp_items a') = map fst (sp_items a1)"
      using Cons.IH [OF _ _ rs(1)] s(2) Cons.prems(2) by simp
    moreover have "items_taken rs = items_taken [r] @ items_taken rs1" using rs(2) by simp
    ultimately show ?case using s Cons.prems(2) r by (simp del: items_taken.simps)
  qed simp
  then show "spec_allowed_run estimate us a" and "quiet_spec a'" and "items_taken rs @ map fst (sp_items a') = map fst (sp_items a)" by auto
qed

lemma spec_run_append:
  "spec_run estimate (us @ vs) a =
     (fst (spec_run estimate us a) @ fst (spec_run estimate vs (snd (spec_run estimate us a))), snd (spec_run estimate vs (snd (spec_run estimate us a))))"
  by (induction us arbitrary: a) (auto simp: Let_def split: prod.splits)

text \<open>A batch with a \<open>recv\<close> that is polled takes an item when there is one.\<close>

lemma spec_takes:
  assumes a: "quiet_spec a" and us: "\<forall>u \<in> set us. receiving_use u" and sub: "sublist [UseRecv, UseRecvPoll] us"
    and run: "spec_run estimate us a = (rs, a')" and items: "sp_items a \<noteq> []"
  shows "items_taken rs \<noteq> []"
proof -
  obtain ps ss where ps: "us = ps @ [UseRecv, UseRecvPoll] @ ss" using sub by (auto simp: sublist_def)
  obtain rs1 a1 where r1: "spec_run estimate ps a = (rs1, a1)" by fastforce
  note u1 = spec_uses [OF a _ r1]
  have a1: "quiet_spec a1" "items_taken rs1 @ map fst (sp_items a1) = map fst (sp_items a)" using u1(2,3) us ps by auto
  show ?thesis
  proof (cases "items_taken rs1 = []")
    case True
    then have "sp_items a1 \<noteq> []" using a1(2) items by auto
    then obtain p w qs where q: "sp_items a1 = (p, w) # qs" by (cases "sp_items a1") auto
    have "items_taken (fst (spec_run estimate [UseRecv, UseRecvPoll] a1)) = [p]"
      using a1(1) q by (auto simp: spec_step_def quiet_spec_def spec_recv_def Let_def)
    moreover have "rs = rs1 @ fst (spec_run estimate ([UseRecv, UseRecvPoll] @ ss) a1)"
      using run r1 unfolding ps spec_run_append [of _ ps] by simp
    ultimately show ?thesis unfolding spec_run_append [of _ "[UseRecv, UseRecvPoll]"] by simp
  next
    case False
    with run ps r1 show ?thesis by (auto simp: spec_run_append [of _ ps] simp del: spec_run.simps)
  qed
qed

lemma receiving_keeps:
  assumes "stream_run ops ready estimate us s = Inr (rs, s')" and "\<forall>u \<in> set us. receiving_use u"
  shows "ss_sending s' = ss_sending s \<and> ss_sender s' = ss_sender s \<and> ss_receiver s' = ss_receiver s"
  using assms
proof (induction us arbitrary: s rs)
  case (Cons u us)
  then obtain r s1 rs1 where s: "stream_step ops ready estimate u s = Inr (r, s1)" "stream_run ops ready estimate us s1 = Inr (rs1, s')"
    by (auto simp: rust_simps)
  have "receiving_use u" using Cons.prems(2) by simp
  with s(1) have "ss_sending s1 = ss_sending s \<and> ss_sender s1 = ss_sender s \<and> ss_receiver s1 = ss_receiver s"
    by (auto simp: receiving_use_def stream_step_def rust_simps split: stream_use.splits option.splits if_splits)
  with Cons.IH [OF s(2)] Cons.prems(2) show ?case by simp
qed simp

subsection \<open>The incoming task and the application\<close>

context stream_env
begin

definition task_items :: "('i, 'd, 'c, 'x, 'e, 'q, 'b) incoming \<Rightarrow> 'i payload list" where
  "task_items st = map fst (queue (wq_queue (sc_items (in_sender st))))"

definition task_ok :: "('i, 'd, 'c, 'x, 'e, 'q, 'b) incoming \<Rightarrow> mt_future option \<Rightarrow> bool" where
  "task_ok st rf \<longleftrightarrow> sys_ok (task_sys st rf) \<and> quiet_spec (abs_sys (task_sys st rf))"

lemma task_abs:
  "sp_items (abs_sys (task_sys st rf)) = queue (wq_queue (sc_items (in_sender st)))"
  "sp_reason (abs_sys (task_sys st rf)) = mt_container (sc_error (in_sender st))"
  by (simp_all add: abs_sys_def task_sys_def)

lemma batch_ok:
  assumes ok: "task_ok st rf" and us: "\<forall>u \<in> set us. receiving_use u"
  obtains rs s where "stream_run ops ready estimate us (task_sys st rf) = Inr (rs, s)"
    and "task_ok (st\<lparr>in_sender := ss_chan s\<rparr>) (ss_receiving s)"
    and "items_taken rs @ task_items (st\<lparr>in_sender := ss_chan s\<rparr>) = task_items st"
    and "sublist [UseRecv, UseRecvPoll] us \<longrightarrow> task_items st \<noteq> [] \<longrightarrow> items_taken rs \<noteq> []"
proof -
  let ?a = "abs_sys (task_sys st rf)"
  have q: "quiet_spec ?a" and sys: "sys_ok (task_sys st rf)" using ok by (simp_all add: task_ok_def)
  obtain rs a' where r: "spec_run estimate us ?a = (rs, a')" by fastforce
  note u = spec_uses [OF q us r]
  obtain s where s: "stream_run ops ready estimate us (task_sys st rf) = Inr (rs, s)" "abs_sys s = a'" "sys_ok s"
    using run_refines [OF sys u(1)] r by auto
  have "s = task_sys (st\<lparr>in_sender := ss_chan s\<rparr>) (ss_receiving s)"
    using receiving_keeps [OF s(1) us] by (cases s) (simp add: task_sys_def)
  then have st: "task_sys (st\<lparr>in_sender := ss_chan s\<rparr>) (ss_receiving s) = s" by simp
  have "task_ok (st\<lparr>in_sender := ss_chan s\<rparr>) (ss_receiving s)" using s u(2) by (simp add: task_ok_def st)
  moreover have "sp_items a' = queue (wq_queue (sc_items (ss_chan s)))" using s(2) by (auto simp: abs_sys_def)
  ultimately show thesis
    using that [OF s(1)] u(3) spec_takes [OF q us _ r] by (simp add: task_items_def task_abs)
qed

lemma start_ok:
  assumes "task_ok st rf" and "in_sending st = None"
  shows "task_ok (st\<lparr>in_sending := Some (send_item p)\<rparr>) rf"
proof -
  have "refines_step (UseSend p) (task_sys st rf)"
    using assms by (intro step_refines) (simp_all add: task_ok_def spec_allowed_def)
  moreover have "task_sys (st\<lparr>in_sending := Some (send_item p)\<rparr>) rf = (task_sys st rf)\<lparr>ss_sending := Some (send_item p)\<rparr>"
    by (simp add: task_sys_def)
  moreover have "sender_idle (task_sys st rf)" using assms(2) by (simp add: sender_idle_def task_sys_def)
  ultimately have "sys_ok (task_sys (st\<lparr>in_sending := Some (send_item p)\<rparr>) rf)"
    by (auto simp: refines_step_def stream_step_def)
  moreover have "quiet_spec (abs_sys (task_sys (st\<lparr>in_sending := Some (send_item p)\<rparr>) rf)) = quiet_spec (abs_sys (task_sys st rf))"
    by (simp add: quiet_spec_def abs_sys_def task_sys_def)
  ultimately show ?thesis using assms(1) by (simp add: task_ok_def)
qed

lemma send_ok:
  assumes ok: "task_ok st rf" and f: "in_sending st = Some f"
  obtains f1 ch where "send_item_poll ops ready estimate f (in_sender st) = Inr (Pending, f1, ch)" "sf_item f1 = sf_item f"
      "task_ok (st\<lparr>in_sender := ch, in_sending := Some f1\<rparr>) rf"
      "task_items (st\<lparr>in_sender := ch\<rparr>) = task_items st" "task_items st \<noteq> []"
  | f1 ch where "send_item_poll ops ready estimate f (in_sender st) = Inr (Ready (Inr ()), f1, ch)"
      "sys_ok (task_sys (st\<lparr>in_sender := ch, in_sending := None\<rparr>) rf)"
      "task_items (st\<lparr>in_sender := ch\<rparr>) = task_items st @ [sf_item f]"
      "mt_container (sc_error ch) = (if is_fin (sf_item f) then Some Finish else None)"
proof -
  let ?s = "task_sys st rf" and ?a = "abs_sys (task_sys st rf)"
  have sys: "sys_ok ?s" and q: "quiet_spec ?a" using ok by (simp_all add: task_ok_def)
  have fs: "ss_sending ?s = Some f" "ss_chan ?s = in_sender st" using f by (simp_all add: task_sys_def)
  obtain r f1 ch where p: "send_item_poll ops ready estimate f (in_sender st) = Inr (r, f1, ch)"
    using send_poll_refines [OF sys] fs by (auto simp: refines_step_def stream_step_def rust_simps)
  let ?s' = "?s\<lparr>ss_chan := ch, ss_sending := (case r of Pending \<Rightarrow> Some f1 | Ready _ \<Rightarrow> None)\<rparr>"
  have ref: "ResSend r = fst (spec_step estimate UseSendPoll ?a)" "abs_sys ?s' = snd (spec_step estimate UseSendPoll ?a)" "sys_ok ?s'"
    using send_poll_refines [OF sys] fs p by (auto simp: refines_step_def stream_step_def)
  have sp: "sp_sending ?a = Some (sf_item f)" "sp_reason ?a = None" using fs q by (simp_all add: abs_sys_def quiet_spec_def)
  let ?w = "payload_estimate estimate (sf_item f)"
  have items: "task_items (st\<lparr>in_sender := ch\<rparr>) = map fst (sp_items (abs_sys ?s'))" "task_items st = map fst (sp_items ?a)"
    by (simp_all add: task_items_def abs_sys_def task_sys_def)
  show thesis
  proof (cases "has_capacity (sum_list (map snd (sp_items ?a))) ?w (sp_bound ?a)")
    case True
    with ref(1) sp have r: "r = Ready (Inr ())" by (simp add: spec_step_def spec_send_def Let_def)
    have "task_items (st\<lparr>in_sender := ch\<rparr>) = task_items st @ [sf_item f]"
      using ref(2) True sp unfolding items by (simp add: spec_step_def spec_send_def finish_if_def spec_close_def Let_def)
    moreover have "mt_container (sc_error ch) = sp_reason (abs_sys ?s')" by (simp add: abs_sys_def)
    then have "mt_container (sc_error ch) = (if is_fin (sf_item f) then Some Finish else None)"
      using ref(2) True sp by (simp add: spec_step_def spec_send_def finish_if_def spec_close_def first_reason_def Let_def)
    moreover have "sys_ok (task_sys (st\<lparr>in_sender := ch, in_sending := None\<rparr>) rf)"
      using ref(3) by (simp add: r task_sys_def)
    ultimately show thesis using that(2) p r by blast
  next
    case False
    with ref(1) sp have r: "r = Pending" by (simp add: spec_step_def spec_send_def Let_def)
    have a': "abs_sys ?s' = ?a" using ref(2) False sp by (simp add: spec_step_def spec_send_def Let_def)
    have "sp_items ?a \<noteq> []" using False by (auto simp: has_capacity_def)
    moreover have "task_ok (st\<lparr>in_sender := ch, in_sending := Some f1\<rparr>) rf"
      using ref(3) a' q by (simp add: r task_ok_def task_sys_def)
    moreover have "sf_item f1 = sf_item f"
      using arg_cong [OF a', of sp_sending] f by (simp add: r abs_sys_def task_sys_def)
    ultimately show thesis using that(1) p r items a' by (simp add: items)
  qed
qed

definition task_done :: "('i, 'd, 'c, 'x, 'e, 'q, 'b) incoming \<Rightarrow> ('i, 'd, 'c, 'x, 'e, 'q, 'b) incoming \<Rightarrow> bool" where
  "task_done st st' \<longleftrightarrow> mt_container (sc_error (in_sender st')) = Some Finish \<and> mt_receivers (sc_error (in_sender st')) \<noteq> 0 \<and>
     valid (wq_queue (sc_items (in_sender st'))) \<and> senders (wq_queue (sc_items (in_sender st'))) = 1 \<and> in_cancel st' = in_cancel st"

text \<open>A step of the task that does not end it: it has passed on the items before \<open>ys\<close>, and its potential, twice the
  decoder calls that are left and the queued items, has not grown; on an empty queue it is smaller.\<close>

definition task_moves :: "('i, 'd, 'c, 'x, 'q, 'b) in_env \<Rightarrow> mt_future option \<Rightarrow> ('i, 'd, 'c, 'x, 'e, 'q, 'b) incoming \<Rightarrow> nat \<Rightarrow> 'i payload list \<Rightarrow>
  ('i, 'd, 'c, 'x, 'e, 'q, 'b) incoming \<Rightarrow> nat \<Rightarrow> 'i payload list \<Rightarrow> bool" where
  "task_moves env rf st m xs st' m' ys \<longleftrightarrow> task_ok st' rf \<and> in_cancel st' = in_cancel st \<and> in_will env st' m' ys \<and>
     (\<exists>zs. xs = zs @ ys \<and> task_items st' = task_items st @ zs) \<and>
     2 * m' + length (task_items st') \<le> 2 * m + length (task_items st) \<and>
     (task_items st = [] \<longrightarrow> 2 * m' + length (task_items st') < 2 * m + length (task_items st))"

lemma task_moves_trans:
  assumes "task_moves env rf st m xs st1 m1 ys" and "task_moves env rf st1 m1 ys st2 m2 zs"
  shows "task_moves env rf st m xs st2 m2 zs"
  using assms unfolding task_moves_def by auto

definition turn_result :: "('i, 'd, 'c, 'x, 'q, 'b) in_env \<Rightarrow> mt_future option \<Rightarrow> ('i, 'd, 'c, 'x, 'e, 'q, 'b) incoming \<Rightarrow> nat \<Rightarrow> 'i payload list \<Rightarrow>
  (('c, 'x, 'e) stream_error + unit) option \<Rightarrow> ('i, 'd, 'c, 'x, 'e, 'q, 'b) incoming \<Rightarrow> bool" where
  "turn_result env rf st m xs r st' = (case r of
     Some x \<Rightarrow> x = Inr () \<and> task_done st st' \<and> task_items st' = task_items st @ xs
   | None \<Rightarrow> \<exists>m' ys. task_moves env rf st m xs st' m' ys)"

lemma turn_result_cong:
  "task_items st1 = task_items st \<Longrightarrow> in_cancel st1 = in_cancel st \<Longrightarrow>
   turn_result env rf st1 m xs r st' = turn_result env rf st m xs r st'"
  by (simp add: turn_result_def task_done_def task_moves_def cong: option.case_cong)

lemma turn_result_trans:
  assumes mv: "task_moves env rf st m xs st1 m1 ys" and r: "turn_result env rf st1 m1 ys x st2"
  shows "turn_result env rf st m xs x st2"
proof (cases x)
  case None
  with r obtain m2 zs where "task_moves env rf st1 m1 ys st2 m2 zs" by (auto simp: turn_result_def)
  from task_moves_trans [OF mv this] None show ?thesis by (auto simp: turn_result_def)
next
  case (Some y)
  have "in_cancel st1 = in_cancel st" "task_items st1 @ ys = task_items st @ xs" using mv by (auto simp: task_moves_def)
  with Some r show ?thesis by (simp add: turn_result_def task_done_def)
qed

lemma turn_send:
  assumes env: "ie_ops env = ops" "ie_ready env = ready" "ie_estimate env = estimate"
    and ok: "task_ok st rf" and f: "in_sending st = Some f" and w: "in_will env st m xs"
  shows "\<exists>r st'. in_turn debug env st = Inr (r, st') \<and>
    turn_result env rf st m xs (case r of Pending \<Rightarrow> None | Ready x \<Rightarrow> x) st'"
proof (rule send_ok [OF ok f])
  fix f1 ch
  assume p: "send_item_poll ops ready estimate f (in_sender st) = Inr (Pending, f1, ch)" "sf_item f1 = sf_item f"
    "task_ok (st\<lparr>in_sender := ch, in_sending := Some f1\<rparr>) rf" "task_items (st\<lparr>in_sender := ch\<rparr>) = task_items st" "task_items st \<noteq> []"
  let ?st = "st\<lparr>in_sender := ch, in_sending := Some f1\<rparr>"
  have "in_turn debug env st = Inr (Pending, ?st)" using p(1) f env by (simp add: in_turn_def send_to_app_def)
  moreover have "task_moves env rf st m xs ?st m xs"
    using p w in_will_future [of "st\<lparr>in_sender := ch\<rparr>" f f1] f by (simp add: task_moves_def task_items_def)
  ultimately show ?thesis by (auto simp: turn_result_def)
next
  fix f1 ch
  assume p: "send_item_poll ops ready estimate f (in_sender st) = Inr (Ready (Inr ()), f1, ch)"
    "sys_ok (task_sys (st\<lparr>in_sender := ch, in_sending := None\<rparr>) rf)" "task_items (st\<lparr>in_sender := ch\<rparr>) = task_items st @ [sf_item f]"
    "mt_container (sc_error ch) = (if is_fin (sf_item f) then Some Finish else None)"
  let ?st = "st\<lparr>in_sender := ch, in_sending := None\<rparr>"
  have items: "task_items ?st = task_items st @ [sf_item f]" using p(3) by (simp add: task_items_def)
  have turn: "in_turn debug env st = Inr (Ready (if in_finished st then Some (Inr ()) else None), ?st)"
    using p(1) f env by (simp add: in_turn_def send_to_app_def sent_to_app_def)
  have fin: "in_finished st = is_fin (sf_item f)" "0 < m" using w f by (simp_all add: in_will_def)
  show ?thesis
  proof (cases "is_fin (sf_item f)")
    case True
    then have "xs = [sf_item f]" using w f by (simp add: in_will_def)
    moreover have "mt_receivers (sc_error ch) \<noteq> 0" "valid (wq_queue (sc_items ch))" "senders (wq_queue (sc_items ch)) = 1"
      using p(2) by (simp_all add: sys_ok_def task_sys_def Let_def)
    ultimately show ?thesis using turn fin True p(4) items by (simp add: turn_result_def task_done_def)
  next
    case False
    have q: "quiet_spec (abs_sys (task_sys st rf))" using ok by (simp add: task_ok_def)
    have "set (map fst (queue (wq_queue (sc_items ch)))) = set (task_items st) \<union> {sf_item f}"
      using p(3) by (simp add: task_items_def)
    then have "task_ok ?st rf"
      using p(2,4) q False by (auto simp: task_ok_def quiet_spec_def abs_sys_def task_sys_def task_items_def)
    moreover obtain ys where "xs = sf_item f # ys" "in_will env ?st (m - 1) ys" using w f False by (auto simp: in_will_def)
    ultimately have "task_moves env rf st m xs ?st (m - 1) ys" using items fin(2) by (simp add: task_moves_def) linarith
    then show ?thesis using turn fin False by (auto simp: turn_result_def)
  qed
qed

lemma turn_ok:
  assumes env: "ie_ops env = ops" "ie_ready env = ready" "ie_estimate env = estimate"
    and ok: "task_ok st rf" and w: "in_will env st m xs"
  shows "\<exists>r st'. in_turn debug env st = Inr (r, st') \<and>
    turn_result env rf st m xs (case r of Pending \<Rightarrow> None | Ready x \<Rightarrow> x) st'"
proof (cases "in_sending st")
  case (Some f)
  then show ?thesis by (rule turn_send [OF env ok _ w])
next
  case None
  obtain d0 where d0: "in_decoder st = Some d0" and fin: "\<not> in_finished st" using w None by (auto simp: in_will_def)
  have "\<exists>d b. in_todo env m d b xs \<and> (if in_drained st then read_from_stream env st else (Inr (), st)) =
       (Inr (), st\<lparr>in_drained := False, in_backend := b, in_decoder := Some d\<rparr>)"
  proof (cases "in_drained st")
    case True
    then show ?thesis using w None d0 fin by (auto simp: in_will_def read_from_stream_def) blast
  next
    case False
    then have "st\<lparr>in_drained := False, in_backend := in_backend st, in_decoder := Some d0\<rparr> = st" using d0 by (cases st) simp
    moreover have "in_todo env m d0 (in_backend st) xs" using False w None d0 by (simp add: in_will_def)
    ultimately show ?thesis using False by metis
  qed
  then obtain d b where td: "in_todo env m d b xs"
    and read: "(if in_drained st then read_from_stream env st else (Inr (), st)) =
       (Inr (), st\<lparr>in_drained := False, in_backend := b, in_decoder := Some d\<rparr>)" by blast
  let ?st = "st\<lparr>in_drained := False, in_backend := b, in_decoder := Some d\<rparr>"
  have send: "\<exists>r st'. in_turn debug env st = Inr (r, st') \<and>
      turn_result env rf st m xs (case r of Pending \<Rightarrow> None | Ready x \<Rightarrow> x) st'"
    if st1: "st1 = ?st\<lparr>in_decoder := Some d1, in_finished := is_fin p, in_sending := Some (send_item p)\<rparr>"
      and dec: "ie_decode env d = (Inr (Some p), d1)" and will: "in_will env st1 m xs" for st1 d1 p
  proof -
    have "in_fetch env st = (Inr (), st1)" using read dec fin st1 by (simp add: in_fetch_def in_decode_def)
    then have "in_turn debug env st = in_turn debug env st1" using None st1 by (simp add: in_turn_def)
    moreover have "task_ok st1 rf"
      using start_ok [OF ok None, of p] by (simp add: st1 task_ok_def task_sys_def)
    moreover have "turn_result env rf st1 m xs r st' = turn_result env rf st m xs r st'" for r st'
      by (rule turn_result_cong) (simp_all add: st1 task_items_def)
    ultimately show ?thesis
      using turn_send [OF env _ _ will, of rf "send_item p" debug] st1 by simp
  qed
  show ?thesis using td
  proof cases
    case (todo_fin p d1 k)
    then show ?thesis by (intro send [OF refl, of p d1]) (simp_all add: in_will_def send_item_def)
  next
    case (todo_item p d1 k ys)
    then show ?thesis by (intro send [OF refl, of p d1]) (simp_all add: in_will_def send_item_def)
  next
    case (todo_more d1 d2 b1 k)
    let ?st1 = "?st\<lparr>in_decoder := Some d1, in_drained := True\<rparr>"
    have "in_fetch env st = (Inr (), ?st1)" using read todo_more(2) fin by (simp add: in_fetch_def in_decode_def)
    then have "in_turn debug env st = Inr (Ready None, ?st1)" using None fin by (simp add: in_turn_def send_to_app_def)
    moreover have "task_moves env rf st m xs ?st1 k xs"
      using ok todo_more None fin by (simp add: task_moves_def task_ok_def task_sys_def task_items_def in_will_def)
    ultimately show ?thesis by (auto simp: turn_result_def)
  qed
qed

lemma loop_ok:
  assumes env: "ie_ops env = ops" "ie_ready env = ready" "ie_estimate env = estimate"
  shows "task_ok st rf \<Longrightarrow> in_will env st m xs \<Longrightarrow> \<exists>r st'. in_io_loop (Suc n) debug env st = Inr (r, st') \<and>
    turn_result env rf st m xs (case r of Some (Ready x) \<Rightarrow> Some x | _ \<Rightarrow> None) st'"
proof (induction n arbitrary: st m xs)
  case 0
  from turn_ok [OF env 0, of debug] show ?case
    by (fastforce split: poll.splits option.splits)
next
  case (Suc n)
  from turn_ok [OF env Suc.prems, of debug] obtain r st1 where t: "in_turn debug env st = Inr (r, st1)"
    "turn_result env rf st m xs (case r of Pending \<Rightarrow> None | Ready x \<Rightarrow> x) st1" by blast
  show ?case
  proof (cases "r = Ready None")
    case True
    with t(2) obtain m1 ys where mv: "task_moves env rf st m xs st1 m1 ys" by (auto simp: turn_result_def)
    then have "task_ok st1 rf" "in_will env st1 m1 ys" by (simp_all add: task_moves_def)
    from Suc.IH [OF this] obtain r2 st2 where r2: "in_io_loop (Suc n) debug env st1 = Inr (r2, st2)"
      "turn_result env rf st1 m1 ys (case r2 of Some (Ready x) \<Rightarrow> Some x | _ \<Rightarrow> None) st2" by blast
    have "turn_result env rf st m xs (case r2 of Some (Ready x) \<Rightarrow> Some x | _ \<Rightarrow> None) st2"
      by (rule turn_result_trans [OF mv r2(2)])
    moreover have "in_io_loop (Suc (Suc n)) debug env st = Inr (r2, st2)" using t(1) True r2(1) by simp
    ultimately show ?thesis by blast
  next
    case False
    with t show ?thesis by (cases r) (auto split: option.splits)
  qed
qed

lemma in_will_pos: "in_will env st m xs \<Longrightarrow> 0 < m"
  by (auto simp: in_will_def split: option.splits if_splits elim: in_todo.cases)

lemma run_ok:
  assumes env: "ie_ops env = ops" "ie_ready env = ready" "ie_estimate env = estimate" and n: "0 < n"
  shows "task_ok st rf \<Longrightarrow> in_will env st m xs \<Longrightarrow> \<forall>us \<in> set uss. \<forall>u \<in> set us. receiving_use u \<Longrightarrow>
    2 * m + length (task_items st) \<le> length (filter (sublist [UseRecv, UseRecvPoll]) uss) \<Longrightarrow>
    \<exists>rs st'. in_run n debug env uss st rf = Inr (Some (Inr ()), rs, st') \<and>
      items_taken rs @ task_items st' = task_items st @ xs \<and> task_done st st'"
proof (induction uss arbitrary: st rf m xs)
  case Nil
  then show ?case using in_will_pos by fastforce
next
  case (Cons us uss)
  have us: "\<forall>u \<in> set us. receiving_use u" using Cons.prems(3) by simp
  obtain rs s where b: "stream_run ops ready estimate us (task_sys st rf) = Inr (rs, s)"
      "task_ok (st\<lparr>in_sender := ss_chan s\<rparr>) (ss_receiving s)"
      "items_taken rs @ task_items (st\<lparr>in_sender := ss_chan s\<rparr>) = task_items st"
      "sublist [UseRecv, UseRecvPoll] us \<longrightarrow> task_items st \<noteq> [] \<longrightarrow> items_taken rs \<noteq> []"
    by (rule batch_ok [OF Cons.prems(1) us])
  let ?st = "st\<lparr>in_sender := ss_chan s\<rparr>"
  have w: "in_will env ?st m xs" using Cons.prems(2) by simp
  obtain k where k: "n = Suc k" using n by (cases n) auto
  obtain r st1 where l: "in_io_loop n debug env ?st = Inr (r, st1)"
    "turn_result env (ss_receiving s) ?st m xs (case r of Some (Ready x) \<Rightarrow> Some x | _ \<Rightarrow> None) st1"
    using loop_ok [OF env b(2) w, of k debug] k by blast
  note run = b(1) [folded env] l(1)
  show ?case
  proof (cases "\<exists>x. r = Some (Ready x)")
    case True
    with l(2) run b(3) show ?thesis by (auto simp: turn_result_def task_done_def)
  next
    case False
    then have "(case r of Some (Ready x) \<Rightarrow> Some x | _ \<Rightarrow> None) = None" by (auto split: option.splits poll.splits)
    with l(2) obtain m1 ys where mv: "task_moves env (ss_receiving s) ?st m xs st1 m1 ys" by (auto simp: turn_result_def)
    have len: "length (items_taken rs) + length (task_items ?st) = length (task_items st)"
      using arg_cong [OF b(3), of length] by simp
    have "2 * m1 + length (task_items st1) \<le> length (filter (sublist [UseRecv, UseRecvPoll]) uss)"
    proof (cases "sublist [UseRecv, UseRecvPoll] us")
      case sub: True
      have "2 * m1 + length (task_items st1) < 2 * m + length (task_items st)"
      proof (cases "task_items st = []")
        case True
        then have "task_items ?st = []" using b(3) by simp
        with mv len show ?thesis unfolding task_moves_def by linarith
      next
        case False
        then have "items_taken rs \<noteq> []" using b(4) sub by simp
        then have "0 < length (items_taken rs)" by simp
        with mv len show ?thesis unfolding task_moves_def by linarith
      qed
      with Cons.prems(4) sub show ?thesis by simp
    qed (use mv len Cons.prems(4) in \<open>simp add: task_moves_def\<close>)
    then obtain rs1 st2 where r2: "in_run n debug env uss st1 (ss_receiving s) = Inr (Some (Inr ()), rs1, st2)"
        "items_taken rs1 @ task_items st2 = task_items st1 @ ys" "task_done st1 st2"
      using Cons.IH [of st1 "ss_receiving s" m1 ys] mv Cons.prems(3) unfolding task_moves_def by auto
    obtain zs where "xs = zs @ ys" "task_items st1 = task_items ?st @ zs" "in_cancel st1 = in_cancel st"
      using mv by (auto simp: task_moves_def)
    with r2 run b(3) False show ?thesis
      by (auto simp: task_done_def split: option.splits poll.splits)
  qed
qed

end

subsection \<open>Closing\<close>

text \<open>The reason the application sees once the task is gone and its half of the channel dropped.\<close>

definition in_seen :: "('i, 'd, 'c, 'x, 'e, 'q, 'b) incoming \<Rightarrow> ('c, 'x, 'e) stream_error option" where
  "in_seen st = mt_container (sc_error (in_sender st))"

definition out_seen :: "('n, 'c, 'x, 'e, 'q, 'b) outgoing \<Rightarrow> ('c, 'x, 'e) stream_error option" where
  "out_seen st = mt_container (sc_error (out_receiver st))"

text \<open>The core sends a reason on the cancellation sender that \<open>read\<close> returned.\<close>

definition in_cancelled :: "('c, 'x, 'e) stream_error \<Rightarrow> ('i, 'd, 'c, 'x, 'e, 'q, 'b) incoming \<Rightarrow> ('i, 'd, 'c, 'x, 'e, 'q, 'b) incoming" where
  "in_cancelled e st = st\<lparr>in_cancel := snd (mt_send e (in_cancel st))\<rparr>"

lemma sender_drop_seen:
  assumes "mt_receivers (sc_error ch) \<noteq> 0"
  shows "mt_container (sc_error (sender_drop ops p ch)) = first_reason (sender_drop_reason p) (mt_container (sc_error ch))"
    and "mt_container (sc_error (receiver_drop ops p ch)) = first_reason (receiver_drop_reason p) (mt_container (sc_error ch))"
  using assms by (simp_all add: sender_drop_def receiver_drop_def close_eq Let_def)

lemma in_close_eq:
  assumes "mt_receivers (in_cancel st) \<noteq> 0" and "mt_container (in_cancel st) = Some e0"
  shows "in_close debug env e st = Inr st"
  using assms by (simp add: in_close_def mt_send_reason)

lemma out_close_eq:
  assumes "mt_receivers (out_cancel st) \<noteq> 0" and "mt_container (out_cancel st) = Some e0"
  shows "out_close debug env e st = Inr st"
  using assms by (simp add: out_close_def mt_send_reason)

text \<open>Who is told when the loop of an incoming stream ends by itself, or the application's error ends it.\<close>

lemma in_end_reason:
  assumes "mt_receivers (in_cancel st) \<noteq> 0" and "mt_container (in_cancel st) = None"
    and "mt_receivers (sc_error (in_sender st)) \<noteq> 0" and "in_seen st = None" and "in_end debug env e st = Inr st'"
  shows "in_seen st' = Some (case e of
      Finish \<Rightarrow> sender_drop_reason False | Stop c \<Rightarrow> sender_drop_reason False | EncoderError x \<Rightarrow> HangUp ''received an unexpected encoder error'' | _ \<Rightarrow> e)"
    and "in_backend st' = (case e of
      Stop c \<Rightarrow> ie_terminate env c (in_backend st) | DecoderError x \<Rightarrow> ie_terminate_decoder env x (in_backend st)
    | HangUp m \<Rightarrow> ie_hangup env m (in_backend st) | EncoderError x \<Rightarrow> ie_hangup env ''received an unexpected encoder error'' (in_backend st)
    | _ \<Rightarrow> in_backend st)"
  using assms
  by (auto simp: in_end_def in_close_def mt_send_reason in_seen_def sender_drop_seen close_eq sender_terminate_def sender_hangup_def
      sender_terminate_due_decoder_def sender_terminate_due_connection_def Let_def rust_simps split: stream_error.splits)

subsection \<open>Properties\<close>

definition example_in_env :: "(nat, nat payload list, nat, unit, (nat payload \<times> nat) unbounded, nat payload list list) in_env" where
  "example_in_env = \<lparr>ie_recv = (\<lambda>d b. case b of [] \<Rightarrow> (Inl NoResponse, b) | xs # b' \<Rightarrow> (Inr (Inr xs), b')),
     ie_terminate = (\<lambda>_ b. b), ie_terminate_decoder = (\<lambda>_ b. b), ie_hangup = (\<lambda>_ b. b),
     ie_decode = (\<lambda>d. case d of [] \<Rightarrow> (Inr None, []) | x # xs \<Rightarrow> (Inr (Some x), xs)),
     ie_ready = (<), ie_estimate = (\<lambda>_. 1), ie_code = (\<lambda>n. n), ie_ops = unbounded_ops\<rparr>"

lemma example_stream: "stream_env ub_deque unbounded_ops unbounded_valid unbounded_senders (<) (\<lambda>_ :: nat. 1)"
  by unfold_locales (simp_all add: wakes_all_def usize_max_def)

context stream_env
begin

lemma finished_end:
  assumes "task_done st0 st" and "mt_receivers (in_cancel st0) \<noteq> 0" and "mt_container (in_cancel st0) = None" and "ie_ops env = ops"
  shows "\<exists>st'. in_end debug env Finish st = Inr st' \<and> in_seen st' = Some Finish \<and> in_backend st' = in_backend st \<and>
    queue (wq_queue (sc_items (in_sender st'))) = queue (wq_queue (sc_items (in_sender st)))"
proof -
  note d = assms(1) [unfolded task_done_def]
  let ?ch = "sender_drop ops False (in_sender st)"
  have "in_close debug env Finish st = Inr (st\<lparr>in_cancel := set_reason Finish (in_cancel st)\<rparr>)"
    using d assms(2,3) by (simp add: in_close_def mt_send_reason)
  then have "in_end debug env Finish st = Inr (st\<lparr>in_cancel := set_reason Finish (in_cancel st), in_sender := ?ch\<rparr>)"
    using assms(4) by (simp add: in_end_def)
  moreover have "mt_container (sc_error ?ch) = Some Finish" using d by (simp add: sender_drop_seen first_reason_def)
  moreover have "queue (wq_queue (sc_items ?ch)) = queue (wq_queue (sc_items (in_sender st)))"
    using d drop_sender_keeps [of "wq_queue (sc_items (in_sender st))"]
    by (simp add: sender_drop_def weighted_mt_drop_sender_def close_eq Let_def)
  ultimately show ?thesis by (simp add: in_seen_def)
qed

lemma task_new:
  fixes bound :: nat and conn_establish :: "unit oneshot_mt" and conn_warn :: "nat oneshot_mt"
  assumes "queue q = []" and "\<not> qo_is_closed ops q" and "valid q" and "senders q = 1"
    and "ie_recv env decoder backend = (Inr (Inr d), b)" and "in_todo env m d b xs"
  defines "st \<equiv> in_read (incoming_new decoder backend (stream_channel q bound conn_establish conn_warn))"
  shows "task_ok st None" and "in_will env st m xs" and "task_items st = []"
    and "mt_receivers (in_cancel st) \<noteq> 0" and "mt_container (in_cancel st) = None"
proof -
  note o = open_ok [OF assms(1-4), of bound conn_establish conn_warn]
  have s: "task_sys st None = stream_open q bound conn_establish conn_warn"
    by (simp add: task_sys_def st_def in_read_def incoming_new_def stream_open_def)
  show "task_ok st None" unfolding task_ok_def s o(2) using o(1) by (simp add: quiet_spec_def spec_open_def)
  show "in_will env st m xs" using assms(5,6) by (auto simp: in_will_def st_def in_read_def incoming_new_def)
  show "task_items st = []" using assms(1)
    by (simp add: task_items_def st_def in_read_def incoming_new_def stream_channel_def weighted_mt_channel_def)
  show "mt_receivers (in_cancel st) \<noteq> 0" "mt_container (in_cancel st) = None"
    by (simp_all add: st_def in_read_def incoming_new_def mt_channel_def mt_clone_sender_def mt_clone_receiver_def)
qed

end

text \<open>C23: an incoming stream is delivered. Let the backend and the decoder together yield the items \<open>xs\<close> up to the one
  with \<open>FIN\<close>, and let the application use only the receiving operations of its half, in any batches between the
  polls of the task. There is a number \<open>k\<close> such that, once \<open>k\<close> of the batches contain a \<open>recv\<close> that is polled, the
  loop has returned successfully, without a panic: the items the application has taken, followed by those in the queue,
  are exactly \<open>xs\<close>. The select then closes with \<open>Finish\<close>: the application sees the reason \<open>Finish\<close>, the backend is told
  nothing, and the queued items stay.\<close>

theorem incoming_delivers:
  fixes env :: "('i, 'd, 'c, 'x, 'q, 'b) in_env" and app :: "('c, 'x, 'e) stream_error poll"
  assumes "stream_env queue (ie_ops env) valid senders (ie_ready env) (ie_estimate env)"
    and "queue q = []" and "\<not> qo_is_closed (ie_ops env) q" and "valid q" and "senders q = 1"
    and "ie_recv env decoder backend = (Inr (Inr d), b)" and "in_yields env d b xs" and "0 < n"
  shows "\<exists>k. \<forall>uss. (\<forall>us \<in> set uss. \<forall>u \<in> set us. receiving_use u) \<and> k \<le> length (filter (sublist [UseRecv, UseRecvPoll]) uss) \<longrightarrow>
    (\<exists>rs st e st'. in_run n debug env uss (in_read (incoming_new decoder backend (stream_channel q bound conn_establish conn_warn))) None =
        Inr (Some (Inr ()), rs, st) \<and>
      items_taken rs @ map fst (queue (wq_queue (sc_items (in_sender st)))) = xs \<and>
      task_select (Ready (Inr ())) cancel app = Ready e \<and>
      in_end debug env e st = Inr st' \<and> in_seen st' = Some Finish \<and> in_backend st' = in_backend st \<and>
      queue (wq_queue (sc_items (in_sender st'))) = queue (wq_queue (sc_items (in_sender st))))"
proof -
  let ?st = "in_read (incoming_new decoder backend (stream_channel q bound conn_establish conn_warn)) ::
    ('i, 'd, 'c, 'x, 'e, 'q, 'b) incoming"
  obtain m where m: "in_todo env m d b xs" using in_yields_todo [OF assms(7)] by blast
  have new: "stream_env.task_ok queue (ie_ops env) valid senders (ie_estimate env) ?st None" "in_will env ?st m xs"
    "stream_env.task_items queue ?st = []" "mt_receivers (in_cancel ?st) \<noteq> 0" "mt_container (in_cancel ?st) = None"
    by (rule stream_env.task_new [OF assms(1-6) m])+
  have sel: "task_select (Ready (Inr ())) cancel app = Ready Finish" by (simp add: task_select_def)
  have run: "\<exists>rs st. in_run n debug env uss ?st None = Inr (Some (Inr ()), rs, st) \<and>
      items_taken rs @ map fst (queue (wq_queue (sc_items (in_sender st)))) = xs \<and> stream_env.task_done valid senders ?st st"
    if "\<forall>us \<in> set uss. \<forall>u \<in> set us. receiving_use u" "2 * m \<le> length (filter (sublist [UseRecv, UseRecvPoll]) uss)" for uss
  proof -
    note items = stream_env.task_items_def [OF assms(1)]
    have "2 * m + length (stream_env.task_items queue ?st) \<le> length (filter (sublist [UseRecv, UseRecvPoll]) uss)"
      using that(2) new(3) by simp
    from stream_env.run_ok [OF assms(1) refl refl refl assms(8) new(1,2) that(1) this, of debug] new(3)
    show ?thesis unfolding items by (metis append_Nil list.map_disc_iff)
  qed
  show ?thesis
  proof (intro exI [of _ "2 * m"] allI impI, elim conjE)
    fix uss :: "('i, 'c, 'x, 'e) stream_use list list"
    assume "\<forall>us \<in> set uss. \<forall>u \<in> set us. receiving_use u" "2 * m \<le> length (filter (sublist [UseRecv, UseRecvPoll]) uss)"
    from run [OF this] obtain rs st where r: "in_run n debug env uss ?st None = Inr (Some (Inr ()), rs, st)"
      "items_taken rs @ map fst (queue (wq_queue (sc_items (in_sender st)))) = xs" "stream_env.task_done valid senders ?st st" by blast
    with sel stream_env.finished_end [OF assms(1) r(3) new(4,5) refl, of debug] show "\<exists>rs st e st'. in_run n debug env uss ?st None = Inr (Some (Inr ()), rs, st) \<and>
      items_taken rs @ map fst (queue (wq_queue (sc_items (in_sender st)))) = xs \<and>
      task_select (Ready (Inr ())) cancel app = Ready e \<and>
      in_end debug env e st = Inr st' \<and> in_seen st' = Some Finish \<and> in_backend st' = in_backend st \<and>
      queue (wq_queue (sc_items (in_sender st'))) = queue (wq_queue (sc_items (in_sender st)))" by blast
  qed
qed

theorem incoming_delivers_witness:
  "\<exists>k rs st e st'. in_run 1 True example_in_env (replicate k [UseRecv, UseRecvPoll])
      (in_read (incoming_new [] [[Item 1, Item 2], [], [Last 3]] (stream_channel unbounded_channel 1 mt_channel mt_channel))) None =
      Inr (Some (Inr ()), rs, st) \<and>
    items_taken rs @ map fst (ub_deque (wq_queue (sc_items (in_sender st)))) = [Item 1, Item 2, Last 3] \<and>
    task_select (Ready (Inr ())) Pending Pending = Ready e \<and> in_end True example_in_env e st = Inr st' \<and> in_seen st' = Some (Finish :: (nat, unit, unit) stream_error)"
proof -
  have y: "in_yields example_in_env [Item 1, Item 2] [[], [Last 3]] [Item 1, Item 2, Last 3]"
  proof -
    have "in_yields example_in_env [Last 3] [] [Last 3]" by (rule yields_fin) (simp_all add: example_in_env_def is_fin_def)
    then have "in_yields example_in_env [] [[Last 3]] [Last 3]" by (rule yields_more [rotated 2]) (simp_all add: example_in_env_def)
    then have "in_yields example_in_env [] [[], [Last 3]] [Last 3]" by (rule yields_more [rotated 2]) (simp_all add: example_in_env_def)
    then have "in_yields example_in_env [Item 2] [[], [Last 3]] [Item 2, Last 3]"
      by (rule yields_item [rotated 2]) (simp_all add: example_in_env_def is_fin_def)
    then show ?thesis by (rule yields_item [rotated 2]) (simp_all add: example_in_env_def is_fin_def)
  qed
  have r: "ie_recv example_in_env [] [[Item 1, Item 2], [], [Last 3]] = (Inr (Inr [Item 1, Item 2]), [[], [Last 3]])"
    by (simp add: example_in_env_def)
  have e: "stream_env ub_deque (ie_ops example_in_env) unbounded_valid unbounded_senders (ie_ready example_in_env) (ie_estimate example_in_env)"
    using example_stream by (simp add: example_in_env_def)
  let ?q = "unbounded_channel :: (nat payload \<times> nat) unbounded"
  have q: "ub_deque ?q = []" "\<not> qo_is_closed (ie_ops example_in_env) ?q" "unbounded_valid ?q" "unbounded_senders ?q = 1"
    by (simp_all add: example_in_env_def unbounded_channel_def unbounded_mpsc_defs)
  have u: "(\<forall>us \<in> set (replicate k [UseRecv, UseRecvPoll]). \<forall>u \<in> set us. receiving_use u) \<and>
      k \<le> length (filter (sublist [UseRecv, UseRecvPoll]) (replicate k [UseRecv, UseRecvPoll]))" for k
    by (auto simp: receiving_use_def)
  have use: "\<exists>k. \<forall>x. P k x \<longrightarrow> Q x \<Longrightarrow> (\<And>k. P k (f k)) \<Longrightarrow> \<exists>k. Q (f k)" for P Q and f :: "nat \<Rightarrow> (nat, nat, unit, unit) stream_use list list"
    by blast
  from use [OF incoming_delivers [OF e q r y zero_less_one, of True 1 mt_channel mt_channel Pending
      "Pending :: (nat, unit, unit) stream_error poll"], of "\<lambda>k. replicate k [UseRecv, UseRecvPoll]", OF u]
  show ?thesis by (elim exE conjE) (intro exI conjI)
qed

text \<open>C24: a cancelled task does not pass its reason on. The sender of the cancellation channel is how the core stops
  a task with \<open>Reset\<close>, \<open>Stop\<close> or \<open>Connection\<close>; but \<open>close\<close> first sends the reason on this very channel and
  returns when it is already set. So whatever the reason, a task that is cancelled tells the backend
  nothing and the application sees a hang-up, while the same reason from the loop reaches it.\<close>

theorem cancellation_reason_lost:
  fixes env :: "('i, 'd, 'c, 'x, 'q, 'b) in_env" and decoder :: 'd and backend :: 'b and ch :: "('c, 'x, 'e, 'q) stream_chan"
  assumes "in_seen (incoming_new decoder backend ch) = None" and "mt_receivers (sc_error ch) = 1"
  shows "\<exists>st. in_end debug env e (in_cancelled e (in_read (incoming_new decoder backend ch))) = Inr st \<and>
      in_backend st = backend \<and> in_seen st = Some (HangUp ''Sender is dropped without manual termination'') \<and>
    (\<exists>st. in_end debug env (Reset c) (in_read (incoming_new decoder backend ch)) = Inr st \<and> in_seen st = Some (Reset c))"
proof -
  let ?st = "in_read (incoming_new decoder backend ch) :: ('i, 'd, 'c, 'x, 'e, 'q, 'b) incoming"
  let ?c = "in_cancelled e ?st"
  have c: "mt_receivers (in_cancel ?st) \<noteq> 0" "mt_container (in_cancel ?st) = None"
    by (simp_all add: in_read_def incoming_new_def mt_channel_def mt_clone_sender_def mt_clone_receiver_def)
  then have "mt_receivers (in_cancel ?c) \<noteq> 0" "mt_container (in_cancel ?c) = Some e" by (simp_all add: in_cancelled_def mt_send_reason)
  then have "in_end debug env e ?c = Inr (?c\<lparr>in_sender := sender_drop (ie_ops env) False ch\<rparr>)"
    by (simp add: in_end_def in_close_eq) (simp add: in_cancelled_def in_read_def incoming_new_def)
  moreover have "\<exists>st. in_end debug env (Reset c) ?st = Inr st \<and> in_seen st = Some (Reset c)"
    using assms c by (simp add: in_end_def in_close_def mt_send_reason in_seen_def)
      (simp add: in_read_def incoming_new_def sender_terminate_def sender_drop_seen close_eq)
  ultimately show ?thesis using assms
    by (auto simp: in_seen_def in_cancelled_def in_read_def incoming_new_def sender_drop_seen sender_drop_reason_def)
qed

theorem cancellation_reason_lost_witness:
  "\<exists>st. in_end True example_in_env (Reset 5) (in_cancelled (Reset 5) (in_read (incoming_new [] []
      (stream_channel unbounded_channel 1 mt_channel mt_channel :: (nat, unit, unit, (nat payload \<times> nat) unbounded) stream_chan)))) = Inr st \<and> in_seen st = Some (HangUp ''Sender is dropped without manual termination'')"
proof -
  let ?ch = "stream_channel unbounded_channel 1 mt_channel mt_channel :: (nat, unit, unit, (nat payload \<times> nat) unbounded) stream_chan"
  have "in_seen (incoming_new ([] :: nat payload list) ([] :: nat payload list list) ?ch) = None" "mt_receivers (sc_error ?ch) = 1"
    by (simp_all add: in_seen_def incoming_new_def stream_channel_def mt_channel_def)
  from cancellation_reason_lost [OF this, of True example_in_env "Reset 5" 5] show ?thesis by blast
qed

text \<open>an outgoing stream loses its data. When the application has sent an item and a last one before the task
  looks, the first one is received, but the attempt to get more without waiting reports that the
  direction is finished (\<open>try_recv_loses_items\<close>), which the task takes for an internal error: nothing is
  handed to the backend, and the task ends with a hang-up, or a panic in the debug profile.\<close>

lemma outgoing_loses_data:
  assumes "stream_run unbounded_ops (<) (\<lambda>_. 1) [UseSend (Item a), UseSendPoll, UseSend (Last z), UseSendPoll]
      (stream_open unbounded_channel 2 mt_channel mt_channel) = Inr (rs, s)"
    and "oe_ops env = unbounded_ops" and "oe_ready env = (<)"
    and "oe_encode env (Item a) encoder = (Inr (), encoder')" and "\<not> oe_should_flush env encoder'"
  shows "rs = [ResNone, ResSend (Ready (Inr ())), ResNone, ResSend (Ready (Inr ()))] \<and>
    (\<exists>st. out_io_loop (Suc (Suc n)) False env (out_write (outgoing_new encoder backend (ss_chan s))) =
       Inr (Some (Ready (Inl (HangUp ''items channel returned an unexpected error''))), st) \<and> out_backend st = backend) \<and>
    out_io_loop (Suc (Suc n)) True env (out_write (outgoing_new encoder backend (ss_chan s))) = Inl ExplicitPanic"
proof -
  have run: "rs = [ResNone, ResSend (Ready (Inr ())), ResNone, ResSend (Ready (Inr ()))]"
    and e: "mt_container (sc_error (ss_chan s)) = Some Finish" "mt_receivers (sc_error (ss_chan s)) \<noteq> 0"
    and q: "wq_queue (sc_items (ss_chan s)) = \<lparr>ub_deque = [(Item a, 1), (Last z, 1)], ub_receiver_waker = None, ub_receiver_exists = True, ub_rc = 2\<rparr>"
      "wq_occupation (sc_items (ss_chan s)) = 2" "wq_bound (sc_items (ss_chan s)) = 2"
    using assms(1) by (auto simp: stream_eval has_capacity_def checked_add_def usize_max_def Let_def)
  obtain ch where ch: "receiver_recv_poll unbounded_ops (<) MtStart (ss_chan s) = Inr (Ready (Inr (Item a)), MtFinished, ch)"
      "sc_error ch = sc_error (ss_chan s)"
    using e q by (simp add: receiver_recv_poll_def mt_recv_poll_def mt_recv_turn_def mt_try_recv_def ignore_finish_def weighted_mt_recv_poll_def
        weighted_mt_try_recv_def weighted_mt_taken_def unbounded_ops_def unbounded_try_recv_def usize_sub_def received_def is_fin_def notify_all_mt_def Let_def)
  have t: "receiver_try_recv unbounded_ops ch = Inr (Inl Finish, ch)"
    using e ch(2) by (simp add: receiver_try_recv_def mt_try_recv_def close_eq)
  note loop = recv_from_app_def recv_item_def item_received_def out_write_def outgoing_new_def out_payload_error_def dpanic_or_hangup_def is_fin_def
  show ?thesis using run ch(1) t assms(2-5) by (simp add: loop)
qed

definition example_out_env :: "(nat, nat payload list, nat, unit, (nat payload \<times> nat) unbounded, nat payload list list) out_env" where
  "example_out_env = \<lparr>oe_send = (\<lambda>n b. (Inr (Inr []), b @ [n])), oe_set_priority = (\<lambda>_ b. b), oe_terminate = (\<lambda>_ b. b),
     oe_terminate_encoder = (\<lambda>_ b. b), oe_hangup = (\<lambda>_ b. b), oe_encode = (\<lambda>p n. (Inr (), n @ [p])), oe_should_flush = (\<lambda>_. False),
     oe_ready = (<),
     oe_code = (\<lambda>n. n), oe_ops = unbounded_ops\<rparr>"

lemma outgoing_loses_data_witness:
  "\<exists>rs s st. stream_run unbounded_ops (<) (\<lambda>_. 1) [UseSend (Item 1), UseSendPoll, UseSend (Last 2), UseSendPoll]
      (stream_open unbounded_channel 2 mt_channel mt_channel :: (nat, nat, unit, unit, (nat payload \<times> nat) unbounded) stream_sys) = Inr (rs, s) \<and>
    out_io_loop 2 False example_out_env (out_write (outgoing_new [] [] (ss_chan s))) =
      Inr (Some (Ready (Inl (HangUp ''items channel returned an unexpected error''))), st) \<and> out_backend st = []"
proof -
  have "\<exists>rs s. stream_run unbounded_ops (<) (\<lambda>_. 1) [UseSend (Item 1), UseSendPoll, UseSend (Last 2), UseSendPoll]
      (stream_open unbounded_channel 2 mt_channel mt_channel :: (nat, nat, unit, unit, (nat payload \<times> nat) unbounded) stream_sys) = Inr (rs, s)"
    by (simp add: stream_eval has_capacity_def checked_add_def usize_max_def Let_def)
  then obtain rs and s :: "(nat, nat, unit, unit, (nat payload \<times> nat) unbounded) stream_sys" where
    s: "stream_run unbounded_ops (<) (\<lambda>_. 1) [UseSend (Item 1), UseSendPoll, UseSend (Last 2), UseSendPoll]
      (stream_open unbounded_channel 2 mt_channel mt_channel) = Inr (rs, s)" by blast
  have e: "oe_ops example_out_env = unbounded_ops" "oe_ready example_out_env = (<)"
    "oe_encode example_out_env (Item 1) [] = (Inr (), [Item 1])" "\<not> oe_should_flush example_out_env [Item 1]"
    by (simp_all add: example_out_env_def)
  from outgoing_loses_data [OF s e, of 0 "[]"] s show ?thesis by (auto simp: eval_nat_numeral simp del: out_io_loop.simps)
qed

end
