(* ===== verification/Dgram_Channel.thy ===== *)
theory Dgram_Channel
  imports Sync_Poll
begin

section \<open>The channel of a datagram direction\<close>

text \<open>
  Model of \<open>src/aquic-core/src/sync/dgram.rs\<close> and of the error type of \<open>dgram/mod.rs\<close>, for the default
  feature \<open>async-send\<close>. It is built like the stream channel: a weighted channel for the items, a
  oneshot channel for the reason of closing, of which both halves hold both handles, and a watch
  channel for the maximum datagram size, in the other direction. \<open>ops\<close>, \<open>ready\<close> and \<open>estimate\<close> are the
  parameters of \<open>Stream_Channel\<close>.

  The lemmas show that the first reason is the one both halves see, that a closed direction returns
  it from every operation and delivers nothing more, and that an open one passes its calls to the
  weighted channel.
\<close>

datatype dgram_error = DgEnd | DgConnection | DgHangUp string

record 'q dgram_chan =
  dg_items :: "'q weighted_mt"
  dg_error :: "dgram_error oneshot_mt"
  dg_max_size :: "nat watch_mt"

text \<open>\<open>channel\<close> clones both handles of the reason, so that each half holds one of each.\<close>

definition dgram_channel :: "'q \<Rightarrow> nat \<Rightarrow> 'q dgram_chan" where
  "dgram_channel q bound =
     \<lparr>dg_items = weighted_mt_channel q bound, dg_error = mt_clone_receiver (mt_clone_sender mt_channel), dg_max_size = watch_mt_channel\<rparr>"

subsection \<open>\<open>Sender\<close>\<close>

definition dg_sender_err_rx_fallback :: dgram_error where
  "dg_sender_err_rx_fallback = DgHangUp ''Sender.error_receiver is unavailable''"

definition dg_item_tx_fallback :: dgram_error where
  "dg_item_tx_fallback = DgHangUp ''Sender.item_sender is unavailable''"

definition dg_sender_close :: "dgram_error \<Rightarrow> 'q dgram_chan \<Rightarrow> dgram_error \<times> 'q dgram_chan" where
  "dg_sender_close err sh = (case mt_send err (dg_error sh) of
     (Inr _, o1) \<Rightarrow> (err, sh\<lparr>dg_error := o1\<rparr>)
   | (Inl OneshotClosed, o1) \<Rightarrow> (dg_sender_err_rx_fallback, sh\<lparr>dg_error := o1\<rparr>)
   | (Inl (OneshotFull actual), o1) \<Rightarrow> (actual, sh\<lparr>dg_error := o1\<rparr>))"

definition dg_send_poll ::
  "('i, 'q) queue_ops \<Rightarrow> (nat \<Rightarrow> nat \<Rightarrow> bool) \<Rightarrow> ('i \<Rightarrow> nat) \<Rightarrow> 'i \<Rightarrow> mt_future \<times> mt_future \<Rightarrow> 'q dgram_chan \<Rightarrow>
   panic + ((dgram_error + unit) poll \<times> (mt_future \<times> mt_future) \<times> 'q dgram_chan)" where
  "dg_send_poll ops ready estimate item futs sh =
     and_then (mt_recv_poll ready (fst futs) (dg_error sh)) (\<lambda>(r, ef).
       case r of
         Ready err \<Rightarrow>
           let (err1, sh1) = dg_sender_close (case err of Some e \<Rightarrow> e | None \<Rightarrow> dg_sender_err_rx_fallback) sh
           in Inr (Ready (Inl err1), (ef, snd futs), sh1)
       | Pending \<Rightarrow>
           and_then (weighted_mt_send_poll ops ready (snd futs) item (estimate item) (dg_items sh)) (\<lambda>(r, wfut, items).
             let sh1 = sh\<lparr>dg_items := items\<rparr> in
             case r of
               Pending \<Rightarrow> Inr (Pending, (ef, wfut), sh1)
             | Ready (Inl _) \<Rightarrow> let (err, sh2) = dg_sender_close dg_item_tx_fallback sh1 in Inr (Ready (Inl err), (ef, wfut), sh2)
             | Ready (Inr _) \<Rightarrow> Inr (Ready (Inr ()), (ef, wfut), sh1)))"

definition dg_sender_error :: "'q dgram_chan \<Rightarrow> dgram_error option" where
  "dg_sender_error sh = (case mt_try_recv (dg_error sh) of
     Inr err \<Rightarrow> Some err
   | Inl RecvClosed \<Rightarrow> Some dg_sender_err_rx_fallback
   | Inl RecvEmpty \<Rightarrow> None)"

definition dg_try_send :: "('i, 'q) queue_ops \<Rightarrow> ('i \<Rightarrow> nat) \<Rightarrow> 'i \<Rightarrow> 'q dgram_chan \<Rightarrow> (dgram_error + bool) \<times> 'q dgram_chan" where
  "dg_try_send ops estimate item sh = (case dg_sender_error sh of
     Some e \<Rightarrow> (Inl e, sh)
   | None \<Rightarrow>
       (case weighted_mt_try_send ops item (estimate item) (dg_items sh) of
          (Inr _, items) \<Rightarrow> (Inr True, sh\<lparr>dg_items := items\<rparr>)
        | (Inl TrySendFull, items) \<Rightarrow> (Inr False, sh\<lparr>dg_items := items\<rparr>)
        | (Inl TrySendClosed, items) \<Rightarrow>
            let (err, sh1) = dg_sender_close dg_item_tx_fallback (sh\<lparr>dg_items := items\<rparr>) in (Inl err, sh1)))"

definition dg_sender_terminate_due_connection :: "'q dgram_chan \<Rightarrow> 'q dgram_chan" where
  "dg_sender_terminate_due_connection sh = snd (dg_sender_close DgConnection sh)"

definition dg_sender_hangup :: "string \<Rightarrow> 'q dgram_chan \<Rightarrow> 'q dgram_chan" where
  "dg_sender_hangup message sh = snd (dg_sender_close (DgHangUp message) sh)"

definition dg_max_dgram_size :: "nat \<Rightarrow> 'q dgram_chan \<Rightarrow> (try_recv_error + nat) \<times> nat" where
  "dg_max_dgram_size last_seen sh = watch_mt_try_recv last_seen (dg_max_size sh)"

definition dg_sender_drop :: "('i, 'q) queue_ops \<Rightarrow> bool \<Rightarrow> 'q dgram_chan \<Rightarrow> 'q dgram_chan" where
  "dg_sender_drop ops panicking sh =
     (let sh1 = snd (dg_sender_close (if panicking then DgHangUp ''Sender is dropped due to panic'' else DgEnd) sh)
      in sh1\<lparr>dg_items := weighted_mt_drop_sender ops (dg_items sh1),
             dg_error := mt_drop_receiver (mt_drop_sender (dg_error sh1))\<rparr>)"

subsection \<open>\<open>Receiver\<close>\<close>

definition dg_receiver_err_rx_fallback :: dgram_error where
  "dg_receiver_err_rx_fallback = DgHangUp ''Receiver.error_receiver is unavailable''"

definition dg_item_rx_fallback :: dgram_error where
  "dg_item_rx_fallback = DgHangUp ''Receiver.item_receiver is unavailable''"

definition dg_receiver_close :: "dgram_error \<Rightarrow> 'q dgram_chan \<Rightarrow> dgram_error \<times> 'q dgram_chan" where
  "dg_receiver_close err sh = (case mt_send err (dg_error sh) of
     (Inr _, o1) \<Rightarrow> (err, sh\<lparr>dg_error := o1\<rparr>)
   | (Inl OneshotClosed, o1) \<Rightarrow> (dg_receiver_err_rx_fallback, sh\<lparr>dg_error := o1\<rparr>)
   | (Inl (OneshotFull actual), o1) \<Rightarrow> (actual, sh\<lparr>dg_error := o1\<rparr>))"

definition dg_recv_poll ::
  "('i, 'q) queue_ops \<Rightarrow> (nat \<Rightarrow> nat \<Rightarrow> bool) \<Rightarrow> mt_future \<Rightarrow> 'q dgram_chan \<Rightarrow>
   panic + ((dgram_error + 'i) poll \<times> mt_future \<times> 'q dgram_chan)" where
  "dg_recv_poll ops ready fut sh =
     and_then (mt_recv_poll ready fut (dg_error sh)) (\<lambda>(r, ef).
       case r of
         Ready err \<Rightarrow>
           let (err1, sh1) = dg_receiver_close (case err of Some e \<Rightarrow> e | None \<Rightarrow> dg_receiver_err_rx_fallback) sh
           in Inr (Ready (Inl err1), ef, sh1)
       | Pending \<Rightarrow>
           and_then (weighted_mt_recv_poll ops (dg_items sh)) (\<lambda>(r, items).
             let sh1 = sh\<lparr>dg_items := items\<rparr> in
             case r of
               Pending \<Rightarrow> Inr (Pending, ef, sh1)
             | Ready (Some item) \<Rightarrow> Inr (Ready (Inr item), ef, sh1)
             | Ready None \<Rightarrow> let (err, sh2) = dg_receiver_close dg_item_rx_fallback sh1 in Inr (Ready (Inl err), ef, sh2)))"

definition dg_try_recv :: "('i, 'q) queue_ops \<Rightarrow> 'q dgram_chan \<Rightarrow> panic + ((dgram_error + 'i option) \<times> 'q dgram_chan)" where
  "dg_try_recv ops sh = (case mt_try_recv (dg_error sh) of
     Inr e \<Rightarrow> let (err, sh1) = dg_receiver_close e sh in Inr (Inl err, sh1)
   | Inl RecvClosed \<Rightarrow> let (err, sh1) = dg_receiver_close dg_receiver_err_rx_fallback sh in Inr (Inl err, sh1)
   | Inl RecvEmpty \<Rightarrow>
       and_then (weighted_mt_try_recv ops (dg_items sh)) (\<lambda>(r, items).
         let sh1 = sh\<lparr>dg_items := items\<rparr> in Inr
         (case r of
            Inr item \<Rightarrow> (Inr (Some item), sh1)
          | Inl RecvEmpty \<Rightarrow> (Inr None, sh1)
          | Inl RecvClosed \<Rightarrow> let (err, sh2) = dg_receiver_close dg_item_rx_fallback sh1 in (Inl err, sh2))))"

definition dg_receiver_terminate_due_connection :: "'q dgram_chan \<Rightarrow> 'q dgram_chan" where
  "dg_receiver_terminate_due_connection sh = snd (dg_receiver_close DgConnection sh)"

definition dg_receiver_hangup :: "string \<Rightarrow> 'q dgram_chan \<Rightarrow> 'q dgram_chan" where
  "dg_receiver_hangup message sh = snd (dg_receiver_close (DgHangUp message) sh)"

definition dg_receiver_error :: "'q dgram_chan \<Rightarrow> dgram_error option" where
  "dg_receiver_error sh = (case mt_try_recv (dg_error sh) of
     Inr err \<Rightarrow> Some err
   | Inl RecvClosed \<Rightarrow> Some dg_receiver_err_rx_fallback
   | Inl RecvEmpty \<Rightarrow> None)"

definition set_max_dgram_size :: "nat \<Rightarrow> 'q dgram_chan \<Rightarrow> panic + 'q dgram_chan" where
  "set_max_dgram_size value sh = and_then (watch_mt_send value (dg_max_size sh)) (\<lambda>(_, w). Inr (sh\<lparr>dg_max_size := w\<rparr>))"

definition dg_receiver_drop :: "('i, 'q) queue_ops \<Rightarrow> bool \<Rightarrow> 'q dgram_chan \<Rightarrow> 'q dgram_chan" where
  "dg_receiver_drop ops panicking sh =
     (let sh1 = snd (dg_receiver_close (if panicking then DgHangUp ''Receiver is dropped due to panic'' else DgEnd) sh)
      in sh1\<lparr>dg_items := weighted_mt_drop_receiver ops (dg_items sh1),
             dg_error := mt_drop_receiver (mt_drop_sender (dg_error sh1))\<rparr>)"

subsection \<open>Lemmas\<close>

lemma dg_close_eq:
  assumes "mt_receivers (dg_error sh) \<noteq> 0"
  shows "dg_sender_close e sh = (the (first_reason e (mt_container (dg_error sh))), sh\<lparr>dg_error := set_reason e (dg_error sh)\<rparr>)"
    and "dg_receiver_close e sh = (the (first_reason e (mt_container (dg_error sh))), sh\<lparr>dg_error := set_reason e (dg_error sh)\<rparr>)"
  using assms by (simp_all add: dg_sender_close_def dg_receiver_close_def mt_send_reason split: option.splits)

text \<open>A direction that was closed for a reason returns this reason from every call of both halves and changes
  no more: the items that were queued are not delivered.\<close>

lemma dg_closed:
  assumes "mt_container (dg_error sh) = Some e" and "mt_receivers (dg_error sh) \<noteq> 0" and "mt_senders (dg_error sh) \<noteq> 0"
    and "reason_fut_ok (dg_error sh) fut" and "wakes_all ready"
  shows "dg_send_poll ops ready estimate item (fut, sfut) sh = Inr (Ready (Inl e), (MtFinished, sfut), sh)"
    and "dg_try_send ops estimate item sh = (Inl e, sh)"
    and "dg_recv_poll ops ready fut sh = Inr (Ready (Inl e), MtFinished, sh)"
    and "dg_try_recv ops sh = Inr (Inl e, sh)"
    and "dg_sender_error sh = Some e" and "dg_receiver_error sh = Some e"
    and "dg_sender_close e' sh = (e, sh)" and "dg_receiver_close e' sh = (e, sh)"
proof -
  note p = reason_poll(1) [OF assms(4,5,3,1)]
  show "dg_send_poll ops ready estimate item (fut, sfut) sh = Inr (Ready (Inl e), (MtFinished, sfut), sh)"
    "dg_try_send ops estimate item sh = (Inl e, sh)" "dg_recv_poll ops ready fut sh = Inr (Ready (Inl e), MtFinished, sh)"
    "dg_try_recv ops sh = Inr (Inl e, sh)" "dg_sender_error sh = Some e" "dg_receiver_error sh = Some e"
    "dg_sender_close e' sh = (e, sh)" "dg_receiver_close e' sh = (e, sh)"
    using assms(1-3)
    by (simp_all add: dg_send_poll_def dg_try_send_def dg_recv_poll_def dg_try_recv_def dg_sender_error_def dg_receiver_error_def
        p mt_try_recv_reason dg_close_eq)
qed

text \<open>An open direction passes its calls on to the weighted channel.\<close>

lemma dg_open:
  assumes "mt_container (dg_error sh) = None" and "mt_senders (dg_error sh) \<noteq> 0" and "\<not> qo_is_closed ops (wq_queue (dg_items sh))"
    and "\<And>x q. \<not> qo_is_closed ops q \<Longrightarrow> \<exists>w q'. qo_send ops x q = (Inr w, q')"
  shows "dg_try_send ops estimate item sh =
    (if has_capacity (wq_occupation (dg_items sh)) (estimate item) (wq_bound (dg_items sh))
     then (Inr True, sh\<lparr>dg_items := snd (weighted_mt_reserve ops item (estimate item) (dg_items sh))\<rparr>) else (Inr False, sh))"
proof -
  obtain w q where "qo_send ops (item, estimate item) (wq_queue (dg_items sh)) = (Inr w, q)" using assms(3,4) by blast
  then show ?thesis using assms(1-3)
    by (simp add: dg_try_send_def dg_sender_error_def mt_try_recv_reason weighted_mt_try_send_def weighted_mt_reserve_def)
qed

end
