(* ===== verification/Dgram_Io.thy ===== *)
theory Dgram_Io
  imports Dgram_Channel Sync_Rpc Backend_Events
begin

section \<open>The tasks of a datagram direction\<close>

text \<open>
  Model of \<open>src/aquic-core/src/dgram/incoming.rs\<close> and \<open>dgram/outgoing.rs\<close>, in the style of \<open>Stream_Io\<close>:
  the codec and the backend's side (the bodies of \<open>core/command/dgram.rs\<close> are \<open>todo!()\<close>) are parameters, an
  \<open>await\<close> of a call of the backend is the value it returns, and an \<open>await\<close> of the channel's \<open>recv\<close> is polled: a
  pending future is the field \<open>dgo_receiving\<close>, which the next poll resumes. The loops take a number of turns, and
  \<open>None\<close> says that the task is neither finished nor suspended after them.

  The lemmas show that each turn of the incoming loop asks the backend for datagrams once and passes
  on at most one item, that an item the application has no room for is dropped and not an error, and
  who is told when a task ends.
\<close>

record ('i, 'd, 'q, 'b) dg_in_env =
  di_recv :: "'d \<Rightarrow> 'b \<Rightarrow> (rpc_send_error + (backend_error + 'd)) \<times> 'b"
  di_decode :: "'d \<Rightarrow> 'i option \<times> 'd"
  di_estimate :: "'i \<Rightarrow> nat"
  di_ops :: "('i, 'q) queue_ops"

record ('i, 'n, 'q, 'b) dg_out_env =
  do_send :: "'n \<Rightarrow> 'b \<Rightarrow> (rpc_send_error + (backend_error + 'n)) \<times> 'b"
  do_encode :: "'i \<Rightarrow> 'n \<Rightarrow> 'n"
  do_should_flush :: "'n \<Rightarrow> bool"
  do_ready :: "nat \<Rightarrow> nat \<Rightarrow> bool"
  do_ops :: "('i, 'q) queue_ops"

definition dg_dpanic_or_hangup :: "bool \<Rightarrow> string \<Rightarrow> panic + dgram_error" where
  "dg_dpanic_or_hangup debug msg = and_then (panic_if debug ExplicitPanic) (\<lambda>_. Inr (DgHangUp msg))"

definition dg_backend_error :: "backend_error \<Rightarrow> dgram_error" where
  "dg_backend_error e = (case e of
     ErrClosed \<Rightarrow> DgConnection
   | UnknownConnection \<Rightarrow> DgConnection
   | _ \<Rightarrow> DgHangUp ''QUIC backend responded with an unexpected error'')"

definition dg_channel_error :: "bool \<Rightarrow> dgram_error \<Rightarrow> panic + dgram_error" where
  "dg_channel_error debug e = (case e of
     DgEnd \<Rightarrow> Inr DgEnd
   | DgHangUp m \<Rightarrow> Inr (DgHangUp (''items channel is unavailable: '' @ m))
   | _ \<Rightarrow> dg_dpanic_or_hangup debug ''items channel returned an unexpected error'')"

subsection \<open>\<open>incoming.rs\<close>\<close>

record ('d, 'q, 'b) dg_incoming =
  dgi_backend :: 'b
  dgi_decoder :: "'d option"
  dgi_sender :: "'q dgram_chan"
  dgi_cancel :: "dgram_error oneshot_mt"
  dgi_drained :: bool

definition dg_incoming_new :: "'d \<Rightarrow> 'b \<Rightarrow> 'q dgram_chan \<Rightarrow> ('d, 'q, 'b) dg_incoming" where
  "dg_incoming_new decoder backend item_sender =
     \<lparr>dgi_backend = backend, dgi_decoder = Some decoder, dgi_sender = item_sender, dgi_cancel = mt_channel, dgi_drained = False\<rparr>"

definition recv_dgrams :: "('i, 'd, 'q, 'b) dg_in_env \<Rightarrow> ('d, 'q, 'b) dg_incoming \<Rightarrow> (dgram_error + unit) \<times> ('d, 'q, 'b) dg_incoming" where
  "recv_dgrams env st = (case dgi_decoder st of
     None \<Rightarrow> (Inr (), st)
   | Some decoder \<Rightarrow>
       let (call_result, b) = di_recv env decoder (dgi_backend st);
           st1 = st\<lparr>dgi_decoder := None, dgi_drained := False, dgi_backend := b\<rparr>
       in case call_result of
            Inl _ \<Rightarrow> (Inl (DgHangUp ''QUIC backend RPC channel is unavailable''), st1)
          | Inr (Inr d) \<Rightarrow> (Inr (), st1\<lparr>dgi_decoder := Some d\<rparr>)
          | Inr (Inl e) \<Rightarrow> (Inl (dg_backend_error e), st1))"

definition decode_dgram :: "('i, 'd, 'q, 'b) dg_in_env \<Rightarrow> ('d, 'q, 'b) dg_incoming \<Rightarrow> 'i option \<times> ('d, 'q, 'b) dg_incoming" where
  "decode_dgram env st = (case dgi_decoder st of
     None \<Rightarrow> (None, st)
   | Some d \<Rightarrow> let (it, d') = di_decode env d in (it, st\<lparr>dgi_decoder := Some d'\<rparr>))"

definition dg_send_item ::
  "bool \<Rightarrow> ('i, 'd, 'q, 'b) dg_in_env \<Rightarrow> 'i \<Rightarrow> ('d, 'q, 'b) dg_incoming \<Rightarrow> panic + ((dgram_error + unit) \<times> ('d, 'q, 'b) dg_incoming)" where
  "dg_send_item debug env item st =
     (let (r, ch) = dg_try_send (di_ops env) (di_estimate env) item (dgi_sender st); st1 = st\<lparr>dgi_sender := ch\<rparr> in
      case r of
        Inr _ \<Rightarrow> Inr (Inr (), st1)
      | Inl e \<Rightarrow> and_then (dg_channel_error debug e) (\<lambda>e1. Inr (Inl e1, st1)))"

fun dg_in_loop ::
  "nat \<Rightarrow> bool \<Rightarrow> ('i, 'd, 'q, 'b) dg_in_env \<Rightarrow> ('d, 'q, 'b) dg_incoming \<Rightarrow>
   panic + ((dgram_error + unit) option \<times> ('d, 'q, 'b) dg_incoming)" where
  "dg_in_loop 0 debug env st = Inr (None, st)"
| "dg_in_loop (Suc n) debug env st = (case recv_dgrams env st of
     (Inl e, st1) \<Rightarrow> Inr (Some (Inl e), st1)
   | (Inr _, st1) \<Rightarrow>
       (case decode_dgram env st1 of
          (None, st2) \<Rightarrow> dg_in_loop n debug env st2
        | (Some item, st2) \<Rightarrow> and_then (dg_send_item debug env item st2) (\<lambda>(r, st3).
            case r of Inl e \<Rightarrow> Inr (Some (Inl e), st3) | Inr _ \<Rightarrow> dg_in_loop n debug env st3)))"

definition dg_in_close :: "dgram_error \<Rightarrow> ('d, 'q, 'b) dg_incoming \<Rightarrow> ('d, 'q, 'b) dg_incoming" where
  "dg_in_close err st = (case mt_send err (dgi_cancel st) of
     (Inl _, o1) \<Rightarrow> st\<lparr>dgi_cancel := o1\<rparr>
   | (Inr _, o1) \<Rightarrow>
       let st1 = st\<lparr>dgi_cancel := o1\<rparr> in
       case err of
         DgEnd \<Rightarrow> st1
       | DgConnection \<Rightarrow> st1\<lparr>dgi_sender := dg_sender_terminate_due_connection (dgi_sender st1)\<rparr>
       | DgHangUp m \<Rightarrow> st1\<lparr>dgi_sender := dg_sender_hangup m (dgi_sender st1)\<rparr>)"

definition dg_app_error :: "dgram_error option poll \<Rightarrow> dgram_error poll" where
  "dg_app_error r = (case r of
     Ready (Some DgEnd) \<Rightarrow> Ready DgEnd
   | Ready (Some (DgHangUp m)) \<Rightarrow> Ready (DgHangUp m)
   | Ready None \<Rightarrow> Ready (DgHangUp ''error channel is unavailable'')
   | _ \<Rightarrow> Pending)"

definition dg_task_select ::
  "(dgram_error + unit) poll \<Rightarrow> dgram_error option poll \<Rightarrow> dgram_error poll \<Rightarrow> dgram_error poll" where
  "dg_task_select io cancel app = (case io of
     Ready (Inr _) \<Rightarrow> Ready DgEnd
   | Ready (Inl e) \<Rightarrow> Ready e
   | Pending \<Rightarrow>
       (case cancel of
          Ready (Some e) \<Rightarrow> Ready e
        | Ready None \<Rightarrow> Ready (DgHangUp ''cancellation-signal channel is unavailable'')
        | Pending \<Rightarrow> app))"

definition dg_read :: "('d, 'q, 'b) dg_incoming \<Rightarrow> ('d, 'q, 'b) dg_incoming" where
  "dg_read st = st\<lparr>dgi_cancel := mt_clone_receiver (mt_clone_sender (dgi_cancel st))\<rparr>"

definition dg_in_end :: "('i, 'd, 'q, 'b) dg_in_env \<Rightarrow> dgram_error \<Rightarrow> ('d, 'q, 'b) dg_incoming \<Rightarrow> ('d, 'q, 'b) dg_incoming" where
  "dg_in_end env err st = (let st1 = dg_in_close err st in st1\<lparr>dgi_sender := dg_sender_drop (di_ops env) False (dgi_sender st1)\<rparr>)"

subsection \<open>\<open>outgoing.rs\<close>\<close>

record ('n, 'q, 'b) dg_outgoing =
  dgo_backend :: 'b
  dgo_encoder :: "'n option"
  dgo_receiver :: "'q dgram_chan"
  dgo_cancel :: "dgram_error oneshot_mt"
  dgo_receiving :: "mt_future option"

definition dg_outgoing_new :: "'n \<Rightarrow> 'b \<Rightarrow> 'q dgram_chan \<Rightarrow> ('n, 'q, 'b) dg_outgoing" where
  "dg_outgoing_new encoder backend item_receiver =
     \<lparr>dgo_backend = backend, dgo_encoder = Some encoder, dgo_receiver = item_receiver, dgo_cancel = mt_channel,
      dgo_receiving = None\<rparr>"

definition dg_item_received ::
  "bool \<Rightarrow> ('i, 'n, 'q, 'b) dg_out_env \<Rightarrow> 'n \<Rightarrow> (dgram_error + 'i option) \<Rightarrow> ('n, 'q, 'b) dg_outgoing \<Rightarrow>
   panic + ((dgram_error + bool) poll \<times> ('n, 'q, 'b) dg_outgoing)" where
  "dg_item_received debug env encoder r st = (case r of
     Inl e \<Rightarrow> and_then (dg_channel_error debug e) (\<lambda>e1. Inr (Ready (Inl e1), st))
   | Inr (Some item) \<Rightarrow> Inr (Ready (Inr True), st\<lparr>dgo_encoder := Some (do_encode env item encoder)\<rparr>)
   | Inr None \<Rightarrow> Inr (Ready (Inr False), st))"

definition dg_recv_item ::
  "bool \<Rightarrow> ('i, 'n, 'q, 'b) dg_out_env \<Rightarrow> bool \<Rightarrow> ('n, 'q, 'b) dg_outgoing \<Rightarrow>
   panic + ((dgram_error + bool) poll \<times> ('n, 'q, 'b) dg_outgoing)" where
  "dg_recv_item debug env blocking st = (case dgo_encoder st of
     None \<Rightarrow> Inr (Ready (Inr False), st)
   | Some encoder \<Rightarrow>
       if blocking then
         and_then (dg_recv_poll (do_ops env) (do_ready env)
             (case dgo_receiving st of Some f \<Rightarrow> f | None \<Rightarrow> MtStart) (dgo_receiver st)) (\<lambda>(r, f, ch).
           case r of
             Pending \<Rightarrow> Inr (Pending, st\<lparr>dgo_receiver := ch, dgo_receiving := Some f\<rparr>)
           | Ready r1 \<Rightarrow> dg_item_received debug env encoder (case r1 of Inr i \<Rightarrow> Inr (Some i) | Inl e \<Rightarrow> Inl e)
               (st\<lparr>dgo_receiver := ch, dgo_receiving := None\<rparr>))
       else and_then (dg_try_recv (do_ops env) (dgo_receiver st)) (\<lambda>(r, ch).
         dg_item_received debug env encoder r (st\<lparr>dgo_receiver := ch\<rparr>)))"

definition dg_flush_now :: "('i, 'n, 'q, 'b) dg_out_env \<Rightarrow> ('n, 'q, 'b) dg_outgoing \<Rightarrow> bool" where
  "dg_flush_now env st = (case dgo_encoder st of Some n \<Rightarrow> do_should_flush env n | None \<Rightarrow> False)"

fun dg_recv_more ::
  "nat \<Rightarrow> bool \<Rightarrow> ('i, 'n, 'q, 'b) dg_out_env \<Rightarrow> ('n, 'q, 'b) dg_outgoing \<Rightarrow> panic + ((dgram_error + unit) poll option \<times> ('n, 'q, 'b) dg_outgoing)" where
  "dg_recv_more 0 debug env st = Inr (None, st)"
| "dg_recv_more (Suc n) debug env st = and_then (dg_recv_item debug env False st) (\<lambda>(r, st1).
     case r of
       Pending \<Rightarrow> Inr (Some Pending, st1)
     | Ready (Inl e) \<Rightarrow> Inr (Some (Ready (Inl e)), st1)
     | Ready (Inr False) \<Rightarrow> Inr (Some (Ready (Inr ())), st1)
     | Ready (Inr True) \<Rightarrow> if dg_flush_now env st1 then Inr (Some (Ready (Inr ())), st1) else dg_recv_more n debug env st1)"

definition dg_recv_from_app ::
  "nat \<Rightarrow> bool \<Rightarrow> ('i, 'n, 'q, 'b) dg_out_env \<Rightarrow> ('n, 'q, 'b) dg_outgoing \<Rightarrow> panic + ((dgram_error + unit) poll option \<times> ('n, 'q, 'b) dg_outgoing)" where
  "dg_recv_from_app n debug env st =
     (if dgo_encoder st = None then Inr (Some (Ready (Inr ())), st)
      else and_then (dg_recv_item debug env True st) (\<lambda>(r, st1).
        case r of
          Pending \<Rightarrow> Inr (Some Pending, st1)
        | Ready (Inl e) \<Rightarrow> Inr (Some (Ready (Inl e)), st1)
        | Ready (Inr False) \<Rightarrow> Inr (Some (Ready (Inr ())), st1)
        | Ready (Inr True) \<Rightarrow> if dg_flush_now env st1 then Inr (Some (Ready (Inr ())), st1) else dg_recv_more n debug env st1))"

definition send_to_backend :: "('i, 'n, 'q, 'b) dg_out_env \<Rightarrow> ('n, 'q, 'b) dg_outgoing \<Rightarrow> (dgram_error + unit) \<times> ('n, 'q, 'b) dg_outgoing" where
  "send_to_backend env st = (case dgo_encoder st of
     None \<Rightarrow> (Inr (), st)
   | Some encoder \<Rightarrow>
       let (call_result, b) = do_send env encoder (dgo_backend st); st1 = st\<lparr>dgo_encoder := None, dgo_backend := b\<rparr>
       in case call_result of
            Inl _ \<Rightarrow> (Inl (DgHangUp ''QUIC backend RPC channel is unavailable''), st1)
          | Inr (Inr n) \<Rightarrow> (Inr (), st1\<lparr>dgo_encoder := Some n\<rparr>)
          | Inr (Inl e) \<Rightarrow> (Inl (dg_backend_error e), st1))"

fun dg_out_loop ::
  "nat \<Rightarrow> bool \<Rightarrow> ('i, 'n, 'q, 'b) dg_out_env \<Rightarrow> ('n, 'q, 'b) dg_outgoing \<Rightarrow> panic + ((dgram_error + unit) poll option \<times> ('n, 'q, 'b) dg_outgoing)" where
  "dg_out_loop 0 debug env st = Inr (None, st)"
| "dg_out_loop (Suc n) debug env st = and_then (dg_recv_from_app n debug env st) (\<lambda>(r, st1).
     case r of
       None \<Rightarrow> Inr (None, st1)
     | Some Pending \<Rightarrow> Inr (Some Pending, st1)
     | Some (Ready (Inl e)) \<Rightarrow> Inr (Some (Ready (Inl e)), st1)
     | Some (Ready (Inr _)) \<Rightarrow>
         (case send_to_backend env st1 of
            (Inl e, st2) \<Rightarrow> Inr (Some (Ready (Inl e)), st2)
          | (Inr _, st2) \<Rightarrow> dg_out_loop n debug env st2))"

definition dg_out_close :: "dgram_error \<Rightarrow> ('n, 'q, 'b) dg_outgoing \<Rightarrow> ('n, 'q, 'b) dg_outgoing" where
  "dg_out_close err st = (case mt_send err (dgo_cancel st) of
     (Inl _, o1) \<Rightarrow> st\<lparr>dgo_cancel := o1\<rparr>
   | (Inr _, o1) \<Rightarrow>
       let st1 = st\<lparr>dgo_cancel := o1\<rparr> in
       case err of
         DgEnd \<Rightarrow> st1
       | DgConnection \<Rightarrow> st1\<lparr>dgo_receiver := dg_receiver_terminate_due_connection (dgo_receiver st1)\<rparr>
       | DgHangUp m \<Rightarrow> st1\<lparr>dgo_receiver := dg_receiver_hangup m (dgo_receiver st1)\<rparr>)"

definition dg_write :: "('n, 'q, 'b) dg_outgoing \<Rightarrow> ('n, 'q, 'b) dg_outgoing" where
  "dg_write st = st\<lparr>dgo_cancel := mt_clone_receiver (mt_clone_sender (dgo_cancel st))\<rparr>"

definition dg_out_end :: "('i, 'n, 'q, 'b) dg_out_env \<Rightarrow> dgram_error \<Rightarrow> ('n, 'q, 'b) dg_outgoing \<Rightarrow> ('n, 'q, 'b) dg_outgoing" where
  "dg_out_end env err st = (let st1 = dg_out_close err st in st1\<lparr>dgo_receiver := dg_receiver_drop (do_ops env) False (dgo_receiver st1)\<rparr>)"

subsection \<open>Lemmas\<close>

text \<open>With a backend that counts the calls of \<open>recv\<close> and a channel that counts what it was sent, there are never
  more items than calls: the decoder is not drained before the next call, although the field
  \<open>decoder_drained\<close> is there for it.\<close>

lemma dg_in_loop_lags:
  assumes "dg_in_loop n debug env st = Inr (r, st')"
    and "\<And>item ch. sent (snd (dg_try_send (di_ops env) (di_estimate env) item ch)) \<le> sent ch + (1 :: nat)"
    and "\<And>d b. calls (snd (di_recv env d b)) = calls b + (1 :: nat)" and "dgi_decoder st \<noteq> None"
  shows "sent (dgi_sender st') + calls (dgi_backend st) \<le> sent (dgi_sender st) + calls (dgi_backend st')"
  using assms(1,4)
proof (induction n arbitrary: st)
  case (Suc n)
  obtain d where d: "dgi_decoder st = Some d" using Suc.prems(2) by auto
  obtain cr b where c: "di_recv env d (dgi_backend st) = (cr, b)" by fastforce
  with assms(3) [of d "dgi_backend st"] have b: "calls b = calls (dgi_backend st) + 1" by simp
  show ?case
  proof (cases "\<exists>d1. cr = Inr (Inr d1)")
    case False
    then have "\<exists>e. recv_dgrams env st = (Inl e, st\<lparr>dgi_decoder := None, dgi_drained := False, dgi_backend := b\<rparr>)"
      using d c by (auto simp: recv_dgrams_def Let_def split: sum.splits)
    then show ?thesis using Suc.prems(1) b by auto
  next
    case True
    then obtain d1 where d1: "cr = Inr (Inr d1)" by blast
    obtain it d2 where it: "di_decode env d1 = (it, d2)" by fastforce
    let ?st = "st\<lparr>dgi_decoder := Some d2, dgi_drained := False, dgi_backend := b\<rparr>"
    have s: "decode_dgram env (snd (recv_dgrams env st)) = (it, ?st)" "fst (recv_dgrams env st) = Inr ()"
      using d c d1 it by (simp_all add: recv_dgrams_def decode_dgram_def)
    show ?thesis
    proof (cases it)
      case None
      then have "dg_in_loop n debug env ?st = Inr (r, st')" using Suc.prems(1) s by (simp add: split_beta)
      from Suc.IH [OF this] b show ?thesis by simp
    next
      case (Some item)
      obtain x ch where x: "dg_try_send (di_ops env) (di_estimate env) item (dgi_sender st) = (x, ch)" by fastforce
      with assms(2) [of item "dgi_sender st"] have ch: "sent ch \<le> sent (dgi_sender st) + 1" by simp
      show ?thesis
      proof (cases x)
        case (Inl e)
        then have "dgi_sender st' = ch" "dgi_backend st' = b" using Suc.prems(1) s Some x
          by (auto simp: split_beta dg_send_item_def rust_simps)
        with ch b show ?thesis by simp
      next
        case (Inr y)
        then have "dg_in_loop n debug env (?st\<lparr>dgi_sender := ch\<rparr>) = Inr (r, st')" using Suc.prems(1) s Some x
          by (simp add: split_beta dg_send_item_def)
        from Suc.IH [OF this] ch b show ?thesis by simp
      qed
    qed
  qed
qed simp

text \<open>As in the stream tasks, a task that is cancelled with \<open>Connection\<close> returns from \<open>close\<close> at once: the
  application sees the \<open>End\<close> of the dropped half and not the reason.\<close>

lemma dg_cancellation_reason_lost:
  assumes "mt_container (dg_error (dgi_sender st)) = None" and "2 \<le> mt_receivers (dg_error (dgi_sender st))"
    and "mt_container (dgi_cancel st) = Some e" and "mt_receivers (dgi_cancel st) \<noteq> 0"
  shows "mt_container (dg_error (dgi_sender (dg_in_end env DgConnection st))) = Some DgEnd"
  using assms by (simp add: dg_in_end_def dg_in_close_def mt_send_reason dg_sender_drop_def dg_close_eq mt_drop_sender_def
      mt_drop_receiver_def Let_def)

lemma dg_end_reason:
  assumes "mt_container (dg_error (dgi_sender st)) = None" and "2 \<le> mt_receivers (dg_error (dgi_sender st))"
    and "mt_container (dgi_cancel st) = None" and "mt_receivers (dgi_cancel st) \<noteq> 0"
  shows "mt_container (dg_error (dgi_sender (dg_in_end env e st))) = Some e"
  using assms by (simp add: dg_in_end_def dg_in_close_def mt_send_reason dg_sender_drop_def dg_close_eq mt_drop_sender_def
      dg_sender_terminate_due_connection_def dg_sender_hangup_def mt_drop_receiver_def Let_def split: dgram_error.splits)

end
