(* ===== verification/Net_Types.thy ===== *)
theory Net_Types
  imports Token
begin

section \<open>Network messages\<close>

text \<open>
  Model of \<open>src/aquic-core/src/net/types.rs\<close>: the messages that are received from and sent to the
  network, which may hold several datagrams of one size (GRO and GSO segments), and the iterator
  \<open>MultiMsgFlattenIter\<close> that hands out single packets. A buffer is the list of its bytes, as long as its
  capacity; \<open>dbg\<close> says whether the debug assertions are compiled in. An iterator mutates its
  messages only through the payloads it lends, which the model reads.

  The lemmas show that in the release profile the iterator yields every segment of every message once
  and in order, and that in the debug profile it panics at the first packet.
\<close>

subsection \<open>Addresses and messages\<close>

datatype ecn = NEct | Ect1 | Ect0 | Ce

record sock_addr =
  sa_ip :: ip_addr
  sa_port :: nat

definition ip_unspecified :: "ip_addr \<Rightarrow> bool" where
  "ip_unspecified ip = (case ip of V4 v4 \<Rightarrow> v4 = 0 | V6 v6 \<Rightarrow> v6 = 0)"

definition same_family :: "ip_addr \<Rightarrow> ip_addr \<Rightarrow> bool" where
  "same_family a b = (case (a, b) of (V4 _, V4 _) \<Rightarrow> True | (V6 _, V6 _) \<Rightarrow> True | _ \<Rightarrow> False)"

definition sock_unspecified :: "sock_addr \<Rightarrow> bool" where
  "sock_unspecified a \<longleftrightarrow> ip_unspecified (sa_ip a) \<or> sa_port a = 0"

record recv_msg =
  rm_buf :: "byte list"
  rm_read :: nat
  rm_from :: sock_addr
  rm_to :: ip_addr
  rm_ecn :: ecn
  rm_segment_count :: nat
  rm_timestamp :: "nat option"

definition recv_msg_new :: "byte list \<Rightarrow> panic + recv_msg" where
  "recv_msg_new buf = and_then (panic_if (\<not> 0 < length buf) AssertFailed) (\<lambda>_. Inr
     \<lparr>rm_buf = buf, rm_read = 0, rm_from = \<lparr>sa_ip = V4 0, sa_port = 0\<rparr>, rm_to = V4 0, rm_ecn = NEct,
      rm_segment_count = 0, rm_timestamp = None\<rparr>)"

definition recv_msg_recv ::
  "bool \<Rightarrow> nat \<Rightarrow> sock_addr \<Rightarrow> ip_addr \<Rightarrow> ecn \<Rightarrow> nat \<Rightarrow> nat option \<Rightarrow> recv_msg \<Rightarrow> panic + recv_msg" where
  "recv_msg_recv dbg read from to e segment_count timestamp msg =
     and_then (panic_if (sock_unspecified from) AssertFailed) (\<lambda>_.
     and_then (panic_if (ip_unspecified to) AssertFailed) (\<lambda>_.
     and_then (panic_if (1 < segment_count \<and> \<not> is_multiple_of read segment_count) AssertFailed) (\<lambda>_.
     and_then (panic_if (dbg \<and> \<not> same_family (sa_ip from) to) ExplicitPanic) (\<lambda>_. Inr
       (msg\<lparr>rm_read := read, rm_from := from, rm_to := to, rm_ecn := e,
            rm_segment_count := segment_count, rm_timestamp := timestamp\<rparr>)))))"

definition has_packet :: "recv_msg \<Rightarrow> bool" where
  "has_packet msg \<longleftrightarrow> rm_read msg \<noteq> 0"

definition write_slice :: "bool \<Rightarrow> recv_msg \<Rightarrow> panic + byte list" where
  "write_slice dbg msg = and_then (panic_if (dbg \<and> has_packet msg) DebugAssertFailed) (\<lambda>_. Inr (rm_buf msg))"

definition read_slice :: "bool \<Rightarrow> recv_msg \<Rightarrow> panic + byte list" where
  "read_slice dbg msg = and_then (panic_if (dbg \<and> \<not> has_packet msg) DebugAssertFailed) (\<lambda>_.
     and_then (panic_if (length (rm_buf msg) < rm_read msg) IndexOutOfBounds) (\<lambda>_.
       Inr (slice 0 (rm_read msg) (rm_buf msg))))"

definition segment_size :: "bool \<Rightarrow> recv_msg \<Rightarrow> panic + nat" where
  "segment_size dbg msg = and_then (panic_if (dbg \<and> \<not> has_packet msg) DebugAssertFailed) (\<lambda>_. Inr
     (if rm_segment_count msg = 0 then rm_read msg else rm_read msg div rm_segment_count msg))"

text \<open>The getters check in the debug profile that a packet was received.\<close>

definition received_field :: "bool \<Rightarrow> (recv_msg \<Rightarrow> 'a) \<Rightarrow> recv_msg \<Rightarrow> panic + 'a" where
  "received_field dbg field msg = and_then (panic_if (dbg \<and> \<not> has_packet msg) DebugAssertFailed) (\<lambda>_. Inr (field msg))"

definition recv_msg_from :: "bool \<Rightarrow> recv_msg \<Rightarrow> panic + sock_addr" where
  "recv_msg_from dbg = received_field dbg rm_from"

definition recv_msg_to :: "bool \<Rightarrow> recv_msg \<Rightarrow> panic + ip_addr" where
  "recv_msg_to dbg = received_field dbg rm_to"

definition recv_msg_ecn :: "bool \<Rightarrow> recv_msg \<Rightarrow> panic + ecn" where
  "recv_msg_ecn dbg = received_field dbg rm_ecn"

definition recv_msg_segment_count :: "bool \<Rightarrow> recv_msg \<Rightarrow> panic + nat" where
  "recv_msg_segment_count dbg = received_field dbg rm_segment_count"

definition recv_msg_len :: "bool \<Rightarrow> recv_msg \<Rightarrow> panic + nat" where
  "recv_msg_len dbg = received_field dbg rm_read"

definition recv_msg_timestamp :: "bool \<Rightarrow> recv_msg \<Rightarrow> panic + nat option" where
  "recv_msg_timestamp dbg = received_field dbg rm_timestamp"

record 'b send_msg =
  sm_buf :: 'b
  sm_from :: ip_addr
  sm_to :: sock_addr
  sm_ecn :: ecn
  sm_segment_count :: nat

definition send_msg_new ::
  "bool \<Rightarrow> ('b \<Rightarrow> nat) \<Rightarrow> 'b \<Rightarrow> ip_addr \<Rightarrow> sock_addr \<Rightarrow> ecn \<Rightarrow> nat \<Rightarrow> panic + 'b send_msg" where
  "send_msg_new dbg len buf from to e segment_count =
     and_then (panic_if (\<not> len buf \<noteq> 0) AssertFailed) (\<lambda>_.
     and_then (panic_if (1 < segment_count \<and> \<not> is_multiple_of (len buf) segment_count) AssertFailed) (\<lambda>_.
     and_then (panic_if (sock_unspecified to) AssertFailed) (\<lambda>_.
     and_then (panic_if (dbg \<and> \<not> same_family from (sa_ip to)) ExplicitPanic) (\<lambda>_. Inr
       \<lparr>sm_buf = buf, sm_from = from, sm_to = to, sm_ecn = e, sm_segment_count = segment_count\<rparr>))))"

subsection \<open>Server names\<close>

text \<open>\<open>ServerName\<close>: the parsers of the crate \<open>domain\<close> and of \<open>IpAddr\<close> are parameters, \<open>'n\<close> is a parsed domain name.\<close>

datatype 'n server_name = Domain 'n | Ip ip_addr

datatype server_name_error = ServerNameError

definition server_name_try_from :: "(string \<Rightarrow> 'n option) \<Rightarrow> (string \<Rightarrow> ip_addr option) \<Rightarrow> string \<Rightarrow> server_name_error + 'n server_name" where
  "server_name_try_from parse_name parse_ip value = (case parse_name value of
     Some name \<Rightarrow> Inr (Domain name)
   | None \<Rightarrow> (case parse_ip value of Some addr \<Rightarrow> Inr (Ip addr) | None \<Rightarrow> Inl ServerNameError))"

subsection \<open>Buffers\<close>

text \<open>\<open>ConstBuf\<close> of \<open>src/aquic-core/src/net/buf.rs\<close>, a buffer of \<open>SIZE\<close> bytes on the stack or the heap.
  \<open>const_as_mut_slice\<close> is \<open>BufMut::as_slice\<close> together with what the borrower makes of the bytes.\<close>

datatype const_storage = Stack "byte list" | Heap "byte list"

record const_buf =
  cb_storage :: const_storage
  cb_len :: nat

definition storage_deref :: "const_storage \<Rightarrow> byte list" where
  "storage_deref s = (case s of Stack arr \<Rightarrow> arr | Heap arr \<Rightarrow> arr)"

definition storage_deref_mut :: "(byte list \<Rightarrow> byte list) \<Rightarrow> const_storage \<Rightarrow> const_storage" where
  "storage_deref_mut f s = (case s of Stack arr \<Rightarrow> Stack (f arr) | Heap arr \<Rightarrow> Heap (f arr))"

definition const_new_stack :: "nat \<Rightarrow> const_buf" where
  "const_new_stack n = \<lparr>cb_storage = Stack (replicate n 0), cb_len = 0\<rparr>"

definition const_new_heap :: "nat \<Rightarrow> const_buf" where
  "const_new_heap n = \<lparr>cb_storage = Heap (replicate n 0), cb_len = 0\<rparr>"

definition const_as_slice :: "const_buf \<Rightarrow> panic + byte list" where
  "const_as_slice b = and_then (panic_if (length (storage_deref (cb_storage b)) < cb_len b) IndexOutOfBounds) (\<lambda>_.
     Inr (take (cb_len b) (storage_deref (cb_storage b))))"

definition const_capacity :: "const_buf \<Rightarrow> nat" where
  "const_capacity b = length (storage_deref (cb_storage b))"

definition const_as_mut_slice :: "(byte list \<Rightarrow> byte list) \<Rightarrow> const_buf \<Rightarrow> const_buf" where
  "const_as_mut_slice f b = b\<lparr>cb_storage := storage_deref_mut f (cb_storage b)\<rparr>"

subsection \<open>The flattening iterator\<close>

record packet =
  pk_from :: sock_addr
  pk_to :: ip_addr
  pk_ecn :: ecn
  pk_timestamp :: "nat option"
  pk_payload :: "byte list"

record flatten_iter =
  fi_msgs :: "recv_msg list"
  fi_index :: nat
  fi_offset :: nat

definition flatten_new :: "recv_msg list \<Rightarrow> flatten_iter" where
  "flatten_new msgs = \<lparr>fi_msgs = msgs, fi_index = 0, fi_offset = 0\<rparr>"

definition checked_rem :: "nat \<Rightarrow> nat \<Rightarrow> panic + nat" where
  "checked_rem a b = (if b = 0 then Inl DivByZero else Inr (a mod b))"

definition debug_assert_segments :: "bool \<Rightarrow> recv_msg \<Rightarrow> nat \<Rightarrow> panic + unit" where
  "debug_assert_segments dbg msg offset =
     (if \<not> dbg then Inr ()
      else and_then (segment_size dbg msg) (\<lambda>size.
           and_then (checked_rem (rm_read msg) size) (\<lambda>r.
           and_then (panic_if (r \<noteq> 0) DebugAssertFailed) (\<lambda>_.
           and_then (checked_rem (rm_read msg) offset) (\<lambda>r.
             panic_if (r \<noteq> 0) DebugAssertFailed)))))"

function flatten_peek :: "bool \<Rightarrow> flatten_iter \<Rightarrow> panic + (packet option \<times> flatten_iter)" where
  "flatten_peek dbg it =
     (if \<not> fi_index it < length (fi_msgs it) then Inr (None, it)
      else let msg = fi_msgs it ! fi_index it in
        if rm_read msg \<le> fi_offset it
        then flatten_peek dbg (it\<lparr>fi_index := fi_index it + 1, fi_offset := 0\<rparr>)
        else and_then (debug_assert_segments dbg msg (fi_offset it)) (\<lambda>_.
             and_then (segment_size dbg msg) (\<lambda>size.
             and_then (panic_if (length (rm_buf msg) < fi_offset it + size) IndexOutOfBounds) (\<lambda>_.
               Inr (Some \<lparr>pk_from = rm_from msg, pk_to = rm_to msg, pk_ecn = rm_ecn msg,
                          pk_timestamp = rm_timestamp msg,
                          pk_payload = slice (fi_offset it) (fi_offset it + size) (rm_buf msg)\<rparr>, it)))))"
  by pat_completeness auto
termination
  by (relation "measure (\<lambda>(dbg, it). length (fi_msgs it) - fi_index it)") auto

declare flatten_peek.simps [simp del]

definition flatten_next :: "bool \<Rightarrow> flatten_iter \<Rightarrow> panic + flatten_iter" where
  "flatten_next dbg it =
     (if \<not> fi_index it < length (fi_msgs it) then Inr it
      else let msg = fi_msgs it ! fi_index it in
        and_then (segment_size dbg msg) (\<lambda>size.
          let it1 = it\<lparr>fi_offset := fi_offset it + size\<rparr>;
              it2 = (if rm_read msg \<le> fi_offset it1 then it1\<lparr>fi_index := fi_index it1 + 1, fi_offset := 0\<rparr> else it1)
          in and_then (debug_assert_segments dbg msg (fi_offset it2)) (\<lambda>_. Inr it2)))"

text \<open>The loop of a consumer: it takes a packet and moves on, until there is none.\<close>

fun flatten_all :: "bool \<Rightarrow> nat \<Rightarrow> flatten_iter \<Rightarrow> (panic + packet list) option" where
  "flatten_all dbg 0 it = None"
| "flatten_all dbg (Suc fuel) it = (case flatten_peek dbg it of
     Inl p \<Rightarrow> Some (Inl p)
   | Inr (None, _) \<Rightarrow> Some (Inr [])
   | Inr (Some pk, it1) \<Rightarrow>
       (case flatten_next dbg it1 of
          Inl p \<Rightarrow> Some (Inl p)
        | Inr it2 \<Rightarrow> map_option (map_sum id ((#) pk)) (flatten_all dbg fuel it2)))"

subsection \<open>The segments of a message\<close>

definition recv_msg_ok :: "recv_msg \<Rightarrow> bool" where
  "recv_msg_ok msg \<longleftrightarrow> rm_read msg \<le> length (rm_buf msg) \<and>
     (1 < rm_segment_count msg \<longrightarrow> rm_segment_count msg dvd rm_read msg)"

definition seg_len :: "recv_msg \<Rightarrow> nat" where
  "seg_len msg = (if rm_segment_count msg = 0 then rm_read msg else rm_read msg div rm_segment_count msg)"

definition segment :: "recv_msg \<Rightarrow> nat \<Rightarrow> packet" where
  "segment msg offset = \<lparr>pk_from = rm_from msg, pk_to = rm_to msg, pk_ecn = rm_ecn msg, pk_timestamp = rm_timestamp msg,
     pk_payload = slice offset (offset + seg_len msg) (rm_buf msg)\<rparr>"

definition segments :: "recv_msg \<Rightarrow> packet list" where
  "segments msg = map (\<lambda>i. segment msg (i * seg_len msg)) [0 ..< if rm_read msg = 0 then 0 else max (rm_segment_count msg) 1]"

lemma seg_len_times:
  assumes "recv_msg_ok msg" and "rm_read msg \<noteq> 0"
  shows "max (rm_segment_count msg) 1 * seg_len msg = rm_read msg" and "0 < seg_len msg"
proof -
  show *: "max (rm_segment_count msg) 1 * seg_len msg = rm_read msg"
    using assms by (cases "rm_segment_count msg \<le> 1") (auto simp: recv_msg_ok_def seg_len_def max_def le_Suc_eq)
  show "0 < seg_len msg" using * assms(2) by (metis mult_0_right neq0_conv)
qed

lemma length_segments: "recv_msg_ok msg \<Longrightarrow> length (segments msg) * seg_len msg = rm_read msg"
  using seg_len_times [of msg] by (auto simp: segments_def seg_len_def)

lemma segments_nth:
  assumes "recv_msg_ok msg" and "offset < rm_read msg" and "seg_len msg dvd offset"
  shows "offset div seg_len msg < length (segments msg)" and "segments msg ! (offset div seg_len msg) = segment msg offset"
    and "offset + seg_len msg \<le> rm_read msg"
proof -
  obtain i where i: "offset = i * seg_len msg" using assms(3) by (metis dvd_def mult.commute)
  have pos: "0 < seg_len msg" using seg_len_times(2) [OF assms(1)] assms(2) by simp
  have lt: "i < length (segments msg)" using assms(2) length_segments [OF assms(1)] i by (metis mult_less_cancel2)
  show "offset div seg_len msg < length (segments msg)" using lt i pos by simp
  have "i < max (rm_segment_count msg) 1" using lt by (simp add: segments_def split: if_splits)
  then show "segments msg ! (offset div seg_len msg) = segment msg offset"
    using i pos assms(2) by (simp add: segments_def)
  show "offset + seg_len msg \<le> rm_read msg"
    using lt i length_segments [OF assms(1)] by (metis add.commute mult_Suc mult_le_mono1 Suc_leI)
qed

definition iter_ok :: "flatten_iter \<Rightarrow> bool" where
  "iter_ok it \<longleftrightarrow> (\<forall>msg \<in> set (fi_msgs it). recv_msg_ok msg) \<and>
     (fi_index it < length (fi_msgs it) \<longrightarrow>
       (let msg = fi_msgs it ! fi_index it in
        seg_len msg dvd fi_offset it \<and> (fi_offset it < rm_read msg \<or> fi_offset it = 0)))"

definition iter_rest :: "flatten_iter \<Rightarrow> packet list" where
  "iter_rest it =
     (if fi_index it < length (fi_msgs it)
      then let msg = fi_msgs it ! fi_index it in
        drop (fi_offset it div seg_len msg) (segments msg) @ concat (map segments (drop (Suc (fi_index it)) (fi_msgs it)))
      else [])"

lemma iter_start:
  assumes "\<forall>msg \<in> set msgs. recv_msg_ok msg"
  shows "iter_ok \<lparr>fi_msgs = msgs, fi_index = i, fi_offset = 0\<rparr>"
    and "iter_rest \<lparr>fi_msgs = msgs, fi_index = i, fi_offset = 0\<rparr> = concat (map segments (drop i msgs))"
  using assms by (auto simp: iter_ok_def iter_rest_def Let_def simp flip: Cons_nth_drop_Suc)

lemma flatten_peek_rest:
  assumes "iter_ok it"
  shows "(iter_rest it = [] \<longrightarrow> (\<exists>it1. flatten_peek False it = Inr (None, it1))) \<and>
    (iter_rest it \<noteq> [] \<longrightarrow> (\<exists>it1. flatten_peek False it = Inr (Some (hd (iter_rest it)), it1) \<and> iter_ok it1 \<and>
      iter_rest it1 = iter_rest it \<and> fi_index it1 < length (fi_msgs it1) \<and> fi_offset it1 < rm_read (fi_msgs it1 ! fi_index it1)))"
  using assms
proof (induction "False" it rule: flatten_peek.induct)
  case (1 it)
  let ?msg = "fi_msgs it ! fi_index it"
  show ?case
  proof (cases "fi_index it < length (fi_msgs it)")
    case False
    then show ?thesis by (simp add: iter_rest_def flatten_peek.simps [of _ it])
  next
    case True
    have ok: "recv_msg_ok ?msg" using "1.prems" True by (auto simp: iter_ok_def)
    show ?thesis
    proof (cases "rm_read ?msg \<le> fi_offset it")
      case True': True
      have z: "rm_read ?msg = 0" "fi_offset it = 0" using "1.prems" True True' by (auto simp: iter_ok_def Let_def)
      let ?it1 = "it\<lparr>fi_index := fi_index it + 1, fi_offset := 0\<rparr>"
      have it1: "iter_ok ?it1" "iter_rest ?it1 = iter_rest it"
        using iter_start [of "fi_msgs it" "Suc (fi_index it)"] "1.prems" True z
        by (auto simp: iter_ok_def iter_rest_def segments_def Let_def simp flip: Cons_nth_drop_Suc)
      have "flatten_peek False it = flatten_peek False ?it1"
        using True True' by (subst flatten_peek.simps) (simp add: Let_def)
      with "1.hyps" [OF _ _ True' it1(1)] True it1(2) show ?thesis by simp
    next
      case False
      have dvd: "seg_len ?msg dvd fi_offset it" using "1.prems" True by (simp add: iter_ok_def Let_def)
      note s = segments_nth [OF ok _ dvd]
      have "iter_rest it \<noteq> []" "hd (iter_rest it) = segment ?msg (fi_offset it)"
        using s(1,2) False True by (simp_all add: iter_rest_def Let_def hd_append hd_drop_conv_nth)
      moreover have "flatten_peek False it = Inr (Some (segment ?msg (fi_offset it)), it)"
        using True False s(3) ok
        by (subst flatten_peek.simps)
          (simp add: Let_def debug_assert_segments_def segment_size_def panic_if_def and_then_def segment_def seg_len_def recv_msg_ok_def)
      ultimately show ?thesis using "1.prems" True False by simp
    qed
  qed
qed

lemma flatten_peek_none: "flatten_peek dbg it = Inr (None, it1) \<Longrightarrow> iter_rest it1 = []"
proof (induction dbg it rule: flatten_peek.induct)
  case (1 dbg it)
  show ?case using "1.prems" "1.IH" by (subst (asm) flatten_peek.simps) (auto simp: iter_rest_def rust_simps Let_def split: if_splits)
qed

lemma flatten_next_rest:
  assumes "iter_ok it" and "fi_index it < length (fi_msgs it)" and "fi_offset it < rm_read (fi_msgs it ! fi_index it)"
  shows "\<exists>it1. flatten_next False it = Inr it1 \<and> iter_ok it1 \<and> iter_rest it1 = tl (iter_rest it)"
proof -
  let ?msg = "fi_msgs it ! fi_index it" and ?o = "fi_offset it"
  have ok: "recv_msg_ok ?msg" "seg_len ?msg dvd ?o" using assms(1,2) by (auto simp: iter_ok_def Let_def)
  note s = segments_nth [OF ok(1) assms(3) ok(2)]
  have pos: "0 < seg_len ?msg" using seg_len_times(2) [OF ok(1)] assms(3) by simp
  have suc: "(?o + seg_len ?msg) div seg_len ?msg = Suc (?o div seg_len ?msg)"
    using pos div_add_self2 [of "seg_len ?msg" ?o] by simp
  have tl: "tl (iter_rest it) = drop (Suc (?o div seg_len ?msg)) (segments ?msg) @ concat (map segments (drop (Suc (fi_index it)) (fi_msgs it)))"
    using s(1) assms(2) by (simp add: iter_rest_def Let_def Cons_nth_drop_Suc [OF s(1), symmetric])
  have nx: "flatten_next False it =
      Inr (if rm_read ?msg \<le> ?o + seg_len ?msg then it\<lparr>fi_index := fi_index it + 1, fi_offset := 0\<rparr>
           else it\<lparr>fi_offset := ?o + seg_len ?msg\<rparr>)"
    using assms(2) by (simp add: flatten_next_def segment_size_def seg_len_def debug_assert_segments_def panic_if_def and_then_def Let_def)
  show ?thesis
  proof (cases "rm_read ?msg \<le> ?o + seg_len ?msg")
    case True
    with s(3) have "?o + seg_len ?msg = rm_read ?msg" by simp
    with suc length_segments [OF ok(1)] pos have "length (segments ?msg) = Suc (?o div seg_len ?msg)"
      by (metis nonzero_mult_div_cancel_right neq0_conv)
    with tl nx True iter_start [of "fi_msgs it" "Suc (fi_index it)"] assms(1)
    show ?thesis by (cases it) (auto simp: iter_ok_def)
  next
    case False
    with tl nx suc ok(2) assms(1,2) show ?thesis by (auto simp: iter_ok_def iter_rest_def Let_def)
  qed
qed

lemma flatten_all_rest:
  "iter_ok it \<Longrightarrow> length (iter_rest it) < fuel \<Longrightarrow> flatten_all False fuel it = Some (Inr (iter_rest it))"
proof (induction fuel arbitrary: it)
  case (Suc fuel)
  show ?case
  proof (cases "iter_rest it = []")
    case True
    with flatten_peek_rest [OF Suc.prems(1)] show ?thesis by auto
  next
    case False
    then obtain it1 where it1: "flatten_peek False it = Inr (Some (hd (iter_rest it)), it1)" "iter_ok it1" "iter_rest it1 = iter_rest it"
      "fi_index it1 < length (fi_msgs it1)" "fi_offset it1 < rm_read (fi_msgs it1 ! fi_index it1)"
      using flatten_peek_rest [OF Suc.prems(1)] by blast
    obtain it2 where it2: "flatten_next False it1 = Inr it2" "iter_ok it2" "iter_rest it2 = tl (iter_rest it)"
      using flatten_next_rest [OF it1(2,4,5)] it1(3) by auto
    have "flatten_all False fuel it2 = Some (Inr (iter_rest it2))"
      using Suc.prems(2) False it2(3) by (intro Suc.IH [OF it2(2)]) (cases "iter_rest it"; simp)
    with it1(1) it2 False show ?thesis by simp
  qed
qed simp

lemma concat_slices: "concat (map (\<lambda>i. slice (i * s) (i * s + s) xs) [0 ..< n]) = take (n * s) xs"
proof (induction n)
  case (Suc n)
  have "take (Suc n * s) xs = take (n * s) xs @ slice (n * s) (n * s + s) xs"
    using take_add [of "n * s" s xs] by (simp add: slice_def drop_take ac_simps)
  with Suc show ?case by simp
qed simp

lemma segments_payload:
  assumes "recv_msg_ok msg"
  shows "concat (map pk_payload (segments msg)) = take (rm_read msg) (rm_buf msg)"
  using seg_len_times(1) [OF assms] concat_slices [where s = "seg_len msg" and xs = "rm_buf msg" and n = "max (rm_segment_count msg) 1"]
  by (simp add: segments_def segment_def comp_def)

subsection \<open>Getters and server names\<close>

text \<open>After \<open>recv\<close> of a message that is not empty, the getters return what was received, in both profiles.\<close>

lemma recv_msg_getters:
  assumes "recv_msg_recv dbg' read from to e segment_count timestamp msg0 = Inr msg" and "read \<noteq> 0"
  shows "recv_msg_from dbg msg = Inr from" "recv_msg_to dbg msg = Inr to" "recv_msg_ecn dbg msg = Inr e" "recv_msg_len dbg msg = Inr read"
    "recv_msg_segment_count dbg msg = Inr segment_count" "recv_msg_timestamp dbg msg = Inr timestamp"
  using assms by (auto simp: recv_msg_recv_def recv_msg_from_def recv_msg_to_def recv_msg_ecn_def recv_msg_len_def recv_msg_segment_count_def
      recv_msg_timestamp_def received_field_def has_packet_def rust_simps)

text \<open>An address that is also a domain name becomes a domain, since the name is tried first.\<close>

lemma server_name_prefers_domain:
  "server_name_try_from parse_name parse_ip value = Inr (Ip addr) \<longleftrightarrow> parse_name value = None \<and> parse_ip value = Some addr"
  by (simp add: server_name_try_from_def split: option.split)

subsection \<open>Constant buffers stay empty\<close>

text \<open>A message received into a \<open>ConstBuf\<close> is found again through \<open>BufMut::as_slice\<close>, as \<open>RecvMsg\<close> reads it. As a \<open>Buf\<close> it
  is empty whatever was written into it, since nothing sets its length, and no \<open>SendMsg\<close> can be made of it.\<close>

inductive const_reach :: "nat \<Rightarrow> const_buf \<Rightarrow> bool" for n where
  cr_stack: "const_reach n (const_new_stack n)"
| cr_heap: "const_reach n (const_new_heap n)"
| cr_write: "const_reach n b \<Longrightarrow> (\<And>bs. length (f bs) = length bs) \<Longrightarrow> const_reach n (const_as_mut_slice f b)"

lemma const_reach_empty: "const_reach n b \<Longrightarrow> const_capacity b = n \<and> cb_len b = 0 \<and> const_as_slice b = Inr []"
  by (induction rule: const_reach.induct)
    (auto simp: const_new_stack_def const_new_heap_def const_as_mut_slice_def const_capacity_def const_as_slice_def storage_deref_def
      storage_deref_mut_def split: const_storage.splits)

lemma const_buf_unsendable: "const_reach n b \<Longrightarrow> send_msg_new dbg cb_len b from to e n_segments = Inl AssertFailed"
  using const_reach_empty [of n b] by (simp add: send_msg_new_def)

lemma const_write_read: "storage_deref (cb_storage (const_as_mut_slice f b)) = f (storage_deref (cb_storage b))"
  by (simp add: const_as_mut_slice_def storage_deref_def storage_deref_mut_def split: const_storage.splits)

subsection \<open>Properties\<close>

text \<open>C25: in the release profile the iterator ends and hands out every segment of every received message
  exactly once and in order, when the messages are as \<open>RecvMsg::recv\<close> leaves them.\<close>

theorem flatten_iter_complete:
  assumes "\<forall>msg \<in> set msgs. recv_msg_ok msg" and "length (concat (map segments msgs)) < fuel"
  shows "flatten_all False fuel (flatten_new msgs) = Some (Inr (concat (map segments msgs))) \<and>
     (\<forall>msg \<in> set msgs. concat (map pk_payload (segments msg)) = take (rm_read msg) (rm_buf msg))"
  using flatten_all_rest [of "flatten_new msgs" fuel] iter_start [OF assms(1), of 0] assms segments_payload
  by (simp add: flatten_new_def)

theorem flatten_iter_complete_witness:
  "\<exists>msg. recv_msg_ok msg \<and> rm_segment_count msg = 2 \<and>
     flatten_all False 3 (flatten_new [msg]) = Some (Inr (segments msg)) \<and> map pk_payload (segments msg) = [[1, 2], [3, 4]]"
proof -
  let ?msg = "\<lparr>rm_buf = [1, 2, 3, 4, 0], rm_read = 4, rm_from = \<lparr>sa_ip = V4 1, sa_port = 1\<rparr>, rm_to = V4 2, rm_ecn = NEct,
    rm_segment_count = 2, rm_timestamp = None\<rparr>"
  have "recv_msg_ok ?msg" "map pk_payload (segments ?msg) = [[1, 2], [3, 4]]" "length (segments ?msg) = 2"
    by (simp_all add: recv_msg_ok_def segments_def segment_def seg_len_def slice_def upt_rec)
  then show ?thesis using flatten_iter_complete [of "[?msg]" 3] by (intro exI [of _ ?msg]) simp
qed

text \<open>In the debug profile the iterator panics at the first packet: \<open>debug_assert_eq!(msg.read % self.msg_offset, 0)\<close>
  divides by the offset, which is zero there.\<close>

lemma flatten_debug_panics:
  assumes "recv_msg_ok msg" and "rm_read msg \<noteq> 0"
  shows "flatten_peek True (flatten_new (msg # msgs)) = Inl DivByZero"
proof -
  have "rm_read msg mod seg_len msg = 0" "seg_len msg \<noteq> 0"
    using seg_len_times [OF assms] by (metis mod_mult_self2_is_0, simp)
  then show ?thesis using assms(2)
    by (subst flatten_peek.simps) (simp add: flatten_new_def debug_assert_segments_def segment_size_def checked_rem_def
        has_packet_def panic_if_def and_then_def seg_len_def)
qed

end
