(* ===== verification/Quiche_Connection.thy ===== *)
theory Quiche_Connection
  imports Backend_Events Net_Types Wheel_Timer
begin

section \<open>Connections of the quiche backend\<close>

text \<open>
  Model of \<open>src/aquic-core/src/backend/quiche/connection.rs\<close>. The crate \<open>quiche\<close> is a parameter: \<open>'q\<close> is a
  \<open>quiche::Connection\<close>, and \<open>quiche_ops\<close> are the methods that the backend calls. A method that a loop
  calls until it returns \<open>None\<close> (\<open>retired_scid_next\<close>, \<open>stream_readable_next\<close>, \<open>path_event_next\<close>, \<dots>) is
  given as the list of what it returns and the connection afterwards. \<open>hashlink::LinkedHashSet\<close> is a
  parameter too: \<open>lset_ops\<close>, with \<open>linked_set\<close> for what it promises. A slot map is a map from
  keys; the key that \<open>insert\<close> chooses is an argument. The dictionary of connection IDs is keyed by the
  bytes of the ID, which is how \<open>ConnectionId\<close> compares and hashes.
\<close>

subsection \<open>The crate \<open>quiche\<close>\<close>

datatype quiche_error =
    QDone | QBufferTooShort | QUnknownVersion | QInvalidFrame | QInvalidPacket | QInvalidState
  | QInvalidStreamState nat | QInvalidTransportParam | QCryptoFail | QTlsFail | QFlowControl
  | QStreamLimit | QStreamStopped nat | QStreamReset nat | QFinalSize | QCongestionControl
  | QIdLimit | QOutOfIdentifiers | QKeyUpdate | QCryptoBufferExceeded | QInvalidAckRange
  | QOptimisticAckDetected | QInvalidDcidInitialization

record quiche_path =
  qp_local :: sock_addr
  qp_peer :: sock_addr
  qp_active :: bool

record close_error =
  ce_code :: nat
  ce_reason :: "byte list"
  ce_is_app :: bool

datatype path_event = PathValidated | PathPeerMigrated | PathOther

record release_decision =
  rd_can_burst :: bool
  rd_time :: "nat \<Rightarrow> nat option"

record 'q quiche_ops =
  q_is_server :: "'q \<Rightarrow> bool"
  q_is_established :: "'q \<Rightarrow> bool"
  q_is_closed :: "'q \<Rightarrow> bool"
  q_is_draining :: "'q \<Rightarrow> bool"
  q_is_timed_out :: "'q \<Rightarrow> bool"
  q_source_id :: "'q \<Rightarrow> byte list"
  q_source_ids :: "'q \<Rightarrow> byte list list"
  q_retired_scids :: "'q \<Rightarrow> byte list list \<times> 'q"
  q_path_stats :: "'q \<Rightarrow> quiche_path list"
  q_is_path_validated :: "sock_addr \<Rightarrow> sock_addr \<Rightarrow> 'q \<Rightarrow> bool option"
  q_streams_left_bidi :: "'q \<Rightarrow> nat"
  q_streams_left_uni :: "'q \<Rightarrow> nat"
  q_dgram_max_writable_len :: "'q \<Rightarrow> nat option"
  q_local_error :: "'q \<Rightarrow> close_error option"
  q_peer_error :: "'q \<Rightarrow> close_error option"
  q_next_release_time :: "'q \<Rightarrow> release_decision option"

subsection \<open>Data\<close>

type_synonym connection_key = nat

record quiche_connection_id =
  qid_key :: connection_key
  qid_trace :: "byte list"

definition qid_eq :: "quiche_connection_id \<Rightarrow> quiche_connection_id \<Rightarrow> bool" where
  "qid_eq a b \<longleftrightarrow> qid_key a = qid_key b"

datatype timer_kind = Pacer | QuicheTimeout | EstablishTimeout

record 'q connection =
  cn_inner :: 'q
  cn_timer_pacer :: "timer_key option"
  cn_timer_quiche :: "timer_key option"
  cn_timer_establish :: "timer_key option"
  cn_trace :: "byte list"
  cn_bidi_sequence :: stream_id
  cn_uni_sequence :: stream_id
  cn_peer_verified :: bool
  cn_bidi_exhausted :: bool
  cn_uni_exhausted :: bool
  cn_dgram_in_drained :: bool
  cn_dgram_out_drained :: bool
  cn_dgram_out_max_size :: nat
  cn_closed_event_sent :: bool

definition connection_new :: "'q quiche_ops \<Rightarrow> 'q \<Rightarrow> bool \<Rightarrow> byte list \<Rightarrow> 'q connection" where
  "connection_new ops q peer_address_verified trace =
     (let is_client = (\<not> q_is_server ops q) in
      \<lparr>cn_inner = q, cn_timer_pacer = None, cn_timer_quiche = None, cn_timer_establish = None,
       cn_trace = trace, cn_bidi_sequence = initial is_client True, cn_uni_sequence = initial is_client False,
       cn_peer_verified = (is_client \<or> peer_address_verified), cn_bidi_exhausted = False,
       cn_uni_exhausted = False, cn_dgram_in_drained = False, cn_dgram_out_drained = False,
       cn_dgram_out_max_size = 0, cn_closed_event_sent = False\<rparr>)"

definition connection_id_of :: "connection_key \<Rightarrow> 'q connection \<Rightarrow> quiche_connection_id" where
  "connection_id_of key c = \<lparr>qid_key = key, qid_trace = cn_trace c\<rparr>"

subsection \<open>Timers, streams and events of a connection\<close>

definition pop_timer_key :: "timer_kind \<Rightarrow> 'q connection \<Rightarrow> timer_key option \<times> 'q connection" where
  "pop_timer_key kind c = (case kind of
     Pacer \<Rightarrow> (cn_timer_pacer c, c\<lparr>cn_timer_pacer := None\<rparr>)
   | QuicheTimeout \<Rightarrow> (cn_timer_quiche c, c\<lparr>cn_timer_quiche := None\<rparr>)
   | EstablishTimeout \<Rightarrow> (cn_timer_establish c, c\<lparr>cn_timer_establish := None\<rparr>))"

definition set_timer_key :: "timer_kind \<Rightarrow> timer_key option \<Rightarrow> 'q connection \<Rightarrow> 'q connection" where
  "set_timer_key kind key c = (case kind of
     Pacer \<Rightarrow> c\<lparr>cn_timer_pacer := key\<rparr>
   | QuicheTimeout \<Rightarrow> c\<lparr>cn_timer_quiche := key\<rparr>
   | EstablishTimeout \<Rightarrow> c\<lparr>cn_timer_establish := key\<rparr>)"

definition get_last_local_stream_id :: "bool \<Rightarrow> 'q connection \<Rightarrow> stream_id option" where
  "get_last_local_stream_id bidirectional c =
     (let sequence = (if bidirectional then cn_bidi_sequence c else cn_uni_sequence c)
      in case sid_previous sequence of Inr _ \<Rightarrow> Some sequence | Inl _ \<Rightarrow> None)"

definition peer_streams_left :: "'q quiche_ops \<Rightarrow> bool \<Rightarrow> 'q connection \<Rightarrow> nat" where
  "peer_streams_left ops bidirectional c =
     (if bidirectional then q_streams_left_bidi ops (cn_inner c) else q_streams_left_uni ops (cn_inner c))"

definition allocate_stream_id :: "bool \<Rightarrow> 'q connection \<Rightarrow> (stream_id_error + stream_id) \<times> 'q connection" where
  "allocate_stream_id bidirectional c =
     (let old = (if bidirectional then cn_bidi_sequence c else cn_uni_sequence c)
      in case sid_next old of
           Inl e \<Rightarrow> (Inl e, c)
         | Inr new \<Rightarrow> (Inr old, if bidirectional then c\<lparr>cn_bidi_sequence := new\<rparr> else c\<lparr>cn_uni_sequence := new\<rparr>))"

definition get_next_release_time :: "'q quiche_ops \<Rightarrow> nat \<Rightarrow> 'q connection \<Rightarrow> nat option" where
  "get_next_release_time ops now c = (case q_next_release_time ops (cn_inner c) of
     None \<Rightarrow> None
   | Some decision \<Rightarrow>
       if rd_can_burst decision then None
       else case rd_time decision now of
              None \<Rightarrow> None
            | Some time \<Rightarrow> if time - now \<le> 50000 then None else Some time)"

definition set_streams_exhausted :: "bool \<Rightarrow> 'q connection \<Rightarrow> 'q connection" where
  "set_streams_exhausted bidirectional c =
     (if bidirectional then c\<lparr>cn_bidi_exhausted := True\<rparr> else c\<lparr>cn_uni_exhausted := True\<rparr>)"

definition get_streams_available_events ::
  "'q quiche_ops \<Rightarrow> connection_key \<Rightarrow> 'q connection \<Rightarrow> quiche_connection_id connection_event list \<times> 'q connection" where
  "get_streams_available_events ops key c =
     (let (bidi, c1) =
        (if cn_bidi_exhausted c \<and> q_streams_left_bidi ops (cn_inner c) \<noteq> 0 \<and> \<not> isl (sid_next (cn_bidi_sequence c))
         then ([EvStreamsAvailable (connection_id_of key c) True], c\<lparr>cn_bidi_exhausted := False\<rparr>) else ([], c));
          uni =
        (if cn_uni_exhausted c1 \<and> q_streams_left_uni ops (cn_inner c1) \<noteq> 0 \<and> \<not> isl (sid_next (cn_uni_sequence c1))
         then [EvStreamsAvailable (connection_id_of key c1) False] else [])
      in (bidi @ uni, c1))"

definition set_dgram_in_drained :: "'q connection \<Rightarrow> 'q connection" where
  "set_dgram_in_drained c = c\<lparr>cn_dgram_in_drained := True\<rparr>"

definition set_dgram_out_drained :: "'q connection \<Rightarrow> 'q connection" where
  "set_dgram_out_drained c = c\<lparr>cn_dgram_out_drained := True\<rparr>"

definition get_dgram_in_available_event ::
  "connection_key \<Rightarrow> 'q connection \<Rightarrow> quiche_connection_id datagram_event option \<times> 'q connection" where
  "get_dgram_in_available_event key c =
     (if \<not> cn_dgram_in_drained c then (None, c)
      else let c1 = c\<lparr>cn_dgram_in_drained := False\<rparr> in (Some (EvInAvailable (connection_id_of key c1)), c1))"

definition get_dgram_out_available_event ::
  "connection_key \<Rightarrow> 'q connection \<Rightarrow> quiche_connection_id datagram_event option \<times> 'q connection" where
  "get_dgram_out_available_event key c =
     (if \<not> cn_dgram_out_drained c then (None, c)
      else let c1 = c\<lparr>cn_dgram_out_drained := False\<rparr> in (Some (EvOutAvailable (connection_id_of key c1)), c1))"

definition get_dgram_out_size_event ::
  "'q quiche_ops \<Rightarrow> connection_key \<Rightarrow> 'q connection \<Rightarrow> quiche_connection_id datagram_event option \<times> 'q connection" where
  "get_dgram_out_size_event ops key c =
     (let max_size = min (case q_dgram_max_writable_len ops (cn_inner c) of None \<Rightarrow> 0 | Some n \<Rightarrow> n) 65535
      in if cn_dgram_out_max_size c = max_size then (None, c)
         else let c1 = c\<lparr>cn_dgram_out_max_size := max_size\<rparr>
              in (Some (EvOutNewSize (connection_id_of key c1) max_size), c1))"

definition get_close_event ::
  "'q quiche_ops \<Rightarrow> connection_key \<Rightarrow> 'q connection \<Rightarrow> quiche_connection_id connection_event option \<times> 'q connection" where
  "get_close_event ops key c =
     (if cn_closed_event_sent c then (None, c)
      else let c1 = c\<lparr>cn_closed_event_sent := True\<rparr>; q = cn_inner c1; cid = connection_id_of key c1 in
        (Some
          (if q_is_timed_out ops q then EvHalted cid HaltTimeout
           else case q_local_error ops q of
                  Some e \<Rightarrow> EvClosed cid (ce_code e) (ce_reason e) (ce_is_app e) True
                | None \<Rightarrow>
                    (case q_peer_error ops q of
                       Some e \<Rightarrow> EvClosed cid (ce_code e) (ce_reason e) (ce_is_app e) False
                     | None \<Rightarrow> EvHalted cid StatelessReset)), c1))"

definition get_halt_event ::
  "connection_key \<Rightarrow> halt_kind \<Rightarrow> 'q connection \<Rightarrow> quiche_connection_id connection_event option \<times> 'q connection" where
  "get_halt_event key kind c =
     (if cn_closed_event_sent c then (None, c)
      else let c1 = c\<lparr>cn_closed_event_sent := True\<rparr> in (Some (EvHalted (connection_id_of key c1) kind), c1))"

end
