(* ===== verification/Quiche_Registry.thy ===== *)
theory Quiche_Registry
  imports Quiche_Connection
begin

section \<open>The connection registry of the quiche backend\<close>

text \<open>
  Model of \<open>Connections\<close> in \<open>src/aquic-core/src/backend/quiche/connection.rs\<close>: the slot map of all
  connections, the dictionaries that route a packet to one, the queue of the active ones and the counters
  of the server connections. \<open>debug_panic!\<close> panics in the debug profile only.

  The lemmas show an invariant of every registry that the backend can reach, while the connections in it
  evolve in any way that \<open>quiche\<close> allows: the queue holds live connections once, the dictionary of
  connection IDs leads to live connections that own the ID, and the counters count. They also show
  where the code breaks it: the dictionary of addresses is not kept.
\<close>

subsection \<open>The crates \<open>hashlink\<close> and \<open>slotmap\<close>\<close>

record 's lset_ops =
  ls_empty :: 's
  ls_replace :: "connection_key \<Rightarrow> 's \<Rightarrow> 's"
  ls_front :: "'s \<Rightarrow> connection_key option"
  ls_pop_front :: "'s \<Rightarrow> 's"
  ls_remove :: "connection_key \<Rightarrow> 's \<Rightarrow> 's"
  ls_len :: "'s \<Rightarrow> nat"

record ('q, 's) connections =
  cs_all :: "connection_key \<Rightarrow> 'q connection option"
  cs_cids :: "byte list \<Rightarrow> connection_key option"
  cs_addrs :: "sock_addr \<Rightarrow> connection_key option"
  cs_active :: 's
  cs_server_count :: nat
  cs_unverified_count :: nat

subsection \<open>Operations\<close>

definition connections_new :: "'s lset_ops \<Rightarrow> ('q, 's) connections" where
  "connections_new ls = \<lparr>cs_all = (\<lambda>_. None), cs_cids = (\<lambda>_. None), cs_addrs = (\<lambda>_. None),
     cs_active = ls_empty ls, cs_server_count = 0, cs_unverified_count = 0\<rparr>"

definition connections_insert ::
  "'q quiche_ops \<Rightarrow> 's lset_ops \<Rightarrow> connection_key \<Rightarrow> 'q connection \<Rightarrow> sock_addr \<Rightarrow> ('q, 's) connections \<Rightarrow>
   panic + (quiche_connection_id \<times> ('q, 's) connections)" where
  "connections_insert ops ls key c peer_addr cs =
     (case try_from_slice (q_source_id ops (cn_inner c)) of
        None \<Rightarrow> Inl ExplicitPanic
      | Some source_cid \<Rightarrow>
          let peer_addr = (case find qp_active (q_path_stats ops (cn_inner c)) of Some p \<Rightarrow> qp_peer p | None \<Rightarrow> peer_addr);
              cs1 = cs\<lparr>cs_all := (cs_all cs)(key \<mapsto> c), cs_active := ls_replace ls key (cs_active cs)\<rparr>;
              cs2 = (if cid_is_empty source_cid then cs1\<lparr>cs_addrs := (cs_addrs cs1)(peer_addr \<mapsto> key)\<rparr>
                     else cs1\<lparr>cs_cids := (cs_cids cs1)(as_slice source_cid \<mapsto> key)\<rparr>)
          in and_then
               (if \<not> q_is_server ops (cn_inner c) then Inr cs2
                else and_then (usize_add (cs_server_count cs2) 1) (\<lambda>n.
                  if cn_peer_verified c then Inr (cs2\<lparr>cs_server_count := n\<rparr>)
                  else and_then (usize_add (cs_unverified_count cs2) 1) (\<lambda>m.
                    Inr (cs2\<lparr>cs_server_count := n, cs_unverified_count := m\<rparr>))))
               (\<lambda>cs3. Inr (connection_id_of key c, cs3)))"

definition connections_get :: "connection_key \<Rightarrow> ('q, 's) connections \<Rightarrow> 'q connection option" where
  "connections_get key cs = cs_all cs key"

text \<open>\<open>get_mut\<close> lends the connection; \<open>put\<close> stores what the caller made of it.\<close>

definition connections_put :: "connection_key \<Rightarrow> 'q connection \<Rightarrow> ('q, 's) connections \<Rightarrow> ('q, 's) connections" where
  "connections_put key c cs = cs\<lparr>cs_all := (cs_all cs)(key \<mapsto> c)\<rparr>"

definition get_mark_active_if ::
  "'s lset_ops \<Rightarrow> ('q connection \<Rightarrow> bool) \<Rightarrow> connection_key \<Rightarrow> ('q, 's) connections \<Rightarrow> 'q connection option \<times> ('q, 's) connections" where
  "get_mark_active_if ls keep key cs = (case cs_all cs key of
     None \<Rightarrow> (None, cs)
   | Some c \<Rightarrow> if keep c then (Some c, cs\<lparr>cs_active := ls_replace ls key (cs_active cs)\<rparr>) else (None, cs))"

definition get_mark_active ::
  "'s lset_ops \<Rightarrow> connection_key \<Rightarrow> ('q, 's) connections \<Rightarrow> 'q connection option \<times> ('q, 's) connections" where
  "get_mark_active ls key cs = get_mark_active_if ls (\<lambda>_. True) key cs"

text \<open>The iterators over all connections visit them in the order of the slot map, which is an argument.\<close>

definition all_iter_mark_active ::
  "'s lset_ops \<Rightarrow> ('q connection \<Rightarrow> 'q connection) \<Rightarrow> connection_key list \<Rightarrow> ('q, 's) connections \<Rightarrow> ('q, 's) connections" where
  "all_iter_mark_active ls visit keys cs =
     fold (\<lambda>key cs. case cs_all cs key of
        None \<Rightarrow> cs
      | Some c \<Rightarrow> cs\<lparr>cs_active := ls_replace ls key (cs_active cs), cs_all := (cs_all cs)(key \<mapsto> visit c)\<rparr>) keys cs"

definition find_connection_key ::
  "bool \<Rightarrow> byte list \<Rightarrow> sock_addr \<Rightarrow> ('q, 's) connections \<Rightarrow> panic + connection_key option" where
  "find_connection_key dbg peer_dcid peer_addr cs =
     (case (if peer_dcid \<noteq> [] then cs_cids cs peer_dcid else cs_addrs cs peer_addr) of
        None \<Rightarrow> Inr None
      | Some key \<Rightarrow> and_then (panic_if (dbg \<and> cs_all cs key = None) DebugAssertFailed) (\<lambda>_. Inr (Some key)))"

definition mark_active :: "'s lset_ops \<Rightarrow> connection_key \<Rightarrow> ('q, 's) connections \<Rightarrow> ('q, 's) connections" where
  "mark_active ls key cs =
     (if cs_all cs key \<noteq> None then cs\<lparr>cs_active := ls_replace ls key (cs_active cs)\<rparr> else cs)"

definition next_active :: "'s lset_ops \<Rightarrow> ('q, 's) connections \<Rightarrow> ('q, 's) connections" where
  "next_active ls cs = cs\<lparr>cs_active := ls_pop_front ls (cs_active cs)\<rparr>"

definition active_len :: "'s lset_ops \<Rightarrow> ('q, 's) connections \<Rightarrow> nat" where
  "active_len ls cs = ls_len ls (cs_active cs)"

fun peek_loop ::
  "'s lset_ops \<Rightarrow> nat \<Rightarrow> ('q, 's) connections \<Rightarrow> (connection_key \<times> 'q connection) option \<times> ('q, 's) connections" where
  "peek_loop ls 0 cs = (None, cs)"
| "peek_loop ls (Suc n) cs = (case ls_front ls (cs_active cs) of
     None \<Rightarrow> (None, cs)
   | Some key \<Rightarrow>
       (case cs_all cs key of
          Some c \<Rightarrow> (Some (key, c), cs)
        | None \<Rightarrow> peek_loop ls n (next_active ls cs)))"

definition peek_active ::
  "'s lset_ops \<Rightarrow> ('q, 's) connections \<Rightarrow> (connection_key \<times> 'q connection) option \<times> ('q, 's) connections" where
  "peek_active ls cs = peek_loop ls (Suc (active_len ls cs)) cs"

definition mark_verified :: "'q quiche_ops \<Rightarrow> connection_key \<Rightarrow> ('q, 's) connections \<Rightarrow> panic + ('q, 's) connections" where
  "mark_verified ops key cs = (case cs_all cs key of
     None \<Rightarrow> Inr cs
   | Some c \<Rightarrow>
       if \<not> q_is_server ops (cn_inner c) then Inr cs
       else if \<not> cn_peer_verified c
         then and_then (usize_sub (cs_unverified_count cs) 1) (\<lambda>n.
           Inr (cs\<lparr>cs_all := (cs_all cs)(key \<mapsto> c\<lparr>cn_peer_verified := True\<rparr>), cs_unverified_count := n\<rparr>))
         else Inr cs)"

fun insert_scids :: "bool \<Rightarrow> connection_key \<Rightarrow> byte list list \<Rightarrow> (byte list \<Rightarrow> connection_key option) \<Rightarrow>
    panic + (byte list \<Rightarrow> connection_key option)" where
  "insert_scids dbg key [] dict = Inr dict"
| "insert_scids dbg key (cid # cids) dict = (case try_from_slice cid of
     Some cid' \<Rightarrow> insert_scids dbg key cids (dict(as_slice cid' \<mapsto> key))
   | None \<Rightarrow> and_then (panic_if dbg ExplicitPanic) (\<lambda>_. insert_scids dbg key cids dict))"

definition remove_scids :: "byte list list \<Rightarrow> (byte list \<Rightarrow> connection_key option) \<Rightarrow> byte list \<Rightarrow> connection_key option" where
  "remove_scids cids dict = fold (\<lambda>cid dict. dict(cid := None)) cids dict"

definition update_scids_dict ::
  "'q quiche_ops \<Rightarrow> bool \<Rightarrow> connection_key \<Rightarrow> ('q, 's) connections \<Rightarrow> panic + ('q, 's) connections" where
  "update_scids_dict ops dbg key cs = (case cs_all cs key of
     None \<Rightarrow> Inr cs
   | Some c \<Rightarrow>
       and_then (insert_scids dbg key (q_source_ids ops (cn_inner c)) (cs_cids cs)) (\<lambda>dict.
         let (retired, q) = q_retired_scids ops (cn_inner c)
         in Inr (cs\<lparr>cs_all := (cs_all cs)(key \<mapsto> c\<lparr>cn_inner := q\<rparr>), cs_cids := remove_scids retired dict\<rparr>)))"

definition validated_peer :: "'q quiche_ops \<Rightarrow> 'q \<Rightarrow> sock_addr option" where
  "validated_peer ops q = map_option qp_peer
     (find (\<lambda>it. case q_is_path_validated ops (qp_local it) (qp_peer it) q of Some b \<Rightarrow> b | None \<Rightarrow> False)
       (q_path_stats ops q))"

definition remove_addr :: "'q quiche_ops \<Rightarrow> bool \<Rightarrow> 'q \<Rightarrow> ('q, 's) connections \<Rightarrow> panic + ('q, 's) connections" where
  "remove_addr ops dbg q cs = (case validated_peer ops q of
     Some addr \<Rightarrow> Inr (cs\<lparr>cs_addrs := (cs_addrs cs)(addr := None)\<rparr>)
   | None \<Rightarrow> and_then (panic_if dbg ExplicitPanic) (\<lambda>_. Inr cs))"

definition remove_entries ::
  "'s lset_ops \<Rightarrow> connection_key \<Rightarrow> byte list list \<Rightarrow> ('q, 's) connections \<Rightarrow> ('q, 's) connections" where
  "remove_entries ls key cids cs = cs\<lparr>cs_all := (cs_all cs)(key := None), cs_active := ls_remove ls key (cs_active cs),
     cs_cids := remove_scids cids (cs_cids cs)\<rparr>"

definition uncount :: "'q quiche_ops \<Rightarrow> 'q connection \<Rightarrow> ('q, 's) connections \<Rightarrow> panic + ('q, 's) connections" where
  "uncount ops c cs =
     (if \<not> q_is_server ops (cn_inner c) then Inr cs
      else and_then (usize_sub (cs_server_count cs) 1) (\<lambda>n.
        if cn_peer_verified c then Inr (cs\<lparr>cs_server_count := n\<rparr>)
        else and_then (usize_sub (cs_unverified_count cs) 1) (\<lambda>m.
          Inr (cs\<lparr>cs_server_count := n, cs_unverified_count := m\<rparr>))))"

definition connections_remove ::
  "'q quiche_ops \<Rightarrow> 's lset_ops \<Rightarrow> bool \<Rightarrow> connection_key \<Rightarrow> ('q, 's) connections \<Rightarrow>
   panic + ('q connection option \<times> ('q, 's) connections)" where
  "connections_remove ops ls dbg key cs = (case cs_all cs key of
     None \<Rightarrow> Inr (None, cs)
   | Some c \<Rightarrow>
       let source_ids = q_source_ids ops (cn_inner c);
           (retired, q) = q_retired_scids ops (cn_inner c);
           scids_empty = (\<forall>cid \<in> set (source_ids @ retired). cid = []);
           cs1 = remove_entries ls key (source_ids @ retired) cs;
           c1 = c\<lparr>cn_inner := q\<rparr>
       in and_then (if scids_empty then remove_addr ops dbg q cs1 else Inr cs1) (\<lambda>cs2.
          and_then (uncount ops c1 cs2) (\<lambda>cs3. Inr (Some c1, cs3))))"

subsection \<open>What the registry relies on\<close>

definition linked_set :: "('s \<Rightarrow> connection_key list) \<Rightarrow> 's lset_ops \<Rightarrow> bool" where
  "linked_set elems ls \<longleftrightarrow> (\<forall>s k. distinct (elems s) \<and> elems (ls_empty ls) = [] \<and>
     elems (ls_replace ls k s) = (if k \<in> set (elems s) then elems s else elems s @ [k]) \<and>
     ls_front ls s = (case elems s of [] \<Rightarrow> None | k # _ \<Rightarrow> Some k) \<and>
     elems (ls_pop_front ls s) = tl (elems s) \<and>
     elems (ls_remove ls k s) = remove1 k (elems s) \<and>
     ls_len ls s = length (elems s))"

lemma linked_setD:
  assumes "linked_set elems ls"
  shows elems_distinct: "distinct (elems s)"
    and elems_empty: "elems (ls_empty ls) = []"
    and elems_replace: "elems (ls_replace ls k s) = (if k \<in> set (elems s) then elems s else elems s @ [k])"
    and elems_front: "ls_front ls s = (case elems s of [] \<Rightarrow> None | k # _ \<Rightarrow> Some k)"
    and elems_pop_front: "elems (ls_pop_front ls s) = tl (elems s)"
    and elems_remove: "elems (ls_remove ls k s) = remove1 k (elems s)"
    and elems_len: "ls_len ls s = length (elems s)"
  using assms by (auto simp: linked_set_def)

text \<open>A \<open>quiche\<close> connection never changes sides, its source ID is one of its source IDs, and a source ID
  leaves it only by being retired and then handed out by \<open>retired_scid_next\<close>.\<close>

definition owned_cids :: "'q quiche_ops \<Rightarrow> 'q \<Rightarrow> byte list set" where
  "owned_cids ops q = set (q_source_ids ops q) \<union> set (fst (q_retired_scids ops q))"

definition evolves :: "'q quiche_ops \<Rightarrow> 'q \<Rightarrow> 'q \<Rightarrow> bool" where
  "evolves ops q q' \<longleftrightarrow> q_is_server ops q' = q_is_server ops q \<and> owned_cids ops q \<subseteq> owned_cids ops q'"

definition quiche_ids :: "'q quiche_ops \<Rightarrow> bool" where
  "quiche_ids ops \<longleftrightarrow> (\<forall>q. q_source_id ops q \<in> set (q_source_ids ops q) \<and>
     (let q' = snd (q_retired_scids ops q) in fst (q_retired_scids ops q') = [] \<and>
        q_is_server ops q' = q_is_server ops q \<and> q_source_ids ops q' = q_source_ids ops q))"

lemma quiche_idsD:
  assumes "quiche_ids ops"
  shows source_owned: "q_source_id ops q \<in> set (q_source_ids ops q)"
    and retired_drained: "q_retired_scids ops q = (retired, q') \<Longrightarrow> fst (q_retired_scids ops q') = []"
    and retired_keeps: "q_retired_scids ops q = (retired, q') \<Longrightarrow>
      q_is_server ops q' = q_is_server ops q \<and> q_source_ids ops q' = q_source_ids ops q"
  using assms unfolding quiche_ids_def Let_def by (metis snd_conv)+

text \<open>What the backend does with the registry: its own operations, and any evolution of a connection it
  borrowed.\<close>

inductive registry_step ::
  "'q quiche_ops \<Rightarrow> 's lset_ops \<Rightarrow> bool \<Rightarrow> ('q, 's) connections \<Rightarrow> ('q, 's) connections \<Rightarrow> bool"
  for ops :: "'q quiche_ops" and ls :: "'s lset_ops" and dbg :: bool where
  reg_insert: "cs_all cs key = None \<Longrightarrow> connections_insert ops ls key c addr cs = Inr (cid, cs') \<Longrightarrow> registry_step ops ls dbg cs cs'"
| reg_mark_active: "registry_step ops ls dbg cs (mark_active ls key cs)"
| reg_next_active: "registry_step ops ls dbg cs (next_active ls cs)"
| reg_peek: "peek_active ls cs = (r, cs') \<Longrightarrow> registry_step ops ls dbg cs cs'"
| reg_get: "get_mark_active_if ls keep key cs = (r, cs') \<Longrightarrow> registry_step ops ls dbg cs cs'"
| reg_evolve: "cs_all cs key = Some c \<Longrightarrow> evolves ops (cn_inner c) (cn_inner c') \<Longrightarrow> cn_peer_verified c' = cn_peer_verified c \<Longrightarrow>
    registry_step ops ls dbg cs (connections_put key c' cs)"
| reg_verified: "mark_verified ops key cs = Inr cs' \<Longrightarrow> registry_step ops ls dbg cs cs'"
| reg_scids: "update_scids_dict ops dbg key cs = Inr cs' \<Longrightarrow> registry_step ops ls dbg cs cs'"
| reg_remove: "connections_remove ops ls dbg key cs = Inr (r, cs') \<Longrightarrow> registry_step ops ls dbg cs cs'"

inductive registry_reach :: "'q quiche_ops \<Rightarrow> 's lset_ops \<Rightarrow> bool \<Rightarrow> ('q, 's) connections \<Rightarrow> bool"
  for ops :: "'q quiche_ops" and ls :: "'s lset_ops" and dbg :: bool where
  reg_new: "registry_reach ops ls dbg (connections_new ls)"
| reg_step: "registry_reach ops ls dbg cs \<Longrightarrow> registry_step ops ls dbg cs cs' \<Longrightarrow> registry_reach ops ls dbg cs'"

subsection \<open>Invariant\<close>

definition server_keys :: "'q quiche_ops \<Rightarrow> (connection_key \<Rightarrow> 'q connection option) \<Rightarrow> connection_key set" where
  "server_keys ops m = {k. \<exists>c. m k = Some c \<and> q_is_server ops (cn_inner c)}"

definition unverified_keys :: "'q quiche_ops \<Rightarrow> (connection_key \<Rightarrow> 'q connection option) \<Rightarrow> connection_key set" where
  "unverified_keys ops m = {k. \<exists>c. m k = Some c \<and> q_is_server ops (cn_inner c) \<and> \<not> cn_peer_verified c}"

definition cids_ok ::
  "'q quiche_ops \<Rightarrow> (connection_key \<Rightarrow> 'q connection option) \<Rightarrow> (byte list \<Rightarrow> connection_key option) \<Rightarrow> bool" where
  "cids_ok ops m dict \<longleftrightarrow> (\<forall>cid k. dict cid = Some k \<longrightarrow> (\<exists>c. m k = Some c \<and> cid \<in> owned_cids ops (cn_inner c)))"

definition registry_ok :: "'q quiche_ops \<Rightarrow> ('s \<Rightarrow> connection_key list) \<Rightarrow> ('q, 's) connections \<Rightarrow> bool" where
  "registry_ok ops elems cs \<longleftrightarrow> finite (dom (cs_all cs)) \<and> set (elems (cs_active cs)) \<subseteq> dom (cs_all cs) \<and>
     cids_ok ops (cs_all cs) (cs_cids cs) \<and>
     cs_server_count cs = card (server_keys ops (cs_all cs)) \<and>
     cs_unverified_count cs = card (unverified_keys ops (cs_all cs))"

lemma server_keys_finite: "finite (dom m) \<Longrightarrow> finite (server_keys ops m) \<and> finite (unverified_keys ops m)"
  by (auto simp: server_keys_def unverified_keys_def intro: finite_subset [of _ "dom m"])

lemma server_keys_upd:
  "server_keys ops (m(k \<mapsto> c)) = (if q_is_server ops (cn_inner c) then insert k (server_keys ops m) else server_keys ops m - {k})"
  "unverified_keys ops (m(k \<mapsto> c)) =
     (if q_is_server ops (cn_inner c) \<and> \<not> cn_peer_verified c then insert k (unverified_keys ops m) else unverified_keys ops m - {k})"
  "server_keys ops (m(k := None)) = server_keys ops m - {k}"
  "unverified_keys ops (m(k := None)) = unverified_keys ops m - {k}"
  by (auto simp: server_keys_def unverified_keys_def split: if_splits)

lemma remove_scids_apply: "remove_scids cids dict cid = (if cid \<in> set cids then None else dict cid)"
  unfolding remove_scids_def by (induction cids arbitrary: dict) auto

lemma insert_scids_apply:
  assumes "insert_scids dbg key cids dict = Inr dict'"
  shows "dict' cid = dict cid \<or> dict' cid = Some key \<and> cid \<in> set cids"
  using assms
proof (induction cids arbitrary: dict)
  case (Cons x xs)
  then show ?case using as_slice_try_from_slice
    by (fastforce simp: and_then_def panic_if_def split: option.splits if_splits sum.splits)
qed simp

lemma cids_ok_evolve:
  assumes "cids_ok ops m dict" and "m k = Some c" and "owned_cids ops (cn_inner c) \<subseteq> owned_cids ops (cn_inner c')"
  shows "cids_ok ops (m(k \<mapsto> c')) dict"
  using assms by (fastforce simp: cids_ok_def)

lemma registry_ok_put:
  assumes "registry_ok ops elems cs" and "cs_all cs k = Some c" and "evolves ops (cn_inner c) (cn_inner c')"
    and "cn_peer_verified c' = cn_peer_verified c"
  shows "registry_ok ops elems (connections_put k c' cs)"
proof -
  have "server_keys ops ((cs_all cs)(k \<mapsto> c')) = server_keys ops (cs_all cs)"
    "unverified_keys ops ((cs_all cs)(k \<mapsto> c')) = unverified_keys ops (cs_all cs)"
    using assms(2-4) by (auto simp: server_keys_def unverified_keys_def evolves_def)
  with assms(1) cids_ok_evolve [of ops "cs_all cs" "cs_cids cs" k c c'] assms(2,3) show ?thesis
    by (auto simp: registry_ok_def connections_put_def evolves_def)
qed

lemma ok_new: "linked_set elems ls \<Longrightarrow> registry_ok ops elems (connections_new ls)"
  by (simp add: registry_ok_def connections_new_def cids_ok_def server_keys_def unverified_keys_def elems_empty)

lemma ok_active:
  assumes "registry_ok ops elems cs" and "set (elems s) \<subseteq> set (elems (cs_active cs)) \<union> dom (cs_all cs)"
  shows "registry_ok ops elems (cs\<lparr>cs_active := s\<rparr>)"
  using assms by (auto simp: registry_ok_def)

lemma ok_mark: "linked_set elems ls \<Longrightarrow> registry_ok ops elems cs \<Longrightarrow> registry_ok ops elems (mark_active ls key cs)"
  unfolding mark_active_def by (auto intro!: ok_active simp: elems_replace split: if_splits)

lemma ok_next: "linked_set elems ls \<Longrightarrow> registry_ok ops elems cs \<Longrightarrow> registry_ok ops elems (next_active ls cs)"
  unfolding next_active_def by (rule ok_active, assumption) (cases "elems (cs_active cs)"; auto simp: elems_pop_front)

lemma ok_peek: "linked_set elems ls \<Longrightarrow> registry_ok ops elems cs \<Longrightarrow> peek_loop ls n cs = (r, cs') \<Longrightarrow> registry_ok ops elems cs'"
  by (induction n arbitrary: cs) (auto split: option.splits dest: ok_next)

lemma ok_insert:
  assumes ls: "linked_set elems ls" and qi: "quiche_ids ops" and ok: "registry_ok ops elems cs" and key: "cs_all cs key = None"
    and ins: "connections_insert ops ls key c addr cs = Inr (cid, cs')"
  shows "registry_ok ops elems cs'"
proof -
  obtain scid where scid: "try_from_slice (q_source_id ops (cn_inner c)) = Some scid"
    using ins by (auto simp: connections_insert_def split: option.splits)
  let ?m = "(cs_all cs)(key \<mapsto> c)"
  have all: "cs_all cs' = ?m" "cs_active cs' = ls_replace ls key (cs_active cs)"
    and dict: "cs_cids cs' = cs_cids cs \<or> cs_cids cs' = (cs_cids cs)(q_source_id ops (cn_inner c) \<mapsto> key)"
    and count: "cs_server_count cs' = cs_server_count cs + (if q_is_server ops (cn_inner c) then 1 else 0)"
      "cs_unverified_count cs' = cs_unverified_count cs + (if q_is_server ops (cn_inner c) \<and> \<not> cn_peer_verified c then 1 else 0)"
    using ins scid as_slice_try_from_slice [OF scid]
    by (auto simp: connections_insert_def and_then_def usize_add_def Let_def split: if_splits)
  have fresh: "key \<notin> server_keys ops (cs_all cs)" "key \<notin> unverified_keys ops (cs_all cs)"
    using key by (auto simp: server_keys_def unverified_keys_def)
  have fin: "finite (dom (cs_all cs))" using ok by (simp add: registry_ok_def)
  have "cids_ok ops ?m (cs_cids cs')"
    using ok dict key source_owned [OF qi, of "cn_inner c"] by (fastforce simp: registry_ok_def cids_ok_def owned_cids_def)
  moreover have "cs_server_count cs' = card (server_keys ops ?m)" "cs_unverified_count cs' = card (unverified_keys ops ?m)"
    using ok count fresh server_keys_finite [OF fin] by (auto simp: registry_ok_def server_keys_upd)
  moreover have "set (elems (cs_active cs')) \<subseteq> dom ?m" using ok all(2) by (auto simp: registry_ok_def elems_replace [OF ls])
  ultimately show ?thesis using fin all by (simp add: registry_ok_def)
qed

lemma ok_verified:
  assumes ok: "registry_ok ops elems cs"
  shows "\<exists>cs'. mark_verified ops key cs = Inr cs' \<and> registry_ok ops elems cs'"
proof (cases "\<exists>c. cs_all cs key = Some c \<and> q_is_server ops (cn_inner c) \<and> \<not> cn_peer_verified c")
  case True
  then obtain c where c: "cs_all cs key = Some c" "q_is_server ops (cn_inner c)" "\<not> cn_peer_verified c" by blast
  have fin: "finite (dom (cs_all cs))" using ok by (simp add: registry_ok_def)
  have k: "key \<in> unverified_keys ops (cs_all cs)" using c by (auto simp: unverified_keys_def)
  then have pos: "1 \<le> card (unverified_keys ops (cs_all cs))"
    using server_keys_finite [OF fin, of ops] by (simp add: Suc_le_eq card_gt_0_iff) blast
  have "server_keys ops ((cs_all cs)(key \<mapsto> c\<lparr>cn_peer_verified := True\<rparr>)) = server_keys ops (cs_all cs)"
    using c by (auto simp: server_keys_def)
  moreover have "cids_ok ops ((cs_all cs)(key \<mapsto> c\<lparr>cn_peer_verified := True\<rparr>)) (cs_cids cs)"
    using ok c(1) by (intro cids_ok_evolve) (auto simp: registry_ok_def)
  ultimately show ?thesis using ok c pos k server_keys_finite [OF fin, of ops]
    by (auto simp: mark_verified_def registry_ok_def usize_sub_def and_then_def server_keys_upd(2))
next
  case False
  then show ?thesis using ok by (auto simp: mark_verified_def split: option.splits)
qed

lemma ok_scids:
  assumes ls: "linked_set elems ls" and qi: "quiche_ids ops" and ok: "registry_ok ops elems cs" and upd: "update_scids_dict ops dbg key cs = Inr cs'"
  shows "registry_ok ops elems cs'"
proof (cases "cs_all cs key")
  case None
  then show ?thesis using ok upd by (simp add: update_scids_dict_def)
next
  case (Some c)
  obtain retired q where q: "q_retired_scids ops (cn_inner c) = (retired, q)" by fastforce
  obtain dict where dict: "insert_scids dbg key (q_source_ids ops (cn_inner c)) (cs_cids cs) = Inr dict"
    and cs': "cs' = cs\<lparr>cs_all := (cs_all cs)(key \<mapsto> c\<lparr>cn_inner := q\<rparr>), cs_cids := remove_scids retired dict\<rparr>"
    using upd Some q by (auto simp: update_scids_dict_def and_then_def split: sum.splits)
  note k = retired_keeps [OF qi q]
  have own: "owned_cids ops q = set (q_source_ids ops (cn_inner c))" "owned_cids ops (cn_inner c) = set (q_source_ids ops (cn_inner c)) \<union> set retired"
    using k retired_drained [OF qi q] q by (auto simp: owned_cids_def)
  have "cids_ok ops ((cs_all cs)(key \<mapsto> c\<lparr>cn_inner := q\<rparr>)) (remove_scids retired dict)"
    unfolding cids_ok_def
  proof (intro allI impI)
    fix cid k'
    assume "remove_scids retired dict cid = Some k'"
    then have d: "dict cid = Some k'" "cid \<notin> set retired" by (auto simp: remove_scids_apply split: if_splits)
    from insert_scids_apply [OF dict, of cid] d(1) consider "cs_cids cs cid = Some k'"
      | "k' = key" "cid \<in> set (q_source_ids ops (cn_inner c))" by auto
    then show "\<exists>c'. ((cs_all cs)(key \<mapsto> c\<lparr>cn_inner := q\<rparr>)) k' = Some c' \<and> cid \<in> owned_cids ops (cn_inner c')"
    proof cases
      case 1
      then obtain c1 where "cs_all cs k' = Some c1" "cid \<in> owned_cids ops (cn_inner c1)"
        using ok unfolding registry_ok_def cids_ok_def by blast
      then show ?thesis using own d(2) Some by auto
    qed (simp add: own)
  qed
  moreover have "server_keys ops ((cs_all cs)(key \<mapsto> c\<lparr>cn_inner := q\<rparr>)) = server_keys ops (cs_all cs)"
    "unverified_keys ops ((cs_all cs)(key \<mapsto> c\<lparr>cn_inner := q\<rparr>)) = unverified_keys ops (cs_all cs)"
    using Some k by (auto simp: server_keys_def unverified_keys_def)
  ultimately show ?thesis using ok cs' by (auto simp: registry_ok_def)
qed

lemma ok_uncount:
  assumes ok: "registry_ok ops elems cs" and c: "cs_all cs key = Some c" "q_is_server ops (cn_inner c1) = q_is_server ops (cn_inner c)"
    "cn_peer_verified c1 = cn_peer_verified c"
    and cnt: "cs_server_count cs2 = cs_server_count cs" "cs_unverified_count cs2 = cs_unverified_count cs"
  shows "uncount ops c1 cs2 = Inr (cs2\<lparr>cs_server_count := card (server_keys ops ((cs_all cs)(key := None))),
    cs_unverified_count := card (unverified_keys ops ((cs_all cs)(key := None)))\<rparr>)"
proof -
  have fin: "finite (dom (cs_all cs))" using ok by (simp add: registry_ok_def)
  note f = server_keys_finite [OF fin, of ops]
  have mem: "key \<in> server_keys ops (cs_all cs) \<longleftrightarrow> q_is_server ops (cn_inner c)"
    "key \<in> unverified_keys ops (cs_all cs) \<longleftrightarrow> q_is_server ops (cn_inner c) \<and> \<not> cn_peer_verified c"
    using c(1) by (auto simp: server_keys_def unverified_keys_def)
  have pos: "key \<in> A \<Longrightarrow> finite A \<Longrightarrow> 1 \<le> card A" for A :: "nat set" by (metis One_nat_def Suc_leI card_gt_0_iff empty_iff)
  have "cs_server_count cs2 = card (server_keys ops (cs_all cs))" "cs_unverified_count cs2 = card (unverified_keys ops (cs_all cs))"
    using ok cnt by (simp_all add: registry_ok_def)
  then show ?thesis
    using mem c(2,3) f pos [of "server_keys ops (cs_all cs)"] pos [of "unverified_keys ops (cs_all cs)"]
    by (cases "cn_peer_verified c") (auto simp: uncount_def and_then_def usize_sub_def server_keys_upd(3,4))
qed

lemma connections_remove_unfold:
  assumes "cs_all cs key = Some c" and "q_retired_scids ops (cn_inner c) = (retired, q)"
    and "cs1 = remove_entries ls key (q_source_ids ops (cn_inner c) @ retired) cs"
  shows "connections_remove ops ls dbg key cs =
    and_then (if \<forall>cid \<in> owned_cids ops (cn_inner c). cid = [] then remove_addr ops dbg q cs1 else Inr cs1) (\<lambda>cs2.
      and_then (uncount ops (c\<lparr>cn_inner := q\<rparr>) cs2) (\<lambda>cs3. Inr (Some (c\<lparr>cn_inner := q\<rparr>), cs3)))"
  using assms by (simp add: connections_remove_def owned_cids_def Let_def)

lemma remove_eq:
  assumes ls: "linked_set elems ls" and qi: "quiche_ids ops" and ok: "registry_ok ops elems cs" and c: "cs_all cs key = Some c" and q: "q_retired_scids ops (cn_inner c) = (retired, q)"
    and cs1: "cs1 = remove_entries ls key (q_source_ids ops (cn_inner c) @ retired) cs"
    and addr: "(if \<forall>cid \<in> owned_cids ops (cn_inner c). cid = [] then remove_addr ops dbg q cs1 else Inr cs1) = Inr cs2"
  shows "connections_remove ops ls dbg key cs = Inr (Some (c\<lparr>cn_inner := q\<rparr>),
    cs2\<lparr>cs_server_count := card (server_keys ops ((cs_all cs)(key := None))),
        cs_unverified_count := card (unverified_keys ops ((cs_all cs)(key := None)))\<rparr>)"
proof -
  have own: "set (q_source_ids ops (cn_inner c) @ retired) = owned_cids ops (cn_inner c)" using q by (simp add: owned_cids_def)
  have "cs_server_count cs2 = cs_server_count cs" "cs_unverified_count cs2 = cs_unverified_count cs"
    using addr cs1 by (auto simp: remove_addr_def remove_entries_def and_then_def split: if_splits option.splits sum.splits)
  from ok_uncount [OF ok c _ _ this, of "c\<lparr>cn_inner := q\<rparr>"] retired_keeps [OF qi q] addr own
  show ?thesis unfolding connections_remove_unfold [OF c q cs1] addr by (simp add: and_then_def)
qed

lemma ok_remove:
  assumes ls: "linked_set elems ls" and qi: "quiche_ids ops" and ok: "registry_ok ops elems cs" and rem: "connections_remove ops ls dbg key cs = Inr (r, cs')"
  shows "registry_ok ops elems cs'"
proof (cases "cs_all cs key")
  case None
  then show ?thesis using ok rem by (simp add: connections_remove_def)
next
  case (Some c)
  obtain retired q where q: "q_retired_scids ops (cn_inner c) = (retired, q)" by fastforce
  define cs1 where cs1: "cs1 = remove_entries ls key (q_source_ids ops (cn_inner c) @ retired) cs"
  have own: "set (q_source_ids ops (cn_inner c) @ retired) = owned_cids ops (cn_inner c)" using q by (simp add: owned_cids_def)
  obtain cs2 where cs2: "(if \<forall>cid \<in> owned_cids ops (cn_inner c). cid = [] then remove_addr ops dbg q cs1 else Inr cs1) = Inr cs2"
  proof (cases "if \<forall>cid \<in> owned_cids ops (cn_inner c). cid = [] then remove_addr ops dbg q cs1 else Inr cs1")
    case (Inl p)
    then have "connections_remove ops ls dbg key cs = Inl p"
      unfolding connections_remove_unfold [OF Some q cs1] by (simp add: and_then_def)
    with rem show ?thesis by simp
  qed (rule that)
  have same: "cs_all cs2 = (cs_all cs)(key := None)" "cs_active cs2 = ls_remove ls key (cs_active cs)"
    "cs_cids cs2 = remove_scids (q_source_ids ops (cn_inner c) @ retired) (cs_cids cs)"
    using cs2 unfolding cs1 by (auto simp: remove_addr_def remove_entries_def and_then_def split: if_splits option.splits sum.splits)
  have "cids_ok ops ((cs_all cs)(key := None)) (remove_scids (q_source_ids ops (cn_inner c) @ retired) (cs_cids cs))"
    unfolding cids_ok_def
  proof (intro allI impI)
    fix cid k
    assume "remove_scids (q_source_ids ops (cn_inner c) @ retired) (cs_cids cs) cid = Some k"
    then have d: "cs_cids cs cid = Some k" "cid \<notin> owned_cids ops (cn_inner c)"
      using own by (auto simp: remove_scids_apply split: if_splits)
    then obtain c1 where "cs_all cs k = Some c1" "cid \<in> owned_cids ops (cn_inner c1)"
      using ok unfolding registry_ok_def cids_ok_def by blast
    with d(2) Some show "\<exists>c'. ((cs_all cs)(key := None)) k = Some c' \<and> cid \<in> owned_cids ops (cn_inner c')" by auto
  qed
  moreover have "set (remove1 key (elems (cs_active cs))) \<subseteq> dom ((cs_all cs)(key := None))"
    using ok elems_distinct [OF ls, of "cs_active cs"] by (auto simp: registry_ok_def)
  ultimately show ?thesis
    using remove_eq [OF ls qi ok Some q cs1 cs2] rem same ok by (auto simp: registry_ok_def elems_remove [OF ls])
qed

lemma step_ok:
  assumes ls: "linked_set elems ls" and qi: "quiche_ids ops" and step: "registry_step ops ls dbg cs cs'" and ok: "registry_ok ops elems cs"
  shows "registry_ok ops elems cs'"
  using step
proof cases
  case (reg_mark_active key)
  then show ?thesis using ok_mark [OF ls ok] by simp
next
  case (reg_get keep key r)
  then have "cs' = cs \<or> cs' = mark_active ls key cs"
    by (auto simp: get_mark_active_if_def mark_active_def split: option.splits if_splits)
  then show ?thesis using ok ok_mark [OF ls ok] by auto
next
  case (reg_verified key)
  then show ?thesis using ok_verified [OF ok, of key] by simp
qed (use ok in \<open>auto simp: peek_active_def simp del: peek_loop.simps
  intro: ok_next [OF ls] ok_insert [OF ls qi] ok_scids [OF ls qi] ok_remove [OF ls qi] registry_ok_put dest: ok_peek [OF ls]\<close>)

lemma reach_ok:
  assumes "linked_set elems ls" and "quiche_ids ops" and "registry_reach ops ls dbg cs"
  shows "registry_ok ops elems cs"
  using assms(3) by (induction rule: registry_reach.induct) (auto intro: ok_new [OF assms(1)] step_ok [OF assms(1,2)])


lemma find_key_live:
  assumes "registry_ok ops elems cs" and "dcid \<noteq> []"
  shows "\<exists>r. find_connection_key dbg dcid addr cs = Inr r \<and>
    (\<forall>k. r = Some k \<longrightarrow> (\<exists>c. cs_all cs k = Some c \<and> dcid \<in> owned_cids ops (cn_inner c)))"
  using assms by (fastforce simp: registry_ok_def cids_ok_def find_connection_key_def and_then_def panic_if_def split: option.splits)

text \<open>\<open>remove\<close> panics in one case: a debug build removes a connection that has only zero-length IDs and no
  validated path.\<close>

definition unroutable :: "'q quiche_ops \<Rightarrow> 'q connection \<Rightarrow> bool" where
  "unroutable ops c \<longleftrightarrow> (\<forall>cid \<in> owned_cids ops (cn_inner c). cid = []) \<and>
     validated_peer ops (snd (q_retired_scids ops (cn_inner c))) = None"

lemma remove_panics:
  assumes "quiche_ids ops" and "linked_set elems ls" and "registry_ok ops elems cs"
  shows "connections_remove ops ls profile key cs = Inl p \<longleftrightarrow>
    p = ExplicitPanic \<and> profile \<and> (\<exists>c. cs_all cs key = Some c \<and> unroutable ops c)"
proof (cases "cs_all cs key")
  case (Some c)
  obtain retired q where q: "q_retired_scids ops (cn_inner c) = (retired, q)" by fastforce
  define cs1 where cs1: "cs1 = remove_entries ls key (q_source_ids ops (cn_inner c) @ retired) cs"
  let ?addr = "if \<forall>cid \<in> owned_cids ops (cn_inner c). cid = [] then remove_addr ops profile q cs1 else Inr cs1"
  have u: "unroutable ops c \<longleftrightarrow> (\<forall>cid \<in> owned_cids ops (cn_inner c). cid = []) \<and> validated_peer ops q = None"
    using q by (simp add: unroutable_def)
  show ?thesis
  proof (cases "profile \<and> unroutable ops c")
    case True
    then have "?addr = Inl ExplicitPanic" using u by (simp add: remove_addr_def panic_if_def and_then_def)
    then show ?thesis unfolding connections_remove_unfold [OF Some q cs1] using True Some by (auto simp: and_then_def)
  next
    case False
    then have "\<exists>cs2. ?addr = Inr cs2" using u by (auto simp: remove_addr_def panic_if_def and_then_def split: option.splits)
    then obtain cs2 where "?addr = Inr cs2" by blast
    from remove_eq [OF assms(2,1,3) Some q cs1 this] False Some show ?thesis by simp
  qed
qed (simp add: connections_remove_def)

subsection \<open>Properties\<close>


text \<open>A list without duplicates is a linked hash set, and a connection with one source ID and one path is a
  \<open>quiche\<close> connection.\<close>

definition list_set_ops :: "connection_key list lset_ops" where
  "list_set_ops = \<lparr>ls_empty = [], ls_replace = (\<lambda>k s. if k \<in> set s then s else s @ [k]),
     ls_front = (\<lambda>s. case remdups s of [] \<Rightarrow> None | k # _ \<Rightarrow> Some k), ls_pop_front = (\<lambda>s. tl (remdups s)),
     ls_remove = (\<lambda>k s. remove1 k (remdups s)), ls_len = (\<lambda>s. length (remdups s))\<rparr>"

lemma list_set_linked: "linked_set remdups list_set_ops"
proof -
  have "remdups (s @ [k]) = remdups s @ [k]" if "k \<notin> set s" for k and s :: "nat list"
    using that by (induction s) auto
  moreover have "distinct (tl (remdups s))" for s :: "nat list" by (simp add: distinct_tl)
  moreover have "remdups (remove1 k (remdups s)) = remove1 k (remdups s)" for k and s :: "nat list"
    by (simp add: distinct_remdups_id)
  ultimately show ?thesis by (auto simp: linked_set_def list_set_ops_def distinct_remdups_id)
qed

record demo_conn =
  dm_server :: bool
  dm_scid :: "byte list"
  dm_peer :: sock_addr

definition demo_quiche :: "demo_conn quiche_ops" where
  "demo_quiche = \<lparr>q_is_server = dm_server, q_is_established = (\<lambda>_. False), q_is_closed = (\<lambda>_. False),
     q_is_draining = (\<lambda>_. False), q_is_timed_out = (\<lambda>_. False), q_source_id = dm_scid,
     q_source_ids = (\<lambda>q. [dm_scid q]), q_retired_scids = (\<lambda>q. ([], q)),
     q_path_stats = (\<lambda>q. [\<lparr>qp_local = \<lparr>sa_ip = V4 1, sa_port = 65535\<rparr>, qp_peer = dm_peer q, qp_active = True\<rparr>]),
     q_is_path_validated = (\<lambda>_ _ _. Some True), q_streams_left_bidi = (\<lambda>_. 0), q_streams_left_uni = (\<lambda>_. 0),
     q_dgram_max_writable_len = (\<lambda>_. None), q_local_error = (\<lambda>_. None), q_peer_error = (\<lambda>_. None),
     q_next_release_time = (\<lambda>_. None)\<rparr>"

lemma demo_quiche_ids: "quiche_ids demo_quiche"
  by (simp add: quiche_ids_def demo_quiche_def)

definition demo_registry :: "connection_key \<Rightarrow> demo_conn \<Rightarrow> (demo_conn, connection_key list) connections" where
  "demo_registry key q = (let c = connection_new demo_quiche q False [] in
     \<lparr>cs_all = [key \<mapsto> c], cs_cids = (if dm_scid q = [] then Map.empty else [dm_scid q \<mapsto> key]),
      cs_addrs = (if dm_scid q = [] then [dm_peer q \<mapsto> key] else Map.empty), cs_active = [key],
      cs_server_count = (if dm_server q then 1 else 0), cs_unverified_count = (if dm_server q then 1 else 0)\<rparr>)"

lemma demo_insert:
  assumes "length (dm_scid q) \<le> 20"
  shows "connections_insert demo_quiche list_set_ops key (connection_new demo_quiche q False []) addr (connections_new list_set_ops) =
    Inr (\<lparr>qid_key = key, qid_trace = []\<rparr>, demo_registry key q)"
proof -
  obtain cid where cid: "try_from_slice (dm_scid q) = Some cid" using assms by (auto simp: try_from_slice_def max_cid_len_def)
  have "as_slice cid = dm_scid q" "cid_is_empty cid \<longleftrightarrow> dm_scid q = []"
    using as_slice_try_from_slice [OF cid] cid
    by (auto simp: try_from_slice_def cid_is_empty_def split: if_splits)
  with cid show ?thesis
    by (auto simp: connections_insert_def demo_registry_def demo_quiche_def connection_new_def connections_new_def list_set_ops_def
        connection_id_of_def usize_add_def usize_max_def and_then_def Let_def fun_eq_iff)
qed


text \<open>the dictionary of addresses is not kept. A connection with zero-length source IDs is entered under
  the address it is created with; when its peer migrates, the entry is not moved, and \<open>remove\<close> deletes
  the entry of the new address. The old address then leads to a connection that does not exist:
  \<open>find_connection_key\<close> panics in the debug profile and returns the dead key in the release profile.\<close>

lemma registry_addr_dangles:
  assumes "quiche_ids ops" and "linked_set elems ls" and "registry_ok ops elems cs"
    and "cs_all cs key = Some c" and "cs_addrs cs old = Some key" and "\<forall>cid \<in> owned_cids ops (cn_inner c). cid = []"
    and "validated_peer ops (snd (q_retired_scids ops (cn_inner c))) = Some new" and "new \<noteq> old"
  shows "\<exists>r cs'. connections_remove ops ls dbg key cs = Inr (r, cs') \<and> cs_all cs' key = None \<and>
    find_connection_key True [] old cs' = Inl DebugAssertFailed \<and> find_connection_key False [] old cs' = Inr (Some key)"
proof -
  obtain retired q where q: "q_retired_scids ops (cn_inner c) = (retired, q)" by fastforce
  define cs1 where cs1: "cs1 = remove_entries ls key (q_source_ids ops (cn_inner c) @ retired) cs"
  have "(if \<forall>cid \<in> owned_cids ops (cn_inner c). cid = [] then remove_addr ops dbg q cs1 else Inr cs1) =
      Inr (cs1\<lparr>cs_addrs := (cs_addrs cs1)(new := None)\<rparr>)"
    using assms(6,7) q by (simp add: remove_addr_def)
  from remove_eq [OF assms(2,1,3,4) q cs1 this] assms(5,8) show ?thesis
    by (auto simp: cs1 remove_entries_def find_connection_key_def and_then_def panic_if_def)
qed

lemma registry_addr_dangles_witness:
  "\<exists>cs r cs'. registry_reach demo_quiche list_set_ops True cs \<and>
     connections_remove demo_quiche list_set_ops True 7 cs = Inr (r, cs') \<and>
     find_connection_key True [] \<lparr>sa_ip = V4 5, sa_port = 1\<rparr> cs' = Inl DebugAssertFailed"
proof -
  let ?old = "\<lparr>sa_ip = V4 5, sa_port = 1\<rparr>" and ?new = "\<lparr>sa_ip = V4 6, sa_port = 2\<rparr>"
  let ?q = "\<lparr>dm_server = True, dm_scid = [], dm_peer = ?old\<rparr>"
  let ?c' = "connection_new demo_quiche (?q\<lparr>dm_peer := ?new\<rparr>) False []"
  let ?cs = "connections_put 7 ?c' (demo_registry 7 ?q)"
  have "registry_reach demo_quiche list_set_ops True (demo_registry 7 ?q)"
    by (rule reg_step [OF reg_new reg_insert [OF _ demo_insert]]) (simp_all add: connections_new_def)
  then have reach: "registry_reach demo_quiche list_set_ops True ?cs"
    by (rule reg_step [OF _ reg_evolve]) (auto simp: demo_registry_def evolves_def owned_cids_def demo_quiche_def connection_new_def Let_def)
  have "cs_all ?cs 7 = Some ?c'" "cs_addrs ?cs ?old = Some 7" "\<forall>cid \<in> owned_cids demo_quiche (cn_inner ?c'). cid = []"
    "validated_peer demo_quiche (snd (q_retired_scids demo_quiche (cn_inner ?c'))) = Some ?new" "?new \<noteq> ?old"
    by (simp_all add: connections_put_def demo_registry_def owned_cids_def demo_quiche_def connection_new_def validated_peer_def Let_def)
  from registry_addr_dangles [OF demo_quiche_ids list_set_linked reach_ok [OF list_set_linked demo_quiche_ids reach] this, of True] reach
  show ?thesis by blast
qed

end
