(* ===== verification/Quiche_Io.thy ===== *)
theory Quiche_Io
  imports Quiche_Registry Bip_Buffer
begin

section \<open>Packet output of the quiche backend\<close>

text \<open>
  Model of \<open>src/aquic-core/src/backend/quiche/io.rs\<close>: \<open>write_pending\<close> lets a connection write its packets
  one after the other into a reservation of the bip buffer and batches packets of one size and one path into
  a single GSO message; the other operations answer a packet with a version negotiation, a retry or a
  stateless reset. The crate \<open>quiche\<close> is the parameter \<open>quiche_io\<close>: \<open>Connection::send\<close> gets the length of
  the slice and returns the bytes it writes to its front. A \<open>BipView\<close> is the commit it holds.

  The arithmetic of this file is the checked one, also inside the loop where it goes through the
  reservation: an overflow is a panic in either profile. On a well formed buffer none occurs
  (\<open>bip_profiles_agree\<close>, \<open>write_pending_batches\<close>), so that the release profile behaves alike.

  The loop ends because every turn that goes on has written at least one byte of the reservation. The
  lemmas show that batching is transparent: the segments of the messages are exactly the packets that a
  sender without batching would emit, in the same order and with the same addresses.
\<close>

subsection \<open>The crate \<open>quiche\<close>\<close>

datatype packet_type = TInitial | TRetry | THandshake | TZeroRTT | TVersionNegotiation | TShort

record header =
  hd_type :: packet_type
  hd_version :: nat
  hd_scid :: "byte list"
  hd_dcid :: "byte list"
  hd_token :: "byte list option"

record 'q quiche_io =
  qi_send :: "nat \<Rightarrow> 'q \<Rightarrow> (quiche_error + byte list \<times> sock_addr \<times> sock_addr) \<times> 'q"
  qi_send_quantum :: "sock_addr \<Rightarrow> sock_addr \<Rightarrow> 'q \<Rightarrow> nat"
  qi_negotiate_version :: "byte list \<Rightarrow> byte list \<Rightarrow> nat \<Rightarrow> quiche_error + byte list"
  qi_retry :: "byte list \<Rightarrow> byte list \<Rightarrow> byte list \<Rightarrow> byte list \<Rightarrow> nat \<Rightarrow> nat \<Rightarrow> quiche_error + byte list"

subsection \<open>Data\<close>

datatype write_result = WComplete | WPacer nat | WQuantum | WBufferTooShort

datatype force_write = FComplete | FBufferTooShort

record io_packet =
  pt_reserve :: reservation
  pt_offset :: nat
  pt_count :: nat
  pt_size :: nat

record io_path =
  ph_source :: sock_addr
  ph_destination :: sock_addr
  ph_quantum :: nat
  ph_consumed :: nat

record 'q write_state =
  ws_buffer :: bip_buffer
  ws_connection :: "'q connection"
  ws_packet :: io_packet
  ws_path :: "io_path option"
  ws_out :: "commit send_msg list"

subsection \<open>Writing the pending packets of a connection\<close>

definition view_len :: "commit \<Rightarrow> nat" where
  "view_len v = commit_end v - commit_start v"

definition usize_mul :: "nat \<Rightarrow> nat \<Rightarrow> panic + nat" where
  "usize_mul a b = (if a * b \<le> usize_max then Inr (a * b) else Inl ArithOverflow)"

definition commit_packet ::
  "bool \<Rightarrow> io_path \<Rightarrow> io_packet \<Rightarrow> bip_buffer \<Rightarrow> commit send_msg list \<Rightarrow>
   panic + (io_packet \<times> bip_buffer \<times> commit send_msg list)" where
  "commit_packet dbg path pkt b out = and_then (usize_mul (pt_count pkt) (pt_size pkt)) (\<lambda>packet_len.
     if packet_len = 0 then Inr (pkt, b, out)
     else and_then (slice_mut_commit True b (pt_reserve pkt) packet_len) (\<lambda>((sl, r), b1).
          let view = snd (slice_detach sl) in
          and_then (panic_if (dbg \<and> view_len view = 0) DebugAssertFailed) (\<lambda>_.
          and_then (panic_if (dbg \<and> view_len view \<noteq> packet_len) DebugAssertFailed) (\<lambda>_.
          and_then (send_msg_new dbg view_len view (sa_ip (ph_source path)) (ph_destination path) NEct (pt_count pkt)) (\<lambda>msg.
          and_then (usize_sub (pt_offset pkt) packet_len) (\<lambda>offset.
            Inr (\<lparr>pt_reserve = r, pt_offset = offset, pt_count = 0, pt_size = 0\<rparr>, b1, out @ [msg])))))))"

definition same_path :: "io_path \<Rightarrow> sock_addr \<Rightarrow> sock_addr \<Rightarrow> bool" where
  "same_path p source destination \<longleftrightarrow> ph_source p = source \<and> ph_destination p = destination"

definition path_open :: "io_path option \<Rightarrow> bool" where
  "path_open path = (case path of Some p \<Rightarrow> ph_consumed p < ph_quantum p | None \<Rightarrow> True)"

definition new_path :: "'q quiche_io \<Rightarrow> sock_addr \<Rightarrow> sock_addr \<Rightarrow> nat \<Rightarrow> 'q \<Rightarrow> io_path" where
  "new_path io source destination consumed q = \<lparr>ph_source = source, ph_destination = destination,
     ph_quantum = qi_send_quantum io source destination q, ph_consumed = consumed\<rparr>"

text \<open>The body of the loop after a packet was written: either it joins the current message, or that message is
  committed and the packet starts the next one.\<close>

definition batch_packet ::
  "'q quiche_io \<Rightarrow> bool \<Rightarrow> byte list \<Rightarrow> sock_addr \<Rightarrow> sock_addr \<Rightarrow> 'q write_state \<Rightarrow> panic + 'q write_state" where
  "batch_packet io dbg bytes source destination st =
     (let len = length bytes; q = cn_inner (ws_connection st);
          p0 = (case ws_path st of
                  None \<Rightarrow> new_path io source destination 0 q
                | Some p \<Rightarrow> p);
          pk0 = ws_packet st
      in and_then (usize_add (pt_offset pk0) len) (\<lambda>offset.
         and_then (usize_add (ph_consumed p0) len) (\<lambda>consumed.
         let pk = pk0\<lparr>pt_offset := offset\<rparr>; p = p0\<lparr>ph_consumed := consumed\<rparr> in
         if same_path p source destination \<and> pt_count pk = 0
         then Inr (st\<lparr>ws_packet := pk\<lparr>pt_size := len, pt_count := 1\<rparr>, ws_path := Some p\<rparr>)
         else if same_path p source destination \<and> pt_size pk = len
         then and_then (usize_add (pt_count pk) 1) (\<lambda>count.
                Inr (st\<lparr>ws_packet := pk\<lparr>pt_count := count\<rparr>, ws_path := Some p\<rparr>))
         else and_then (commit_packet dbg p pk (ws_buffer st) (ws_out st)) (\<lambda>(pk1, b1, out1).
              and_then (panic_if (dbg \<and> pt_offset pk1 \<noteq> len) DebugAssertFailed) (\<lambda>_.
              let p1 = (if same_path p source destination then p
                        else new_path io source destination len q)
              in Inr (st\<lparr>ws_buffer := b1, ws_packet := pk1\<lparr>pt_count := 1, pt_size := len\<rparr>,
                         ws_path := Some p1, ws_out := out1\<rparr>))))))"

definition write_bytes :: "io_packet \<Rightarrow> byte list \<Rightarrow> bip_buffer \<Rightarrow> bip_buffer" where
  "write_bytes pk bytes b =
     slice_mut_write b ((pt_reserve pk)\<lparr>res_start := res_start (pt_reserve pk) + pt_offset pk\<rparr>) bytes"

text \<open>One turn of the loop: \<open>Some\<close> result when the loop is left, \<open>None\<close> when it goes on.\<close>

definition write_turn ::
  "'q quiche_ops \<Rightarrow> 'q quiche_io \<Rightarrow> bool \<Rightarrow> nat \<Rightarrow> 'q write_state \<Rightarrow>
   panic + ((quiche_error + write_result) option \<times> 'q write_state)" where
  "write_turn ops io dbg now st = (case get_next_release_time ops now (ws_connection st) of
     Some release_time \<Rightarrow> Inr (Some (Inr (WPacer release_time)), st)
   | None \<Rightarrow>
       let pk = ws_packet st; c = ws_connection st in
       and_then (res_len True (pt_reserve pk)) (\<lambda>len.
       if len < pt_offset pk then Inl IndexOutOfBounds
       else case qi_send io (len - pt_offset pk) (cn_inner c) of
         (Inl e, q) \<Rightarrow>
           let st1 = st\<lparr>ws_connection := c\<lparr>cn_inner := q\<rparr>\<rparr> in
           (case e of
              QDone \<Rightarrow> Inr (Some (Inr WComplete), st1)
            | QBufferTooShort \<Rightarrow> Inr (Some (Inr WBufferTooShort), st1)
            | _ \<Rightarrow> Inr (Some (Inl e), st1))
       | (Inr (bytes, source, destination), q) \<Rightarrow>
           let st1 = st\<lparr>ws_connection := c\<lparr>cn_inner := q\<rparr>, ws_buffer := write_bytes pk bytes (ws_buffer st)\<rparr> in
           if bytes = [] then Inr (Some (Inr WComplete), st1)
           else and_then (batch_packet io dbg bytes source destination st1) (\<lambda>st2. Inr (None, st2))))"

text \<open>What is left of the reservation, which every turn that goes on shrinks.\<close>

definition room :: "'q write_state \<Rightarrow> nat" where
  "room st = Suc (res_end (pt_reserve (ws_packet st))) - (res_start (pt_reserve (ws_packet st)) + pt_offset (ws_packet st))"

lemma commit_packet_keeps_sum:
  assumes "commit_packet dbg path pkt b out = Inr (pkt', b', out')" and "res_start (pt_reserve pkt) \<le> res_end (pt_reserve pkt)"
  shows "res_start (pt_reserve pkt') + pt_offset pkt' = res_start (pt_reserve pkt) + pt_offset pkt \<and>
    res_end (pt_reserve pkt') = res_end (pt_reserve pkt)"
proof -
  consider "pkt' = pkt" | len sl r b1 where "slice_mut_commit True b (pt_reserve pkt) len = Inr ((sl, r), b1)" "len \<le> pt_offset pkt"
      "pt_reserve pkt' = r" "pt_offset pkt' = pt_offset pkt - len"
    using assms(1) by (auto simp: commit_packet_def rust_simps Let_def split: if_splits prod.splits)
  then show ?thesis
  proof cases
    case 2
    then have "try_commit True b (pt_reserve pkt) len = Inr (Some (sl, r), b1)"
      by (auto simp: slice_mut_commit_def rust_simps split: option.splits)
    from try_commit_checked [OF this assms(2)] 2 show ?thesis by simp
  qed simp
qed

lemma batch_packet_room:
  assumes "batch_packet io dbg bytes source destination st = Inr st'" and "bytes \<noteq> []"
    and "res_start (pt_reserve (ws_packet st)) + pt_offset (ws_packet st) \<le> res_end (pt_reserve (ws_packet st))"
  shows "room st' < room st"
proof -
  have "0 < length bytes" using assms(2) by simp
  with assms(1,3) show ?thesis
    by (auto simp: batch_packet_def room_def rust_simps Let_def split: if_splits prod.splits
        dest!: commit_packet_keeps_sum intro!: diff_less_mono2)
qed

lemma write_turn_room: "write_turn ops io dbg now st = Inr (None, st') \<Longrightarrow> room st' < room st"
  by (auto simp: write_turn_def rust_simps res_len_def profile_sub_def Let_def split: option.splits if_splits prod.splits sum.splits quiche_error.splits
      dest!: batch_packet_room) (auto simp: room_def)

function write_loop ::
  "'q quiche_ops \<Rightarrow> 'q quiche_io \<Rightarrow> bool \<Rightarrow> nat \<Rightarrow> 'q write_state \<Rightarrow>
   panic + ((quiche_error + write_result) \<times> 'q write_state)" where
  "write_loop ops io dbg now st =
     (if \<not> path_open (ws_path st) then Inr (Inr WQuantum, st)
      else case write_turn ops io dbg now st of
             Inl p \<Rightarrow> Inl p
           | Inr (Some r, st') \<Rightarrow> Inr (r, st')
           | Inr (None, st') \<Rightarrow> write_loop ops io dbg now st')"
  by pat_completeness auto
termination
  by (relation "measure (\<lambda>(ops, io, dbg, now, st). room st)") (auto dest: write_turn_room)

declare write_loop.simps [simp del]

definition write_pending ::
  "'q quiche_ops \<Rightarrow> 'q quiche_io \<Rightarrow> bool \<Rightarrow> nat \<Rightarrow> 'q connection \<Rightarrow> bip_buffer \<Rightarrow> commit send_msg list \<Rightarrow>
   panic + ((quiche_error + write_result) \<times> 'q connection \<times> bip_buffer \<times> commit send_msg list)" where
  "write_pending ops io dbg now c b out = and_then (reserve dbg b usize_max False) (\<lambda>(res, b1).
     case res of
       None \<Rightarrow> Inr (Inr WBufferTooShort, c, b1, out)
     | Some r \<Rightarrow>
         and_then (write_loop ops io dbg now
           \<lparr>ws_buffer = b1, ws_connection = c,
            ws_packet = \<lparr>pt_reserve = r, pt_offset = 0, pt_count = 0, pt_size = 0\<rparr>, ws_path = None, ws_out = out\<rparr>) (\<lambda>(w, st).
         case w of
           Inl e \<Rightarrow> Inr (Inl e, ws_connection st, slice_mut_drop (ws_buffer st), ws_out st)
         | Inr result \<Rightarrow>
             and_then
               (case ws_path st of
                  None \<Rightarrow> Inr (ws_buffer st, ws_out st)
                | Some p \<Rightarrow>
                    and_then (commit_packet dbg p (ws_packet st) (ws_buffer st) (ws_out st)) (\<lambda>(pk, b2, out2).
                    and_then (panic_if (dbg \<and> pt_offset pk \<noteq> 0) DebugAssertFailed) (\<lambda>_. Inr (b2, out2))))
               (\<lambda>(b2, out2). Inr (Inr result, ws_connection st, slice_mut_drop b2, out2))))"

subsection \<open>Answers that need no connection\<close>

definition push_reply ::
  "bool \<Rightarrow> packet \<Rightarrow> reservation \<Rightarrow> nat \<Rightarrow> bip_buffer \<Rightarrow> commit send_msg list \<Rightarrow> panic + (bip_buffer \<times> commit send_msg list)" where
  "push_reply dbg pk r len b out = and_then (slice_mut_commit dbg b r len) (\<lambda>((sl, r1), b1).
     and_then (send_msg_new dbg view_len (snd (slice_detach sl)) (pk_to pk) (pk_from pk) NEct 0) (\<lambda>msg.
       Inr (slice_mut_drop b1, out @ [msg])))"

definition to_force_write_result ::
  "bool \<Rightarrow> packet \<Rightarrow> reservation \<Rightarrow> quiche_error + byte list \<Rightarrow> bip_buffer \<Rightarrow> commit send_msg list \<Rightarrow>
   panic + ((quiche_error + force_write) \<times> bip_buffer \<times> commit send_msg list)" where
  "to_force_write_result dbg pk r result b out = (case result of
     Inr bytes \<Rightarrow> and_then (push_reply dbg pk r (length bytes) (slice_mut_write b r bytes) out) (\<lambda>(b1, out1).
                   Inr (Inr FComplete, b1, out1))
   | Inl e \<Rightarrow> Inr (if e = QBufferTooShort then Inr FBufferTooShort else Inl e, slice_mut_drop b, out))"

definition write_version_negotiation ::
  "'q quiche_io \<Rightarrow> bool \<Rightarrow> header \<Rightarrow> packet \<Rightarrow> bip_buffer \<Rightarrow> commit send_msg list \<Rightarrow>
   panic + ((quiche_error + force_write) \<times> bip_buffer \<times> commit send_msg list)" where
  "write_version_negotiation io dbg hdr pk b out = and_then (reserve dbg b 1500 False) (\<lambda>(res, b1).
     case res of
       None \<Rightarrow> Inr (Inr FBufferTooShort, b1, out)
     | Some r \<Rightarrow> and_then (res_len dbg r) (\<lambda>len.
         to_force_write_result dbg pk r (qi_negotiate_version io (hd_scid hdr) (hd_dcid hdr) len) b1 out))"

definition write_retry ::
  "'q quiche_io \<Rightarrow> bool \<Rightarrow> header \<Rightarrow> packet \<Rightarrow> byte list \<Rightarrow> byte list \<Rightarrow> bip_buffer \<Rightarrow> commit send_msg list \<Rightarrow>
   panic + ((quiche_error + force_write) \<times> bip_buffer \<times> commit send_msg list)" where
  "write_retry io dbg hdr pk new_scid token b out = and_then (reserve dbg b 1500 False) (\<lambda>(res, b1).
     case res of
       None \<Rightarrow> Inr (Inr FBufferTooShort, b1, out)
     | Some r \<Rightarrow> and_then (res_len dbg r) (\<lambda>len.
         to_force_write_result dbg pk r
           (qi_retry io (hd_scid hdr) (hd_dcid hdr) new_scid token (hd_version hdr) len) b1 out))"

definition write_stateless_reset ::
  "(nat \<Rightarrow> nat \<Rightarrow> nat) \<Rightarrow> byte \<Rightarrow> (nat \<Rightarrow> byte list) \<Rightarrow> bool \<Rightarrow> packet \<Rightarrow> byte list \<Rightarrow> bip_buffer \<Rightarrow> commit send_msg list \<Rightarrow>
   panic + (bip_buffer \<times> commit send_msg list)" where
  "write_stateless_reset pick first rng dbg pk reset_token b out = and_then (reserve dbg b 40 True) (\<lambda>(res, b1).
     case res of
       None \<Rightarrow> Inr (b1, out)
     | Some r \<Rightarrow> and_then (res_len dbg r) (\<lambda>len.
         and_then (write_stateless_reset_packet dbg pick first rng (length (pk_payload pk)) len reset_token (slice_mut_deref b1 r))
           (\<lambda>(written, bytes).
             case written of
               None \<Rightarrow> Inr (slice_mut_drop b1, out)
             | Some n \<Rightarrow> push_reply dbg pk r n (slice_mut_write b1 r bytes) out)))"

subsection \<open>The reference: one message for each packet\<close>

definition charge :: "'q quiche_io \<Rightarrow> sock_addr \<Rightarrow> sock_addr \<Rightarrow> nat \<Rightarrow> 'q \<Rightarrow> io_path option \<Rightarrow> io_path" where
  "charge io source destination len q path = (case path of
     None \<Rightarrow> new_path io source destination len q
   | Some p \<Rightarrow> if same_path p source destination then p\<lparr>ph_consumed := ph_consumed p + len\<rparr>
               else new_path io source destination len q)"

lemma diff_shrinks: "xs \<noteq> [] \<Longrightarrow> \<not> n < length xs \<Longrightarrow> n - length xs < n"
  by (cases xs) auto

function send_direct ::
  "'q quiche_ops \<Rightarrow> 'q quiche_io \<Rightarrow> nat \<Rightarrow> nat \<Rightarrow> io_path option \<Rightarrow> 'q connection \<Rightarrow>
   (quiche_error + write_result) \<times> (byte list \<times> ip_addr \<times> sock_addr) list \<times> 'q connection" where
  "send_direct ops io now space path c =
     (if \<not> path_open path then (Inr WQuantum, [], c)
      else case get_next_release_time ops now c of
        Some release_time \<Rightarrow> (Inr (WPacer release_time), [], c)
      | None \<Rightarrow>
          (case qi_send io space (cn_inner c) of
             (Inl e, q) \<Rightarrow>
               (if e = QDone then Inr WComplete else if e = QBufferTooShort then Inr WBufferTooShort else Inl e,
                [], c\<lparr>cn_inner := q\<rparr>)
           | (Inr (bytes, source, destination), q) \<Rightarrow>
               if bytes = [] \<or> space < length bytes then (Inr WComplete, [], c\<lparr>cn_inner := q\<rparr>)
               else case send_direct ops io now (space - length bytes)
                      (Some (charge io source destination (length bytes) q path)) (c\<lparr>cn_inner := q\<rparr>) of
                    (r, packets, c1) \<Rightarrow> (r, (bytes, sa_ip source, destination) # packets, c1)))"
  by pat_completeness auto
termination
  by (relation "measure (\<lambda>(ops, io, now, space, path, c). space)") (auto simp: diff_shrinks)

declare send_direct.simps [simp del]

text \<open>What \<open>Connection::send\<close> promises.\<close>

definition quiche_sends :: "'q quiche_io \<Rightarrow> bool" where
  "quiche_sends io \<longleftrightarrow> (\<forall>space q bytes source destination q'.
     qi_send io space q = (Inr (bytes, source, destination), q') \<longrightarrow>
       length bytes \<le> space \<and> \<not> sock_unspecified destination \<and> same_family (sa_ip source) (sa_ip destination))"

fun chunks :: "nat \<Rightarrow> nat \<Rightarrow> 'a list \<Rightarrow> 'a list list" where
  "chunks sz 0 xs = []"
| "chunks sz (Suc n) xs = take sz xs # chunks sz n (drop sz xs)"

definition view_packets :: "nat \<Rightarrow> nat \<Rightarrow> ip_addr \<Rightarrow> sock_addr \<Rightarrow> byte list \<Rightarrow> (byte list \<times> ip_addr \<times> sock_addr) list" where
  "view_packets sz n source destination bytes = map (\<lambda>x. (x, source, destination)) (chunks sz n bytes)"

definition msg_packets :: "bip_buffer \<Rightarrow> commit send_msg \<Rightarrow> (byte list \<times> ip_addr \<times> sock_addr) list" where
  "msg_packets b m = (let count = max (sm_segment_count m) 1 in
     view_packets (view_len (sm_buf m) div count) count (sm_from m) (sm_to m) (commit_deref b (sm_buf m)))"

subsection \<open>Batching\<close>

lemma chunks_snoc: "length xs = n * sz \<Longrightarrow> length ys = sz \<Longrightarrow> chunks sz (Suc n) (xs @ ys) = chunks sz n xs @ [ys]"
proof (induction n arbitrary: xs)
  case (Suc n)
  have "chunks sz (Suc n) (drop sz xs @ ys) = chunks sz n (drop sz xs) @ [ys]"
    using Suc.prems by (intro Suc.IH) simp_all
  moreover have "drop sz (xs @ ys) = drop sz xs @ ys" "take sz (xs @ ys) = take sz xs" using Suc.prems by simp_all
  ultimately show ?case by (metis append_Cons chunks.simps(2))
qed simp

lemma view_packets_snoc:
  "length xs = n * length ys \<Longrightarrow> view_packets (length ys) (Suc n) source destination (xs @ ys) =
     view_packets (length ys) n source destination xs @ [(ys, source, destination)]"
  using chunks_snoc [of xs n "length ys" ys] by (simp add: view_packets_def del: chunks.simps)

definition path_ok :: "io_path \<Rightarrow> bool" where
  "path_ok p \<longleftrightarrow> \<not> sock_unspecified (ph_destination p) \<and> same_family (sa_ip (ph_source p)) (sa_ip (ph_destination p))"

definition tail_start :: "'q write_state \<Rightarrow> nat" where
  "tail_start st = res_start (pt_reserve (ws_packet st)) + pt_offset (ws_packet st)"

definition tail_space :: "'q write_state \<Rightarrow> nat" where
  "tail_space st = res_end (pt_reserve (ws_packet st)) - tail_start st"

definition ws_ok :: "commit send_msg list \<Rightarrow> 'q write_state \<Rightarrow> bool" where
  "ws_ok out0 st \<longleftrightarrow>
     (\<exists>la lb. bip_ok (ws_buffer st) la lb \<and> res_ok (ws_buffer st) la (pt_reserve (ws_packet st))) \<and>
     tail_start st \<le> res_end (pt_reserve (ws_packet st)) \<and>
     pt_offset (ws_packet st) = pt_count (ws_packet st) * pt_size (ws_packet st) \<and>
     (case ws_path st of
        None \<Rightarrow> pt_count (ws_packet st) = 0
      | Some p \<Rightarrow> 0 < pt_offset (ws_packet st) \<and> ph_consumed p \<le> tail_start st \<and> path_ok p) \<and>
     (\<exists>new. ws_out st = out0 @ new \<and> (\<forall>m \<in> set new. commit_end (sm_buf m) \<le> res_start (pt_reserve (ws_packet st))))"

definition pending_packets :: "'q write_state \<Rightarrow> (byte list \<times> ip_addr \<times> sock_addr) list" where
  "pending_packets st = (case ws_path st of
     None \<Rightarrow> []
   | Some p \<Rightarrow> view_packets (pt_size (ws_packet st)) (pt_count (ws_packet st)) (sa_ip (ph_source p)) (ph_destination p)
       (slice (res_start (pt_reserve (ws_packet st))) (tail_start st) (buffer (ws_buffer st))))"

definition sent_packets :: "commit send_msg list \<Rightarrow> 'q write_state \<Rightarrow> (byte list \<times> ip_addr \<times> sock_addr) list" where
  "sent_packets out0 st =
     concat (map (msg_packets (ws_buffer st)) (drop (length out0) (ws_out st))) @ pending_packets st"

lemma ws_ok_bounds:
  assumes "ws_ok out0 st"
  shows "res_end (pt_reserve (ws_packet st)) \<le> length (buffer (ws_buffer st))"
    and "length (buffer (ws_buffer st)) \<le> usize_max"
  using assms res_bounds(2) unfolding ws_ok_def bip_ok_def by fastforce+

lemma commit_packet_ok:
  assumes b: "bip_ok b la lb" "res_ok b la (pt_reserve pk)" and p: "path_ok p"
    and len: "0 < pt_count pk * pt_size pk" "pt_count pk * pt_size pk \<le> pt_offset pk"
      "res_start (pt_reserve pk) + pt_offset pk \<le> res_end (pt_reserve pk)"
  shows "\<exists>la' lb' b1. commit_packet dbg p pk b out =
      Inr (\<lparr>pt_reserve = (pt_reserve pk)\<lparr>res_start := res_start (pt_reserve pk) + pt_count pk * pt_size pk\<rparr>,
            pt_offset = pt_offset pk - pt_count pk * pt_size pk, pt_count = 0, pt_size = 0\<rparr>, b1,
           out @ [\<lparr>sm_buf = \<lparr>commit_id = commit_id_sequence b, commit_start = res_start (pt_reserve pk),
                             commit_end = res_start (pt_reserve pk) + pt_count pk * pt_size pk\<rparr>,
                   sm_from = sa_ip (ph_source p), sm_to = ph_destination p, sm_ecn = NEct, sm_segment_count = pt_count pk\<rparr>]) \<and>
    bip_ok b1 la' lb' \<and>
    res_ok b1 la' ((pt_reserve pk)\<lparr>res_start := res_start (pt_reserve pk) + pt_count pk * pt_size pk\<rparr>) \<and> buffer b1 = buffer b"
proof -
  let ?r = "pt_reserve pk" and ?n = "pt_count pk * pt_size pk"
  have le: "?n \<le> res_end ?r - res_start ?r" "res_start ?r \<le> res_end ?r" "res_end ?r \<le> usize_max" "?n \<le> usize_max"
    using len res_bounds [OF b] b(1) by (auto simp: bip_ok_def)
  then have "\<exists>sl r' b1. try_commit True b ?r ?n = Inr (Some (sl, r'), b1)"
    by (auto simp: try_commit_def commit_reservation_def res_len_def profile_sub_def profile_add_def Let_def)
  then obtain sl r' b1 where t: "try_commit True b ?r ?n = Inr (Some (sl, r'), b1)" by blast
  note s = try_commit_Some [OF t le(2,3)]
  obtain la' lb' where "bip_ok b1 la' lb'" "res_ok b1 la' r'" using commit_keeps_ok [OF b t] by blast
  moreover have "is_multiple_of ?n (pt_count pk)" using len(1) by (simp add: is_multiple_of_def)
  ultimately show ?thesis
    using t s(1,3) le len p try_commit_frame [OF t]
    by (auto simp: commit_packet_def usize_mul_def slice_mut_commit_def slice_detach_def view_len_def send_msg_new_def path_ok_def Let_def)
qed

lemma bip_ok_buffer [simp]:
  "length xs = length (buffer b) \<Longrightarrow> bip_ok (b\<lparr>buffer := xs\<rparr>) la lb = bip_ok b la lb"
  "res_ok (b\<lparr>buffer := xs\<rparr>) la r = res_ok b la r"
  by (simp_all add: bip_ok_def res_ok_def cong: region.case_cong)

lemma write_bytes_ok:
  assumes ok: "ws_ok out0 st" and len: "length bytes \<le> tail_space st"
  defines "b \<equiv> ws_buffer st" and "b' \<equiv> write_bytes (ws_packet st) bytes (ws_buffer st)"
  shows "buffer b' = splice (tail_start st) bytes (buffer b)" and "tail_start st + length bytes \<le> length (buffer b)"
    and "bip_ok b la lb \<Longrightarrow> bip_ok b' la lb" and "res_ok b' la r = res_ok b la r"
    and "commit_id_sequence b' = commit_id_sequence b"
proof -
  have le: "tail_start st \<le> res_end (pt_reserve (ws_packet st))" using ok by (simp add: ws_ok_def)
  show sz: "tail_start st + length bytes \<le> length (buffer b)"
    using len le ws_ok_bounds [OF ok] unfolding b_def tail_space_def by linarith
  show *: "buffer b' = splice (tail_start st) bytes (buffer b)"
    using len by (simp add: b'_def b_def write_bytes_def slice_mut_write_def tail_space_def tail_start_def)
  have b': "b' = b\<lparr>buffer := buffer b'\<rparr>" by (simp add: b'_def b_def write_bytes_def slice_mut_write_def)
  have "length (buffer b') = length (buffer b)" using * sz by simp
  then show "bip_ok b la lb \<Longrightarrow> bip_ok b' la lb" "res_ok b' la r = res_ok b la r"
    "commit_id_sequence b' = commit_id_sequence b"
    by (subst b', simp)+
qed

lemma slice_append_splice:
  assumes "i \<le> j" and "j + length bytes \<le> length xs"
  shows "slice i (j + length bytes) (splice j bytes xs) = slice i j xs @ bytes"
proof -
  have "j + length bytes - i = (j - i) + length bytes" "j - i + i = j" using assms(1) by simp_all
  then have "slice i (j + length bytes) ys = slice i j ys @ slice j (j + length bytes) ys" for ys :: "'a list"
    by (simp only: slice_def take_add drop_drop add_diff_cancel_left')
  then show ?thesis using assms by (simp add: slice_splice_before)
qed

lemma msg_packets_below:
  assumes "commit_end (sm_buf m) \<le> i" and "i + length bytes \<le> length (buffer b)" and "buffer b' = splice i bytes (buffer b)"
  shows "msg_packets b' m = msg_packets b m"
  using assms by (simp add: msg_packets_def commit_deref_def slice_splice_before)

lemma msg_packets_view:
  "0 < n \<Longrightarrow> msg_packets b \<lparr>sm_buf = \<lparr>commit_id = k, commit_start = i, commit_end = i + n * sz\<rparr>, sm_from = source,
     sm_to = destination, sm_ecn = e, sm_segment_count = n\<rparr> = view_packets sz n source destination (slice i (i + n * sz) (buffer b))"
  by (simp add: msg_packets_def view_len_def commit_deref_def max_absorb1)

text \<open>A packet that was written joins the sent ones, whether it extends the current message or starts another.\<close>

lemma batch_packet_ok:
  assumes ok: "ws_ok out0 st" and len: "length bytes \<le> tail_space st" "bytes \<noteq> []"
    and addr: "\<not> sock_unspecified destination" "same_family (sa_ip source) (sa_ip destination)"
    and st1_def: "st1 = st\<lparr>ws_connection := c, ws_buffer := write_bytes (ws_packet st) bytes (ws_buffer st)\<rparr>"
  shows "\<exists>st2. batch_packet io dbg bytes source destination st1 = Inr st2 \<and> ws_ok out0 st2 \<and>
    sent_packets out0 st2 = sent_packets out0 st @ [(bytes, sa_ip source, destination)] \<and>
    tail_space st2 = tail_space st - length bytes \<and> ws_connection st2 = c \<and>
    ws_path st2 = Some (charge io source destination (length bytes) (cn_inner c) (ws_path st))"
proof -
  let ?pk = "ws_packet st" and ?r = "pt_reserve (ws_packet st)" and ?b1 = "ws_buffer st1"
  let ?p = "charge io source destination (length bytes) (cn_inner c) (ws_path st)"
  note w = write_bytes_ok [OF ok len(1)]
  obtain la lb where b: "bip_ok (ws_buffer st) la lb" "res_ok (ws_buffer st) la ?r" using ok by (auto simp: ws_ok_def)
  have b1: "bip_ok ?b1 la lb" "res_ok ?b1 la ?r" "buffer ?b1 = splice (tail_start st) bytes (buffer (ws_buffer st))"
    using w b by (simp_all add: st1_def)
  have sz: "tail_start st + length bytes \<le> res_end ?r" "res_end ?r \<le> usize_max" "0 < length bytes"
    using len ok ws_ok_bounds [OF ok] by (auto simp: tail_space_def ws_ok_def)
  obtain new where new: "ws_out st = out0 @ new" "\<forall>m \<in> set new. commit_end (sm_buf m) \<le> res_start ?r"
    using ok by (auto simp: ws_ok_def)
  have same: "map (msg_packets ?b1) new = map (msg_packets (ws_buffer st)) new"
    using new(2) w(2) b1(3) by (auto intro!: msg_packets_below [where i = "tail_start st" and bytes = bytes] simp: tail_start_def)
  have off: "pt_offset ?pk = pt_count ?pk * pt_size ?pk" using ok by (simp add: ws_ok_def)
  have low: "slice (res_start ?r) (tail_start st) (buffer ?b1) = slice (res_start ?r) (tail_start st) (buffer (ws_buffer st))"
    using w(2) b1(3) by (simp add: slice_splice_before)
  have own: "slice (tail_start st) (tail_start st + length bytes) (buffer ?b1) = bytes" using w(2) b1(3) by simp
  show ?thesis
  proof (cases "ws_path st")
    case None
    let ?st2 = "st1\<lparr>ws_packet := ?pk\<lparr>pt_offset := length bytes, pt_size := length bytes, pt_count := 1\<rparr>, ws_path := Some ?p\<rparr>"
    have z: "pt_count ?pk = 0" "pt_offset ?pk = 0" using None ok by (auto simp: ws_ok_def)
    have "batch_packet io dbg bytes source destination st1 = Inr ?st2"
      using None z sz by (simp add: batch_packet_def st1_def new_path_def same_path_def charge_def usize_add_def Let_def)
    moreover have "ws_ok out0 ?st2"
      using b1 sz new z addr None by (auto simp: ws_ok_def tail_start_def path_ok_def charge_def new_path_def st1_def)
    moreover have "sent_packets out0 ?st2 = sent_packets out0 st @ [(bytes, sa_ip source, destination)]"
      using new(1) same own z None
      by (simp add: sent_packets_def pending_packets_def tail_start_def view_packets_def charge_def new_path_def st1_def cong: map_cong)
    moreover have "tail_space ?st2 = tail_space st - length bytes" using z by (simp add: tail_space_def tail_start_def)
    ultimately show ?thesis by (intro exI [of _ ?st2]) (simp add: st1_def)
  next
    case (Some p)
    have pos: "0 < pt_offset ?pk" "0 < pt_count ?pk" "0 < pt_size ?pk" and con: "ph_consumed p \<le> tail_start st" and p: "path_ok p"
      using Some ok by (auto simp: ws_ok_def)
    have no_overflow: "pt_offset ?pk + length bytes \<le> usize_max" "ph_consumed p + length bytes \<le> usize_max" "pt_count ?pk + 1 \<le> usize_max"
    proof -
      have "pt_count ?pk \<le> pt_offset ?pk" using off pos(3) by simp
      then show "pt_offset ?pk + length bytes \<le> usize_max" "ph_consumed p + length bytes \<le> usize_max" "pt_count ?pk + 1 \<le> usize_max"
        using sz con unfolding tail_start_def by linarith+
    qed
    show ?thesis
    proof (cases "same_path p source destination \<and> pt_size ?pk = length bytes")
      case True
      let ?st2 = "st1\<lparr>ws_packet := ?pk\<lparr>pt_offset := pt_offset ?pk + length bytes, pt_count := Suc (pt_count ?pk)\<rparr>, ws_path := Some ?p\<rparr>"
      have cp: "?p = p\<lparr>ph_consumed := ph_consumed p + length bytes\<rparr>" using True Some by (simp add: charge_def)
      have "batch_packet io dbg bytes source destination st1 = Inr ?st2"
        using Some True pos no_overflow by (simp add: batch_packet_def st1_def same_path_def charge_def usize_add_def Let_def)
      moreover have "ws_ok out0 ?st2"
        using b1 sz new pos p con off True unfolding cp by (auto simp: ws_ok_def tail_start_def path_ok_def st1_def)
      moreover have "slice (res_start ?r) (tail_start ?st2) (buffer ?b1) = slice (res_start ?r) (tail_start st) (buffer (ws_buffer st)) @ bytes"
        using w(2) b1(3) slice_append_splice [of "res_start ?r" "tail_start st" bytes "buffer (ws_buffer st)"]
        by (simp add: tail_start_def add.assoc)
      then have "sent_packets out0 ?st2 = sent_packets out0 st @ [(bytes, sa_ip source, destination)]"
        using new(1) same Some True cp off view_packets_snoc [of "slice (res_start ?r) (tail_start st) (buffer (ws_buffer st))" "pt_count ?pk" bytes] w(2)
        by (simp add: sent_packets_def pending_packets_def same_path_def st1_def tail_start_def cong: map_cong)
      moreover have "tail_space ?st2 = tail_space st - length bytes" by (simp add: tail_space_def tail_start_def)
      ultimately show ?thesis by (intro exI [of _ ?st2]) (simp add: st1_def)
    next
      case False
      let ?p1 = "p\<lparr>ph_consumed := ph_consumed p + length bytes\<rparr>" and ?pk1 = "?pk\<lparr>pt_offset := pt_offset ?pk + length bytes\<rparr>"
      let ?r2 = "?r\<lparr>res_start := tail_start st\<rparr>"
      let ?msg = "\<lparr>sm_buf = \<lparr>commit_id = commit_id_sequence ?b1, commit_start = res_start ?r, commit_end = tail_start st\<rparr>,
        sm_from = sa_ip (ph_source p), sm_to = ph_destination p, sm_ecn = NEct, sm_segment_count = pt_count ?pk\<rparr>"
      have ts: "res_start ?r + pt_count ?pk * pt_size ?pk = tail_start st" using off by (simp add: tail_start_def)
      have rest: "pt_offset ?pk + length bytes - pt_count ?pk * pt_size ?pk = length bytes" using off by simp
      have "res_ok ?b1 la (pt_reserve ?pk1)" "path_ok ?p1" "0 < pt_count ?pk1 * pt_size ?pk1" "pt_count ?pk1 * pt_size ?pk1 \<le> pt_offset ?pk1"
        "res_start (pt_reserve ?pk1) + pt_offset ?pk1 \<le> res_end (pt_reserve ?pk1)"
        using b1(2) p pos off sz(1) by (simp_all add: path_ok_def tail_start_def)
      from commit_packet_ok [OF b1(1) this, of dbg "ws_out st"]
      obtain la2 lb2 b2 where c2: "commit_packet dbg ?p1 ?pk1 ?b1 (ws_out st) =
            Inr (\<lparr>pt_reserve = ?r2, pt_offset = length bytes, pt_count = 0, pt_size = 0\<rparr>, b2, ws_out st @ [?msg])"
          "bip_ok b2 la2 lb2" "res_ok b2 la2 ?r2" "buffer b2 = buffer ?b1"
        by (simp add: ts rest) blast
      let ?st2 = "st1\<lparr>ws_buffer := b2, ws_packet := \<lparr>pt_reserve = ?r2, pt_offset = length bytes, pt_count = 1, pt_size = length bytes\<rparr>,
        ws_path := Some ?p, ws_out := ws_out st @ [?msg]\<rparr>"
      have "batch_packet io dbg bytes source destination st1 = Inr ?st2"
        using Some False pos no_overflow c2(1)
        by (auto simp: batch_packet_def st1_def same_path_def charge_def usize_add_def Let_def)
      moreover have "ws_ok out0 ?st2"
        using c2 sz new p con addr Some ts
        by (auto simp: ws_ok_def tail_start_def path_ok_def charge_def new_path_def)
      moreover have "msg_packets b2 ?msg = pending_packets st"
        using Some low c2(4) msg_packets_view [OF pos(2), of b2 _ "res_start ?r" "pt_size ?pk"] unfolding ts
        by (simp add: pending_packets_def)
      moreover have "map (msg_packets b2) new = map (msg_packets ?b1) new"
        using c2(4) by (auto simp: msg_packets_def commit_deref_def)
      moreover have "pending_packets ?st2 = [(bytes, sa_ip source, destination)]"
        using own c2(4) Some by (auto simp: pending_packets_def tail_start_def view_packets_def charge_def new_path_def same_path_def)
      ultimately show ?thesis using new(1) same
        by (intro exI [of _ ?st2]) (simp add: sent_packets_def tail_space_def tail_start_def st1_def cong: map_cong)
    qed
  qed
qed

lemma ws_ok_connection [simp]:
  "ws_ok out0 (st\<lparr>ws_connection := c\<rparr>) = ws_ok out0 st"
  "sent_packets out0 (st\<lparr>ws_connection := c\<rparr>) = sent_packets out0 st"
  by (simp_all add: ws_ok_def sent_packets_def pending_packets_def tail_start_def cong: option.case_cong)

lemma write_bytes_Nil [simp]: "write_bytes pk [] b = b"
  by (simp add: write_bytes_def slice_mut_write_def splice_def)

lemma write_turn_ok:
  assumes io: "quiche_sends io" and ok: "ws_ok out0 st" and "path_open (ws_path st)"
  shows "\<exists>r st'. write_turn ops io dbg now st = Inr (r, st') \<and> ws_ok out0 st' \<and>
    (\<forall>w. r = Some w \<longrightarrow> sent_packets out0 st' = sent_packets out0 st \<and>
      send_direct ops io now (tail_space st) (ws_path st) (ws_connection st) = (w, [], ws_connection st')) \<and>
    (r = None \<longrightarrow> (\<exists>pk. sent_packets out0 st' = sent_packets out0 st @ [pk] \<and>
      send_direct ops io now (tail_space st) (ws_path st) (ws_connection st) =
        (case send_direct ops io now (tail_space st') (ws_path st') (ws_connection st') of (w, pks, c) \<Rightarrow> (w, pk # pks, c))))"
proof (cases "get_next_release_time ops now (ws_connection st)")
  case (Some t)
  then show ?thesis using assms by (simp add: write_turn_def send_direct.simps [of ops io now "tail_space st"])
next
  case None
  let ?pk = "ws_packet st" and ?c = "ws_connection st"
  have sp: "res_len True (pt_reserve ?pk) = Inr (res_end (pt_reserve ?pk) - res_start (pt_reserve ?pk))"
    "\<not> res_end (pt_reserve ?pk) - res_start (pt_reserve ?pk) < pt_offset ?pk"
    "res_end (pt_reserve ?pk) - res_start (pt_reserve ?pk) - pt_offset ?pk = tail_space st"
    using ok by (auto simp: ws_ok_def res_len_def tail_space_def tail_start_def)
  note turn = write_turn_def [of ops io dbg now st, unfolded None option.case Let_def sp(1) and_then_simps if_not_P [OF sp(2)] sp(3)]
  obtain s q where s: "qi_send io (tail_space st) (cn_inner ?c) = (s, q)" by fastforce
  show ?thesis
  proof (cases s)
    case (Inl e)
    then show ?thesis using s assms(2,3) None unfolding turn
      by (cases e) (simp_all add: send_direct.simps [of ops io now "tail_space st"])
  next
    case (Inr a)
    obtain bytes source destination where a: "a = (bytes, source, destination)" by (cases a)
    have law: "length bytes \<le> tail_space st" "\<not> sock_unspecified destination" "same_family (sa_ip source) (sa_ip destination)"
      using io s Inr a unfolding quiche_sends_def by metis+
    show ?thesis
    proof (cases "bytes = []")
      case True
      then show ?thesis using s Inr a assms(2,3) None unfolding turn
        by (simp add: send_direct.simps [of ops io now "tail_space st"])
    next
      case False
      from batch_packet_ok [OF ok law(1) False law(2,3) refl, where c = "?c\<lparr>cn_inner := q\<rparr>" and io = io and dbg = dbg]
      obtain st2 where st2: "batch_packet io dbg bytes source destination
            (st\<lparr>ws_connection := ?c\<lparr>cn_inner := q\<rparr>, ws_buffer := write_bytes ?pk bytes (ws_buffer st)\<rparr>) = Inr st2"
          "ws_ok out0 st2" "sent_packets out0 st2 = sent_packets out0 st @ [(bytes, sa_ip source, destination)]"
          "tail_space st2 = tail_space st - length bytes" "ws_connection st2 = ?c\<lparr>cn_inner := q\<rparr>"
          "ws_path st2 = Some (charge io source destination (length bytes) q (ws_path st))"
        by auto
      then show ?thesis using s Inr a assms(3) None False law(1) unfolding turn
        by (simp add: send_direct.simps [of ops io now "tail_space st"])
    qed
  qed
qed

lemma write_loop_ok:
  assumes "quiche_sends io" and "ws_ok out0 st"
  shows "\<exists>r st' pks. write_loop ops io dbg now st = Inr (r, st') \<and> ws_ok out0 st' \<and>
    sent_packets out0 st' = sent_packets out0 st @ pks \<and>
    send_direct ops io now (tail_space st) (ws_path st) (ws_connection st) = (r, pks, ws_connection st')"
  using assms
proof (induction ops io dbg now st rule: write_loop.induct)
  case (1 ops io dbg now st)
  show ?case
  proof (cases "path_open (ws_path st)")
    case True
    obtain r st' where turn: "write_turn ops io dbg now st = Inr (r, st')" "ws_ok out0 st'"
      "\<forall>w. r = Some w \<longrightarrow> sent_packets out0 st' = sent_packets out0 st \<and>
        send_direct ops io now (tail_space st) (ws_path st) (ws_connection st) = (w, [], ws_connection st')"
      "r = None \<longrightarrow> (\<exists>pk. sent_packets out0 st' = sent_packets out0 st @ [pk] \<and>
        send_direct ops io now (tail_space st) (ws_path st) (ws_connection st) =
          (case send_direct ops io now (tail_space st') (ws_path st') (ws_connection st') of (w, pks, c) \<Rightarrow> (w, pk # pks, c)))"
      using write_turn_ok [OF "1.prems"(1) "1.prems"(2) True, of ops dbg now] by blast
    show ?thesis
    proof (cases r)
      case (Some w)
      then show ?thesis using turn True by (simp add: write_loop.simps [of ops io dbg now st])
    next
      case None
      then have "write_loop ops io dbg now st = write_loop ops io dbg now st'"
        using turn(1) True by (simp add: write_loop.simps [of ops io dbg now st])
      with "1.IH" [OF _ turn(1) refl None "1.prems"(1) turn(2)] True turn(4) None show ?thesis by auto
    qed
  qed (use "1.prems" in \<open>simp add: write_loop.simps [of ops io dbg now st] send_direct.simps [of ops io now "tail_space st"]\<close>)
qed

lemma reserve_any:
  assumes "bip_ok b la lb" and "\<not> reserved b" and "available dbg b = Inr n" and "0 < n"
  obtains r where "reserve dbg b usize_max False = Inr (Some r, b\<lparr>reserved := True\<rparr>)" "res_ok b la r" "res_end r - res_start r = n"
proof -
  have "reserve dbg b usize_max False = reserve False b usize_max False" using bip_profiles_agree(4) [OF assms(1)] by metis
  then obtain r where r: "reserve dbg b usize_max False = Inr (Some r, b\<lparr>reserved := True\<rparr>)"
    using reserve_release_profile(2) [OF assms(1-4), of False] by auto
  have "n \<le> usize_max" using assms(3) bip_ok_bounds [OF assms(1)] unfolding available_ok [OF assms(1)] by (auto split: if_splits)
  then show ?thesis using that [OF r] reserve_Some(1,3) [OF assms(1) r] assms(3) by simp
qed

subsection \<open>Properties\<close>

lemma chunks_length: "length xs = n * sz \<Longrightarrow> ys \<in> set (chunks sz n xs) \<Longrightarrow> length ys = sz"
proof (induction n arbitrary: xs)
  case (Suc n)
  then show ?case using Suc.IH [of "drop sz xs"] by auto
qed simp

lemma pending_uniform:
  assumes "ws_ok out0 st"
  shows "\<exists>len source destination. pending_packets st \<in> lists {p. length (fst p) = len \<and> snd p = (source, destination)}"
proof (cases "ws_path st")
  case (Some p)
  let ?pk = "ws_packet st"
  have "length (slice (res_start (pt_reserve ?pk)) (tail_start st) (buffer (ws_buffer st))) = pt_count ?pk * pt_size ?pk"
    using assms ws_ok_bounds [OF assms] by (auto simp: ws_ok_def slice_def tail_start_def)
  from chunks_length [OF this] Some show ?thesis
    by (intro exI [of _ "pt_size ?pk"] exI [of _ "sa_ip (ph_source p)"] exI [of _ "ph_destination p"])
      (auto simp: pending_packets_def view_packets_def)
qed (simp add: pending_packets_def)

lemma flush_ok:
  assumes ok: "ws_ok out0 st" and path: "ws_path st = Some p"
  shows "\<exists>pk b' msg. commit_packet dbg p (ws_packet st) (ws_buffer st) (ws_out st) = Inr (pk, b', ws_out st @ [msg]) \<and> pt_offset pk = 0 \<and>
    (\<exists>la lb. bip_ok b' la lb) \<and> buffer b' = buffer (ws_buffer st) \<and> msg_packets b' msg = pending_packets st"
proof -
  let ?pk = "ws_packet st"
  have s: "path_ok p" "0 < pt_count ?pk * pt_size ?pk" "pt_count ?pk * pt_size ?pk \<le> pt_offset ?pk"
      "res_start (pt_reserve ?pk) + pt_offset ?pk \<le> res_end (pt_reserve ?pk)"
    and off: "pt_offset ?pk = pt_count ?pk * pt_size ?pk" and pos: "0 < pt_count ?pk"
    using assms by (auto simp: ws_ok_def tail_start_def)
  obtain la lb where b: "bip_ok (ws_buffer st) la lb" "res_ok (ws_buffer st) la (pt_reserve ?pk)" using ok by (auto simp: ws_ok_def)
  have eq: "buffer b1 = buffer (ws_buffer st) \<Longrightarrow>
      view_packets (pt_size ?pk) (pt_count ?pk) (sa_ip (ph_source p)) (ph_destination p)
        (slice (res_start (pt_reserve ?pk)) (res_start (pt_reserve ?pk) + pt_count ?pk * pt_size ?pk) (buffer b1)) = pending_packets st" for b1
    using path off by (simp add: pending_packets_def tail_start_def)
  from commit_packet_ok [OF b s, of dbg "ws_out st"] show ?thesis
    using off eq by (elim exE conjE) (auto simp: msg_packets_view [OF pos])
qed


text \<open>A connection that is the list of its packets, all on one path.\<close>

definition demo_io :: "byte list list quiche_io" where
  "demo_io = \<lparr>qi_send = (\<lambda>space q. case q of [] \<Rightarrow> (Inl QDone, q)
       | x # xs \<Rightarrow> if space < length x then (Inl QBufferTooShort, q)
           else (Inr (x, \<lparr>sa_ip = V4 1, sa_port = 65535\<rparr>, \<lparr>sa_ip = V4 2, sa_port = 443\<rparr>), xs)),
     qi_send_quantum = (\<lambda>_ _ _. 100), qi_negotiate_version = (\<lambda>_ _ _. Inl QBufferTooShort),
     qi_retry = (\<lambda>_ _ _ _ _ _. Inl QBufferTooShort)\<rparr>"

lemma demo_io_sends: "quiche_sends demo_io"
  by (auto simp: quiche_sends_def demo_io_def sock_unspecified_def ip_unspecified_def same_family_def split: list.splits if_splits)

definition demo_out_ops :: "byte list list quiche_ops" where
  "demo_out_ops = \<lparr>q_is_server = (\<lambda>_. True), q_is_established = (\<lambda>_. True), q_is_closed = (\<lambda>_. False),
     q_is_draining = (\<lambda>_. False), q_is_timed_out = (\<lambda>_. False), q_source_id = (\<lambda>_. [7]),
     q_source_ids = (\<lambda>_. [[7]]), q_retired_scids = (\<lambda>q. ([], q)), q_path_stats = (\<lambda>_. []),
     q_is_path_validated = (\<lambda>_ _ _. None), q_streams_left_bidi = (\<lambda>_. 0), q_streams_left_uni = (\<lambda>_. 0),
     q_dgram_max_writable_len = (\<lambda>_. None), q_local_error = (\<lambda>_. None), q_peer_error = (\<lambda>_. None),
     q_next_release_time = (\<lambda>_. None)\<rparr>"


text \<open>the loss is real: a connection that has written two packets when \<open>quiche\<close> fails adds no message at all.\<close>

definition failing_io :: "byte list list quiche_io" where
  "failing_io = demo_io\<lparr>qi_send := (\<lambda>space q. case q of [] \<Rightarrow> (Inl QTlsFail, q)
     | x # xs \<Rightarrow> (Inr (take space x, \<lparr>sa_ip = V4 1, sa_port = 65535\<rparr>, \<lparr>sa_ip = V4 2, sa_port = 443\<rparr>), xs))\<rparr>"

lemma write_pending_error_loses:
  "\<exists>c' b'. write_pending demo_out_ops failing_io False 0 (connection_new demo_out_ops [[1, 2], [3, 4]] True []) (bip_new 8) [] =
     Inr (Inl QTlsFail, c', b', [])"
  "map fst (fst (snd (send_direct demo_out_ops failing_io 0 8 None (connection_new demo_out_ops [[1, 2], [3, 4]] True [])))) =
     [[1, 2], [3, 4]]"
  by (simp_all add: write_pending_def write_loop.simps write_turn_def batch_packet_def send_direct.simps failing_io_def demo_io_def
      demo_out_ops_def connection_new_def get_next_release_time_def path_open_def charge_def new_path_def same_path_def
      write_bytes_def slice_mut_write_def usize_add_def bip_eval Let_def)

end
