(* ===== verification/Quiche_Backend.thy ===== *)
theory Quiche_Backend
  imports Quiche_Io
begin

section \<open>The quiche backend\<close>

text \<open>
  Model of the inner operations of \<open>QuicheBackend\<close> in \<open>src/aquic-core/src/backend/quiche/mod.rs\<close>, of
  \<open>Time\<close> (\<open>time.rs\<close>) and of the configuration (\<open>config.rs\<close>): timers, the life cycle of a connection, and the
  handling of received packets. What the backend calls is collected in \<open>quiche_env\<close>: the crate \<open>quiche\<close>, the
  linked hash set, and the generic parameters of the backend, that is the generator of connection IDs (its state is
  \<open>'g\<close>), the token generator (\<open>'t\<close>) and the firewall, and the session cache of \<open>mini_moka\<close> (\<open>'c\<close>). The slot map gives the
  \<open>n\<close>-th connection the key \<open>ev_slot n\<close>. Instants and durations are nanoseconds. Logging is left out; \<open>debug_panic!\<close> panics
  where \<open>ev_dbg\<close> says that debug assertions are compiled in.
\<close>

subsection \<open>What the backend calls\<close>

record 'q quiche_net =
  qn_close :: "bool \<Rightarrow> nat \<Rightarrow> byte list \<Rightarrow> 'q \<Rightarrow> quiche_error option \<times> 'q"
  qn_on_timeout :: "'q \<Rightarrow> 'q"
  qn_timeout_instant :: "'q \<Rightarrow> nat option"
  qn_recv :: "byte list \<Rightarrow> sock_addr \<Rightarrow> sock_addr \<Rightarrow> 'q \<Rightarrow> quiche_error option \<times> 'q"
  qn_path_events :: "'q \<Rightarrow> path_event list \<times> 'q"
  qn_readable :: "'q \<Rightarrow> 64 word list \<times> 'q"
  qn_writable :: "'q \<Rightarrow> 64 word list \<times> 'q"
  qn_dgram_recv_queue_full :: "'q \<Rightarrow> bool"
  qn_dgram_send_queue_full :: "'q \<Rightarrow> bool"
  qn_scids_left :: "'q \<Rightarrow> nat"
  qn_new_scid :: "byte list \<Rightarrow> byte list \<Rightarrow> 'q \<Rightarrow> quiche_error option \<times> 'q"
  qn_session :: "'q \<Rightarrow> byte list option"
  qn_server_name :: "'q \<Rightarrow> string option"
  qn_accept :: "byte list \<Rightarrow> byte list option \<Rightarrow> sock_addr \<Rightarrow> sock_addr \<Rightarrow> quiche_error + 'q"
  qn_connect :: "string \<Rightarrow> byte list \<Rightarrow> sock_addr \<Rightarrow> sock_addr \<Rightarrow> quiche_error + 'q"
  qn_set_session :: "byte list \<Rightarrow> 'q \<Rightarrow> quiche_error option \<times> 'q"
  qn_migrate_source :: "sock_addr \<Rightarrow> 'q \<Rightarrow> quiche_error option \<times> 'q"
  qn_peer_cert_chain :: "'q \<Rightarrow> byte list list option"
  qn_header :: "byte list \<Rightarrow> nat \<Rightarrow> quiche_error + header"
  qn_version_is_supported :: "nat \<Rightarrow> bool"
  qn_error_text :: "quiche_error \<Rightarrow> string"
  qn_stream_recv :: "64 word \<Rightarrow> nat \<Rightarrow> 'q \<Rightarrow> (quiche_error + byte list \<times> bool) \<times> 'q"
  qn_stream_send_zc :: "64 word \<Rightarrow> byte list \<Rightarrow> bool \<Rightarrow> 'q \<Rightarrow> (quiche_error + byte list option) \<times> 'q"
  qn_stream_shutdown_read :: "64 word \<Rightarrow> nat \<Rightarrow> 'q \<Rightarrow> 'q"
  qn_stream_shutdown_write :: "64 word \<Rightarrow> nat \<Rightarrow> 'q \<Rightarrow> 'q"
  qn_stream_priority :: "64 word \<Rightarrow> 8 word \<Rightarrow> bool \<Rightarrow> 'q \<Rightarrow> 'q"
  qn_dgram_recv_vec :: "'q \<Rightarrow> (quiche_error + byte list) \<times> 'q"
  qn_dgram_send :: "byte list \<Rightarrow> 'q \<Rightarrow> quiche_error option \<times> 'q"

record ('q, 's, 'g, 't, 'c) quiche_env =
  ev_ops :: "'q quiche_ops"
  ev_io :: "'q quiche_io"
  ev_net :: "'q quiche_net"
  ev_ls :: "'s lset_ops"
  ev_slot :: "nat \<Rightarrow> connection_key"
  ev_generate :: "'g \<Rightarrow> byte list \<times> 'g"
  ev_cid_len :: "'g \<Rightarrow> nat"
  ev_verify_token :: "ip_addr \<Rightarrow> byte list \<Rightarrow> byte list \<Rightarrow> byte list \<Rightarrow> int \<Rightarrow> 't \<Rightarrow> (token_error + token) \<times> 't"
  ev_retry_token :: "ip_addr \<Rightarrow> byte list \<Rightarrow> byte list \<Rightarrow> byte list \<Rightarrow> int \<Rightarrow> 't \<Rightarrow> byte list option \<times> 't"
  ev_reset_token :: "byte list \<Rightarrow> 't \<Rightarrow> byte list \<times> 't"
  ev_allow_unverified :: "sock_addr \<Rightarrow> nat \<Rightarrow> nat \<Rightarrow> bool"
  ev_cache_get :: "string \<Rightarrow> 'c \<Rightarrow> byte list option \<times> 'c"
  ev_cache_insert :: "string \<Rightarrow> byte list \<Rightarrow> 'c \<Rightarrow> 'c"
  ev_server_name :: "string \<Rightarrow> string option"
  ev_pick :: "nat \<Rightarrow> nat \<Rightarrow> nat"
  ev_first :: byte
  ev_rng :: "nat \<Rightarrow> byte list"
  ev_dbg :: bool

text \<open>The firewall that is the default: \<open>StrictFirewall\<close> of \<open>backend/firewall.rs\<close>.\<close>

definition strict_allow_unverified :: "sock_addr \<Rightarrow> nat \<Rightarrow> nat \<Rightarrow> bool" where
  "strict_allow_unverified source_addr server_connections unverified_connections = False"

subsection \<open>Time\<close>

record timer_event =
  te_connection_key :: connection_key
  te_kind :: timer_kind

record quiche_time =
  tm_timer :: "timer_event option wheel_timer"
  tm_fired :: "timer_event option bucket list"
  tm_mono :: nat
  tm_sys :: int

definition time_new :: "nat \<Rightarrow> int \<Rightarrow> panic + quiche_time" where
  "time_new clock_mono clock_sys = and_then (wheel_new 1000000 64000000 clock_mono) (\<lambda>timer.
     Inr \<lparr>tm_timer = timer, tm_fired = [], tm_mono = clock_mono, tm_sys = clock_sys\<rparr>)"

definition time_schedule :: "bool \<Rightarrow> timer_event \<Rightarrow> nat \<Rightarrow> quiche_time \<Rightarrow> panic + (timer_key \<times> quiche_time)" where
  "time_schedule dbg event at tm = and_then (wheel_schedule dbg (tm_timer tm) (Some event) at (tm_mono tm)) (\<lambda>(key, w).
     Inr (key, tm\<lparr>tm_timer := w\<rparr>))"

definition time_cancel :: "timer_key \<Rightarrow> quiche_time \<Rightarrow> panic + quiche_time" where
  "time_cancel key tm = and_then (wheel_cancel None (tm_timer tm) key) (\<lambda>w. Inr (tm\<lparr>tm_timer := w\<rparr>))"

definition time_reschedule ::
  "bool \<Rightarrow> timer_event \<Rightarrow> nat \<Rightarrow> timer_key option \<Rightarrow> quiche_time \<Rightarrow> panic + (timer_key \<times> quiche_time)" where
  "time_reschedule dbg event at previous_key tm =
     and_then (case previous_key of Some key \<Rightarrow> time_cancel key tm | None \<Rightarrow> Inr tm) (time_schedule dbg event at)"

fun time_cancel_keys :: "timer_key option list \<Rightarrow> quiche_time \<Rightarrow> panic + quiche_time" where
  "time_cancel_keys [] tm = Inr tm"
| "time_cancel_keys (None # keys) tm = time_cancel_keys keys tm"
| "time_cancel_keys (Some key # keys) tm = and_then (time_cancel key tm) (time_cancel_keys keys)"

definition time_cancel_all :: "'q connection \<Rightarrow> quiche_time \<Rightarrow> panic + ('q connection \<times> quiche_time)" where
  "time_cancel_all c tm =
     (let (pacer, c1) = pop_timer_key Pacer c;
          (timeout, c2) = pop_timer_key QuicheTimeout c1;
          (establish, c3) = pop_timer_key EstablishTimeout c2
      in and_then (time_cancel_keys [pacer, timeout, establish] tm) (\<lambda>tm1. Inr (c3, tm1)))"

definition time_tick :: "quiche_time \<Rightarrow> (panic + ((nat \<times> bool) \<times> quiche_time)) option" where
  "time_tick tm = map_option (\<lambda>r. and_then r (\<lambda>(fired, next_tick, w).
     Inr ((next_tick, fired \<noteq> []), tm\<lparr>tm_timer := w, tm_fired := fired\<rparr>))) (wheel_progress (tm_fired tm) (tm_timer tm) (tm_mono tm))"

definition time_update_clock :: "nat \<Rightarrow> int \<Rightarrow> quiche_time \<Rightarrow> quiche_time" where
  "time_update_clock clock_mono clock_sys tm = tm\<lparr>tm_mono := clock_mono, tm_sys := clock_sys\<rparr>"

subsection \<open>State\<close>

record 't server_config =
  sc_token_generator :: 't
  sc_establish_timeout :: nat

record client_config =
  cc_establish_timeout :: "nat option"

record ('q, 's, 'g, 't, 'c) quiche_backend =
  be_server :: "'t server_config option"
  be_client :: "client_config option"
  be_cid_generator :: 'g
  be_connections :: "('q, 's) connections"
  be_buffer :: bip_buffer
  be_time :: quiche_time
  be_session_cache :: 'c
  be_events :: "quiche_connection_id backend_events"
  be_listen_addr :: ip_addr
  be_open :: bool
  be_inserted :: nat

datatype send_result = SendDone | SendReactivate | SendStopAndRetry

definition to_sock_addr :: "ip_addr \<Rightarrow> sock_addr" where
  "to_sock_addr ip = \<lparr>sa_ip = ip, sa_port = 65535\<rparr>"

definition is_connection_open :: "'q quiche_ops \<Rightarrow> 'q connection \<Rightarrow> bool" where
  "is_connection_open ops c \<longleftrightarrow> \<not> q_is_draining ops (cn_inner c) \<and> \<not> q_is_closed ops (cn_inner c)"

definition push_events ::
  "quiche_connection_id backend_event list \<Rightarrow> ('q, 's, 'g, 't, 'c) quiche_backend \<Rightarrow> ('q, 's, 'g, 't, 'c) quiche_backend" where
  "push_events es be = be\<lparr>be_events := events_extend es (be_events be)\<rparr>"

definition lookup :: "connection_key \<Rightarrow> ('q, 's, 'g, 't, 'c) quiche_backend \<Rightarrow> 'q connection option" where
  "lookup key be = connections_get key (be_connections be)"

definition store ::
  "connection_key \<Rightarrow> 'q connection \<Rightarrow> ('q, 's, 'g, 't, 'c) quiche_backend \<Rightarrow> ('q, 's, 'g, 't, 'c) quiche_backend" where
  "store key c be = be\<lparr>be_connections := connections_put key c (be_connections be)\<rparr>"

definition conn_events :: "'c connection_event option \<Rightarrow> 'c backend_event list" where
  "conn_events e = (case e of None \<Rightarrow> [] | Some e \<Rightarrow> [ConnectionEv e])"

definition dgram_events :: "'c datagram_event option \<Rightarrow> 'c backend_event list" where
  "dgram_events e = (case e of None \<Rightarrow> [] | Some e \<Rightarrow> [DatagramEv e])"

subsection \<open>Scheduling\<close>

definition set_timer ::
  "('q, 's, 'g, 't, 'c) quiche_env \<Rightarrow> timer_kind \<Rightarrow> connection_key \<Rightarrow> 'q connection \<Rightarrow> nat \<Rightarrow>
   ('q, 's, 'g, 't, 'c) quiche_backend \<Rightarrow> panic + ('q, 's, 'g, 't, 'c) quiche_backend" where
  "set_timer env kind key c at be =
     (let (previous, c1) = pop_timer_key kind c in
      and_then (time_reschedule (ev_dbg env) \<lparr>te_connection_key = key, te_kind = kind\<rparr> at previous (be_time be)) (\<lambda>(k, tm).
        Inr (store key (set_timer_key kind (Some k) c1) (be\<lparr>be_time := tm\<rparr>))))"

definition schedule_pacer ::
  "('q, 's, 'g, 't, 'c) quiche_env \<Rightarrow> connection_key \<Rightarrow> nat option \<Rightarrow>
   ('q, 's, 'g, 't, 'c) quiche_backend \<Rightarrow> panic + ('q, 's, 'g, 't, 'c) quiche_backend" where
  "schedule_pacer env key release_time be = (case lookup key be of
     None \<Rightarrow> Inr be
   | Some c \<Rightarrow>
       (case (case release_time of Some t \<Rightarrow> Some t | None \<Rightarrow> get_next_release_time (ev_ops env) (tm_mono (be_time be)) c) of
          None \<Rightarrow> Inr be
        | Some at \<Rightarrow> set_timer env Pacer key c at be))"

definition schedule_quiche_timeout ::
  "('q, 's, 'g, 't, 'c) quiche_env \<Rightarrow> connection_key \<Rightarrow> nat option \<Rightarrow>
   ('q, 's, 'g, 't, 'c) quiche_backend \<Rightarrow> panic + ('q, 's, 'g, 't, 'c) quiche_backend" where
  "schedule_quiche_timeout env key timeout_at be = (case lookup key be of
     None \<Rightarrow> Inr be
   | Some c \<Rightarrow>
       (case (case timeout_at of Some t \<Rightarrow> Some t | None \<Rightarrow> qn_timeout_instant (ev_net env) (cn_inner c)) of
          None \<Rightarrow> Inr be
        | Some at \<Rightarrow> set_timer env QuicheTimeout key c at be))"

definition establish_deadline :: "('q, 's, 'g, 't, 'c) quiche_env \<Rightarrow> 'q connection \<Rightarrow> ('q, 's, 'g, 't, 'c) quiche_backend \<Rightarrow> nat option" where
  "establish_deadline env c be = map_option (\<lambda>timeout. tm_mono (be_time be) + timeout)
     (if q_is_server (ev_ops env) (cn_inner c) then map_option sc_establish_timeout (be_server be)
      else Option.bind (be_client be) cc_establish_timeout)"

definition schedule_establish_timeout ::
  "('q, 's, 'g, 't, 'c) quiche_env \<Rightarrow> connection_key \<Rightarrow> nat option \<Rightarrow>
   ('q, 's, 'g, 't, 'c) quiche_backend \<Rightarrow> panic + ('q, 's, 'g, 't, 'c) quiche_backend" where
  "schedule_establish_timeout env key timeout_at be = (case lookup key be of
     None \<Rightarrow> Inr be
   | Some c \<Rightarrow>
       (case (case timeout_at of Some t \<Rightarrow> Some t | None \<Rightarrow> establish_deadline env c be) of
          None \<Rightarrow> Inr be
        | Some at \<Rightarrow> set_timer env EstablishTimeout key c at be))"

subsection \<open>Events and packets of a connection\<close>

fun stream_available_events ::
  "bool \<Rightarrow> quiche_connection_id \<Rightarrow> 64 word list \<Rightarrow> panic + quiche_connection_id backend_event list" where
  "stream_available_events dbg cid [] = Inr []"
| "stream_available_events dbg cid (stream_id # ids) = (case sid_new stream_id of
     Inl _ \<Rightarrow> and_then (panic_if dbg ExplicitPanic) (\<lambda>_. stream_available_events dbg cid ids)
   | Inr s \<Rightarrow> and_then (stream_available_events dbg cid ids) (\<lambda>es. Inr (StreamEv (EvAvailable cid s) # es)))"

definition write_stream_dgram_events ::
  "('q, 's, 'g, 't, 'c) quiche_env \<Rightarrow> connection_key \<Rightarrow> ('q, 's, 'g, 't, 'c) quiche_backend \<Rightarrow> panic + ('q, 's, 'g, 't, 'c) quiche_backend" where
  "write_stream_dgram_events env key be = (case lookup key be of
     None \<Rightarrow> Inr be
   | Some c \<Rightarrow>
       let (available, c1) = get_streams_available_events (ev_ops env) key c;
           (readable, q1) = qn_readable (ev_net env) (cn_inner c1);
           (writable, q2) = qn_writable (ev_net env) q1;
           c2 = c1\<lparr>cn_inner := q2\<rparr>
       in and_then (stream_available_events (ev_dbg env) (connection_id_of key c2) (readable @ writable)) (\<lambda>streams.
            let (dgram_in, c3) = (if qn_dgram_recv_queue_full (ev_net env) q2 then (None, c2) else get_dgram_in_available_event key c2);
                (dgram_out, c4) = (if qn_dgram_send_queue_full (ev_net env) q2 then (None, c3) else get_dgram_out_available_event key c3);
                (dgram_size, c5) = get_dgram_out_size_event (ev_ops env) key c4
            in Inr (push_events (map ConnectionEv available @ streams @ dgram_events dgram_in @ dgram_events dgram_out @ dgram_events dgram_size)
                     (store key c5 be))))"

definition send_packets ::
  "('q, 's, 'g, 't, 'c) quiche_env \<Rightarrow> connection_key \<Rightarrow> commit send_msg list \<Rightarrow> ('q, 's, 'g, 't, 'c) quiche_backend \<Rightarrow>
   panic + (send_result \<times> commit send_msg list \<times> ('q, 's, 'g, 't, 'c) quiche_backend)" where
  "send_packets env key out be = (case lookup key be of
     None \<Rightarrow> Inr (SendDone, out, be)
   | Some c \<Rightarrow>
       and_then (write_pending (ev_ops env) (ev_io env) (ev_dbg env) (tm_mono (be_time be)) c (be_buffer be) out) (\<lambda>(w, c1, b, out1).
       and_then (write_stream_dgram_events env key (store key c1 (be\<lparr>be_buffer := b\<rparr>))) (\<lambda>be1.
       and_then (schedule_quiche_timeout env key None be1) (\<lambda>be2.
         case w of
           Inr WComplete \<Rightarrow> Inr (SendDone, out1, be2)
         | Inr (WPacer release_at) \<Rightarrow> and_then (schedule_pacer env key (Some release_at) be2) (\<lambda>be3. Inr (SendDone, out1, be3))
         | Inr WQuantum \<Rightarrow> Inr (SendReactivate, out1, be2)
         | Inr WBufferTooShort \<Rightarrow> Inr (SendStopAndRetry, out1, be2)
         | Inl e \<Rightarrow> and_then (panic_if (ev_dbg env) ExplicitPanic) (\<lambda>_. Inr (SendDone, out1, be2))))))"

text \<open>The loop of \<open>allocate_scids\<close>: it ends early when \<open>quiche\<close> refuses an ID.\<close>

fun new_scids ::
  "('q, 's, 'g, 't, 'c) quiche_env \<Rightarrow> nat \<Rightarrow> 'g \<times> 't \<times> 'q \<Rightarrow> panic + ('g \<times> 't \<times> 'q)" where
  "new_scids env 0 s = Inr s"
| "new_scids env (Suc n) (g, t, q) =
     (let (scid, g1) = ev_generate env g;
          (reset_token, t1) = ev_reset_token env scid t
      in case qn_new_scid (ev_net env) scid reset_token q of
           (None, q1) \<Rightarrow> new_scids env n (g1, t1, q1)
         | (Some e, q1) \<Rightarrow> and_then (panic_if (ev_dbg env) ExplicitPanic) (\<lambda>_. Inr (g1, t1, q1)))"

definition allocate_scids :: "('q, 's, 'g, 't, 'c) quiche_env \<Rightarrow> connection_key \<Rightarrow> ('q, 's, 'g, 't, 'c) quiche_backend \<Rightarrow> panic + ('q, 's, 'g, 't, 'c) quiche_backend" where
  "allocate_scids env key be =
     (if ev_cid_len env (be_cid_generator be) = 0 then Inr be
      else case be_server be of
        None \<Rightarrow> Inr be
      | Some config \<Rightarrow>
          (case get_mark_active (ev_ls env) key (be_connections be) of
             (None, cs) \<Rightarrow> Inr (be\<lparr>be_connections := cs\<rparr>)
           | (Some c, cs) \<Rightarrow>
               let be1 = be\<lparr>be_connections := cs\<rparr> in
               if \<not> q_is_established (ev_ops env) (cn_inner c) then Inr be1
               else and_then (new_scids env (qn_scids_left (ev_net env) (cn_inner c)) (be_cid_generator be, sc_token_generator config, cn_inner c))
                 (\<lambda>(g, t, q).
                   let be2 = store key (c\<lparr>cn_inner := q\<rparr>)
                         (be1\<lparr>be_cid_generator := g, be_server := Some (config\<lparr>sc_token_generator := t\<rparr>)\<rparr>)
                   in and_then (update_scids_dict (ev_ops env) (ev_dbg env) key (be_connections be2)) (\<lambda>cs2.
                        Inr (be2\<lparr>be_connections := cs2\<rparr>)))))"

subsection \<open>The life cycle of a connection\<close>

definition register_new_connection ::
  "('q, 's, 'g, 't, 'c) quiche_env \<Rightarrow> 'q connection \<Rightarrow> sock_addr \<Rightarrow> ('q, 's, 'g, 't, 'c) quiche_backend \<Rightarrow> panic + (quiche_connection_id \<times> ('q, 's, 'g, 't, 'c) quiche_backend)" where
  "register_new_connection env c peer_addr be =
     and_then (panic_if (ev_dbg env \<and> q_is_established (ev_ops env) (cn_inner c)) DebugAssertFailed) (\<lambda>_.
     and_then (connections_insert (ev_ops env) (ev_ls env) (ev_slot env (be_inserted be)) c peer_addr (be_connections be)) (\<lambda>(cid, cs).
     and_then (schedule_quiche_timeout env (qid_key cid) None (be\<lparr>be_connections := cs, be_inserted := be_inserted be + 1\<rparr>)) (\<lambda>be1.
     and_then (schedule_establish_timeout env (qid_key cid) None be1) (\<lambda>be2.
       Inr (cid, push_events [ConnectionEv (EvNew cid (q_is_server (ev_ops env) (cn_inner c)))] be2)))))"

definition store_session ::
  "('q, 's, 'g, 't, 'c) quiche_env \<Rightarrow> 'q connection \<Rightarrow> ('q, 's, 'g, 't, 'c) quiche_backend \<Rightarrow> panic + ('q, 's, 'g, 't, 'c) quiche_backend" where
  "store_session env c be =
     (if q_is_server (ev_ops env) (cn_inner c) then Inr be
      else case (qn_session (ev_net env) (cn_inner c), qn_server_name (ev_net env) (cn_inner c)) of
        (Some session, Some server_name) \<Rightarrow>
          (case ev_server_name env server_name of
             Some name \<Rightarrow> Inr (be\<lparr>be_session_cache := ev_cache_insert env name session (be_session_cache be)\<rparr>)
           | None \<Rightarrow> and_then (panic_if (ev_dbg env) ExplicitPanic) (\<lambda>_. Inr be))
      | _ \<Rightarrow> Inr be)"

definition check_connection_handshake_progress :: "('q, 's, 'g, 't, 'c) quiche_env \<Rightarrow> connection_key \<Rightarrow> ('q, 's, 'g, 't, 'c) quiche_backend \<Rightarrow> panic + ('q, 's, 'g, 't, 'c) quiche_backend" where
  "check_connection_handshake_progress env key be = (case lookup key be of
     None \<Rightarrow> Inr be
   | Some c \<Rightarrow>
       if \<not> q_is_established (ev_ops env) (cn_inner c) then Inr be
       else let (timer, c1) = pop_timer_key EstablishTimeout c in
         and_then (case timer of Some k \<Rightarrow> time_cancel k (be_time be) | None \<Rightarrow> Inr (be_time be)) (\<lambda>tm.
         and_then (store_session env c1 (store key c1 (be\<lparr>be_time := tm\<rparr>))) (\<lambda>be1.
           allocate_scids env key be1)))"

definition forget_connection :: "('q, 's, 'g, 't, 'c) quiche_env \<Rightarrow> connection_key \<Rightarrow> ('q, 's, 'g, 't, 'c) quiche_backend \<Rightarrow> panic + ('q, 's, 'g, 't, 'c) quiche_backend" where
  "forget_connection env key be =
     and_then (connections_remove (ev_ops env) (ev_ls env) (ev_dbg env) key (be_connections be)) (\<lambda>(removed, cs).
       let be1 = be\<lparr>be_connections := cs\<rparr> in
       case removed of
         None \<Rightarrow> Inr be1
       | Some c \<Rightarrow>
           let (event, c1) = get_close_event (ev_ops env) key c;
               be2 = push_events (conn_events event) be1
           in and_then (time_cancel_all c1 (be_time be2)) (\<lambda>(_, tm). Inr (be2\<lparr>be_time := tm\<rparr>)))"

subsection \<open>Scheduled events\<close>

definition handle_scheduled_event :: "('q, 's, 'g, 't, 'c) quiche_env \<Rightarrow> timer_event \<Rightarrow> ('q, 's, 'g, 't, 'c) quiche_backend \<Rightarrow> panic + ('q, 's, 'g, 't, 'c) quiche_backend" where
  "handle_scheduled_event env event be =
     (let key = te_connection_key event in
      case get_mark_active (ev_ls env) key (be_connections be) of
        (None, cs) \<Rightarrow> Inr (be\<lparr>be_connections := cs\<rparr>)
      | (Some c, cs) \<Rightarrow>
          let be1 = be\<lparr>be_connections := cs\<rparr> in
          (case te_kind event of
             Pacer \<Rightarrow> Inr be1
           | QuicheTimeout \<Rightarrow> Inr (store key (c\<lparr>cn_inner := qn_on_timeout (ev_net env) (cn_inner c)\<rparr>) be1)
           | EstablishTimeout \<Rightarrow>
               if q_is_established (ev_ops env) (cn_inner c) then Inr be1
               else let (halt, c1) = get_halt_event key HaltTimeout c;
                        be2 = push_events (conn_events halt) (store key c1 be1)
                    in if q_is_server (ev_ops env) (cn_inner c1)
                       then Inr (store key (c1\<lparr>cn_inner := snd (qn_close (ev_net env) False 2 (map of_char ''timeout'') (cn_inner c1))\<rparr>) be2)
                       else forget_connection env key be2))"

fun handle_fired :: "('q, 's, 'g, 't, 'c) quiche_env \<Rightarrow> timer_event option list \<Rightarrow> ('q, 's, 'g, 't, 'c) quiche_backend \<Rightarrow> panic + ('q, 's, 'g, 't, 'c) quiche_backend" where
  "handle_fired env [] be = Inr be"
| "handle_fired env (None # events) be = handle_fired env events be"
| "handle_fired env (Some event # events) be = and_then (handle_scheduled_event env event be) (handle_fired env events)"

text \<open>Both the buckets and the events of a bucket are popped from the end.\<close>

definition handle_scheduled_events :: "('q, 's, 'g, 't, 'c) quiche_env \<Rightarrow> ('q, 's, 'g, 't, 'c) quiche_backend \<Rightarrow> panic + ('q, 's, 'g, 't, 'c) quiche_backend" where
  "handle_scheduled_events env be =
     handle_fired env (concat (map (rev \<circ> bk_elements) (rev (tm_fired (be_time be))))) (be\<lparr>be_time := (be_time be)\<lparr>tm_fired := []\<rparr>\<rparr>)"

subsection \<open>Received packets\<close>

definition handle_path_events :: "('q, 's, 'g, 't, 'c) quiche_env \<Rightarrow> connection_key \<Rightarrow> ('q, 's, 'g, 't, 'c) quiche_backend \<Rightarrow> panic + ('q, 's, 'g, 't, 'c) quiche_backend" where
  "handle_path_events env key be = (case lookup key be of
     None \<Rightarrow> Inr be
   | Some c \<Rightarrow>
       let (path_events, q) = qn_path_events (ev_net env) (cn_inner c);
           be1 = store key (c\<lparr>cn_inner := q\<rparr>) be
       in and_then (if PathValidated \<in> set path_events
                    then and_then (mark_verified (ev_ops env) key (be_connections be1)) (\<lambda>cs. Inr (be1\<lparr>be_connections := cs\<rparr>))
                    else Inr be1) (\<lambda>be2.
            if PathPeerMigrated \<in> set path_events then allocate_scids env key be2 else Inr be2))"

definition unexpected_error :: "quiche_error \<Rightarrow> bool" where
  "unexpected_error e = (case e of
     QDone \<Rightarrow> True | QBufferTooShort \<Rightarrow> True | QInvalidState \<Rightarrow> True | QInvalidStreamState _ \<Rightarrow> True
   | QStreamStopped _ \<Rightarrow> True | QStreamReset _ \<Rightarrow> True | QCongestionControl \<Rightarrow> True | QIdLimit \<Rightarrow> True
   | QOutOfIdentifiers \<Rightarrow> True | QInvalidDcidInitialization \<Rightarrow> True | _ \<Rightarrow> False)"

text \<open>The error branch of \<open>delegate_packet\<close>.\<close>

definition handle_recv_error :: "('q, 's, 'g, 't, 'c) quiche_env \<Rightarrow> connection_key \<Rightarrow> quiche_error \<Rightarrow> 'q connection \<Rightarrow> ('q, 's, 'g, 't, 'c) quiche_backend \<Rightarrow> panic + ('q, 's, 'g, 't, 'c) quiche_backend" where
  "handle_recv_error env key e c be =
     and_then (panic_if (ev_dbg env \<and> q_local_error (ev_ops env) (cn_inner c) = None) DebugAssertFailed) (\<lambda>_.
     let gone = (q_is_draining (ev_ops env) (cn_inner c) \<or> q_is_closed (ev_ops env) (cn_inner c));
         (halt, c1) = (if e = QUnknownVersion \<and> gone then get_halt_event key UnknownVersion c else (None, c))
     in and_then (panic_if (ev_dbg env \<and> unexpected_error e) ExplicitPanic) (\<lambda>_.
        let (close, c2) = (if gone then get_close_event (ev_ops env) key c1 else (None, c1))
        in Inr (push_events (conn_events halt @ conn_events close) (store key c2 be))))"

definition delegate_packet :: "('q, 's, 'g, 't, 'c) quiche_env \<Rightarrow> header \<Rightarrow> packet \<Rightarrow> ('q, 's, 'g, 't, 'c) quiche_backend \<Rightarrow> panic + (bool \<times> ('q, 's, 'g, 't, 'c) quiche_backend)" where
  "delegate_packet env hdr pk be =
     and_then (find_connection_key (ev_dbg env) (hd_dcid hdr) (pk_from pk) (be_connections be)) (\<lambda>found.
     case found of
       None \<Rightarrow> Inr (False, be)
     | Some key \<Rightarrow>
         (case get_mark_active (ev_ls env) key (be_connections be) of
            (None, cs) \<Rightarrow> Inr (False, be\<lparr>be_connections := cs\<rparr>)
          | (Some c, cs) \<Rightarrow>
              let be1 = be\<lparr>be_connections := cs\<rparr> in
              if q_is_closed (ev_ops env) (cn_inner c)
              then and_then (forget_connection env key be1) (\<lambda>be2. Inr (True, be2))
              else let (result, q) = qn_recv (ev_net env) (pk_payload pk) (pk_from pk) (to_sock_addr (pk_to pk)) (cn_inner c);
                       c1 = c\<lparr>cn_inner := q\<rparr>;
                       be2 = store key c1 be1
                   in and_then
                        (case result of
                           None \<Rightarrow> if hd_type hdr = THandshake then check_connection_handshake_progress env key be2 else Inr be2
                         | Some e \<Rightarrow> handle_recv_error env key e c1 be2) (\<lambda>be3.
                      and_then (handle_path_events env key be3) (\<lambda>be4.
                      and_then (write_stream_dgram_events env key be4) (\<lambda>be5.
                      and_then (schedule_quiche_timeout env key None be5) (\<lambda>be6. Inr (True, be6)))))))"

definition force_write_done :: "bool \<Rightarrow> quiche_error + force_write \<Rightarrow> panic + bool" where
  "force_write_done dbg r = (case r of
     Inr FComplete \<Rightarrow> Inr True
   | Inr FBufferTooShort \<Rightarrow> Inr False
   | Inl e \<Rightarrow> and_then (panic_if dbg ExplicitPanic) (\<lambda>_. Inr True))"

text \<open>The verification of the token of an \<open>Initial\<close> packet: \<open>None\<close> when the packet is dropped, otherwise the token,
  if there is a valid one.\<close>

definition initial_token ::
  "('q, 's, 'g, 't, 'c) quiche_env \<Rightarrow> header \<Rightarrow> packet \<Rightarrow> int \<Rightarrow> 't \<Rightarrow> token option option \<times> 't" where
  "initial_token env hdr pk now t = (case hd_token hdr of
     None \<Rightarrow> (Some None, t)
   | Some token \<Rightarrow>
       (case ev_verify_token env (sa_ip (pk_from pk)) (hd_scid hdr) (hd_dcid hdr) token now t of
          (Inr verified, t1) \<Rightarrow> (Some (Some verified), t1)
        | (Inl (Expired RetryKind _), t1) \<Rightarrow> (None, t1)
        | (Inl _, t1) \<Rightarrow> (Some None, t1)))"

definition accept_connection ::
  "('q, 's, 'g, 't, 'c) quiche_env \<Rightarrow> packet \<Rightarrow> byte list \<Rightarrow> token option \<Rightarrow> ('q, 's, 'g, 't, 'c) quiche_backend \<Rightarrow> panic + ('q, 's, 'g, 't, 'c) quiche_backend" where
  "accept_connection env pk server_new_scid token be =
     (let peer_original_dcid = (case token of Some (Retry odcid _) \<Rightarrow> Some (as_slice odcid) | _ \<Rightarrow> None) in
      case qn_accept (ev_net env) server_new_scid peer_original_dcid (to_sock_addr (be_listen_addr be)) (pk_from pk) of
        Inl e \<Rightarrow> and_then (panic_if (ev_dbg env) ExplicitPanic) (\<lambda>_. Inr be)
      | Inr q \<Rightarrow> and_then (register_new_connection env (connection_new (ev_ops env) q (token \<noteq> None) (ev_rng env 16)) (pk_from pk) be)
                   (\<lambda>(_, be1). Inr be1))"

definition answer_retry ::
  "('q, 's, 'g, 't, 'c) quiche_env \<Rightarrow> header \<Rightarrow> packet \<Rightarrow> byte list \<Rightarrow> 't server_config \<Rightarrow> commit send_msg list \<Rightarrow> ('q, 's, 'g, 't, 'c) quiche_backend \<Rightarrow>
   panic + (bool \<times> commit send_msg list \<times> ('q, 's, 'g, 't, 'c) quiche_backend)" where
  "answer_retry env hdr pk server_new_scid config out be =
     (case ev_retry_token env (sa_ip (pk_from pk)) (hd_scid hdr) (hd_dcid hdr) server_new_scid
             (tm_sys (be_time be) + int (sc_establish_timeout config)) (sc_token_generator config) of
        (None, t) \<Rightarrow> and_then (panic_if (ev_dbg env) ExplicitPanic) (\<lambda>_.
          Inr (True, out, be\<lparr>be_server := Some (config\<lparr>sc_token_generator := t\<rparr>)\<rparr>))
      | (Some retry_token, t) \<Rightarrow>
          and_then (write_retry (ev_io env) (ev_dbg env) hdr pk server_new_scid retry_token (be_buffer be) out) (\<lambda>(r, b, out1).
          and_then (force_write_done (ev_dbg env) r) (\<lambda>handled.
            Inr (handled, out1, be\<lparr>be_buffer := b, be_server := Some (config\<lparr>sc_token_generator := t\<rparr>)\<rparr>))))"

definition handle_initial_packet_as_server ::
  "('q, 's, 'g, 't, 'c) quiche_env \<Rightarrow> header \<Rightarrow> packet \<Rightarrow> commit send_msg list \<Rightarrow> ('q, 's, 'g, 't, 'c) quiche_backend \<Rightarrow> panic + (bool \<times> commit send_msg list \<times> ('q, 's, 'g, 't, 'c) quiche_backend)" where
  "handle_initial_packet_as_server env hdr pk out be =
     and_then (panic_if (ev_dbg env \<and> hd_type hdr \<noteq> TInitial) DebugAssertFailed) (\<lambda>_.
     case be_server be of
       None \<Rightarrow> Inr (True, out, be)
     | Some config \<Rightarrow>
         if \<not> qn_version_is_supported (ev_net env) (hd_version hdr)
         then and_then (write_version_negotiation (ev_io env) (ev_dbg env) hdr pk (be_buffer be) out) (\<lambda>(r, b, out1).
              and_then (force_write_done (ev_dbg env) r) (\<lambda>handled. Inr (handled, out1, be\<lparr>be_buffer := b\<rparr>)))
         else if max_cid_len < length (hd_scid hdr) \<or> max_cid_len < length (hd_dcid hdr) then Inr (True, out, be)
         else case initial_token env hdr pk (tm_sys (be_time be)) (sc_token_generator config) of
           (None, t) \<Rightarrow> Inr (True, out, be\<lparr>be_server := Some (config\<lparr>sc_token_generator := t\<rparr>)\<rparr>)
         | (Some token, t) \<Rightarrow>
             let config1 = config\<lparr>sc_token_generator := t\<rparr>;
                 (server_new_scid, g) = ev_generate env (be_cid_generator be);
                 be1 = be\<lparr>be_server := Some config1, be_cid_generator := g\<rparr>
             in if max_cid_len < length server_new_scid
                then and_then (panic_if (ev_dbg env) ExplicitPanic) (\<lambda>_. Inr (True, out, be1))
                else if token = None \<and> \<not> ev_allow_unverified env (pk_from pk)
                         (cs_server_count (be_connections be)) (cs_unverified_count (be_connections be))
                then answer_retry env hdr pk server_new_scid config1 out be1
                else and_then (accept_connection env pk server_new_scid token be1) (\<lambda>be2. Inr (True, out, be2)))"

definition handle_packet_with_stateless_reset ::
  "('q, 's, 'g, 't, 'c) quiche_env \<Rightarrow> header \<Rightarrow> packet \<Rightarrow> commit send_msg list \<Rightarrow> ('q, 's, 'g, 't, 'c) quiche_backend \<Rightarrow> panic + (commit send_msg list \<times> ('q, 's, 'g, 't, 'c) quiche_backend)" where
  "handle_packet_with_stateless_reset env hdr pk out be = (case be_server be of
     None \<Rightarrow> Inr (out, be)
   | Some config \<Rightarrow>
       let (reset_token, t) = ev_reset_token env (hd_dcid hdr) (sc_token_generator config) in
       and_then (write_stateless_reset (ev_pick env) (ev_first env) (ev_rng env) (ev_dbg env) pk reset_token (be_buffer be) out) (\<lambda>(b, out1).
         Inr (out1, be\<lparr>be_buffer := b, be_server := Some (config\<lparr>sc_token_generator := t\<rparr>)\<rparr>)))"

subsection \<open>\<open>recv\<close> and \<open>send\<close>\<close>

text \<open>The body of the loop of \<open>recv\<close>: \<open>False\<close> when the loop is left without consuming the packet.\<close>

definition recv_packet ::
  "('q, 's, 'g, 't, 'c) quiche_env \<Rightarrow> packet \<Rightarrow> commit send_msg list \<Rightarrow> ('q, 's, 'g, 't, 'c) quiche_backend \<Rightarrow> panic + (bool \<times> commit send_msg list \<times> ('q, 's, 'g, 't, 'c) quiche_backend)" where
  "recv_packet env pk out be = (case qn_header (ev_net env) (pk_payload pk) (ev_cid_len env (be_cid_generator be)) of
     Inl e \<Rightarrow> Inr (True, out, be)
   | Inr hdr \<Rightarrow>
       if hd_type hdr = TInitial
       then if be_open be then handle_initial_packet_as_server env hdr pk out be else Inr (True, out, be)
       else and_then (delegate_packet env hdr pk be) (\<lambda>(delegated, be1).
              if delegated then Inr (True, out, be1)
              else and_then (handle_packet_with_stateless_reset env hdr pk out be1) (\<lambda>(out1, be2). Inr (True, out1, be2))))"

fun backend_recv ::
  "('q, 's, 'g, 't, 'c) quiche_env \<Rightarrow> nat \<Rightarrow> flatten_iter \<Rightarrow> commit send_msg list \<Rightarrow> ('q, 's, 'g, 't, 'c) quiche_backend \<Rightarrow>
   (panic + (flatten_iter \<times> commit send_msg list \<times> ('q, 's, 'g, 't, 'c) quiche_backend)) option" where
  "backend_recv env 0 it out be = None"
| "backend_recv env (Suc fuel) it out be = (case flatten_peek (ev_dbg env) it of
     Inl p \<Rightarrow> Some (Inl p)
   | Inr (None, it1) \<Rightarrow> Some (Inr (it1, out, be))
   | Inr (Some pk, it1) \<Rightarrow>
       (case recv_packet env pk out be of
          Inl p \<Rightarrow> Some (Inl p)
        | Inr (consumed, out1, be1) \<Rightarrow>
            if \<not> consumed then Some (Inr (it1, out1, be1))
            else case flatten_next (ev_dbg env) it1 of
                   Inl p \<Rightarrow> Some (Inl p)
                 | Inr it2 \<Rightarrow> backend_recv env fuel it2 out1 be1))"

fun send_loop ::
  "('q, 's, 'g, 't, 'c) quiche_env \<Rightarrow> nat \<Rightarrow> commit send_msg list \<Rightarrow> ('q, 's, 'g, 't, 'c) quiche_backend \<Rightarrow> panic + (commit send_msg list \<times> ('q, 's, 'g, 't, 'c) quiche_backend)" where
  "send_loop env 0 out be = Inr (out, be\<lparr>be_connections := snd (peek_active (ev_ls env) (be_connections be))\<rparr>)"
| "send_loop env (Suc n) out be = (case peek_active (ev_ls env) (be_connections be) of
     (None, cs) \<Rightarrow> Inr (out, be\<lparr>be_connections := cs\<rparr>)
   | (Some (key, c), cs) \<Rightarrow>
       let be1 = be\<lparr>be_connections := cs\<rparr>;
           next_conn = (\<lambda>be. be\<lparr>be_connections := next_active (ev_ls env) (be_connections be)\<rparr>)
       in if q_is_closed (ev_ops env) (cn_inner c)
          then and_then (forget_connection env key be1) (\<lambda>be2. send_loop env n out (next_conn be2))
          else and_then (send_packets env key out be1) (\<lambda>(r, out1, be2).
            case r of
              SendDone \<Rightarrow> send_loop env n out1 (next_conn be2)
            | SendReactivate \<Rightarrow>
                send_loop env n out1 ((next_conn be2)\<lparr>be_connections := mark_active (ev_ls env) key (be_connections (next_conn be2))\<rparr>)
            | SendStopAndRetry \<Rightarrow> Inr (out1, be2)))"

definition backend_send ::
  "('q, 's, 'g, 't, 'c) quiche_env \<Rightarrow> commit send_msg list \<Rightarrow> ('q, 's, 'g, 't, 'c) quiche_backend \<Rightarrow> panic + (commit send_msg list \<times> ('q, 's, 'g, 't, 'c) quiche_backend)" where
  "backend_send env out be = and_then (handle_scheduled_events env be) (\<lambda>be1.
     send_loop env (active_len (ev_ls env) (be_connections be1)) out be1)"

end
