(* ===== verification/Quiche_Api.thy ===== *)
theory Quiche_Api
  imports Quiche_Backend
begin

section \<open>The interface of the quiche backend\<close>

text \<open>
  Model of the implementation of \<open>QuicBackend\<close> for \<open>QuicheBackend\<close> in
  \<open>src/aquic-core/src/backend/quiche/mod.rs\<close> (\<open>send\<close> and \<open>recv\<close> are in \<open>Quiche_Backend\<close>). A result of type \<open>Result\<close> is a sum
  with the error on the left.
\<close>

subsection \<open>Opening and closing\<close>

definition fix_out_buffer_size :: "nat \<Rightarrow> nat" where
  "fix_out_buffer_size n = (if n < 2048 then 2048 else n)"

text \<open>\<open>Config::fix\<close> as a whole: \<open>'y\<close> stands for \<open>TypeId\<close>, and the check compares the type of the firewall with that
  of \<open>PanicTokenGenerator\<close>. Durations are in nanoseconds.\<close>

definition quiche_config_fix :: "'y \<Rightarrow> 'y option \<Rightarrow> nat \<Rightarrow> panic + nat" where
  "quiche_config_fix panic_token_generator server_firewall out_buffer_size =
     and_then (panic_if (server_firewall = Some panic_token_generator) ExplicitPanic) (\<lambda>_. Inr (fix_out_buffer_size out_buffer_size))"

definition client_config_new :: client_config where
  "client_config_new = \<lparr>cc_establish_timeout = Some (30 * 10 ^ 9)\<rparr>"

definition server_config_new :: "'t \<Rightarrow> 't server_config" where
  "server_config_new token_generator = \<lparr>sc_token_generator = token_generator, sc_establish_timeout = 15 * 10 ^ 9\<rparr>"

text \<open>No firewall is a token generator, so the check passes every server.\<close>

lemma quiche_config_fix_passes:
  "firewall \<noteq> panic_token_generator \<Longrightarrow> \<exists>n \<ge> 2048. quiche_config_fix panic_token_generator (Some firewall) out_buffer_size = Inr n"
  by (auto simp: quiche_config_fix_def fix_out_buffer_size_def)

definition backend_new ::
  "('q, 's, 'g, 't, 'c) quiche_env \<Rightarrow> 't server_config option \<Rightarrow> client_config option \<Rightarrow> 'g \<Rightarrow> nat \<Rightarrow> 'c \<Rightarrow> ip_addr \<Rightarrow> nat \<Rightarrow> int \<Rightarrow> panic + ('q, 's, 'g, 't, 'c) quiche_backend" where
  "backend_new env server client generator out_buffer_size cache listen_addr clock_mono clock_sys =
     and_then (time_new clock_mono clock_sys) (\<lambda>tm. Inr
       \<lparr>be_server = server, be_client = client, be_cid_generator = generator, be_connections = connections_new (ev_ls env),
        be_buffer = bip_new (fix_out_buffer_size out_buffer_size), be_time = tm, be_session_cache = cache, be_events = [],
        be_listen_addr = listen_addr, be_open = True, be_inserted = 0\<rparr>)"

definition clock_update :: "nat \<Rightarrow> int \<Rightarrow> ('q, 's, 'g, 't, 'c) quiche_backend \<Rightarrow> ('q, 's, 'g, 't, 'c) quiche_backend" where
  "clock_update clock_mono clock_sys be = be\<lparr>be_time := time_update_clock clock_mono clock_sys (be_time be)\<rparr>"

definition backend_tick :: "('q, 's, 'g, 't, 'c) quiche_backend \<Rightarrow> (panic + ((nat \<times> bool) \<times> ('q, 's, 'g, 't, 'c) quiche_backend)) option" where
  "backend_tick be = map_option (\<lambda>r. and_then r (\<lambda>(res, tm). Inr (res, be\<lparr>be_time := tm\<rparr>))) (time_tick (be_time be))"

definition backend_close :: "('q, 's, 'g, 't, 'c) quiche_env \<Rightarrow> connection_key list \<Rightarrow> nat \<Rightarrow> byte list \<Rightarrow> ('q, 's, 'g, 't, 'c) quiche_backend \<Rightarrow> ('q, 's, 'g, 't, 'c) quiche_backend" where
  "backend_close env keys err reason be =
     (if \<not> be_open be then be
      else be\<lparr>be_open := False,
              be_connections := all_iter_mark_active (ev_ls env)
                (\<lambda>c. c\<lparr>cn_inner := snd (qn_close (ev_net env) True err reason (cn_inner c))\<rparr>) keys (be_connections be)\<rparr>)"

definition other_error :: "('q, 's, 'g, 't, 'c) quiche_env \<Rightarrow> quiche_error \<Rightarrow> backend_error" where
  "other_error env e = OtherError (qn_error_text (ev_net env) e)"

definition backend_connect ::
  "('q, 's, 'g, 't, 'c) quiche_env \<Rightarrow> string \<Rightarrow> sock_addr \<Rightarrow> ('q, 's, 'g, 't, 'c) quiche_backend \<Rightarrow> panic + ((backend_error + quiche_connection_id) \<times> ('q, 's, 'g, 't, 'c) quiche_backend)" where
  "backend_connect env server_name peer_addr be =
     (if \<not> be_open be then Inr (Inl ErrClosed, be)
      else if be_client be = None then Inr (Inl Illegal, be)
      else let (scid, g) = ev_generate env (be_cid_generator be);
               be1 = be\<lparr>be_cid_generator := g\<rparr>
           in case qn_connect (ev_net env) server_name scid (to_sock_addr (be_listen_addr be)) peer_addr of
                Inl e \<Rightarrow> Inr (Inl (other_error env e), be1)
              | Inr q \<Rightarrow>
                  let (session, cache) = ev_cache_get env server_name (be_session_cache be1);
                      be2 = be1\<lparr>be_session_cache := cache\<rparr>
                  in and_then
                       (case session of
                          None \<Rightarrow> Inr q
                        | Some ticket \<Rightarrow>
                            (case qn_set_session (ev_net env) ticket q of
                               (None, q1) \<Rightarrow> Inr q1
                             | (Some e, q1) \<Rightarrow> and_then (panic_if (ev_dbg env) ExplicitPanic) (\<lambda>_. Inr q1))) (\<lambda>q1.
                     and_then (register_new_connection env (connection_new (ev_ops env) q1 True (ev_rng env 16)) peer_addr be2) (\<lambda>(cid, be3).
                       Inr (Inr cid, be3))))"

text \<open>\<open>get_mark_active_if\<close> with \<open>is_connection_open\<close>, as most operations start.\<close>

definition open_connection :: "('q, 's, 'g, 't, 'c) quiche_env \<Rightarrow> connection_key \<Rightarrow> ('q, 's, 'g, 't, 'c) quiche_backend \<Rightarrow> 'q connection option \<times> ('q, 's, 'g, 't, 'c) quiche_backend" where
  "open_connection env key be =
     (let (c, cs) = get_mark_active_if (ev_ls env) (is_connection_open (ev_ops env)) key (be_connections be)
      in (c, be\<lparr>be_connections := cs\<rparr>))"

definition connection_close ::
  "('q, 's, 'g, 't, 'c) quiche_env \<Rightarrow> quiche_connection_id \<Rightarrow> nat \<Rightarrow> byte list \<Rightarrow> ('q, 's, 'g, 't, 'c) quiche_backend \<Rightarrow> (backend_error + unit) \<times> ('q, 's, 'g, 't, 'c) quiche_backend" where
  "connection_close env cid err reason be =
     (if \<not> be_open be then (Inl ErrClosed, be)
      else case open_connection env (qid_key cid) be of
        (None, be1) \<Rightarrow> (Inl UnknownConnection, be1)
      | (Some c, be1) \<Rightarrow>
          (case qn_close (ev_net env) True err reason (cn_inner c) of
             (Some e, q) \<Rightarrow>
               (Inl (if e = QDone then UnknownConnection else other_error env e), store (qid_key cid) (c\<lparr>cn_inner := q\<rparr>) be1)
           | (None, q) \<Rightarrow>
               let (event, c1) = get_close_event (ev_ops env) (qid_key cid) (c\<lparr>cn_inner := q\<rparr>)
               in (Inr (), push_events (conn_events event) (store (qid_key cid) c1 be1))))"

subsection \<open>Migration\<close>

datatype migration_decision = MigrateMarkActive | MigrateForget

fun migrate_connections ::
  "('q, 's, 'g, 't, 'c) quiche_env \<Rightarrow> connection_key list \<Rightarrow> ('q, 's, 'g, 't, 'c) quiche_backend \<Rightarrow> (connection_key \<times> migration_decision) list \<times> ('q, 's, 'g, 't, 'c) quiche_backend" where
  "migrate_connections env [] be = ([], be)"
| "migrate_connections env (key # keys) be = (case lookup key be of
     None \<Rightarrow> migrate_connections env keys be
   | Some c \<Rightarrow>
       if q_is_server (ev_ops env) (cn_inner c) then migrate_connections env keys be
       else let (result, q) = qn_migrate_source (ev_net env) (to_sock_addr (be_listen_addr be)) (cn_inner c);
                c1 = c\<lparr>cn_inner := q\<rparr>
            in case result of
                 None \<Rightarrow>
                   let (event, c2) = get_dgram_out_size_event (ev_ops env) key c1;
                       (decisions, be1) = migrate_connections env keys (push_events (dgram_events event) (store key c2 be))
                   in ((key, MigrateMarkActive) # decisions, be1)
               | Some e \<Rightarrow>
                   let (event, c2) = get_halt_event key MigrationFailed c1;
                       (decisions, be1) = migrate_connections env keys (push_events (conn_events event) (store key c2 be))
                   in ((key, MigrateForget) # decisions, be1))"

fun apply_decisions :: "('q, 's, 'g, 't, 'c) quiche_env \<Rightarrow> (connection_key \<times> migration_decision) list \<Rightarrow> ('q, 's, 'g, 't, 'c) quiche_backend \<Rightarrow> panic + ('q, 's, 'g, 't, 'c) quiche_backend" where
  "apply_decisions env [] be = Inr be"
| "apply_decisions env ((key, MigrateMarkActive) # ds) be =
     apply_decisions env ds (be\<lparr>be_connections := mark_active (ev_ls env) key (be_connections be)\<rparr>)"
| "apply_decisions env ((key, MigrateForget) # ds) be = and_then (forget_connection env key be) (apply_decisions env ds)"

definition migrate_network ::
  "('q, 's, 'g, 't, 'c) quiche_env \<Rightarrow> connection_key list \<Rightarrow> ip_addr option \<Rightarrow> ('q, 's, 'g, 't, 'c) quiche_backend \<Rightarrow> panic + ((backend_error + unit) \<times> ('q, 's, 'g, 't, 'c) quiche_backend)" where
  "migrate_network env keys new_listen_addr be =
     (if \<not> be_open be then Inr (Inl ErrClosed, be)
      else if (case new_listen_addr of Some addr \<Rightarrow> ip_unspecified addr | None \<Rightarrow> False) then Inr (Inl Illegal, be)
      else let be1 = (case new_listen_addr of Some addr \<Rightarrow> be\<lparr>be_listen_addr := addr\<rparr> | None \<Rightarrow> be);
               (decisions, be2) = migrate_connections env keys be1
           in and_then (apply_decisions env decisions be2) (\<lambda>be3. Inr (Inr (), be3)))"

definition peer_cert_chain :: "('q, 's, 'g, 't, 'c) quiche_env \<Rightarrow> quiche_connection_id \<Rightarrow> ('q, 's, 'g, 't, 'c) quiche_backend \<Rightarrow> backend_error + byte list list" where
  "peer_cert_chain env cid be =
     (if \<not> be_open be then Inl ErrClosed
      else case lookup (qid_key cid) be of
        None \<Rightarrow> Inl UnknownConnection
      | Some c \<Rightarrow> Inr (case qn_peer_cert_chain (ev_net env) (cn_inner c) of Some certs \<Rightarrow> certs | None \<Rightarrow> []))"

subsection \<open>Streams\<close>

text \<open>\<open>stream_recv\<close> gets the length of the slice \<open>out\<close> and returns the bytes it writes.\<close>

definition stream_recv ::
  "('q, 's, 'g, 't, 'c) quiche_env \<Rightarrow> quiche_connection_id \<Rightarrow> stream_id \<Rightarrow> nat \<Rightarrow> ('q, 's, 'g, 't, 'c) quiche_backend \<Rightarrow> (backend_error + byte list \<times> bool) \<times> ('q, 's, 'g, 't, 'c) quiche_backend" where
  "stream_recv env cid stream_id out_len be =
     (if \<not> be_open be then (Inl ErrClosed, be)
      else if is_client stream_id \<and> is_uni stream_id then (Inl Illegal, be)
      else if out_len = 0 then (Inl BufferSize, be)
      else case open_connection env (qid_key cid) be of
        (None, be1) \<Rightarrow> (Inl UnknownConnection, be1)
      | (Some c, be1) \<Rightarrow>
          let (result, q) = qn_stream_recv (ev_net env) (raw stream_id) out_len (cn_inner c)
          in (case result of
                Inr r \<Rightarrow> Inr r
              | Inl QDone \<Rightarrow> Inr ([], False)
              | Inl (QStreamReset err) \<Rightarrow> Inl (StreamReset err)
              | Inl (QInvalidStreamState _) \<Rightarrow> Inl UnknownStream
              | Inl (QStreamStopped _) \<Rightarrow> Inl UnknownStream
              | Inl e \<Rightarrow> Inl (other_error env e), store (qid_key cid) (c\<lparr>cn_inner := q\<rparr>) be1))"

definition unknown_local_stream :: "'q quiche_ops \<Rightarrow> stream_id \<Rightarrow> 'q connection \<Rightarrow> bool" where
  "unknown_local_stream ops stream_id c \<longleftrightarrow> q_is_server ops (cn_inner c) = is_server stream_id \<and>
     (case get_last_local_stream_id (is_bidi stream_id) c of
        Some last_opened \<Rightarrow> raw last_opened < raw stream_id
      | None \<Rightarrow> True)"

definition stream_send ::
  "('q, 's, 'g, 't, 'c) quiche_env \<Rightarrow> quiche_connection_id \<Rightarrow> stream_id \<Rightarrow> byte list \<Rightarrow> bool \<Rightarrow> ('q, 's, 'g, 't, 'c) quiche_backend \<Rightarrow> (backend_error + byte list option) \<times> ('q, 's, 'g, 't, 'c) quiche_backend" where
  "stream_send env cid stream_id bytes fin be =
     (if \<not> be_open be then (Inl ErrClosed, be)
      else if is_server stream_id \<and> is_uni stream_id then (Inl Illegal, be)
      else case open_connection env (qid_key cid) be of
        (None, be1) \<Rightarrow> (Inl UnknownConnection, be1)
      | (Some c, be1) \<Rightarrow>
          if unknown_local_stream (ev_ops env) stream_id c then (Inl UnknownStream, be1)
          else let (result, q) = qn_stream_send_zc (ev_net env) (raw stream_id) bytes fin (cn_inner c)
               in (case result of
                     Inr unsent \<Rightarrow> Inr unsent
                   | Inl QDone \<Rightarrow> Inr (Some bytes)
                   | Inl (QStreamStopped err) \<Rightarrow> Inl (StreamStop err)
                   | Inl (QInvalidStreamState _) \<Rightarrow> Inl UnknownStream
                   | Inl (QStreamReset _) \<Rightarrow> Inl UnknownStream
                   | Inl e \<Rightarrow> Inl (other_error env e), store (qid_key cid) (c\<lparr>cn_inner := q\<rparr>) be1))"

definition stream_open_send ::
  "('q, 's, 'g, 't, 'c) quiche_env \<Rightarrow> quiche_connection_id \<Rightarrow> bool \<Rightarrow> byte list \<Rightarrow> bool \<Rightarrow> ('q, 's, 'g, 't, 'c) quiche_backend \<Rightarrow> (backend_error + stream_id \<times> byte list option) \<times> ('q, 's, 'g, 't, 'c) quiche_backend" where
  "stream_open_send env cid bidirectional bytes fin be =
     (if \<not> be_open be then (Inl ErrClosed, be)
      else case open_connection env (qid_key cid) be of
        (None, be1) \<Rightarrow> (Inl UnknownConnection, be1)
      | (Some c, be1) \<Rightarrow>
          if peer_streams_left (ev_ops env) bidirectional c = 0
          then (Inl StreamsExhausted, store (qid_key cid) (set_streams_exhausted bidirectional c) be1)
          else case allocate_stream_id bidirectional c of
                 (Inl e, c1) \<Rightarrow> (Inl StreamsExhausted, store (qid_key cid) (set_streams_exhausted bidirectional c1) be1)
               | (Inr stream_id, c1) \<Rightarrow>
                   let be2 = push_events [StreamEv (EvAvailable cid stream_id)] (store (qid_key cid) c1 be1);
                       (r, be3) = stream_send env cid stream_id bytes fin be2
                   in (map_sum id (\<lambda>unsent. (stream_id, unsent)) r, be3))"

definition stream_stop_sending :: "('q, 's, 'g, 't, 'c) quiche_env \<Rightarrow> quiche_connection_id \<Rightarrow> stream_id \<Rightarrow> nat \<Rightarrow> ('q, 's, 'g, 't, 'c) quiche_backend \<Rightarrow> ('q, 's, 'g, 't, 'c) quiche_backend" where
  "stream_stop_sending env cid stream_id err be =
     (if \<not> be_open be then be
      else if is_client stream_id \<and> is_uni stream_id then be
      else case open_connection env (qid_key cid) be of
        (None, be1) \<Rightarrow> be1
      | (Some c, be1) \<Rightarrow>
          store (qid_key cid) (c\<lparr>cn_inner := qn_stream_shutdown_read (ev_net env) (raw stream_id) err (cn_inner c)\<rparr>) be1)"

definition stream_reset_sending :: "('q, 's, 'g, 't, 'c) quiche_env \<Rightarrow> quiche_connection_id \<Rightarrow> stream_id \<Rightarrow> nat \<Rightarrow> ('q, 's, 'g, 't, 'c) quiche_backend \<Rightarrow> ('q, 's, 'g, 't, 'c) quiche_backend" where
  "stream_reset_sending env cid stream_id err be =
     (if \<not> be_open be then be
      else if is_server stream_id \<and> is_uni stream_id then be
      else case open_connection env (qid_key cid) be of
        (None, be1) \<Rightarrow> be1
      | (Some c, be1) \<Rightarrow>
          store (qid_key cid) (c\<lparr>cn_inner := qn_stream_shutdown_write (ev_net env) (raw stream_id) err (cn_inner c)\<rparr>) be1)"

definition quiche_urgency :: "priority \<Rightarrow> 8 word" where
  "quiche_urgency p = word_of_int (127 - urgency p)"

definition stream_set_priority :: "('q, 's, 'g, 't, 'c) quiche_env \<Rightarrow> quiche_connection_id \<Rightarrow> stream_id \<Rightarrow> priority \<Rightarrow> ('q, 's, 'g, 't, 'c) quiche_backend \<Rightarrow> ('q, 's, 'g, 't, 'c) quiche_backend" where
  "stream_set_priority env cid stream_id p be =
     (if \<not> be_open be then be
      else if is_server stream_id \<and> is_uni stream_id then be
      else case open_connection env (qid_key cid) be of
        (None, be1) \<Rightarrow> be1
      | (Some c, be1) \<Rightarrow>
          store (qid_key cid)
            (c\<lparr>cn_inner := qn_stream_priority (ev_net env) (raw stream_id) (quiche_urgency p) (incremental p) (cn_inner c)\<rparr>) be1)"

subsection \<open>Datagrams\<close>

text \<open>The part that \<open>dgram_recv\<close> and \<open>dgram_recv_zc\<close> share: the next datagram, \<open>None\<close> when there is none.\<close>

definition take_datagram :: "('q, 's, 'g, 't, 'c) quiche_env \<Rightarrow> quiche_connection_id \<Rightarrow> ('q, 's, 'g, 't, 'c) quiche_backend \<Rightarrow> (backend_error + byte list option) \<times> ('q, 's, 'g, 't, 'c) quiche_backend" where
  "take_datagram env cid be =
     (if \<not> be_open be then (Inl ErrClosed, be)
      else case lookup (qid_key cid) be of
        None \<Rightarrow> (Inl UnknownConnection, be)
      | Some c \<Rightarrow>
          (case qn_dgram_recv_vec (ev_net env) (cn_inner c) of
             (Inr datagram, q) \<Rightarrow> (Inr (Some datagram), store (qid_key cid) (c\<lparr>cn_inner := q\<rparr>) be)
           | (Inl QDone, q) \<Rightarrow> (Inr None, store (qid_key cid) (set_dgram_in_drained (c\<lparr>cn_inner := q\<rparr>)) be)
           | (Inl e, q) \<Rightarrow> (Inl (other_error env e), store (qid_key cid) (c\<lparr>cn_inner := q\<rparr>) be)))"

definition dgram_recv :: "('q, 's, 'g, 't, 'c) quiche_env \<Rightarrow> quiche_connection_id \<Rightarrow> nat \<Rightarrow> ('q, 's, 'g, 't, 'c) quiche_backend \<Rightarrow> (backend_error + byte list) \<times> ('q, 's, 'g, 't, 'c) quiche_backend" where
  "dgram_recv env cid out_len be = (case take_datagram env cid be of
     (Inl e, be1) \<Rightarrow> (Inl e, be1)
   | (Inr None, be1) \<Rightarrow> (Inr [], be1)
   | (Inr (Some datagram), be1) \<Rightarrow> (if out_len < length datagram then Inl BufferSize else Inr datagram, be1))"

definition dgram_recv_zc :: "('q, 's, 'g, 't, 'c) quiche_env \<Rightarrow> (byte list \<Rightarrow> 'r) \<Rightarrow> quiche_connection_id \<Rightarrow> ('q, 's, 'g, 't, 'c) quiche_backend \<Rightarrow> (backend_error + 'r option) \<times> ('q, 's, 'g, 't, 'c) quiche_backend" where
  "dgram_recv_zc env consumer cid be = (case take_datagram env cid be of
     (r, be1) \<Rightarrow> (map_sum id (map_option consumer) r, be1))"

definition dgram_send :: "('q, 's, 'g, 't, 'c) quiche_env \<Rightarrow> quiche_connection_id \<Rightarrow> byte list \<Rightarrow> ('q, 's, 'g, 't, 'c) quiche_backend \<Rightarrow> (backend_error + byte list option) \<times> ('q, 's, 'g, 't, 'c) quiche_backend" where
  "dgram_send env cid bytes be =
     (if \<not> be_open be then (Inl ErrClosed, be)
      else case open_connection env (qid_key cid) be of
        (None, be1) \<Rightarrow> (Inl UnknownConnection, be1)
      | (Some c, be1) \<Rightarrow>
          (case qn_dgram_send (ev_net env) bytes (cn_inner c) of
             (None, q) \<Rightarrow> (Inr None, store (qid_key cid) (c\<lparr>cn_inner := q\<rparr>) be1)
           | (Some QDone, q) \<Rightarrow> (Inr (Some bytes), store (qid_key cid) (set_dgram_out_drained (c\<lparr>cn_inner := q\<rparr>)) be1)
           | (Some QBufferTooShort, q) \<Rightarrow> (Inl BufferSize, store (qid_key cid) (c\<lparr>cn_inner := q\<rparr>) be1)
           | (Some e, q) \<Rightarrow> (Inl (other_error env e), store (qid_key cid) (c\<lparr>cn_inner := q\<rparr>) be1)))"

definition dgram_send_max_size :: "('q, 's, 'g, 't, 'c) quiche_env \<Rightarrow> quiche_connection_id \<Rightarrow> ('q, 's, 'g, 't, 'c) quiche_backend \<Rightarrow> backend_error + nat" where
  "dgram_send_max_size env cid be =
     (if \<not> be_open be then Inl ErrClosed
      else case lookup (qid_key cid) be of
        None \<Rightarrow> Inl UnknownConnection
      | Some c \<Rightarrow>
          if is_connection_open (ev_ops env) c
          then Inr (case q_dgram_max_writable_len (ev_ops env) (cn_inner c) of Some n \<Rightarrow> n | None \<Rightarrow> 0)
          else Inl UnknownConnection)"

end
