(* ===== verification/Quiche_Lifecycle.thy ===== *)
theory Quiche_Lifecycle
  imports Quiche_Api
begin

section \<open>The life cycle of the connections of the quiche backend\<close>

text \<open>
  Properties of the backend as a whole. A run of the backend is any sequence of calls of its interface; the client
  drains the events whenever it likes. The lemmas show that a connection is reported closed exactly once; and what
  the code does wrong: \<open>Initial\<close> packets never reach a connection, and \<open>send\<close> skips the connection after a closed one.
\<close>

subsection \<open>Reported closings\<close>

definition close_key :: "quiche_connection_id backend_event \<Rightarrow> connection_key option" where
  "close_key e = (case e of
     ConnectionEv (EvClosed c _ _ _ _) \<Rightarrow> Some (qid_key c)
   | ConnectionEv (EvHalted c _) \<Rightarrow> Some (qid_key c)
   | _ \<Rightarrow> None)"

definition closings :: "connection_key \<Rightarrow> quiche_connection_id backend_event list \<Rightarrow> nat" where
  "closings key es = length (filter (\<lambda>e. close_key e = Some key) es)"

definition reported :: "('q, 's) connections \<Rightarrow> connection_key \<Rightarrow> bool option" where
  "reported cs key = map_option cn_closed_event_sent (cs_all cs key)"

definition quiet :: "quiche_connection_id backend_event list \<Rightarrow> bool" where
  "quiet es \<longleftrightarrow> (\<forall>e \<in> set es. close_key e = None)"

definition calm :: "('q, 's, 'g, 't, 'c) quiche_backend \<Rightarrow> ('q, 's, 'g, 't, 'c) quiche_backend \<Rightarrow> bool" where
  "calm be be' \<longleftrightarrow> reported (be_connections be') = reported (be_connections be) \<and> be_inserted be' = be_inserted be \<and>
     (\<exists>new. be_events be' = be_events be @ new \<and> quiet new)"

lemma closings_append [simp]: "closings key (es @ es') = closings key es + closings key es'"
  by (simp add: closings_def)

lemma closings_quiet [simp]: "quiet es \<Longrightarrow> closings key es = 0"
  by (auto simp: closings_def quiet_def filter_empty_conv)

lemma quiet_simps [simp]: "quiet []" "quiet (e # es) \<longleftrightarrow> close_key e = None \<and> quiet es" "quiet (es @ es') \<longleftrightarrow> quiet es \<and> quiet es'"
  by (auto simp: quiet_def)

lemma quiet_dgram [simp]: "quiet (dgram_events e)"
  by (simp add: dgram_events_def close_key_def split: option.split)

lemma calm_refl [simp]: "calm be be"
  by (simp add: calm_def)

lemma calm_trans [trans]: "calm be be1 \<Longrightarrow> calm be1 be2 \<Longrightarrow> calm be be2"
  by (auto simp: calm_def)

lemma reported_upd [simp]:
  "reported (cs\<lparr>cs_active := a\<rparr>) = reported cs"
  "reported (cs\<lparr>cs_cids := d\<rparr>) = reported cs"
  "reported (cs\<lparr>cs_addrs := x\<rparr>) = reported cs"
  "reported (cs\<lparr>cs_server_count := n\<rparr>) = reported cs"
  "reported (cs\<lparr>cs_unverified_count := n\<rparr>) = reported cs"
  by (simp_all add: reported_def fun_eq_iff)

lemma reported_put:
  "cs_all cs key = Some c0 \<Longrightarrow> cn_closed_event_sent c = cn_closed_event_sent c0 \<Longrightarrow> reported (cs\<lparr>cs_all := (cs_all cs)(key \<mapsto> c)\<rparr>) = reported cs"
  by (auto simp: reported_def fun_eq_iff)

lemma calm_fields [simp]:
  "calm be (be\<lparr>be_time := tm\<rparr>)" "calm be (be\<lparr>be_buffer := b\<rparr>)" "calm be (be\<lparr>be_server := s\<rparr>)"
  "calm be (be\<lparr>be_cid_generator := g\<rparr>)" "calm be (be\<lparr>be_session_cache := c\<rparr>)" "calm be (be\<lparr>be_listen_addr := l\<rparr>)"
  "calm be (be\<lparr>be_connections := cs\<rparr>) \<longleftrightarrow> reported cs = reported (be_connections be)"
  by (auto simp: calm_def)

lemma calm_push: "quiet es \<Longrightarrow> calm be (push_events es be)"
  by (simp add: calm_def push_events_def events_extend_def)

lemma calm_store:
  "lookup key be = Some c0 \<Longrightarrow> cn_closed_event_sent c = cn_closed_event_sent c0 \<Longrightarrow> calm be (store key c be)"
  by (simp add: calm_def store_def connections_put_def lookup_def connections_get_def reported_put)

lemma lookup_simps [simp]:
  "lookup key (be\<lparr>be_time := tm\<rparr>) = lookup key be" "lookup key (be\<lparr>be_buffer := b\<rparr>) = lookup key be"
  "lookup key (be\<lparr>be_server := s\<rparr>) = lookup key be" "lookup key (be\<lparr>be_cid_generator := g\<rparr>) = lookup key be"
  "lookup key (push_events es be) = lookup key be"
  "lookup key (store key c be) = Some c"
  by (simp_all add: lookup_def push_events_def store_def connections_put_def connections_get_def)

lemma sent_simps [simp]:
  "cn_closed_event_sent (snd (pop_timer_key kind c)) = cn_closed_event_sent c"
  "cn_closed_event_sent (set_timer_key kind k c) = cn_closed_event_sent c"
  "cn_closed_event_sent (snd (get_streams_available_events ops key c)) = cn_closed_event_sent c"
  "cn_closed_event_sent (snd (get_dgram_in_available_event key c)) = cn_closed_event_sent c"
  "cn_closed_event_sent (snd (get_dgram_out_available_event key c)) = cn_closed_event_sent c"
  "cn_closed_event_sent (snd (get_dgram_out_size_event ops key c)) = cn_closed_event_sent c"
  "cn_closed_event_sent (set_streams_exhausted b c) = cn_closed_event_sent c"
  "cn_closed_event_sent (snd (allocate_stream_id b c)) = cn_closed_event_sent c"
  "cn_closed_event_sent (set_dgram_in_drained c) = cn_closed_event_sent c"
  "cn_closed_event_sent (set_dgram_out_drained c) = cn_closed_event_sent c"
  by (simp_all add: pop_timer_key_def set_timer_key_def get_streams_available_events_def get_dgram_in_available_event_def
      get_dgram_out_available_event_def get_dgram_out_size_event_def set_streams_exhausted_def allocate_stream_id_def
      set_dgram_in_drained_def set_dgram_out_drained_def Let_def split: timer_kind.split sum.split)

lemma sent_pairs:
  "pop_timer_key kind c = (k, c') \<Longrightarrow> cn_closed_event_sent c' = cn_closed_event_sent c"
  "get_streams_available_events ops key c = (es, c') \<Longrightarrow> cn_closed_event_sent c' = cn_closed_event_sent c"
  "get_dgram_in_available_event key c = (e, c') \<Longrightarrow> cn_closed_event_sent c' = cn_closed_event_sent c"
  "get_dgram_out_available_event key c = (e, c') \<Longrightarrow> cn_closed_event_sent c' = cn_closed_event_sent c"
  "get_dgram_out_size_event ops key c = (e, c') \<Longrightarrow> cn_closed_event_sent c' = cn_closed_event_sent c"
  "allocate_stream_id b c = (r, c') \<Longrightarrow> cn_closed_event_sent c' = cn_closed_event_sent c"
  by (metis sent_simps(1) snd_conv, metis sent_simps(3) snd_conv, metis sent_simps(4) snd_conv, metis sent_simps(5) snd_conv,
      metis sent_simps(6) snd_conv, metis sent_simps(8) snd_conv)

subsection \<open>Operations that report no closing\<close>

lemma set_timer_calm: "set_timer env kind key c at be = Inr be' \<Longrightarrow> lookup key be = Some c \<Longrightarrow> calm be be'"
  by (auto simp: set_timer_def rust_simps Let_def split: prod.splits)
    (metis calm_fields(1) calm_store calm_trans lookup_simps(1) sent_simps(1,2) snd_conv)

lemma schedule_calm:
  "schedule_pacer env key t be = Inr be' \<Longrightarrow> calm be be'"
  "schedule_quiche_timeout env key t be = Inr be' \<Longrightarrow> calm be be'"
  "schedule_establish_timeout env key t be = Inr be' \<Longrightarrow> calm be be'"
  by (auto simp: schedule_pacer_def schedule_quiche_timeout_def schedule_establish_timeout_def intro: set_timer_calm split: option.splits)

lemma streams_quiet: "stream_available_events dbg cid ids = Inr es \<Longrightarrow> quiet es"
  by (induction ids arbitrary: es) (auto simp: rust_simps close_key_def split: sum.splits)

lemma streams_available_quiet: "quiet (map ConnectionEv (fst (get_streams_available_events ops key c)))"
  by (auto simp: get_streams_available_events_def close_key_def Let_def split: if_splits)

lemma get_mark_active_facts:
  assumes "get_mark_active_if ls keep key cs = (r, cs')"
  shows "reported cs' = reported cs" and "r = Some c \<Longrightarrow> cs_all cs' key = Some c"
  using assms by (auto simp: get_mark_active_if_def split: option.splits if_splits)

lemma mark_active_reported [simp]: "reported (mark_active ls key cs) = reported cs"
  by (simp add: mark_active_def)

lemma mark_verified_reported: "mark_verified ops key cs = Inr cs' \<Longrightarrow> reported cs' = reported cs"
  by (auto simp: mark_verified_def rust_simps split: option.splits if_splits) (simp_all add: reported_def fun_eq_iff)

lemma update_scids_reported: "update_scids_dict ops dbg key cs = Inr cs' \<Longrightarrow> reported cs' = reported cs"
  by (cases "q_retired_scids ops (cn_inner (the (cs_all cs key)))")
    (auto simp: update_scids_dict_def rust_simps reported_def fun_eq_iff split: option.splits)

lemma write_stream_dgram_events_calm:
  assumes "write_stream_dgram_events env key be = Inr be'"
  shows "calm be be'"
proof (cases "lookup key be")
  case (Some c)
  obtain available c1 where a: "get_streams_available_events (ev_ops env) key c = (available, c1)" by fastforce
  obtain readable q1 where rd: "qn_readable (ev_net env) (cn_inner c1) = (readable, q1)" by fastforce
  obtain writable q2 where wr: "qn_writable (ev_net env) q1 = (writable, q2)" by fastforce
  obtain din c3 where i: "(if qn_dgram_recv_queue_full (ev_net env) q2 then (None, c1\<lparr>cn_inner := q2\<rparr>)
      else get_dgram_in_available_event key (c1\<lparr>cn_inner := q2\<rparr>)) = (din, c3)" by fastforce
  obtain dout c4 where o: "(if qn_dgram_send_queue_full (ev_net env) q2 then (None, c3) else get_dgram_out_available_event key c3) = (dout, c4)"
    by fastforce
  obtain size c5 where s: "get_dgram_out_size_event (ev_ops env) key c4 = (size, c5)" by fastforce
  obtain streams where st: "stream_available_events (ev_dbg env) (connection_id_of key (c1\<lparr>cn_inner := q2\<rparr>)) (readable @ writable) = Inr streams"
      "be' = push_events (map ConnectionEv available @ streams @ dgram_events din @ dgram_events dout @ dgram_events size) (store key c5 be)"
    using assms by (auto simp: write_stream_dgram_events_def Some a rd wr i o s and_then_eq_Inr)
  have "cn_closed_event_sent c3 = cn_closed_event_sent c1" "cn_closed_event_sent c4 = cn_closed_event_sent c3"
    using i o by (auto split: if_splits dest!: sent_pairs(3,4))
  then have "cn_closed_event_sent c5 = cn_closed_event_sent c" using sent_pairs(2) [OF a] sent_pairs(5) [OF s] by simp
  moreover have "quiet (map ConnectionEv available)" using streams_available_quiet [of "ev_ops env" key c] a by simp
  ultimately show ?thesis using st(2) streams_quiet [OF st(1)] by (auto intro!: calm_trans [OF calm_store [OF Some] calm_push])
qed (use assms in \<open>simp add: write_stream_dgram_events_def\<close>)

lemma batch_packet_connection: "batch_packet io dbg bytes source destination st = Inr st' \<Longrightarrow> ws_connection st' = ws_connection st"
  by (auto simp: batch_packet_def rust_simps Let_def split: if_splits prod.splits)

lemma write_turn_sent:
  "write_turn ops io dbg now st = Inr (r, st') \<Longrightarrow> cn_closed_event_sent (ws_connection st') = cn_closed_event_sent (ws_connection st)"
  by (auto simp: write_turn_def rust_simps Let_def split: option.splits if_splits prod.splits sum.splits quiche_error.splits
      dest!: batch_packet_connection)

lemma write_loop_sent:
  "write_loop ops io dbg now st = Inr (r, st') \<Longrightarrow> cn_closed_event_sent (ws_connection st') = cn_closed_event_sent (ws_connection st)"
proof (induction ops io dbg now st rule: write_loop.induct)
  case (1 ops io dbg now st)
  from "1.prems" show ?case
    by (subst (asm) write_loop.simps)
      (auto split: if_splits sum.splits option.splits prod.splits dest: write_turn_sent dest!: "1.IH" [rotated -1])
qed

lemma write_pending_sent:
  assumes "write_pending ops io dbg now c b out = Inr (w, c', b', out')"
  shows "cn_closed_event_sent c' = cn_closed_event_sent c"
proof -
  obtain res b1 where r: "reserve dbg b usize_max False = Inr (res, b1)" using assms by (auto simp: write_pending_def and_then_eq_Inr)
  show ?thesis
  proof (cases res)
    case None
    with assms r show ?thesis by (simp add: write_pending_def)
  next
    case (Some rv)
    define st where "st = \<lparr>ws_buffer = b1, ws_connection = c,
      ws_packet = \<lparr>pt_reserve = rv, pt_offset = 0, pt_count = 0, pt_size = 0\<rparr>, ws_path = None, ws_out = out\<rparr>"
    obtain w1 st1 where l: "write_loop ops io dbg now st = Inr (w1, st1)"
      using assms r Some by (auto simp: write_pending_def and_then_eq_Inr st_def)
    have "c' = ws_connection st1"
      using assms r Some l [unfolded st_def] by (cases w1) (auto simp: write_pending_def and_then_eq_Inr)
    with write_loop_sent [OF l] show ?thesis by (simp add: st_def)
  qed
qed

lemma send_packets_calm:
  assumes "send_packets env key out be = Inr (r, out', be')"
  shows "calm be be'"
proof (cases "lookup key be")
  case (Some c)
  let ?finish = "\<lambda>w out1 be2. case w of
      Inr WComplete \<Rightarrow> Inr (SendDone, out1, be2)
    | Inr (WPacer release_at) \<Rightarrow> and_then (schedule_pacer env key (Some release_at) be2) (\<lambda>be3. Inr (SendDone, out1, be3))
    | Inr WQuantum \<Rightarrow> Inr (SendReactivate, out1, be2)
    | Inr WBufferTooShort \<Rightarrow> Inr (SendStopAndRetry, out1, be2)
    | Inl e \<Rightarrow> and_then (panic_if (ev_dbg env) ExplicitPanic) (\<lambda>_. Inr (SendDone, out1, be2))"
  from assms obtain w c1 b out1 be1 be2 where
    w: "write_pending (ev_ops env) (ev_io env) (ev_dbg env) (tm_mono (be_time be)) c (be_buffer be) out = Inr (w, c1, b, out1)"
    and be1: "write_stream_dgram_events env key (store key c1 (be\<lparr>be_buffer := b\<rparr>)) = Inr be1"
    and be2: "schedule_quiche_timeout env key None be1 = Inr be2"
    and last: "?finish w out1 be2 = Inr (r, out', be')"
    by (auto simp: send_packets_def Some and_then_eq_Inr)
  have "calm be (be\<lparr>be_buffer := b\<rparr>)" by simp
  also have "calm \<dots> (store key c1 (be\<lparr>be_buffer := b\<rparr>))" by (rule calm_store) (use Some write_pending_sent [OF w] in simp_all)
  also note write_stream_dgram_events_calm [OF be1]
  also note schedule_calm(2) [OF be2]
  also have "calm be2 be'" using last schedule_calm(1) by (auto simp: rust_simps split: sum.splits write_result.splits)
  finally show ?thesis .
qed (use assms in \<open>simp add: send_packets_def\<close>)

lemma allocate_scids_calm:
  assumes "allocate_scids env key be = Inr be'"
  shows "calm be be'"
proof (cases "ev_cid_len env (be_cid_generator be) = 0 \<or> be_server be = None")
  case False
  then obtain config where config: "be_server be = Some config" "ev_cid_len env (be_cid_generator be) \<noteq> 0" by auto
  obtain r cs where g: "get_mark_active (ev_ls env) key (be_connections be) = (r, cs)" by fastforce
  note facts = get_mark_active_facts [OF g [unfolded get_mark_active_def]]
  let ?be1 = "be\<lparr>be_connections := cs\<rparr>"
  have be1: "calm be ?be1" using facts(1) by simp
  show ?thesis
  proof (cases "r = None \<or> \<not> q_is_established (ev_ops env) (cn_inner (the r))")
    case False
    then obtain c where c: "r = Some c" "q_is_established (ev_ops env) (cn_inner c)" by auto
    let ?be2 = "\<lambda>g t q. store key (c\<lparr>cn_inner := q\<rparr>)
      (?be1\<lparr>be_cid_generator := g, be_server := Some (config\<lparr>sc_token_generator := t\<rparr>)\<rparr>)"
    from assms obtain g' t' q' cs2 where
      u: "update_scids_dict (ev_ops env) (ev_dbg env) key (be_connections (?be2 g' t' q')) = Inr cs2"
      and be': "be' = (?be2 g' t' q')\<lparr>be_connections := cs2\<rparr>"
      by (auto simp: allocate_scids_def config g c and_then_eq_Inr Let_def)
    have "calm ?be1 (?be1\<lparr>be_cid_generator := g', be_server := Some (config\<lparr>sc_token_generator := t'\<rparr>)\<rparr>)" by (simp add: calm_def)
    also have "calm \<dots> (?be2 g' t' q')"
      using facts(2) [OF c(1)] by (intro calm_store [of _ _ c]) (simp_all add: lookup_def connections_get_def)
    also have "calm \<dots> be'" using update_scids_reported [OF u] unfolding be' by simp
    finally show ?thesis using calm_trans [OF be1] by blast
  qed (use assms config g be1 in \<open>auto simp: allocate_scids_def Let_def split: option.splits\<close>)
qed (use assms in \<open>auto simp: allocate_scids_def split: if_splits\<close>)

lemma store_session_calm: "store_session env c be = Inr be' \<Longrightarrow> calm be be'"
  by (auto simp: store_session_def rust_simps split: if_splits option.splits)

lemma check_handshake_calm:
  assumes "check_connection_handshake_progress env key be = Inr be'"
  shows "calm be be'"
proof (cases "lookup key be")
  case (Some c)
  show ?thesis
  proof (cases "q_is_established (ev_ops env) (cn_inner c)")
    case True
    obtain k c1 where pop: "pop_timer_key EstablishTimeout c = (k, c1)" by fastforce
    from assms obtain tm be1 where s: "store_session env c1 (store key c1 (be\<lparr>be_time := tm\<rparr>)) = Inr be1"
      and a: "allocate_scids env key be1 = Inr be'"
      by (auto simp: check_connection_handshake_progress_def Some True pop and_then_eq_Inr)
    have "calm be (be\<lparr>be_time := tm\<rparr>)" by simp
    also have "calm \<dots> (store key c1 (be\<lparr>be_time := tm\<rparr>))" using Some sent_pairs(1) [OF pop] by (intro calm_store) simp_all
    also note store_session_calm [OF s]
    also note allocate_scids_calm [OF a]
    finally show ?thesis .
  qed (use assms Some in \<open>simp add: check_connection_handshake_progress_def\<close>)
qed (use assms in \<open>simp add: check_connection_handshake_progress_def\<close>)

lemma handle_path_events_calm:
  assumes "handle_path_events env key be = Inr be'"
  shows "calm be be'"
proof (cases "lookup key be")
  case (Some c)
  obtain pe q where pe: "qn_path_events (ev_net env) (cn_inner c) = (pe, q)" by fastforce
  let ?be1 = "store key (c\<lparr>cn_inner := q\<rparr>) be"
  have "and_then
      (if PathValidated \<in> set pe then and_then (mark_verified (ev_ops env) key (be_connections ?be1)) (\<lambda>cs. Inr (?be1\<lparr>be_connections := cs\<rparr>))
       else Inr ?be1) (\<lambda>be2. if PathPeerMigrated \<in> set pe then allocate_scids env key be2 else Inr be2) = Inr be'"
    using assms by (simp add: handle_path_events_def Some pe Let_def)
  then obtain be2 where
    v: "(if PathValidated \<in> set pe then and_then (mark_verified (ev_ops env) key (be_connections ?be1)) (\<lambda>cs. Inr (?be1\<lparr>be_connections := cs\<rparr>))
         else Inr ?be1) = Inr be2"
    and a: "(if PathPeerMigrated \<in> set pe then allocate_scids env key be2 else Inr be2) = Inr be'"
    unfolding and_then_eq_Inr by blast
  have "calm be ?be1" using Some by (intro calm_store) simp_all
  also have "calm ?be1 be2" using v by (auto simp: rust_simps split: if_splits dest!: mark_verified_reported)
  also have "calm be2 be'" using a by (auto split: if_splits intro: allocate_scids_calm)
  finally show ?thesis .
qed (use assms in \<open>simp add: handle_path_events_def\<close>)

subsection \<open>Every connection is reported closed once\<close>

definition was_inserted :: "('q, 's, 'g, 't, 'c) quiche_env \<Rightarrow> ('q, 's, 'g, 't, 'c) quiche_backend \<Rightarrow> connection_key \<Rightarrow> bool" where
  "was_inserted env be key \<longleftrightarrow> (\<exists>n < be_inserted be. ev_slot env n = key)"

definition life_ok ::
  "('q, 's, 'g, 't, 'c) quiche_env \<Rightarrow> quiche_connection_id backend_event list \<Rightarrow> ('q, 's, 'g, 't, 'c) quiche_backend \<Rightarrow> bool" where
  "life_ok env log be \<longleftrightarrow> (\<forall>key.
     closings key (log @ be_events be) = (case reported (be_connections be) key of
         Some sent \<Rightarrow> if sent then 1 else 0
       | None \<Rightarrow> if was_inserted env be key then 1 else 0) \<and>
     (reported (be_connections be) key \<noteq> None \<longrightarrow> was_inserted env be key))"

lemma calm_life: "calm be be' \<Longrightarrow> life_ok env log be \<Longrightarrow> life_ok env log be'"
  by (auto simp: calm_def life_ok_def was_inserted_def)

definition emits :: "connection_key \<Rightarrow> 'q connection \<Rightarrow> quiche_connection_id backend_event list \<Rightarrow> 'q connection \<Rightarrow> bool" where
  "emits key c es c' \<longleftrightarrow> cn_closed_event_sent c' \<and> (\<forall>k. closings k es = (if k = key \<and> \<not> cn_closed_event_sent c then 1 else 0))"

lemma close_event_emits: "get_close_event ops key c = (e, c') \<Longrightarrow> emits key c (conn_events e) c'"
  by (auto simp: get_close_event_def emits_def conn_events_def closings_def close_key_def connection_id_of_def Let_def
      split: if_splits option.splits)

lemma halt_event_emits: "get_halt_event key kind c = (e, c') \<Longrightarrow> emits key c (conn_events e) c'"
  by (auto simp: get_halt_event_def emits_def conn_events_def closings_def close_key_def connection_id_of_def Let_def split: if_splits)

lemma emit_life:
  assumes "life_ok env log be" and "lookup key be = Some c0" and "cn_closed_event_sent c = cn_closed_event_sent c0" and "emits key c es c'"
  shows "life_ok env log (push_events es (store key c' be))"
  using assms
  by (auto simp: life_ok_def emits_def push_events_def events_extend_def store_def connections_put_def reported_def lookup_def
      connections_get_def was_inserted_def split: option.splits if_splits)

lemma remove_parts:
  assumes "connections_remove ops ls dbg key cs = Inr (r, cs')" and c: "cs_all cs key = Some c"
  shows "cs_all cs' = (cs_all cs)(key := None)" and "cs_active cs' = ls_remove ls key (cs_active cs)"
    and "r = Some (c\<lparr>cn_inner := snd (q_retired_scids ops (cn_inner c))\<rparr>)"
proof -
  have *: "remove_addr ops dbg q cs1 = Inr cs2 \<Longrightarrow> cs_all cs2 = cs_all cs1 \<and> cs_active cs2 = cs_active cs1"
    "uncount ops c cs1 = Inr cs2 \<Longrightarrow> cs_all cs2 = cs_all cs1 \<and> cs_active cs2 = cs_active cs1" for q c cs1 cs2
    by (auto simp: remove_addr_def uncount_def rust_simps split: option.splits if_splits)
  obtain retired q where q: "q_retired_scids ops (cn_inner c) = (retired, q)" by fastforce
  define cs1 where cs1: "cs1 = remove_entries ls key (q_source_ids ops (cn_inner c) @ retired) cs"
  obtain cs2 where a: "(if \<forall>cid \<in> owned_cids ops (cn_inner c). cid = [] then remove_addr ops dbg q cs1 else Inr cs1) = Inr cs2"
    and u: "uncount ops (c\<lparr>cn_inner := q\<rparr>) cs2 = Inr cs'" and r: "r = Some (c\<lparr>cn_inner := q\<rparr>)"
    using assms(1) unfolding connections_remove_unfold [OF c q cs1] and_then_eq_Inr by blast
  have "cs_all cs2 = cs_all cs1" "cs_active cs2 = cs_active cs1" using a *(1) by (auto split: if_splits)
  then show "cs_all cs' = (cs_all cs)(key := None)" "cs_active cs' = ls_remove ls key (cs_active cs)"
    using *(2) [OF u] by (simp_all add: cs1 remove_entries_def)
  show "r = Some (c\<lparr>cn_inner := snd (q_retired_scids ops (cn_inner c))\<rparr>)" using r q by simp
qed

lemma remove_reported:
  assumes "connections_remove ops ls dbg key cs = Inr (r, cs')"
  shows "reported cs' = (reported cs)(key := None)" and "reported cs key = map_option cn_closed_event_sent r"
proof -
  have "reported cs' = (reported cs)(key := None) \<and> reported cs key = map_option cn_closed_event_sent r"
  proof (cases "cs_all cs key")
    case None
    then show ?thesis using assms by (auto simp: connections_remove_def reported_def fun_eq_iff)
  next
    case (Some c)
    then show ?thesis using remove_parts [OF assms Some] by (simp add: reported_def fun_eq_iff)
  qed
  then show "reported cs' = (reported cs)(key := None)" "reported cs key = map_option cn_closed_event_sent r" by blast+
qed

lemma forget_connections:
  assumes "forget_connection env key be = Inr be'"
  shows "\<exists>r. connections_remove (ev_ops env) (ev_ls env) (ev_dbg env) key (be_connections be) = Inr (r, be_connections be')"
proof -
  obtain r cs where r: "connections_remove (ev_ops env) (ev_ls env) (ev_dbg env) key (be_connections be) = Inr (r, cs)"
    using assms by (auto simp: forget_connection_def and_then_eq_Inr)
  have "be_connections be' = cs"
  proof (cases r)
    case (Some c)
    obtain e c1 where "get_close_event (ev_ops env) key c = (e, c1)" by fastforce
    then show ?thesis using assms r Some by (auto simp: forget_connection_def and_then_eq_Inr push_events_def Let_def)
  qed (use assms r in \<open>auto simp: forget_connection_def\<close>)
  with r show ?thesis by blast
qed

lemma forget_life:
  assumes ok: "life_ok env log be" and f: "forget_connection env key be = Inr be'"
  shows "life_ok env log be'"
proof -
  obtain r cs where r: "connections_remove (ev_ops env) (ev_ls env) (ev_dbg env) key (be_connections be) = Inr (r, cs)"
    using f by (auto simp: forget_connection_def and_then_eq_Inr)
  note rep = remove_reported [OF r]
  show ?thesis
  proof (cases r)
    case None
    then have "reported cs = reported (be_connections be)" using rep by auto
    then show ?thesis using f r None ok calm_life [of be "be\<lparr>be_connections := cs\<rparr>"] by (auto simp: forget_connection_def)
  next
    case (Some c)
    obtain e c1 where e: "get_close_event (ev_ops env) key c = (e, c1)" by fastforce
    obtain tm where "be' = (push_events (conn_events e) (be\<lparr>be_connections := cs\<rparr>))\<lparr>be_time := tm\<rparr>"
      using f r Some e by (auto simp: forget_connection_def and_then_eq_Inr Let_def)
    then have be': "be_events be' = be_events be @ conn_events e" "be_connections be' = cs" "be_inserted be' = be_inserted be"
      by (simp_all add: push_events_def events_extend_def)
    have em: "closings k (conn_events e) = (if k = key \<and> \<not> cn_closed_event_sent c then 1 else 0)" for k
      using close_event_emits [OF e] by (simp add: emits_def)
    have old: "reported (be_connections be) key = Some (cn_closed_event_sent c)" using rep(2) Some by simp
    have ins: "was_inserted env be' k = was_inserted env be k" for k using be'(3) by (simp add: was_inserted_def)
    show ?thesis unfolding life_ok_def
    proof (intro allI)
      fix k
      show "closings k (log @ be_events be') = (case reported (be_connections be') k of
           Some sent \<Rightarrow> if sent then 1 else 0 | None \<Rightarrow> if was_inserted env be' k then 1 else 0) \<and>
        (reported (be_connections be') k \<noteq> None \<longrightarrow> was_inserted env be' k)"
        using ok [unfolded life_ok_def, rule_format, of k] old
        by (cases "k = key") (simp_all add: be'(1,2) em rep(1) ins)
    qed
  qed
qed

lemma get_active_store_life:
  assumes "get_mark_active_if ls keep key (be_connections be) = (r, cs)" and "life_ok env log be"
  shows "life_ok env log (be\<lparr>be_connections := cs\<rparr>)" and "r = Some c \<Longrightarrow> lookup key (be\<lparr>be_connections := cs\<rparr>) = Some c"
  using get_mark_active_facts [OF assms(1)] calm_life [OF _ assms(2)] by (simp_all add: lookup_def connections_get_def)

lemma store_life:
  "life_ok env log be \<Longrightarrow> lookup key be = Some c0 \<Longrightarrow> cn_closed_event_sent c = cn_closed_event_sent c0 \<Longrightarrow> life_ok env log (store key c be)"
  using calm_life [OF calm_store] by blast

lemma handle_scheduled_event_life:
  assumes ok: "life_ok env log be" and h: "handle_scheduled_event env event be = Inr be'"
  shows "life_ok env log be'"
proof -
  let ?key = "te_connection_key event"
  obtain r cs where g: "get_mark_active (ev_ls env) ?key (be_connections be) = (r, cs)" by fastforce
  note life = get_active_store_life [OF g [unfolded get_mark_active_def] ok]
  let ?be1 = "be\<lparr>be_connections := cs\<rparr>"
  show ?thesis
  proof (cases r)
    case None
    with h g life(1) show ?thesis by (simp add: handle_scheduled_event_def)
  next
    case (Some c)
    note c = life(2) [OF Some]
    obtain e c1 where e: "get_halt_event ?key HaltTimeout c = (e, c1)" by fastforce
    note ok2 = emit_life [OF life(1) c refl halt_event_emits [OF e]]
    show ?thesis
      using h g Some e life(1) store_life [OF life(1) c] store_life [OF ok2] forget_life [OF ok2]
      by (auto simp: handle_scheduled_event_def Let_def split: timer_kind.splits if_splits)
  qed
qed

lemma handle_fired_life:
  "life_ok env log be \<Longrightarrow> handle_fired env events be = Inr be' \<Longrightarrow> life_ok env log be'"
  by (induction env events be rule: handle_fired.induct) (auto simp: rust_simps dest: handle_scheduled_event_life)

lemma handle_recv_error_life:
  assumes ok: "life_ok env log be" and c: "lookup key be = Some c" and h: "handle_recv_error env key e c be = Inr be'"
  shows "life_ok env log be'"
proof -
  let ?gone = "q_is_draining (ev_ops env) (cn_inner c) \<or> q_is_closed (ev_ops env) (cn_inner c)"
  obtain ev1 c1 where h1: "get_halt_event key UnknownVersion c = (ev1, c1)" by fastforce
  obtain ev2 c2 where h2: "get_close_event (ev_ops env) key c1 = (ev2, c2)" by fastforce
  obtain ev3 c3 where h3: "get_close_event (ev_ops env) key c = (ev3, c3)" by fastforce
  have "emits key c (conn_events ev1 @ conn_events ev2) c2"
    using halt_event_emits [OF h1] close_event_emits [OF h2] by (simp add: emits_def)
  note life = emit_life [OF ok c refl this] emit_life [OF ok c refl close_event_emits [OF h3]] store_life [OF ok c refl]
  have "be' = push_events (conn_events ev1 @ conn_events ev2) (store key c2 be) \<or> be' = push_events (conn_events ev3) (store key c3 be) \<or>
      be' = push_events [] (store key c be)"
    using h h1 h2 h3 by (auto simp: handle_recv_error_def rust_simps conn_events_def Let_def split: if_splits)
  moreover have "push_events [] x = x" for x :: "('a, 'b, 'c, 'd, 'e) quiche_backend" by (simp add: push_events_def events_extend_def)
  ultimately show ?thesis using life by auto
qed

lemma delegate_life:
  assumes ok: "life_ok env log be" and d: "delegate_packet env hdr pk be = Inr (b, be')"
  shows "life_ok env log be'"
proof -
  obtain found where f: "find_connection_key (ev_dbg env) (hd_dcid hdr) (pk_from pk) (be_connections be) = Inr found"
    using d by (auto simp: delegate_packet_def and_then_eq_Inr)
  show ?thesis
  proof (cases found)
    case None
    with d f ok show ?thesis by (simp add: delegate_packet_def)
  next
    case (Some key)
    obtain r cs where g: "get_mark_active (ev_ls env) key (be_connections be) = (r, cs)" by fastforce
    note life = get_active_store_life [OF g [unfolded get_mark_active_def] ok]
    let ?be1 = "be\<lparr>be_connections := cs\<rparr>"
    show ?thesis
    proof (cases "r = None \<or> q_is_closed (ev_ops env) (cn_inner (the r))")
      case True
      then show ?thesis using d f Some g life(1) forget_life [OF life(1)]
        by (auto simp: delegate_packet_def rust_simps split: option.splits)
    next
      case False
      then obtain c where c: "r = Some c" "\<not> q_is_closed (ev_ops env) (cn_inner c)" by auto
      obtain res q where recv: "qn_recv (ev_net env) (pk_payload pk) (pk_from pk) (to_sock_addr (pk_to pk)) (cn_inner c) = (res, q)" by fastforce
      let ?be2 = "store key (c\<lparr>cn_inner := q\<rparr>) ?be1"
      have ok2: "life_ok env log ?be2" using store_life [OF life(1) life(2) [OF c(1)]] by simp
      have "and_then (case res of
             None \<Rightarrow> if hd_type hdr = THandshake then check_connection_handshake_progress env key ?be2 else Inr ?be2
           | Some e \<Rightarrow> handle_recv_error env key e (c\<lparr>cn_inner := q\<rparr>) ?be2) (\<lambda>be3.
        and_then (handle_path_events env key be3) (\<lambda>be4. and_then (write_stream_dgram_events env key be4) (\<lambda>be5.
        and_then (schedule_quiche_timeout env key None be5) (\<lambda>be6. Inr (True, be6))))) = Inr (b, be')"
        using d f Some g c recv by (simp add: delegate_packet_def Let_def)
      then obtain be3 be4 be5 where
        s: "(case res of
             None \<Rightarrow> if hd_type hdr = THandshake then check_connection_handshake_progress env key ?be2 else Inr ?be2
           | Some e \<Rightarrow> handle_recv_error env key e (c\<lparr>cn_inner := q\<rparr>) ?be2) = Inr be3"
        and rest: "handle_path_events env key be3 = Inr be4" "write_stream_dgram_events env key be4 = Inr be5"
          "schedule_quiche_timeout env key None be5 = Inr be'"
        unfolding and_then_eq_Inr by auto
      have "life_ok env log be3"
        using s calm_life [OF check_handshake_calm ok2] ok2 handle_recv_error_life [OF ok2, of key "c\<lparr>cn_inner := q\<rparr>"]
        by (auto split: option.splits if_splits)
      then show ?thesis
        using handle_path_events_calm [OF rest(1)] write_stream_dgram_events_calm [OF rest(2)] schedule_calm(2) [OF rest(3)]
        by (blast intro: calm_life)
    qed
  qed
qed

lemma insert_reported:
  assumes "connections_insert ops ls key c addr cs = Inr (cid, cs')"
  shows "reported cs' = (reported cs)(key \<mapsto> cn_closed_event_sent c)" and "qid_key cid = key"
  using assms by (auto simp: connections_insert_def rust_simps reported_def fun_eq_iff connection_id_of_def Let_def split: option.splits if_splits)

lemma register_life:
  assumes ok: "life_ok env log be" and inj: "inj (ev_slot env)" and new: "\<not> cn_closed_event_sent c"
    and r: "register_new_connection env c addr be = Inr (cid, be')"
  shows "life_ok env log be'"
proof -
  let ?key = "ev_slot env (be_inserted be)"
  obtain cs be1 be2 where i: "connections_insert (ev_ops env) (ev_ls env) ?key c addr (be_connections be) = Inr (cid, cs)"
    and s: "schedule_quiche_timeout env (qid_key cid) None (be\<lparr>be_connections := cs, be_inserted := be_inserted be + 1\<rparr>) = Inr be1"
      "schedule_establish_timeout env (qid_key cid) None be1 = Inr be2"
    and be': "be' = push_events [ConnectionEv (EvNew cid (q_is_server (ev_ops env) (cn_inner c)))] be2"
    using r by (auto simp: register_new_connection_def and_then_eq_Inr)
  let ?be0 = "be\<lparr>be_connections := cs, be_inserted := be_inserted be + 1\<rparr>"
  have fresh: "\<not> was_inserted env be ?key" using inj by (auto simp: was_inserted_def inj_eq)
  have ins: "was_inserted env ?be0 k \<longleftrightarrow> was_inserted env be k \<or> k = ?key" for k
    by (auto simp: was_inserted_def less_Suc_eq)
  have "life_ok env log ?be0" unfolding life_ok_def
  proof (intro allI)
    fix k
    show "closings k (log @ be_events ?be0) = (case reported (be_connections ?be0) k of
         Some sent \<Rightarrow> if sent then 1 else 0 | None \<Rightarrow> if was_inserted env ?be0 k then 1 else 0) \<and>
      (reported (be_connections ?be0) k \<noteq> None \<longrightarrow> was_inserted env ?be0 k)"
      using ok [unfolded life_ok_def, rule_format, of k] fresh new insert_reported(1) [OF i] unfolding ins
      by (cases "k = ?key") (auto split: option.splits)
  qed
  moreover have "calm be2 be'" unfolding be' by (rule calm_push) (simp add: close_key_def)
  ultimately show ?thesis using schedule_calm(2) [OF s(1)] schedule_calm(3) [OF s(2)] by (blast intro: calm_life)
qed

lemma connection_new_sent [simp]: "\<not> cn_closed_event_sent (connection_new ops q v trace)"
  by (simp add: connection_new_def Let_def)

lemma handle_initial_life:
  assumes ok: "life_ok env log be" and inj: "inj (ev_slot env)"
    and h: "handle_initial_packet_as_server env hdr pk out be = Inr (b, out', be')"
  shows "life_ok env log be'"
proof -
  have accept: "accept_connection env pk scid token be1 = Inr be2 \<Longrightarrow> calm be be1 \<Longrightarrow> life_ok env log be2" for scid token be1 be2
    using register_life [OF calm_life [OF _ ok] inj connection_new_sent] calm_life [OF _ ok]
    by (auto simp: accept_connection_def rust_simps Let_def split: sum.splits)
  have retry: "answer_retry env hdr pk scid config out be1 = Inr (b, out', be') \<Longrightarrow> calm be be1 \<Longrightarrow> life_ok env log be'" for scid config be1
    using calm_life [OF _ ok] by (auto simp: answer_retry_def rust_simps calm_def split: option.splits prod.splits)
  have fields: "calm be (be\<lparr>be_server := s, be_cid_generator := g\<rparr>)" for s g by (simp add: calm_def)
  show ?thesis
    using h ok calm_life [OF calm_fields(2) ok] calm_life [OF calm_fields(3) ok] calm_life [OF fields ok] accept retry fields
    by (fastforce simp: handle_initial_packet_as_server_def rust_simps Let_def split: option.splits if_splits prod.splits)
qed

lemma recv_packet_life:
  assumes ok: "life_ok env log be" and inj: "inj (ev_slot env)" and h: "recv_packet env pk out be = Inr (b, out', be')"
  shows "life_ok env log be'"
proof -
  have reset: "handle_packet_with_stateless_reset env hdr pk out be1 = Inr (out2, be2) \<Longrightarrow> calm be1 be2" for hdr be1 out2 be2
    by (auto simp: handle_packet_with_stateless_reset_def rust_simps calm_def split: option.splits prod.splits)
  show ?thesis
    using h ok handle_initial_life [OF ok inj] delegate_life [OF ok] calm_life [OF reset]
    by (auto simp: recv_packet_def rust_simps split: sum.splits if_splits)
qed

lemma backend_recv_life:
  "inj (ev_slot env) \<Longrightarrow> backend_recv env fuel it out be = Some (Inr (it', out', be')) \<Longrightarrow> life_ok env log be \<Longrightarrow> life_ok env log be'"
proof (induction fuel arbitrary: it out be)
  case (Suc fuel)
  show ?case using Suc.prems(2) Suc.IH [OF Suc.prems(1)] recv_packet_life [OF Suc.prems(3,1)] Suc.prems(3)
    by (auto split: sum.splits option.splits if_splits)
qed simp

lemma peek_loop_reported: "reported (snd (peek_loop ls n cs)) = reported cs \<and>
    (\<forall>key c. fst (peek_loop ls n cs) = Some (key, c) \<longrightarrow> cs_all (snd (peek_loop ls n cs)) key = Some c)"
  by (induction ls n cs rule: peek_loop.induct) (auto simp: next_active_def split: option.splits)

lemma peek_active_life:
  assumes "peek_active (ev_ls env) (be_connections be) = (r, cs)" and "life_ok env log be"
  shows "life_ok env log (be\<lparr>be_connections := cs\<rparr>)"
  using peek_loop_reported [of "ev_ls env" "Suc (active_len (ev_ls env) (be_connections be))" "be_connections be"] assms
    calm_life [OF _ assms(2)] by (auto simp: peek_active_def simp del: peek_loop.simps)

lemma active_life [simp]:
  "life_ok env log be \<Longrightarrow> life_ok env log (be\<lparr>be_connections := next_active ls (be_connections be)\<rparr>)"
  "life_ok env log be \<Longrightarrow> life_ok env log (be\<lparr>be_connections := mark_active ls key (be_connections be)\<rparr>)"
  by (rule calm_life, simp_all add: next_active_def)+

lemma send_loop_life:
  "send_loop env n out be = Inr (out', be') \<Longrightarrow> life_ok env log be \<Longrightarrow> life_ok env log be'"
proof (induction n arbitrary: out be)
  case 0
  then show ?case using peek_active_life [OF prod.collapse [symmetric]] by auto
next
  case (Suc n)
  obtain r cs where p: "peek_active (ev_ls env) (be_connections be) = (r, cs)" by fastforce
  note ok = peek_active_life [OF p Suc.prems(2)]
  let ?next = "\<lambda>be. be\<lparr>be_connections := next_active (ev_ls env) (be_connections be)\<rparr>"
  show ?case
  proof (cases r)
    case None
    with Suc.prems p ok show ?thesis by simp
  next
    case (Some kc)
    obtain key c where kc: "kc = (key, c)" by fastforce
    show ?thesis
    proof (cases "q_is_closed (ev_ops env) (cn_inner c)")
      case True
      then obtain be2 where "forget_connection env key (be\<lparr>be_connections := cs\<rparr>) = Inr be2" "send_loop env n out (?next be2) = Inr (out', be')"
        using Suc.prems(1) p Some kc by (auto simp: and_then_eq_Inr)
      then show ?thesis using Suc.IH forget_life [OF ok] active_life(1) by blast
    next
      case False
      then obtain r2 out1 be2 where s: "send_packets env key out (be\<lparr>be_connections := cs\<rparr>) = Inr (r2, out1, be2)"
        and rest: "(case r2 of
              SendDone \<Rightarrow> send_loop env n out1 (?next be2)
            | SendReactivate \<Rightarrow> send_loop env n out1 ((?next be2)\<lparr>be_connections := mark_active (ev_ls env) key (be_connections (?next be2))\<rparr>)
            | SendStopAndRetry \<Rightarrow> Inr (out1, be2)) = Inr (out', be')"
        using Suc.prems(1) p Some kc by (auto simp: and_then_eq_Inr Let_def)
      have ok2: "life_ok env log be2" by (rule calm_life [OF send_packets_calm [OF s] ok])
      note next_ok = active_life(1) [OF ok2, of "ev_ls env"] active_life(2) [OF active_life(1) [OF ok2, of "ev_ls env"], of "ev_ls env" key]
      show ?thesis using rest ok2 Suc.IH [OF _ next_ok(1)] Suc.IH [OF _ next_ok(2)] by (cases r2) auto
    qed
  qed
qed

lemma backend_send_life:
  "backend_send env out be = Inr (out', be') \<Longrightarrow> life_ok env log be \<Longrightarrow> life_ok env log be'"
  using handle_fired_life [OF calm_life [OF calm_fields(1)]] send_loop_life
  by (fastforce simp: backend_send_def handle_scheduled_events_def and_then_eq_Inr)

subsection \<open>The interface\<close>

lemma open_connection_facts:
  assumes "open_connection env key be = (r, be1)" and "life_ok env log be"
  shows "life_ok env log be1" and "r = Some c \<Longrightarrow> lookup key be1 = Some c"
  using assms by (auto simp: open_connection_def split: prod.splits dest: get_active_store_life)

lemma connect_life:
  assumes "life_ok env log be" and "inj (ev_slot env)" and "backend_connect env name addr be = Inr (r, be')"
  shows "life_ok env log be'"
proof -
  have gen: "calm be (be\<lparr>be_cid_generator := g\<rparr>)" "calm be (be\<lparr>be_cid_generator := g, be_session_cache := ca\<rparr>)" for g ca
    by (simp_all add: calm_def)
  show ?thesis
    using assms(1,3) calm_life [OF gen(1) assms(1)] register_life [OF calm_life [OF gen(2) assms(1)] assms(2) connection_new_sent]
    by (fastforce simp: backend_connect_def rust_simps Let_def split: if_splits sum.splits prod.splits option.splits)
qed

lemma connection_close_life:
  assumes ok: "life_ok env log be"
  shows "life_ok env log (snd (connection_close env cid err reason be))"
proof -
  obtain r be1 where o: "open_connection env (qid_key cid) be = (r, be1)" by fastforce
  note f = open_connection_facts [OF o ok]
  show ?thesis
  proof (cases r)
    case (Some c)
    obtain e q where q: "qn_close (ev_net env) True err reason (cn_inner c) = (e, q)" by fastforce
    obtain ev c1 where ev: "get_close_event (ev_ops env) (qid_key cid) (c\<lparr>cn_inner := q\<rparr>) = (ev, c1)" by fastforce
    from store_life [OF f(1) f(2) [OF Some], of "c\<lparr>cn_inner := q\<rparr>"] emit_life [OF f(1) f(2) [OF Some] _ close_event_emits [OF ev]] ok
    show ?thesis using o Some q ev by (auto simp: connection_close_def split: option.splits)
  qed (use o f(1) ok in \<open>simp add: connection_close_def\<close>)
qed

lemma all_iter_reported:
  assumes "\<And>c. cn_closed_event_sent (visit c) = cn_closed_event_sent c"
  shows "reported (all_iter_mark_active ls visit keys cs) = reported cs"
proof (induction keys arbitrary: cs)
  case (Cons key keys)
  then show ?case by (auto simp: all_iter_mark_active_def reported_def fun_eq_iff assms split: option.splits)
qed (simp add: all_iter_mark_active_def)

lemma backend_close_life: "life_ok env log be \<Longrightarrow> life_ok env log (backend_close env keys err reason be)"
  using calm_life [of be "backend_close env keys err reason be" env log]
  by (simp add: backend_close_def calm_def all_iter_reported)

lemma open_store_life:
  assumes "open_connection env key be = (Some c, be1)" and "life_ok env log be" and "cn_closed_event_sent c' = cn_closed_event_sent c"
  shows "life_ok env log (store key c' be1)"
  using store_life [OF open_connection_facts(1) [OF assms(1,2)] open_connection_facts(2) [OF assms(1,2) refl] assms(3)] .

lemma stream_recv_life: "life_ok env log be \<Longrightarrow> life_ok env log (snd (stream_recv env cid sid n be))"
  by (cases "open_connection env (qid_key cid) be")
    (auto simp: stream_recv_def Let_def split: prod.splits option.splits intro: open_store_life open_connection_facts(1))

lemma stream_send_life: "life_ok env log be \<Longrightarrow> life_ok env log (snd (stream_send env cid sid bytes fin be))"
  by (cases "open_connection env (qid_key cid) be")
    (auto simp: stream_send_def Let_def split: prod.splits option.splits intro: open_store_life open_connection_facts(1))

lemma stream_open_send_life:
  assumes ok: "life_ok env log be"
  shows "life_ok env log (snd (stream_open_send env cid bidi bytes fin be))"
proof -
  obtain r be1 where o: "open_connection env (qid_key cid) be = (r, be1)" by fastforce
  show ?thesis
  proof (cases r)
    case (Some c)
    obtain a c1 where a: "allocate_stream_id bidi c = (a, c1)" by fastforce
    note sent = sent_pairs(6) [OF a]
    have "life_ok env log (push_events [StreamEv (EvAvailable cid s)] (store (qid_key cid) c1 be1))" for s
      by (rule calm_life [OF calm_push open_store_life [OF o [unfolded Some] ok sent]]) (simp add: close_key_def)
    from stream_send_life [OF this] o Some a sent ok show ?thesis
      by (auto simp: stream_open_send_def Let_def split: prod.splits sum.splits intro: open_store_life)
        (metis snd_conv)+
  qed (use o ok open_connection_facts(1) [OF o ok] in \<open>simp add: stream_open_send_def\<close>)
qed

lemma stream_control_life:
  "life_ok env log be \<Longrightarrow> life_ok env log (stream_stop_sending env cid sid err be)"
  "life_ok env log be \<Longrightarrow> life_ok env log (stream_reset_sending env cid sid err be)"
  "life_ok env log be \<Longrightarrow> life_ok env log (stream_set_priority env cid sid p be)"
  by (cases "open_connection env (qid_key cid) be";
      auto simp: stream_stop_sending_def stream_reset_sending_def stream_set_priority_def split: option.splits
        intro: open_store_life open_connection_facts(1))+

lemma take_datagram_life: "life_ok env log be \<Longrightarrow> life_ok env log (snd (take_datagram env cid be))"
  by (auto simp: take_datagram_def split: option.splits sum.splits quiche_error.splits prod.splits intro: store_life)

lemma dgram_life:
  "life_ok env log be \<Longrightarrow> life_ok env log (snd (dgram_recv env cid n be))"
  "life_ok env log be \<Longrightarrow> life_ok env log (snd (dgram_recv_zc env consumer cid be))"
  "life_ok env log be \<Longrightarrow> life_ok env log (snd (dgram_send env cid bytes be))"
  using take_datagram_life [of env log be cid]
  by (cases "open_connection env (qid_key cid) be";
      auto simp: dgram_recv_def dgram_recv_zc_def dgram_send_def split: option.splits sum.splits quiche_error.splits prod.splits
        intro: open_store_life open_connection_facts(1))+

lemma migrate_connections_life: "life_ok env log be \<Longrightarrow> life_ok env log (snd (migrate_connections env keys be))"
proof (induction keys arbitrary: be)
  case (Cons key keys)
  show ?case
  proof (cases "lookup key be")
    case (Some c)
    obtain res q where m: "qn_migrate_source (ev_net env) (to_sock_addr (be_listen_addr be)) (cn_inner c) = (res, q)" by fastforce
    obtain e1 c1 where d: "get_dgram_out_size_event (ev_ops env) key (c\<lparr>cn_inner := q\<rparr>) = (e1, c1)" by fastforce
    obtain e2 c2 where h: "get_halt_event key MigrationFailed (c\<lparr>cn_inner := q\<rparr>) = (e2, c2)" by fastforce
    have "life_ok env log (push_events (dgram_events e1) (store key c1 be))"
      using sent_pairs(5) [OF d] by (intro calm_life [OF calm_push store_life [OF Cons.prems Some]]) simp_all
    note moved = Cons.IH [OF this]
    have "life_ok env log (push_events (conn_events e2) (store key c2 be))"
      by (rule emit_life [OF Cons.prems Some _ halt_event_emits [OF h]]) simp
    note failed = Cons.IH [OF this]
    show ?thesis
    proof (cases "q_is_server (ev_ops env) (cn_inner c)")
      case False
      then have "snd (migrate_connections env (key # keys) be) = (case res of
          None \<Rightarrow> snd (migrate_connections env keys (push_events (dgram_events e1) (store key c1 be)))
        | Some e \<Rightarrow> snd (migrate_connections env keys (push_events (conn_events e2) (store key c2 be))))"
        using Some m d h by (simp split: option.split prod.split)
      then show ?thesis using moved failed by (simp split: option.split)
    qed (use Cons Some in simp)
  qed (use Cons in simp)
qed simp

lemma apply_decisions_life:
  "apply_decisions env ds be = Inr be' \<Longrightarrow> life_ok env log be \<Longrightarrow> life_ok env log be'"
  by (induction env ds be rule: apply_decisions.induct) (auto simp: rust_simps dest: forget_life)

lemma migrate_network_life:
  assumes "life_ok env log be" and "migrate_network env keys addr be = Inr (r, be')"
  shows "life_ok env log be'"
proof -
  have "life_ok env log (case addr of Some a \<Rightarrow> be\<lparr>be_listen_addr := a\<rparr> | None \<Rightarrow> be)"
    using calm_life [OF calm_fields(6) assms(1)] assms(1) by (simp split: option.split)
  note moved = migrate_connections_life [OF this, of keys]
  obtain ds be2 where m: "migrate_connections env keys (case addr of Some a \<Rightarrow> be\<lparr>be_listen_addr := a\<rparr> | None \<Rightarrow> be) = (ds, be2)" by fastforce
  show ?thesis using assms apply_decisions_life [of env ds be2] moved
    by (auto simp: migrate_network_def m rust_simps Let_def split: if_splits)
qed

subsection \<open>Runs of the backend\<close>

inductive backend_reach ::
  "('q, 's, 'g, 't, 'c) quiche_env \<Rightarrow> quiche_connection_id backend_event list \<Rightarrow> ('q, 's, 'g, 't, 'c) quiche_backend \<Rightarrow> bool" for env :: "('q, 's, 'g, 't, 'c) quiche_env" where
  reach_new: "backend_new env server client generator out_size cache listen clock sys = Inr be \<Longrightarrow> backend_reach env [] be"
| reach_consume: "backend_reach env log be \<Longrightarrow> backend_reach env (log @ be_events be) (be\<lparr>be_events := []\<rparr>)"
| reach_clock: "backend_reach env log be \<Longrightarrow> backend_reach env log (clock_update clock sys be)"
| reach_tick: "backend_reach env log be \<Longrightarrow> backend_tick be = Some (Inr (r, be')) \<Longrightarrow> backend_reach env log be'"
| reach_buffer: "backend_reach env log be \<Longrightarrow> view_drop (ev_dbg env) (be_buffer be) v = Inr b \<Longrightarrow> backend_reach env log (be\<lparr>be_buffer := b\<rparr>)"
| reach_recv: "backend_reach env log be \<Longrightarrow> backend_recv env fuel it out be = Some (Inr (it', out', be')) \<Longrightarrow> backend_reach env log be'"
| reach_send: "backend_reach env log be \<Longrightarrow> backend_send env out be = Inr (out', be') \<Longrightarrow> backend_reach env log be'"
| reach_connect: "backend_reach env log be \<Longrightarrow> backend_connect env name addr be = Inr (res, be') \<Longrightarrow> backend_reach env log be'"
| reach_close: "backend_reach env log be \<Longrightarrow> backend_reach env log (backend_close env keys err reason be)"
| reach_connection_close: "backend_reach env log be \<Longrightarrow> backend_reach env log (snd (connection_close env cid err reason be))"
| reach_migrate: "backend_reach env log be \<Longrightarrow> migrate_network env keys new_addr be = Inr (res, be') \<Longrightarrow> backend_reach env log be'"
| reach_stream_recv: "backend_reach env log be \<Longrightarrow> backend_reach env log (snd (stream_recv env cid sid n be))"
| reach_stream_send: "backend_reach env log be \<Longrightarrow> backend_reach env log (snd (stream_send env cid sid bytes fin be))"
| reach_stream_open: "backend_reach env log be \<Longrightarrow> backend_reach env log (snd (stream_open_send env cid bidi bytes fin be))"
| reach_stop: "backend_reach env log be \<Longrightarrow> backend_reach env log (stream_stop_sending env cid sid err be)"
| reach_reset: "backend_reach env log be \<Longrightarrow> backend_reach env log (stream_reset_sending env cid sid err be)"
| reach_priority: "backend_reach env log be \<Longrightarrow> backend_reach env log (stream_set_priority env cid sid p be)"
| reach_dgram_recv: "backend_reach env log be \<Longrightarrow> backend_reach env log (snd (dgram_recv env cid n be))"
| reach_dgram_recv_zc: "backend_reach env log be \<Longrightarrow> backend_reach env log (snd (dgram_recv_zc env (\<lambda>datagram. datagram) cid be))"
| reach_dgram_send: "backend_reach env log be \<Longrightarrow> backend_reach env log (snd (dgram_send env cid bytes be))"

lemma backend_new_life: "backend_new env server client generator out_size cache listen clock sys = Inr be \<Longrightarrow> life_ok env [] be"
  by (auto simp: backend_new_def rust_simps life_ok_def connections_new_def reported_def was_inserted_def closings_def)

lemma backend_reach_life: "backend_reach env log be \<Longrightarrow> inj (ev_slot env) \<Longrightarrow> life_ok env log be"
proof (induction rule: backend_reach.induct)
  case (reach_consume log be)
  have "was_inserted env (be\<lparr>be_events := []\<rparr>) = was_inserted env be" by (simp add: fun_eq_iff was_inserted_def)
  then show ?case using reach_consume by (simp add: life_ok_def)
next
  case (reach_tick log be r be')
  then obtain tm where "be' = be\<lparr>be_time := tm\<rparr>" by (auto simp: backend_tick_def rust_simps)
  then show ?case using calm_life [OF calm_fields(1)] reach_tick by blast
next
  case (reach_recv log be fuel it out it' out' be')
  then show ?case using backend_recv_life by blast
qed (auto simp: clock_update_def intro: backend_new_life calm_life [OF calm_fields(1)] calm_life [OF calm_fields(2)] backend_send_life
      connect_life backend_close_life connection_close_life migrate_network_life stream_recv_life stream_send_life stream_open_send_life
      stream_control_life dgram_life)

text \<open>The demonstration connections of \<open>Quiche_Registry\<close> in a backend without timers: a slot map that counts, and a
  \<open>quiche\<close> that accepts every call.\<close>

definition demo_net :: "demo_conn quiche_net" where
  "demo_net = \<lparr>qn_close = (\<lambda>_ _ _ q. (None, q)), qn_on_timeout = id, qn_timeout_instant = (\<lambda>_. None),
     qn_recv = (\<lambda>_ _ _ q. (None, q)), qn_path_events = (\<lambda>q. ([], q)), qn_readable = (\<lambda>q. ([], q)), qn_writable = (\<lambda>q. ([], q)),
     qn_dgram_recv_queue_full = (\<lambda>_. True), qn_dgram_send_queue_full = (\<lambda>_. True), qn_scids_left = (\<lambda>_. 0),
     qn_new_scid = (\<lambda>_ _ q. (None, q)), qn_session = (\<lambda>_. None), qn_server_name = (\<lambda>_. None),
     qn_accept = (\<lambda>scid _ _ peer. Inr \<lparr>dm_server = True, dm_scid = scid, dm_peer = peer\<rparr>),
     qn_connect = (\<lambda>_ scid _ peer. Inr \<lparr>dm_server = False, dm_scid = scid, dm_peer = peer\<rparr>),
     qn_set_session = (\<lambda>_ q. (None, q)), qn_migrate_source = (\<lambda>_ q. (None, q)), qn_peer_cert_chain = (\<lambda>_. None),
     qn_header = (\<lambda>_ _. Inr \<lparr>hd_type = TInitial, hd_version = 1, hd_scid = [4], hd_dcid = [5], hd_token = None\<rparr>),
     qn_version_is_supported = (\<lambda>_. True), qn_error_text = (\<lambda>_. []), qn_stream_recv = (\<lambda>_ _ q. (Inl QDone, q)),
     qn_stream_send_zc = (\<lambda>_ _ _ q. (Inl QDone, q)), qn_stream_shutdown_read = (\<lambda>_ _ q. q), qn_stream_shutdown_write = (\<lambda>_ _ q. q),
     qn_stream_priority = (\<lambda>_ _ _ q. q), qn_dgram_recv_vec = (\<lambda>q. (Inl QDone, q)), qn_dgram_send = (\<lambda>_ q. (None, q))\<rparr>"

definition demo_conn_io :: "demo_conn quiche_io" where
  "demo_conn_io = \<lparr>qi_send = (\<lambda>_ q. (Inl QDone, q)), qi_send_quantum = (\<lambda>_ _ _. 0),
     qi_negotiate_version = (\<lambda>_ _ _. Inl QBufferTooShort), qi_retry = (\<lambda>_ _ _ _ _ _. Inl QBufferTooShort)\<rparr>"

definition demo_env :: "(demo_conn, connection_key list, nat, unit, unit) quiche_env" where
  "demo_env = \<lparr>ev_ops = demo_quiche, ev_io = demo_conn_io, ev_net = demo_net, ev_ls = list_set_ops, ev_slot = id,
     ev_generate = (\<lambda>g. ([of_nat g], Suc g)), ev_cid_len = (\<lambda>_. 1), ev_verify_token = (\<lambda>_ _ _ _ _ t. (Inl Invalid, t)),
     ev_retry_token = (\<lambda>_ _ _ _ _ t. (None, t)), ev_reset_token = (\<lambda>_ t. (replicate 16 0, t)),
     ev_allow_unverified = (\<lambda>_ _ unverified. unverified < 10), ev_cache_get = (\<lambda>_ c. (None, c)), ev_cache_insert = (\<lambda>_ _ c. c),
     ev_server_name = Some, ev_pick = min, ev_first = 0, ev_rng = (\<lambda>n. replicate n 0), ev_dbg = True\<rparr>"

definition demo_backend :: "quiche_time \<Rightarrow> (demo_conn, connection_key list, nat, unit, unit) quiche_backend" where
  "demo_backend tm = \<lparr>be_server = Some \<lparr>sc_token_generator = (), sc_establish_timeout = 0\<rparr>,
     be_client = Some \<lparr>cc_establish_timeout = None\<rparr>, be_cid_generator = 7,
     be_connections = connections_new list_set_ops, be_buffer = bip_new 4096, be_time = tm, be_session_cache = (), be_events = [],
     be_listen_addr = V4 1, be_open = True, be_inserted = 0\<rparr>"

lemma demo_time: "\<exists>tm. time_new 0 0 = Inr tm"
proof -
  have "next_power_of_two 64 = 64" using next_pow2_from_exact [of 0 6] by (simp add: next_power_of_two_def)
  then show ?thesis
    by (simp add: time_new_def wheel_new_def extend_levels_def required_buckets_def is_multiple_of_def level_new_def
        is_power_of_two_def)
qed

lemma demo_new:
  assumes "time_new 0 0 = Inr tm"
  shows "backend_new demo_env (Some \<lparr>sc_token_generator = (), sc_establish_timeout = 0\<rparr>) (Some \<lparr>cc_establish_timeout = None\<rparr>) 7 4096 () (V4 1) 0 0 =
    Inr (demo_backend tm)"
  using assms by (simp add: backend_new_def demo_backend_def demo_env_def fix_out_buffer_size_def)

lemma demo_connect:
  "\<exists>cid be. backend_connect demo_env ''host'' \<lparr>sa_ip = V4 5, sa_port = 1\<rparr> (demo_backend tm) = Inr (Inr cid, be) \<and> qid_key cid = 0 \<and>
     be_open be \<and> lookup 0 be \<noteq> None"
proof -
  obtain cid where cid: "try_from_slice [7] = Some cid" by (auto simp: try_from_slice_def max_cid_len_def)
  then have "as_slice cid = [7]" "\<not> cid_is_empty cid"
    using as_slice_try_from_slice [OF cid] by (auto simp: try_from_slice_def cid_is_empty_def split: if_splits)
  with cid show ?thesis
    by (simp add: backend_connect_def demo_backend_def demo_env_def demo_net_def register_new_connection_def demo_quiche_def
        connections_insert_def connection_new_def connections_new_def schedule_quiche_timeout_def schedule_establish_timeout_def
        establish_deadline_def lookup_def connections_get_def connection_id_of_def push_events_def list_set_ops_def Let_def)
qed

subsection \<open>Properties\<close>

text \<open>C28: every connection is reported closed exactly once. Whatever is called in whatever order, and whenever the client
  drains the events, the history of events holds at most one \<open>Closed\<close> or \<open>Halted\<close> event for a connection; a connection
  that the backend has forgotten has got one, and a live one has got it only if it is marked so. The slot map
  never gives a key out twice.\<close>

theorem connection_closed_once:
  assumes "inj (ev_slot env)" and "backend_reach env log be"
  shows "closings key (log @ be_events be) \<le> 1 \<and>
    (lookup key be = None \<longrightarrow> (closings key (log @ be_events be) = 1 \<longleftrightarrow> (\<exists>n < be_inserted be. ev_slot env n = key))) \<and>
    (\<forall>c. lookup key be = Some c \<longrightarrow> (closings key (log @ be_events be) = 1 \<longleftrightarrow> cn_closed_event_sent c))"
  using backend_reach_life [OF assms(2,1), unfolded life_ok_def, rule_format, of key]
  by (auto simp: reported_def lookup_def connections_get_def was_inserted_def split: option.splits if_splits)

theorem connection_closed_once_witness:
  "\<exists>log be. backend_reach demo_env log be \<and> closings 0 (log @ be_events be) = 1"
proof -
  obtain tm where "time_new 0 0 = Inr tm" using demo_time ..
  note reach = reach_new [OF demo_new [OF this]]
  obtain cid be where c: "backend_connect demo_env ''host'' \<lparr>sa_ip = V4 5, sa_port = 1\<rparr> (demo_backend tm) = Inr (Inr cid, be)"
      "qid_key cid = 0" "be_open be" "lookup 0 be \<noteq> None" using demo_connect by blast
  let ?be = "snd (connection_close demo_env cid 0 [] be)"
  note reach' = reach_connection_close [OF reach_connect [OF reach c(1)], of cid 0 "[]"]
  have "\<exists>c'. lookup 0 ?be = Some c' \<and> cn_closed_event_sent c'"
    using c(2-4)
    by (auto simp: connection_close_def open_connection_def get_mark_active_if_def lookup_def connections_get_def is_connection_open_def
        demo_env_def demo_quiche_def demo_net_def get_close_event_def push_events_def store_def connections_put_def Let_def)
  then have "closings 0 ([] @ be_events ?be) = 1"
    using connection_closed_once [OF _ reach', of 0] by (auto simp: demo_env_def)
  with reach' show ?thesis by blast
qed

lemma register_lookup:
  assumes "register_new_connection env c addr be = Inr (cid, be')"
  shows "\<exists>c'. lookup (ev_slot env (be_inserted be)) be' = Some c' \<and> cn_inner c' = cn_inner c \<and> cn_peer_verified c' = cn_peer_verified c"
    and "key \<noteq> ev_slot env (be_inserted be) \<Longrightarrow> lookup key be' = lookup key be" and "be_inserted be' = Suc (be_inserted be)"
proof -
  let ?key = "ev_slot env (be_inserted be)"
  obtain cs be1 be2 where i: "connections_insert (ev_ops env) (ev_ls env) ?key c addr (be_connections be) = Inr (cid, cs)"
    and s: "schedule_quiche_timeout env (qid_key cid) None (be\<lparr>be_connections := cs, be_inserted := be_inserted be + 1\<rparr>) = Inr be1"
      "schedule_establish_timeout env (qid_key cid) None be1 = Inr be2"
    and be': "be' = push_events [ConnectionEv (EvNew cid (q_is_server (ev_ops env) (cn_inner c)))] be2"
    using assms by (auto simp: register_new_connection_def and_then_eq_Inr)
  have ins: "cs_all cs = (cs_all (be_connections be))(?key \<mapsto> c)" "qid_key cid = ?key"
    using i by (auto simp: connections_insert_def rust_simps connection_id_of_def Let_def split: option.splits if_splits)
  have timer: "set_timer env kind k d at b = Inr b' \<Longrightarrow> be_inserted b' = be_inserted b \<and> (\<forall>k'. k' \<noteq> k \<longrightarrow> lookup k' b' = lookup k' b) \<and>
      (\<exists>d'. lookup k b' = Some d' \<and> cn_inner d' = cn_inner d \<and> cn_peer_verified d' = cn_peer_verified d)" for kind k d at b b'
    by (cases kind) (auto simp: set_timer_def pop_timer_key_def set_timer_key_def rust_simps store_def connections_put_def lookup_def
        connections_get_def Let_def split: prod.splits)
  have sched: "schedule_quiche_timeout env k None b = Inr b' \<or> schedule_establish_timeout env k None b = Inr b' \<Longrightarrow>
      be_inserted b' = be_inserted b \<and> (\<forall>k'. k' \<noteq> k \<longrightarrow> lookup k' b' = lookup k' b) \<and>
      (\<forall>d. lookup k b = Some d \<longrightarrow> (\<exists>d'. lookup k b' = Some d' \<and> cn_inner d' = cn_inner d \<and> cn_peer_verified d' = cn_peer_verified d))" for k b b'
    by (auto simp: schedule_quiche_timeout_def schedule_establish_timeout_def split: option.splits dest!: timer)
  note s1 = sched [OF disjI1 [OF s(1)]] and s2 = sched [OF disjI2 [OF s(2)]]
  have be'_fields: "lookup k be' = lookup k be2" "be_inserted be' = be_inserted be2" for k
    by (simp_all add: be' push_events_def lookup_def)
  have be0: "lookup k (be\<lparr>be_connections := cs, be_inserted := be_inserted be + 1\<rparr>) = (if k = ?key then Some c else lookup k be)" for k
    by (simp add: lookup_def connections_get_def ins(1))
  show "\<exists>c'. lookup ?key be' = Some c' \<and> cn_inner c' = cn_inner c \<and> cn_peer_verified c' = cn_peer_verified c"
    using s1 s2 be0 [of ?key] unfolding be'_fields ins(2) by (metis (no_types, lifting))
  show "key \<noteq> ?key \<Longrightarrow> lookup key be' = lookup key be" using s1 s2 be0 [of key] unfolding be'_fields ins(2) by simp
  show "be_inserted be' = Suc (be_inserted be)" using s1 s2 unfolding be'_fields by simp
qed

lemma handle_initial_cases:
  assumes h: "handle_initial_packet_as_server env hdr pk out be = Inr (b, out', be')"
  shows "be_inserted be' = be_inserted be \<and> (\<forall>key. lookup key be' = lookup key be) \<or>
    (\<exists>config token t scid g q odcid cid. be_server be = Some config \<and>
      initial_token env hdr pk (tm_sys (be_time be)) (sc_token_generator config) = (Some token, t) \<and>
      (token = None \<longrightarrow> ev_allow_unverified env (pk_from pk) (cs_server_count (be_connections be)) (cs_unverified_count (be_connections be))) \<and>
      qn_accept (ev_net env) scid odcid (to_sock_addr (be_listen_addr be)) (pk_from pk) = Inr q \<and>
      register_new_connection env (connection_new (ev_ops env) q (token \<noteq> None) (ev_rng env 16)) (pk_from pk)
        (be\<lparr>be_server := Some (config\<lparr>sc_token_generator := t\<rparr>), be_cid_generator := g\<rparr>) = Inr (cid, be'))"
    (is "?same \<or> ?accepted")
proof (cases "be_server be")
  case None
  then show ?thesis using h by (simp add: handle_initial_packet_as_server_def and_then_eq_Inr)
next
  case (Some config)
  obtain tok t where tok: "initial_token env hdr pk (tm_sys (be_time be)) (sc_token_generator config) = (tok, t)" by fastforce
  obtain scid g where gen: "ev_generate env (be_cid_generator be) = (scid, g)" by fastforce
  let ?be1 = "be\<lparr>be_server := Some (config\<lparr>sc_token_generator := t\<rparr>), be_cid_generator := g\<rparr>"
  have retry: ?same if "answer_retry env hdr pk scid (config\<lparr>sc_token_generator := t\<rparr>) out ?be1 = Inr (b, out', be')"
    using that by (auto simp: answer_retry_def rust_simps lookup_def split: option.splits prod.splits)
  have accept: "?same \<or> ?accepted"
    if a: "accept_connection env pk scid token ?be1 = Inr be'" and "tok = Some token"
      and "token = None \<longrightarrow> ev_allow_unverified env (pk_from pk) (cs_server_count (be_connections be)) (cs_unverified_count (be_connections be))"
    for token
  proof -
    let ?odcid = "case token of Some (Retry odcid _) \<Rightarrow> Some (as_slice odcid) | _ \<Rightarrow> None"
    show ?thesis
    proof (cases "qn_accept (ev_net env) scid ?odcid (to_sock_addr (be_listen_addr be)) (pk_from pk)")
      case (Inl e)
      then show ?thesis using a by (auto simp: accept_connection_def rust_simps Let_def lookup_def)
    next
      case (Inr q)
      then obtain cid where "register_new_connection env (connection_new (ev_ops env) q (token \<noteq> None) (ev_rng env 16)) (pk_from pk) ?be1 = Inr (cid, be')"
        using a by (auto simp: accept_connection_def and_then_eq_Inr Let_def)
      with Inr Some tok that(2,3) show ?thesis by blast
    qed
  qed
  show ?thesis
  proof (cases "\<not> qn_version_is_supported (ev_net env) (hd_version hdr) \<or> max_cid_len < length (hd_scid hdr) \<or>
      max_cid_len < length (hd_dcid hdr) \<or> tok = None \<or> max_cid_len < length scid")
    case True
    then have ?same using h Some tok gen
      by (auto simp: handle_initial_packet_as_server_def rust_simps lookup_def Let_def split: if_splits option.splits)
    then show ?thesis ..
  next
    case False
    then obtain token where token: "tok = Some token" by auto
    show ?thesis
    proof (cases "token = None \<and> \<not> ev_allow_unverified env (pk_from pk) (cs_server_count (be_connections be)) (cs_unverified_count (be_connections be))")
      case True
      then show ?thesis using h False Some tok gen token retry by (auto simp: handle_initial_packet_as_server_def and_then_eq_Inr Let_def)
    next
      case False'': False
      then have "accept_connection env pk scid token ?be1 = Inr be'"
        using h False Some tok gen token by (auto simp: handle_initial_packet_as_server_def and_then_eq_Inr Let_def split: if_splits)
      then show ?thesis using accept token False'' by blast
    qed
  qed
qed

text \<open>With the strict firewall every accepted connection comes with a verified token.\<close>

lemma strict_firewall_verifies:
  assumes "handle_initial_packet_as_server env hdr pk out be = Inr (b, out', be')" and "ev_allow_unverified env = strict_allow_unverified"
    and "lookup key be' \<noteq> lookup key be"
  shows "\<exists>config token t. be_server be = Some config \<and>
    initial_token env hdr pk (tm_sys (be_time be)) (sc_token_generator config) = (Some (Some token), t)"
  using handle_initial_cases [OF assms(1)] assms(2,3) by (auto simp: strict_allow_unverified_def)

text \<open>C29: a server accepts a connection as verified only with a token that the token generator has verified for the
  sender's address, and as unverified only when the firewall allows it for the current counts; every other
  \<open>Initial\<close> packet leaves the connections alone.\<close>

theorem initial_address_validation:
  assumes "handle_initial_packet_as_server env hdr pk out be = Inr (b, out', be')"
    and "\<forall>scid odcid local peer q. qn_accept (ev_net env) scid odcid local peer = Inr q \<longrightarrow> q_is_server (ev_ops env) q"
    and "lookup (ev_slot env (be_inserted be)) be = None" and "lookup key be' \<noteq> lookup key be"
  shows "key = ev_slot env (be_inserted be) \<and> (\<exists>c config. lookup key be' = Some c \<and> be_server be = Some config \<and>
    (if cn_peer_verified c
     then \<exists>token verified t. hd_token hdr = Some token \<and>
       ev_verify_token env (sa_ip (pk_from pk)) (hd_scid hdr) (hd_dcid hdr) token (tm_sys (be_time be)) (sc_token_generator config) = (Inr verified, t)
     else ev_allow_unverified env (pk_from pk) (cs_server_count (be_connections be)) (cs_unverified_count (be_connections be))))"
proof -
  obtain config token t scid g q odcid cid where c: "be_server be = Some config"
      "initial_token env hdr pk (tm_sys (be_time be)) (sc_token_generator config) = (Some token, t)"
      "token = None \<longrightarrow> ev_allow_unverified env (pk_from pk) (cs_server_count (be_connections be)) (cs_unverified_count (be_connections be))"
      "qn_accept (ev_net env) scid odcid (to_sock_addr (be_listen_addr be)) (pk_from pk) = Inr q"
      "register_new_connection env (connection_new (ev_ops env) q (token \<noteq> None) (ev_rng env 16)) (pk_from pk)
        (be\<lparr>be_server := Some (config\<lparr>sc_token_generator := t\<rparr>), be_cid_generator := g\<rparr>) = Inr (cid, be')"
    using handle_initial_cases [OF assms(1)] assms(4) by blast
  note r = register_lookup [OF c(5), simplified]
  have key: "key = ev_slot env (be_inserted be)" using r(2) [of key] assms(4) by (auto simp: lookup_def)
  have srv: "q_is_server (ev_ops env) q" using assms(2) c(4) by blast
  obtain c' where c': "lookup key be' = Some c'" "cn_peer_verified c' = (token \<noteq> None)"
    using r(1) srv key by (auto simp: connection_new_def Let_def)
  have "\<exists>tok verified t. hd_token hdr = Some tok \<and>
      ev_verify_token env (sa_ip (pk_from pk)) (hd_scid hdr) (hd_dcid hdr) tok (tm_sys (be_time be)) (sc_token_generator config) = (Inr verified, t)"
    if "token \<noteq> None"
    using c(2) that by (auto simp: initial_token_def split: option.splits prod.splits sum.splits token_error.splits token_kind.splits)
  with key c c' show ?thesis by auto
qed

definition demo_packet :: packet where
  "demo_packet = \<lparr>pk_from = \<lparr>sa_ip = V4 5, sa_port = 1\<rparr>, pk_to = V4 1, pk_ecn = NEct, pk_timestamp = None, pk_payload = [0]\<rparr>"

lemma demo_schedule:
  assumes "time_new 0 0 = Inr tm"
  shows "tm_mono tm = 0" and "\<exists>k tm'. time_schedule True ev 0 tm = Inr (k, tm')"
proof -
  have "next_power_of_two 64 = 64" using next_pow2_from_exact [of 0 6] by (simp add: next_power_of_two_def)
  then have tm: "tm = \<lparr>tm_timer = \<lparr>levels = [\<lparr>buckets = replicate 64 [], lv_index = 0, lv_epoch = 0\<rparr>], current_tick = 0, current_clock = 0,
      start_hz = 1000000, start_coverage = 64000000\<rparr>, tm_fired = [], tm_mono = 0, tm_sys = 0\<rparr>"
    using assms by (simp add: time_new_def wheel_new_def extend_levels_def required_buckets_def is_multiple_of_def level_new_def
        is_power_of_two_def)
  show "tm_mono tm = 0" by (simp add: tm)
  show "\<exists>k tm'. time_schedule True ev 0 tm = Inr (k, tm')"
    by (simp add: tm time_schedule_def wheel_schedule_def find_index_by_duration_def ensure_level_def duration_to_level_ticks_def
        div_ceil_def level_schedule_def wrapping_add_def)
qed

lemma demo_accept:
  assumes tm: "time_new 0 0 = Inr tm"
  shows "\<exists>be'. handle_initial_packet_as_server demo_env \<lparr>hd_type = TInitial, hd_version = 1, hd_scid = [4], hd_dcid = [5], hd_token = None\<rparr>
      demo_packet [] (demo_backend tm) = Inr (True, [], be') \<and> lookup 0 be' \<noteq> None"
proof -
  obtain cid where cid: "try_from_slice [7] = Some cid" by (auto simp: try_from_slice_def max_cid_len_def)
  then have "as_slice cid = [7]" "\<not> cid_is_empty cid"
    using as_slice_try_from_slice [OF cid] by (auto simp: try_from_slice_def cid_is_empty_def split: if_splits)
  moreover obtain k tm' where "time_schedule True \<lparr>te_connection_key = 0, te_kind = EstablishTimeout\<rparr> 0 tm = Inr (k, tm')"
    using demo_schedule(2) [OF tm] by blast
  ultimately show ?thesis using cid demo_schedule(1) [OF tm]
    by (simp add: handle_initial_packet_as_server_def demo_backend_def demo_env_def demo_net_def demo_packet_def initial_token_def max_cid_len_def
        accept_connection_def register_new_connection_def demo_quiche_def connections_insert_def connection_new_def connections_new_def
        schedule_quiche_timeout_def schedule_establish_timeout_def establish_deadline_def set_timer_def pop_timer_key_def set_timer_key_def
        time_reschedule_def store_def connections_put_def usize_add_def usize_max_def
        lookup_def connections_get_def connection_id_of_def push_events_def list_set_ops_def Let_def)
qed

theorem initial_address_validation_witness:
  "\<exists>be b out' be' c. handle_initial_packet_as_server demo_env
       \<lparr>hd_type = TInitial, hd_version = 1, hd_scid = [4], hd_dcid = [5], hd_token = None\<rparr> demo_packet [] be = Inr (b, out', be') \<and>
     lookup 0 be = None \<and> lookup 0 be' = Some c \<and> \<not> cn_peer_verified c"
proof -
  obtain tm where tm: "time_new 0 0 = Inr tm" using demo_time ..
  let ?hdr = "\<lparr>hd_type = TInitial, hd_version = 1, hd_scid = [4], hd_dcid = [5], hd_token = None\<rparr>"
  obtain be' where be': "handle_initial_packet_as_server demo_env ?hdr demo_packet [] (demo_backend tm) = Inr (True, [], be')" "lookup 0 be' \<noteq> None"
    using demo_accept [OF tm] by blast
  have none: "lookup (ev_slot demo_env (be_inserted (demo_backend tm))) (demo_backend tm) = None" "lookup 0 (demo_backend tm) = None"
    by (simp_all add: demo_backend_def lookup_def connections_get_def connections_new_def)
  have server: "\<forall>scid odcid local peer q. qn_accept (ev_net demo_env) scid odcid local peer = Inr q \<longrightarrow> q_is_server (ev_ops demo_env) q"
    by (auto simp: demo_env_def demo_net_def demo_quiche_def)
  have "lookup 0 be' \<noteq> lookup 0 (demo_backend tm)" using be'(2) none(2) by simp
  from initial_address_validation [OF be'(1) server none(1) this] have "\<exists>c. lookup 0 be' = Some c \<and> \<not> cn_peer_verified c"
    by (auto split: if_splits)
  with be'(1) none(2) show ?thesis by blast
qed

text \<open>C31: an \<open>Initial\<close> packet never reaches a connection. \<open>recv\<close> gives it to \<open>handle_initial_packet_as_server\<close> alone, which leaves
  every existing connection as it is and does not pass the packet to the connection it creates: that one is as
  \<open>quiche::accept\<close> returned it. A client, which has no server configuration, drops the packet. So no handshake can be
  completed.\<close>

theorem initial_not_delivered:
  assumes "recv_packet env pk out be = Inr (b, out', be')"
    and "qn_header (ev_net env) (pk_payload pk) (ev_cid_len env (be_cid_generator be)) = Inr hdr" and "hd_type hdr = TInitial"
  shows "(be_server be = None \<longrightarrow> out' = out \<and> be' = be) \<and>
    (\<forall>key. key \<noteq> ev_slot env (be_inserted be) \<longrightarrow> lookup key be' = lookup key be) \<and>
    (\<forall>c. lookup (ev_slot env (be_inserted be)) be' = Some c \<longrightarrow> lookup (ev_slot env (be_inserted be)) be = Some c \<or>
      (\<exists>scid odcid. qn_accept (ev_net env) scid odcid (to_sock_addr (be_listen_addr be)) (pk_from pk) = Inr (cn_inner c)))"
proof (cases "be_open be")
  case True
  then have h: "handle_initial_packet_as_server env hdr pk out be = Inr (b, out', be')" using assms by (simp add: recv_packet_def)
  have "out' = out \<and> be' = be" if "be_server be = None"
    using h that by (simp add: handle_initial_packet_as_server_def and_then_eq_Inr)
  moreover have "(\<forall>key. key \<noteq> ev_slot env (be_inserted be) \<longrightarrow> lookup key be' = lookup key be) \<and>
    (\<forall>c. lookup (ev_slot env (be_inserted be)) be' = Some c \<longrightarrow> lookup (ev_slot env (be_inserted be)) be = Some c \<or>
      (\<exists>scid odcid. qn_accept (ev_net env) scid odcid (to_sock_addr (be_listen_addr be)) (pk_from pk) = Inr (cn_inner c)))"
    using handle_initial_cases [OF h]
  proof (elim disjE exE conjE)
    fix config token t scid g q odcid cid
    assume q: "qn_accept (ev_net env) scid odcid (to_sock_addr (be_listen_addr be)) (pk_from pk) = Inr q"
      and r: "register_new_connection env (connection_new (ev_ops env) q (token \<noteq> None) (ev_rng env 16)) (pk_from pk)
        (be\<lparr>be_server := Some (config\<lparr>sc_token_generator := t\<rparr>), be_cid_generator := g\<rparr>) = Inr (cid, be')"
    from register_lookup(1,2) [OF r] q show ?thesis by (auto simp: connection_new_def lookup_def Let_def)
  qed simp
  ultimately show ?thesis by blast
qed (use assms in \<open>simp add: recv_packet_def\<close>)

theorem initial_not_delivered_witness:
  "\<exists>be b out' be'. recv_packet demo_env demo_packet [] be = Inr (b, out', be') \<and> (\<forall>key. key \<noteq> 0 \<longrightarrow> lookup key be' = lookup key be) \<and>
     lookup 0 be' \<noteq> None"
proof -
  obtain tm where tm: "time_new 0 0 = Inr tm" using demo_time ..
  let ?hdr = "\<lparr>hd_type = TInitial, hd_version = 1, hd_scid = [4], hd_dcid = [5], hd_token = None\<rparr>"
  obtain be' where be': "handle_initial_packet_as_server demo_env ?hdr demo_packet [] (demo_backend tm) = Inr (True, [], be')" "lookup 0 be' \<noteq> None"
    using demo_accept [OF tm] by blast
  have hdr: "qn_header (ev_net demo_env) (pk_payload demo_packet) (ev_cid_len demo_env (be_cid_generator (demo_backend tm))) = Inr ?hdr"
    by (simp add: demo_env_def demo_net_def)
  then have r: "recv_packet demo_env demo_packet [] (demo_backend tm) = Inr (True, [], be')"
    using be'(1) by (simp add: recv_packet_def demo_backend_def)
  have "ev_slot demo_env (be_inserted (demo_backend tm)) = 0" by (simp add: demo_env_def demo_backend_def)
  with initial_not_delivered [OF r hdr] have "\<forall>key. key \<noteq> 0 \<longrightarrow> lookup key be' = lookup key (demo_backend tm)" by simp
  with r be'(2) show ?thesis by blast
qed

text \<open>\<open>send\<close> skips a connection. When the connection at the front of the active queue is closed, \<open>forget_connection\<close>
  already takes it out of the queue, and \<open>next_active\<close> then drops the connection behind it, which is neither
  polled nor active any more although it is alive and has data to send.\<close>

lemma send_skips_connection:
  assumes "linked_set elems (ev_ls env)"
    and "registry_ok (ev_ops env) elems (be_connections be)" and "elems (cs_active (be_connections be)) = key # skipped # rest"
    and "lookup key be = Some c" and "q_is_closed (ev_ops env) (cn_inner c)" and "forget_connection env key be = Inr be1"
  shows "\<exists>be2. send_loop env (Suc n) out be = send_loop env n out be2 \<and> elems (cs_active (be_connections be2)) = rest \<and>
    lookup skipped be2 = lookup skipped be \<and> lookup skipped be2 \<noteq> None"
proof -
  let ?cs = "be_connections be"
  note ls = linked_setD [OF assms(1)]
  have c: "cs_all ?cs key = Some c" using assms(4) by (simp add: lookup_def connections_get_def)
  have peek: "peek_active (ev_ls env) ?cs = (Some (key, c), ?cs)" using ls(4) [of "cs_active ?cs"] assms(3) c by (simp add: peek_active_def)
  have distinct: "distinct (key # skipped # rest)" using ls(1) [of "cs_active ?cs"] assms(3) by simp
  have live: "cs_all ?cs skipped \<noteq> None" using assms(2,3) by (auto simp: registry_ok_def)
  obtain r where rem: "connections_remove (ev_ops env) (ev_ls env) (ev_dbg env) key ?cs = Inr (r, be_connections be1)"
    using forget_connections [OF assms(6)] by blast
  note cs1 = remove_parts(1,2) [OF rem c]
  let ?be2 = "be1\<lparr>be_connections := next_active (ev_ls env) (be_connections be1)\<rparr>"
  have "elems (cs_active (be_connections ?be2)) = rest"
    using cs1(2) assms(3) by (simp add: next_active_def ls(5,6))
  moreover have "send_loop env (Suc n) out be = send_loop env n out ?be2"
    using peek assms(5,6) by (simp add: Let_def)
  moreover have "lookup skipped ?be2 = lookup skipped be" using cs1(1) distinct by (auto simp: lookup_def connections_get_def next_active_def)
  ultimately show ?thesis using live by (intro exI [of _ ?be2]) (simp add: lookup_def connections_get_def)
qed

lemma send_skips_connection_witness:
  "\<exists>(env :: (demo_conn, connection_key list, nat, unit, unit) quiche_env) be be2 c. send_loop env 2 [] be = send_loop env 1 [] be2 \<and> cs_active (be_connections be) = [1, 2 :: connection_key] \<and>
     remdups (cs_active (be_connections be2)) = [] \<and> lookup 2 be2 = Some c"
proof -
  obtain tm where tm: "time_new 0 0 = Inr tm" using demo_time ..
  let ?env = "demo_env\<lparr>ev_ops := demo_quiche\<lparr>q_is_closed := (\<lambda>q. dm_scid q = [1])\<rparr>\<rparr>"
  let ?c = "\<lambda>n. connection_new (ev_ops ?env) \<lparr>dm_server = False, dm_scid = [n], dm_peer = \<lparr>sa_ip = V4 5, sa_port = 1\<rparr>\<rparr> True []"
  let ?cs = "\<lparr>cs_all = [1 \<mapsto> ?c 1, 2 \<mapsto> ?c 2], cs_cids = [[1] \<mapsto> 1, [2] \<mapsto> 2], cs_addrs = Map.empty, cs_active = [1, 2],
    cs_server_count = 0, cs_unverified_count = 0\<rparr>"
  let ?be = "(demo_backend tm)\<lparr>be_connections := ?cs\<rparr>"
  have ls: "linked_set remdups (ev_ls ?env)" using list_set_linked by (simp add: demo_env_def)
  have none: "server_keys (ev_ops ?env) (cs_all ?cs) = {}" "unverified_keys (ev_ops ?env) (cs_all ?cs) = {}"
    by (auto simp: server_keys_def unverified_keys_def connection_new_def demo_quiche_def Let_def split: if_splits)
  have ok: "registry_ok (ev_ops ?env) remdups (be_connections ?be)"
    using none by (auto simp: registry_ok_def cids_ok_def owned_cids_def connection_new_def demo_quiche_def usize_max_def Let_def)
  have "remdups (cs_active (be_connections ?be)) = 1 # 2 # []" "lookup 1 ?be = Some (?c 1)" "q_is_closed (ev_ops ?env) (cn_inner (?c 1))"
    by (simp_all add: lookup_def connections_get_def connection_new_def demo_env_def Let_def)
  moreover have "\<exists>be1. forget_connection ?env 1 ?be = Inr be1"
    by (simp add: forget_connection_def connections_remove_def demo_env_def demo_quiche_def connection_new_def uncount_def get_close_event_def
        time_cancel_all_def pop_timer_key_def Let_def)
  then obtain be1 where "forget_connection ?env 1 ?be = Inr be1" ..
  ultimately obtain be2 where "send_loop ?env (Suc 1) [] ?be = send_loop ?env 1 [] be2" "remdups (cs_active (be_connections be2)) = []"
      "lookup 2 be2 = lookup 2 ?be"
    using send_skips_connection [OF ls ok, of 1 2 "[]"] by blast
  then show ?thesis
    by (intro exI [of _ ?env] exI [of _ ?be] exI [of _ be2] exI [of _ "?c 2"]) (simp add: lookup_def connections_get_def numeral_2_eq_2)
qed



end
