(* ===== verification/Quinn_Connection.thy ===== *)
theory Quinn_Connection
  imports Quiche_Registry
begin

section \<open>Connections of the quinn backend\<close>

text \<open>
  Model of \<open>src/aquic-core/src/backend/quinn/connection.rs\<close>: the identifier of a connection, the connection
  with its context, and the registry \<open>Connections\<close>, a vector indexed by the handles of \<open>quinn_proto\<close> with a
  queue of the active ones. A handle is an index of the slab of \<open>quinn_proto::Endpoint\<close>, which uses it
  again once its connection is gone; the version in the identifier, a \<open>u32\<close>, tells the two apart.
  \<open>'n\<close> is \<open>quinn_proto::Connection\<close>. The trace of an identifier, a random UUID, is an argument.

  The lemmas show what the versions are for: as long as fewer than \<open>2 ^ 32\<close> connections were inserted, an
  identifier leads to the connection it was made for or to none, the queue holds live connections once,
  and \<open>peek_active\<close> is the first of them.
\<close>

subsection \<open>Identifiers and connections\<close>

record quinn_id =
  ni_key :: connection_key
  ni_trace :: "byte list"
  ni_version :: "32 word"

definition quinn_id_eq :: "quinn_id \<Rightarrow> quinn_id \<Rightarrow> bool" where
  "quinn_id_eq a b \<longleftrightarrow> ni_key a = ni_key b \<and> ni_version a = ni_version b"

record 'n quinn_conn =
  nc_inner :: 'n
  nc_timer_key :: "timer_key option"
  nc_trace :: "byte list"
  nc_version :: "32 word"
  nc_dgram_max_size :: nat
  nc_closed_sent :: bool

definition quinn_conn_new :: "'n \<Rightarrow> byte list \<Rightarrow> 32 word \<Rightarrow> 'n quinn_conn" where
  "quinn_conn_new q trace version = \<lparr>nc_inner = q, nc_timer_key = None, nc_trace = trace, nc_version = version,
     nc_dgram_max_size = 0, nc_closed_sent = False\<rparr>"

definition quinn_id_of :: "connection_key \<Rightarrow> 'n quinn_conn \<Rightarrow> quinn_id" where
  "quinn_id_of key c = \<lparr>ni_key = key, ni_trace = nc_trace c, ni_version = nc_version c\<rparr>"

definition quinn_pop_timer_key :: "'n quinn_conn \<Rightarrow> timer_key option \<times> 'n quinn_conn" where
  "quinn_pop_timer_key c = (nc_timer_key c, c\<lparr>nc_timer_key := None\<rparr>)"

definition quinn_set_timer_key :: "timer_key option \<Rightarrow> 'n quinn_conn \<Rightarrow> 'n quinn_conn" where
  "quinn_set_timer_key key c = c\<lparr>nc_timer_key := key\<rparr>"

definition quinn_dgram_size_event ::
  "('n \<Rightarrow> nat option) \<Rightarrow> connection_key \<Rightarrow> 'n quinn_conn \<Rightarrow> quinn_id datagram_event option \<times> 'n quinn_conn" where
  "quinn_dgram_size_event dgram_max key c =
     (let max_size = min (case dgram_max (nc_inner c) of Some n \<Rightarrow> n | None \<Rightarrow> 0) 65535 in
      if nc_dgram_max_size c = max_size then (None, c)
      else (Some (EvOutNewSize (quinn_id_of key c) max_size), c\<lparr>nc_dgram_max_size := max_size\<rparr>))"

definition quinn_close_event ::
  "connection_key \<Rightarrow> nat \<Rightarrow> byte list \<Rightarrow> bool \<Rightarrow> bool \<Rightarrow> 'n quinn_conn \<Rightarrow> quinn_id connection_event option \<times> 'n quinn_conn" where
  "quinn_close_event key code reason is_application is_local c =
     (if nc_closed_sent c then (None, c)
      else (Some (EvClosed (quinn_id_of key c) code reason is_application is_local), c\<lparr>nc_closed_sent := True\<rparr>))"

definition quinn_halt_event ::
  "connection_key \<Rightarrow> halt_kind \<Rightarrow> 'n quinn_conn \<Rightarrow> quinn_id connection_event option \<times> 'n quinn_conn" where
  "quinn_halt_event key kind c =
     (if nc_closed_sent c then (None, c)
      else (Some (EvHalted (quinn_id_of key c) kind), c\<lparr>nc_closed_sent := True\<rparr>))"

subsection \<open>\<open>ConnectionsMap\<close>\<close>

type_synonym 'n quinn_map = "'n quinn_conn option list"

definition map_put :: "connection_key \<Rightarrow> 'n quinn_conn \<Rightarrow> 'n quinn_map \<Rightarrow> 'n quinn_map" where
  "map_put key c m =
     (let m1 = (if length m \<le> key then m @ replicate (key + 1 - length m) None else m) in m1[key := Some c])"

definition map_get :: "connection_key \<Rightarrow> 'n quinn_map \<Rightarrow> 'n quinn_conn option" where
  "map_get key m = (if key < length m then m ! key else None)"

definition map_contains_key :: "connection_key \<Rightarrow> 'n quinn_map \<Rightarrow> bool" where
  "map_contains_key key m \<longleftrightarrow> map_get key m \<noteq> None"

definition map_keys :: "'n quinn_map \<Rightarrow> connection_key list" where
  "map_keys m = filter (\<lambda>key. map_contains_key key m) [0 ..< length m]"

definition map_remove :: "connection_key \<Rightarrow> 'n quinn_map \<Rightarrow> 'n quinn_conn option \<times> 'n quinn_map" where
  "map_remove key m = (if length m \<le> key then (None, m) else (m ! key, m[key := None]))"

subsection \<open>\<open>Connections\<close>\<close>

record ('n, 's) quinn_conns =
  nx_all :: "'n quinn_map"
  nx_active :: 's
  nx_version :: "32 word"

definition quinn_conns_new :: "'s lset_ops \<Rightarrow> ('n, 's) quinn_conns" where
  "quinn_conns_new ls = \<lparr>nx_all = [], nx_active = ls_empty ls, nx_version = 0\<rparr>"

definition quinn_remove_raw ::
  "'s lset_ops \<Rightarrow> connection_key \<Rightarrow> ('n, 's) quinn_conns \<Rightarrow> 'n quinn_conn option \<times> ('n, 's) quinn_conns" where
  "quinn_remove_raw ls key cs = (case map_remove key (nx_all cs) of
     (None, m) \<Rightarrow> (None, cs\<lparr>nx_all := m\<rparr>)
   | (Some c, m) \<Rightarrow> (Some c, cs\<lparr>nx_all := m, nx_active := ls_remove ls key (nx_active cs)\<rparr>))"

definition quinn_insert_raw ::
  "'s lset_ops \<Rightarrow> byte list \<Rightarrow> connection_key \<Rightarrow> 'n \<Rightarrow> ('n, 's) quinn_conns \<Rightarrow> quinn_id \<times> ('n, 's) quinn_conns" where
  "quinn_insert_raw ls trace key q cs =
     (let version = nx_version cs;
          cs1 = cs\<lparr>nx_version := nx_version cs + 1\<rparr>;
          cs2 = snd (quinn_remove_raw ls key cs1);
          cs3 = cs2\<lparr>nx_all := map_put key (quinn_conn_new q trace version) (nx_all cs2),
                    nx_active := ls_replace ls key (nx_active cs2)\<rparr>
      in (\<lparr>ni_key = key, ni_trace = trace, ni_version = version\<rparr>, cs3))"

definition quinn_get :: "quinn_id \<Rightarrow> ('n, 's) quinn_conns \<Rightarrow> 'n quinn_conn option" where
  "quinn_get cid cs = (case map_get (ni_key cid) (nx_all cs) of
     Some c \<Rightarrow> if nc_version c = ni_version cid then Some c else None
   | None \<Rightarrow> None)"

text \<open>\<open>get_mut\<close> lends the connection; \<open>quinn_put\<close> stores what the caller made of it.\<close>

definition quinn_put :: "connection_key \<Rightarrow> 'n quinn_conn \<Rightarrow> ('n, 's) quinn_conns \<Rightarrow> ('n, 's) quinn_conns" where
  "quinn_put key c cs = cs\<lparr>nx_all := (nx_all cs)[key := Some c]\<rparr>"

definition quinn_get_mark_active_if ::
  "'s lset_ops \<Rightarrow> ('n quinn_conn \<Rightarrow> bool) \<Rightarrow> quinn_id \<Rightarrow> ('n, 's) quinn_conns \<Rightarrow> 'n quinn_conn option \<times> ('n, 's) quinn_conns" where
  "quinn_get_mark_active_if ls keep cid cs = (case quinn_get cid cs of
     Some c \<Rightarrow> if keep c then (Some c, cs\<lparr>nx_active := ls_replace ls (ni_key cid) (nx_active cs)\<rparr>) else (None, cs)
   | None \<Rightarrow> (None, cs))"

definition quinn_get_mark_active ::
  "'s lset_ops \<Rightarrow> quinn_id \<Rightarrow> ('n, 's) quinn_conns \<Rightarrow> 'n quinn_conn option \<times> ('n, 's) quinn_conns" where
  "quinn_get_mark_active ls cid cs = quinn_get_mark_active_if ls (\<lambda>_. True) cid cs"

definition quinn_get_mark_active_raw ::
  "'s lset_ops \<Rightarrow> connection_key \<Rightarrow> ('n, 's) quinn_conns \<Rightarrow> 'n quinn_conn option \<times> ('n, 's) quinn_conns" where
  "quinn_get_mark_active_raw ls key cs = (case map_get key (nx_all cs) of
     Some c \<Rightarrow> (Some c, cs\<lparr>nx_active := ls_replace ls key (nx_active cs)\<rparr>)
   | None \<Rightarrow> (None, cs))"

text \<open>The loop over \<open>all_iter_mark_active\<close>: each connection is marked and given to the body, which may panic and
  collects events.\<close>

fun quinn_visit ::
  "'s lset_ops \<Rightarrow> (connection_key \<Rightarrow> 'n quinn_conn \<Rightarrow> panic + (quinn_id backend_event list \<times> 'n quinn_conn)) \<Rightarrow>
   connection_key list \<Rightarrow> quinn_id backend_events \<Rightarrow> ('n, 's) quinn_conns \<Rightarrow> panic + (quinn_id backend_events \<times> ('n, 's) quinn_conns)" where
  "quinn_visit ls body [] es cs = Inr (es, cs)"
| "quinn_visit ls body (key # keys) es cs = (case map_get key (nx_all cs) of
     None \<Rightarrow> quinn_visit ls body keys es cs
   | Some c \<Rightarrow> and_then (body key c) (\<lambda>(new, c1).
       quinn_visit ls body keys (events_extend new es)
         (quinn_put key c1 (cs\<lparr>nx_active := ls_replace ls key (nx_active cs)\<rparr>))))"

definition quinn_all_iter_mark_active ::
  "'s lset_ops \<Rightarrow> (connection_key \<Rightarrow> 'n quinn_conn \<Rightarrow> panic + (quinn_id backend_event list \<times> 'n quinn_conn)) \<Rightarrow>
   quinn_id backend_events \<Rightarrow> ('n, 's) quinn_conns \<Rightarrow> panic + (quinn_id backend_events \<times> ('n, 's) quinn_conns)" where
  "quinn_all_iter_mark_active ls body es cs = quinn_visit ls body (map_keys (nx_all cs)) es cs"

definition quinn_next_active :: "'s lset_ops \<Rightarrow> ('n, 's) quinn_conns \<Rightarrow> ('n, 's) quinn_conns" where
  "quinn_next_active ls cs = cs\<lparr>nx_active := ls_pop_front ls (nx_active cs)\<rparr>"

fun quinn_peek_loop ::
  "'s lset_ops \<Rightarrow> nat \<Rightarrow> ('n, 's) quinn_conns \<Rightarrow> (quinn_id \<times> 'n quinn_conn) option \<times> ('n, 's) quinn_conns" where
  "quinn_peek_loop ls 0 cs = (None, cs)"
| "quinn_peek_loop ls (Suc n) cs = (case ls_front ls (nx_active cs) of
     None \<Rightarrow> (None, cs)
   | Some key \<Rightarrow>
       (case map_get key (nx_all cs) of
          Some c \<Rightarrow> (Some (quinn_id_of key c, c), cs)
        | None \<Rightarrow> quinn_peek_loop ls n (quinn_next_active ls cs)))"

definition quinn_peek_active ::
  "'s lset_ops \<Rightarrow> ('n, 's) quinn_conns \<Rightarrow> (quinn_id \<times> 'n quinn_conn) option \<times> ('n, 's) quinn_conns" where
  "quinn_peek_active ls cs = quinn_peek_loop ls (Suc (ls_len ls (nx_active cs))) cs"

definition quinn_remove ::
  "'s lset_ops \<Rightarrow> quinn_id \<Rightarrow> ('n, 's) quinn_conns \<Rightarrow> 'n quinn_conn option \<times> ('n, 's) quinn_conns" where
  "quinn_remove ls cid cs = (case quinn_get cid cs of None \<Rightarrow> (None, cs) | Some _ \<Rightarrow> quinn_remove_raw ls (ni_key cid) cs)"

subsection \<open>What the registry does\<close>

text \<open>The registry with the identifiers it handed out, the oldest first: its own operations, and any change of a
  connection that was borrowed, short of its trace and version, which nothing sets after \<open>new\<close>.\<close>

inductive quinn_step ::
  "'s lset_ops \<Rightarrow> quinn_id list \<times> ('n, 's) quinn_conns \<Rightarrow> quinn_id list \<times> ('n, 's) quinn_conns \<Rightarrow> bool"
  for ls :: "'s lset_ops" where
  qs_insert: "quinn_insert_raw ls trace key q cs = (cid, cs') \<Longrightarrow> quinn_step ls (ids, cs) (ids @ [cid], cs')"
| qs_change: "map_get key (nx_all cs) = Some c \<Longrightarrow> quinn_id_of key c' = quinn_id_of key c \<Longrightarrow>
    quinn_step ls (ids, cs) (ids, quinn_put key c' cs)"
| qs_mark: "quinn_get_mark_active_if ls keep cid cs = (r, cs') \<Longrightarrow> quinn_step ls (ids, cs) (ids, cs')"
| qs_mark_raw: "quinn_get_mark_active_raw ls key cs = (r, cs') \<Longrightarrow> quinn_step ls (ids, cs) (ids, cs')"
| qs_next: "quinn_step ls (ids, cs) (ids, quinn_next_active ls cs)"
| qs_peek: "quinn_peek_active ls cs = (r, cs') \<Longrightarrow> quinn_step ls (ids, cs) (ids, cs')"
| qs_remove: "quinn_remove ls cid cs = (r, cs') \<Longrightarrow> quinn_step ls (ids, cs) (ids, cs')"

abbreviation quinn_steps ::
  "'s lset_ops \<Rightarrow> quinn_id list \<times> ('n, 's) quinn_conns \<Rightarrow> quinn_id list \<times> ('n, 's) quinn_conns \<Rightarrow> bool" where
  "quinn_steps ls \<equiv> (quinn_step ls)\<^sup>*\<^sup>*"

subsection \<open>Invariant\<close>

lemma map_get_upd [simp]: "map_get k (m[key := x]) = (if k = key \<and> key < length m then x else map_get k m)"
  by (simp add: map_get_def)

lemma map_get_put [simp]: "map_get k (map_put key c m) = (if k = key then Some c else map_get k m)"
  by (auto simp: map_put_def map_get_def nth_append Let_def)

lemma map_get_Nil [simp]: "map_get key [] = None"
  by (simp add: map_get_def)

lemma map_get_length: "map_get key m = Some c \<Longrightarrow> key < length m"
  by (simp add: map_get_def split: if_splits)

lemma map_remove_eq: "map_remove key m = (map_get key m, m[key := None])"
  by (simp add: map_remove_def map_get_def list_update_beyond)

lemma quinn_remove_raw_eq:
  "quinn_remove_raw ls key cs = (map_get key (nx_all cs), case map_get key (nx_all cs) of
     None \<Rightarrow> cs | Some c \<Rightarrow> cs\<lparr>nx_all := (nx_all cs)[key := None], nx_active := ls_remove ls key (nx_active cs)\<rparr>)"
proof (cases "map_get key (nx_all cs)")
  case None
  then have "(nx_all cs)[key := None] = nx_all cs"
    by (metis list_update_beyond list_update_id map_get_def not_le_imp_less)
  with None show ?thesis by (simp add: quinn_remove_raw_def map_remove_eq)
qed (simp add: quinn_remove_raw_def map_remove_eq)

lemma quinn_insert_raw_eq:
  assumes "quinn_insert_raw ls trace key q cs = (cid, cs')"
  shows "cid = \<lparr>ni_key = key, ni_trace = trace, ni_version = nx_version cs\<rparr>"
    and "map_get k (nx_all cs') = (if k = key then Some (quinn_conn_new q trace (nx_version cs)) else map_get k (nx_all cs))"
    and "nx_version cs' = nx_version cs + 1"
    and "\<exists>s. nx_active cs' = ls_replace ls key s \<and> (s = nx_active cs \<or> s = ls_remove ls key (nx_active cs))"
  using assms by (auto simp: quinn_insert_raw_def quinn_remove_raw_eq Let_def split: option.splits)

lemma quinn_get_iff: "quinn_get cid cs = Some c \<longleftrightarrow> map_get (ni_key cid) (nx_all cs) = Some c \<and> nc_version c = ni_version cid"
  by (auto simp: quinn_get_def split: option.splits if_splits)

lemma quinn_put_all [simp]:
  "map_get k (nx_all (quinn_put key c cs)) = (if k = key \<and> key < length (nx_all cs) then Some c else map_get k (nx_all cs))"
  "nx_active (quinn_put key c cs) = nx_active cs" "nx_version (quinn_put key c cs) = nx_version cs"
  by (simp_all add: quinn_put_def)

lemma quinn_next_all [simp]:
  "nx_all (quinn_next_active ls cs) = nx_all cs" "nx_version (quinn_next_active ls cs) = nx_version cs"
  "nx_active (quinn_next_active ls cs) = ls_pop_front ls (nx_active cs)"
  by (simp_all add: quinn_next_active_def)

definition quinn_live :: "('n, 's) quinn_conns \<Rightarrow> connection_key set" where
  "quinn_live cs = {key. map_contains_key key (nx_all cs)}"

definition quinn_ok :: "('s \<Rightarrow> connection_key list) \<Rightarrow> quinn_id list \<Rightarrow> ('n, 's) quinn_conns \<Rightarrow> bool" where
  "quinn_ok elems ids cs \<longleftrightarrow> nx_version cs = of_nat (length ids) \<and> map ni_version ids = map of_nat [0 ..< length ids] \<and>
     (\<forall>key c. map_get key (nx_all cs) = Some c \<longrightarrow> quinn_id_of key c \<in> set ids) \<and> set (elems (nx_active cs)) \<subseteq> quinn_live cs"

lemma quinn_peek_eq:
  assumes "linked_set elems ls" and "set (elems (nx_active cs)) \<subseteq> quinn_live cs"
  shows "quinn_peek_active ls cs = (case elems (nx_active cs) of
      [] \<Rightarrow> None | key # _ \<Rightarrow> map_option (\<lambda>c. (quinn_id_of key c, c)) (map_get key (nx_all cs)), cs)"
  using assms by (auto simp: quinn_peek_active_def elems_front quinn_live_def map_contains_key_def split: list.splits option.splits)

lemma quinn_ok_active:
  assumes "quinn_ok elems ids cs" and "set (elems s) \<subseteq> quinn_live cs"
  shows "quinn_ok elems ids (cs\<lparr>nx_active := s\<rparr>)"
  using assms by (simp add: quinn_ok_def quinn_live_def)

lemma quinn_ok_mark:
  assumes "linked_set elems ls" and "quinn_ok elems ids cs" and "map_get key (nx_all cs) \<noteq> None"
  shows "quinn_ok elems ids (cs\<lparr>nx_active := ls_replace ls key (nx_active cs)\<rparr>)"
  using assms by (intro quinn_ok_active) (auto simp: elems_replace quinn_ok_def quinn_live_def map_contains_key_def)

lemma quinn_ok_remove:
  assumes "linked_set elems ls" and "quinn_ok elems ids cs"
  shows "quinn_ok elems ids (snd (quinn_remove_raw ls key cs))"
  using assms elems_distinct [OF assms(1), of "nx_active cs"]
  by (auto simp: quinn_remove_raw_eq quinn_ok_def quinn_live_def map_contains_key_def elems_remove subset_iff split: option.splits if_splits)

lemma quinn_ok_insert:
  assumes "linked_set elems ls" and "quinn_ok elems ids cs" and "quinn_insert_raw ls trace key q cs = (cid, cs')"
  shows "quinn_ok elems (ids @ [cid]) cs'"
proof -
  note eq = quinn_insert_raw_eq [OF assms(3)]
  obtain s where s: "nx_active cs' = ls_replace ls key s" "set (elems s) \<subseteq> set (elems (nx_active cs))"
    using eq(4) elems_remove [OF assms(1), of key "nx_active cs"] set_remove1_subset [of key "elems (nx_active cs)"] by auto
  have "set (elems (nx_active cs')) \<subseteq> quinn_live cs'"
    using s assms(1,2) by (auto simp: quinn_ok_def quinn_live_def map_contains_key_def eq(2) elems_replace subset_iff)
  moreover have "\<forall>k c. map_get k (nx_all cs') = Some c \<longrightarrow> quinn_id_of k c \<in> set (ids @ [cid])"
    using assms(2) by (auto simp: eq(1,2) quinn_ok_def quinn_id_of_def quinn_conn_new_def)
  ultimately show ?thesis using assms(2) by (simp add: quinn_ok_def eq(1,3))
qed

lemma quinn_ok_step:
  assumes "quinn_step ls (ids, cs) (ids', cs')" and "linked_set elems ls" and "quinn_ok elems ids cs"
  shows "quinn_ok elems ids' cs'"
  using assms(1)
proof cases
  case (qs_insert trace key q cid)
  then show ?thesis using quinn_ok_insert [OF assms(2,3)] by blast
next
  case (qs_change key c c')
  then show ?thesis using assms(3) by (auto simp: quinn_ok_def quinn_live_def map_contains_key_def subset_iff)
next
  case (qs_mark keep cid r)
  then show ?thesis using assms(3) quinn_ok_mark [OF assms(2,3), of "ni_key cid"]
    by (cases "quinn_get cid cs") (auto simp: quinn_get_mark_active_if_def quinn_get_iff split: if_splits)
next
  case (qs_mark_raw key r)
  then have "cs' = snd (quinn_get_mark_active_raw ls key cs)" by simp
  then show ?thesis using assms(3) quinn_ok_mark [OF assms(2,3), of key] qs_mark_raw(1)
    by (cases "map_get key (nx_all cs)") (simp_all add: quinn_get_mark_active_raw_def)
next
  case qs_next
  have "set (elems (ls_pop_front ls (nx_active cs))) \<subseteq> quinn_live cs"
    using assms(3) elems_pop_front [OF assms(2), of "nx_active cs"] by (cases "elems (nx_active cs)") (auto simp: quinn_ok_def)
  with qs_next show ?thesis using quinn_ok_active [OF assms(3)] by (simp add: quinn_next_active_def)
next
  case (qs_peek r)
  then show ?thesis using assms(3) quinn_peek_eq [OF assms(2), of cs] by (simp add: quinn_ok_def)
next
  case (qs_remove cid r)
  then show ?thesis using assms(3) quinn_ok_remove [OF assms(2,3), of "ni_key cid"] by (auto simp: quinn_remove_def split: option.splits)
qed

lemma quinn_ok_new: "linked_set elems ls \<Longrightarrow> quinn_ok elems [] (quinn_conns_new ls)"
  by (simp add: quinn_ok_def quinn_conns_new_def elems_empty)

lemma quinn_ok_steps:
  assumes "quinn_steps ls st st'" and "linked_set elems ls" and "quinn_ok elems (fst st) (snd st)"
  shows "quinn_ok elems (fst st') (snd st')"
  using assms(1,3)
proof (induction rule: rtranclp_induct)
  case (step st1 st2)
  then show ?case using quinn_ok_step [OF _ assms(2), of "fst st1" "snd st1" "fst st2" "snd st2"] by simp
qed

lemma quinn_ids_distinct:
  assumes "quinn_ok elems ids cs" and "length ids \<le> 2 ^ 32"
  shows "distinct (map ni_version ids)"
  using assms by (auto simp: quinn_ok_def distinct_map inj_on_def word_of_nat_eq_iff take_bit_eq_mod)

lemma quinn_id_unique:
  assumes "quinn_ok elems ids cs" and "length ids \<le> 2 ^ 32" and "cid \<in> set ids" and "cid' \<in> set ids" and "quinn_id_eq cid cid'"
  shows "cid = cid'"
  using quinn_ids_distinct [OF assms(1,2)] assms(3-5) by (auto simp: distinct_map quinn_id_eq_def dest: inj_onD)

lemma quinn_get_own:
  assumes "quinn_ok elems ids cs" and "length ids \<le> 2 ^ 32" and "cid \<in> set ids" and "quinn_get cid cs = Some c"
  shows "quinn_id_of (ni_key cid) c = cid"
proof -
  have "quinn_id_of (ni_key cid) c \<in> set ids" using assms(1,4) by (simp add: quinn_ok_def quinn_get_iff)
  then show ?thesis using quinn_id_unique [OF assms(1-3), of "quinn_id_of (ni_key cid) c"] assms(4)
    by (simp add: quinn_id_eq_def quinn_id_of_def quinn_get_iff)
qed

lemma quinn_step_ids: "quinn_step ls st st' \<Longrightarrow> \<exists>new. fst st' = fst st @ new"
  by (induction rule: quinn_step.induct) auto

lemma quinn_dead_step:
  assumes "quinn_step ls (ids, cs) (ids', cs')" and "linked_set elems ls" and "quinn_ok elems ids cs" and "length ids' \<le> 2 ^ 32"
    and "cid \<in> set ids" and "quinn_get cid cs = None"
  shows "quinn_get cid cs' = None"
proof (rule ccontr)
  assume "quinn_get cid cs' \<noteq> None"
  then obtain c where c: "quinn_get cid cs' = Some c" by blast
  have ok: "quinn_ok elems ids' cs'" by (rule quinn_ok_step [OF assms(1-3)])
  from assms(1) show False
  proof cases
    case (qs_insert trace key q cid')
    note eq = quinn_insert_raw_eq [OF qs_insert(2)]
    have "cid = cid'" if "ni_key cid = key"
      using quinn_id_unique [OF ok assms(4), of cid cid'] c assms(5) qs_insert(1) that
      by (auto simp: quinn_get_iff eq(1,2) quinn_id_eq_def quinn_conn_new_def)
    moreover have "cid' \<notin> set ids"
      using quinn_ids_distinct [OF ok assms(4)] qs_insert(1) by auto
    ultimately show False using c assms(5,6) by (auto simp: quinn_get_def eq(2) split: if_splits option.splits)
  next
    case (qs_change key c0 c1)
    then show False using c assms(6) by (auto simp: quinn_get_def quinn_id_of_def split: if_splits option.splits)
  next
    case (qs_mark keep cid r)
    then show False using c assms(6) by (auto simp: quinn_get_mark_active_if_def quinn_get_def split: if_splits option.splits)
  next
    case (qs_mark_raw key r)
    then show False using c assms(6) by (auto simp: quinn_get_mark_active_raw_def quinn_get_def split: if_splits option.splits)
  next
    case qs_next
    then show False using c assms(6) by (simp add: quinn_get_def)
  next
    case (qs_peek r)
    then show False using c assms(3,6) quinn_peek_eq [OF assms(2), of cs] by (simp add: quinn_ok_def)
  next
    case (qs_remove cid r)
    then show False using c assms(6)
      by (auto simp: quinn_remove_def quinn_remove_raw_eq quinn_get_def split: if_splits option.splits)
  qed
qed

lemma quinn_dead_steps:
  assumes "quinn_steps ls (ids, cs) st'" and "linked_set elems ls" and "quinn_ok elems ids cs" and "length (fst st') \<le> 2 ^ 32"
    and "cid \<in> set ids" and "quinn_get cid cs = None"
  shows "cid \<in> set (fst st') \<and> quinn_get cid (snd st') = None"
  using assms(1,4)
proof (induction rule: rtranclp_induct)
  case base
  then show ?case using assms by simp
next
  case (step st1 st2)
  have "fst st2 = fst st1 @ drop (length (fst st1)) (fst st2)" using quinn_step_ids [OF step(2)] by auto
  then have *: "set (fst st1) \<subseteq> set (fst st2)" "length (fst st1) \<le> length (fst st2)" by (metis set_append sup_ge1, metis length_append le_add1)
  have "quinn_ok elems (fst st1) (snd st1)" using quinn_ok_steps [OF step(1) assms(2)] assms(3) by simp
  then show ?case using quinn_dead_step [OF _ assms(2), of "fst st1" "snd st1" "fst st2" "snd st2"] step * by auto
qed

text \<open>The bound is sharp: the version is a \<open>u32\<close> that wraps, so the identifiers repeat for a handle that is used
  again after exactly \<open>2 ^ 32\<close> insertions.\<close>

lemma quinn_version_wraps:
  assumes "quinn_ok elems ids cs" and "i + 2 ^ 32 < length ids" and "ni_key (ids ! i) = ni_key (ids ! (i + 2 ^ 32))"
  shows "quinn_id_eq (ids ! i) (ids ! (i + 2 ^ 32))"
proof -
  have v: "ni_version (ids ! k) = of_nat k" if "k < length ids" for k
  proof -
    have "map ni_version ids ! k = map of_nat [0 ..< length ids] ! k" using assms(1) by (simp add: quinn_ok_def)
    with that show ?thesis by simp
  qed
  have "of_nat (i + 2 ^ 32) = (of_nat i :: 32 word)" by (simp add: word_of_nat_eq_iff take_bit_eq_mod)
  then show ?thesis using assms(2,3) v [of i] v [of "i + 2 ^ 32"] by (simp add: quinn_id_eq_def del: of_nat_add)
qed

subsection \<open>Properties\<close>

text \<open>C32: an identifier never leads to somebody else's connection. As long as fewer than \<open>2 ^ 32\<close> connections were
  inserted, in any sequence of operations of the registry, with handles used again in any order: two
  identifiers that compare equal are the same one, the lookup of an identifier finds the connection it
  was made for or none, once it finds none it never finds one again, and the queue of the active
  connections holds live ones, each once.\<close>

theorem quinn_ids_no_aba:
  assumes "linked_set elems ls" and "quinn_steps ls ([], quinn_conns_new ls) (ids, cs)" and "quinn_steps ls (ids, cs) (ids', cs')"
    and "length ids' \<le> 2 ^ 32" and "cid \<in> set ids"
  shows "(\<forall>cid' \<in> set ids'. quinn_id_eq cid cid' \<longrightarrow> cid = cid') \<and>
    (\<forall>c. quinn_get cid cs' = Some c \<longrightarrow> quinn_id_of (ni_key cid) c = cid) \<and>
    (quinn_get cid cs = None \<longrightarrow> quinn_get cid cs' = None) \<and>
    distinct (elems (nx_active cs')) \<and> set (elems (nx_active cs')) \<subseteq> quinn_live cs'"
proof -
  have ok: "quinn_ok elems ids cs" using quinn_ok_steps [OF assms(2,1)] quinn_ok_new [OF assms(1)] by simp
  then have ok': "quinn_ok elems ids' cs'" using quinn_ok_steps [OF assms(3,1)] by simp
  have ids: "cid \<in> set ids'"
    using assms(3,5) by (induction rule: rtranclp_induct2) (use quinn_step_ids in fastforce)+
  show ?thesis
    using quinn_id_unique [OF ok' assms(4) ids] quinn_get_own [OF ok' assms(4) ids] quinn_dead_steps [OF assms(3,1) ok _ assms(5)]
      elems_distinct [OF assms(1)] ok' assms(4) by (auto simp: quinn_ok_def)
qed

theorem quinn_ids_no_aba_witness:
  "let (a, cs1) = quinn_insert_raw list_set_ops [1] 0 (5 :: nat) (quinn_conns_new list_set_ops);
       cs2 = snd (quinn_remove list_set_ops a cs1);
       (b, cs3) = quinn_insert_raw list_set_ops [2] 0 7 cs2
   in \<not> quinn_id_eq a b \<and> quinn_get a cs3 = None \<and> map_option nc_inner (quinn_get b cs3) = Some 7"
proof -
  obtain a cs1 where a: "quinn_insert_raw list_set_ops [1] 0 (5 :: nat) (quinn_conns_new list_set_ops) = (a, cs1)" by fastforce
  define cs2 where "cs2 = snd (quinn_remove list_set_ops a cs1)"
  obtain b cs3 where b: "quinn_insert_raw list_set_ops [2] 0 7 cs2 = (b, cs3)" by fastforce
  have s: "quinn_step list_set_ops ([], quinn_conns_new list_set_ops) ([a], cs1)"
    "quinn_step list_set_ops ([a], cs1) ([a], cs2)" "quinn_step list_set_ops ([a], cs2) ([a, b], cs3)"
    using qs_insert [OF a, of "[]"] qs_remove [of list_set_ops a cs1 _ cs2 "[a]"] qs_insert [OF b, of "[a]"]
    by (simp_all add: cs2_def prod_eq_iff)
  then have steps: "quinn_steps list_set_ops ([], quinn_conns_new list_set_ops) ([a], cs2)" "quinn_steps list_set_ops ([a], cs2) ([a, b], cs3)"
    by (simp_all add: rtranclp.rtrancl_into_rtrancl)
  note defs = quinn_insert_raw_def quinn_conns_new_def quinn_remove_raw_eq quinn_conn_new_def Let_def
  have facts: "a \<noteq> b" "quinn_get a cs2 = None" "map_option nc_inner (quinn_get b cs3) = Some 7"
    using a b by (auto simp: cs2_def defs quinn_remove_def quinn_get_def)
  have "\<not> quinn_id_eq a b" "quinn_get a cs3 = None"
    using quinn_ids_no_aba [OF list_set_linked steps, of a] facts(1,2) by auto
  with facts(3) a b show ?thesis by (simp add: cs2_def)
qed

end
