(* ===== verification/Quinn_Io.thy ===== *)
theory Quinn_Io
  imports Quinn_Connection Server_Cid
begin

section \<open>Buffers, time, configuration and conversions of the quinn backend\<close>

text \<open>
  Model of \<open>io.rs\<close>, \<open>time.rs\<close>, \<open>config.rs\<close>, \<open>cid.rs\<close> and \<open>shared.rs\<close> in \<open>src/aquic-core/src/backend/quinn/\<close>. A
  \<open>Vec<u8>\<close> is its bytes and its capacity; what the allocator makes of a request is the parameter \<open>grow\<close>, at
  least what was asked for. A \<open>VecBuf\<close> is taken out of one of two pools and its drop puts the vector
  back; the pool it belongs to is the field \<open>vb_source\<close>. \<open>poll_transmit\<close> is the method of
  \<open>quinn_proto::Connection\<close>.

  The lemmas show that no buffer is lost or made up, that \<open>write_pending\<close> hands over exactly the
  transmits of the connection, in order, until it has none or the pool is empty, and what the adapter
  of the connection ID generators makes of them.
\<close>

subsection \<open>\<open>shared.rs\<close>\<close>

datatype ecn_codepoint = CpEct0 | CpEct1 | CpCe

definition ecn_to_quinn :: "ecn \<Rightarrow> ecn_codepoint option" where
  "ecn_to_quinn value = (case value of NEct \<Rightarrow> None | Ect1 \<Rightarrow> Some CpEct1 | Ect0 \<Rightarrow> Some CpEct0 | Ce \<Rightarrow> Some CpCe)"

definition ecn_from_quinn :: "ecn_codepoint option \<Rightarrow> ecn" where
  "ecn_from_quinn value = (case value of
     Some cp \<Rightarrow> (case cp of CpEct0 \<Rightarrow> Ect0 | CpEct1 \<Rightarrow> Ect1 | CpCe \<Rightarrow> Ce)
   | None \<Rightarrow> NEct)"

definition sid_from_quinn :: "64 word \<Rightarrow> panic + stream_id" where
  "sid_from_quinn value = (case sid_new value of Inr s \<Rightarrow> Inr s | Inl _ \<Rightarrow> Inl ExplicitPanic)"

text \<open>\<open>quinn_proto::VarInt::from_u64\<close> refuses \<open>2 ^ 62\<close> and more.\<close>

definition varint_from_sid :: "stream_id \<Rightarrow> panic + 64 word" where
  "varint_from_sid value = (if unat (raw value) < 2 ^ 62 then Inr (raw value) else Inl ExplicitPanic)"

definition sid_to_quinn :: "stream_id \<Rightarrow> panic + 64 word" where
  "sid_to_quinn value = varint_from_sid value"

definition u64_into_varint :: "nat \<Rightarrow> panic + nat" where
  "u64_into_varint value = (if value < 2 ^ 62 then Inr value else Inl ExplicitPanic)"

subsection \<open>\<open>cid.rs\<close>\<close>

record 'g cid_ops =
  co_generate :: "'g \<Rightarrow> (nat \<Rightarrow> byte list) \<Rightarrow> panic + connection_id"
  co_len :: "'g \<Rightarrow> nat"
  co_validate :: "'g \<Rightarrow> connection_id \<Rightarrow> bool"
  co_decrypt :: "'g \<Rightarrow> connection_id \<Rightarrow> panic + (id_error + connection_id)"

record 'g cid_adapter =
  ad_inner :: 'g
  ad_length :: nat
  ad_lifetime :: "nat option"

definition adapter_new :: "'g cid_ops \<Rightarrow> 'g \<Rightarrow> nat option \<Rightarrow> 'g cid_adapter" where
  "adapter_new ops inner lifetime = \<lparr>ad_inner = inner, ad_length = co_len ops inner, ad_lifetime = lifetime\<rparr>"

definition adapter_generate_cid :: "'g cid_ops \<Rightarrow> 'g cid_adapter \<Rightarrow> (nat \<Rightarrow> byte list) \<Rightarrow> panic + byte list" where
  "adapter_generate_cid ops ad rng = and_then (co_generate ops (ad_inner ad) rng) (\<lambda>cid. Inr (as_slice cid))"

definition adapter_validate :: "'g cid_ops \<Rightarrow> 'g cid_adapter \<Rightarrow> byte list \<Rightarrow> panic + bool" where
  "adapter_validate ops ad bytes = (case try_from_slice bytes of
     None \<Rightarrow> Inr False
   | Some cid \<Rightarrow>
       if co_validate ops (ad_inner ad) cid then Inr True
       else and_then (co_decrypt ops (ad_inner ad) cid) (\<lambda>r.
         case r of Inl _ \<Rightarrow> Inr False | Inr d \<Rightarrow> Inr (co_validate ops (ad_inner ad) d)))"

definition adapter_cid_len :: "'g cid_adapter \<Rightarrow> nat" where
  "adapter_cid_len ad = ad_length ad"

definition adapter_cid_lifetime :: "'g cid_adapter \<Rightarrow> nat option" where
  "adapter_cid_lifetime ad = ad_lifetime ad"

subsection \<open>\<open>config.rs\<close>\<close>

record ('c, 'v, 'd) quinn_config =
  qc_endpoint :: 'd
  qc_client :: "'c option"
  qc_server :: "'v option"
  qc_out_count :: nat
  qc_reserved_count :: nat
  qc_out_size :: nat
  qc_gso_size :: nat

definition quinn_config_default :: "'d \<Rightarrow> ('c, 'v, 'd) quinn_config" where
  "quinn_config_default endpoint = \<lparr>qc_endpoint = endpoint, qc_client = None, qc_server = None,
     qc_out_count = 3, qc_reserved_count = 3, qc_out_size = 1500, qc_gso_size = 8192\<rparr>"

definition quinn_config_fix :: "('c, 'v, 'd) quinn_config \<Rightarrow> ('c, 'v, 'd) quinn_config" where
  "quinn_config_fix cf =
     (let cf1 = (if qc_out_count cf = 0 then cf\<lparr>qc_out_count := 1\<rparr> else cf);
          cf2 = (if qc_out_size cf1 < 1500 then cf1\<lparr>qc_out_size := 1500\<rparr> else cf1)
      in if qc_gso_size cf2 < qc_out_size cf2 then cf2\<lparr>qc_gso_size := qc_out_size cf2\<rparr> else cf2)"

subsection \<open>\<open>io.rs\<close>\<close>

record rust_vec =
  rv_bytes :: "byte list"
  rv_capacity :: nat

definition grows :: "(nat \<Rightarrow> nat \<Rightarrow> nat) \<Rightarrow> bool" where
  "grows grow \<longleftrightarrow> (\<forall>cap n. cap \<le> grow cap n \<and> n \<le> grow cap n)"

definition vec_with_capacity :: "(nat \<Rightarrow> nat \<Rightarrow> nat) \<Rightarrow> nat \<Rightarrow> rust_vec" where
  "vec_with_capacity grow n = \<lparr>rv_bytes = [], rv_capacity = grow 0 n\<rparr>"

definition vec_clear :: "rust_vec \<Rightarrow> rust_vec" where
  "vec_clear v = v\<lparr>rv_bytes := []\<rparr>"

definition vec_reserve :: "(nat \<Rightarrow> nat \<Rightarrow> nat) \<Rightarrow> nat \<Rightarrow> rust_vec \<Rightarrow> rust_vec" where
  "vec_reserve grow additional v =
     (if length (rv_bytes v) + additional \<le> rv_capacity v then v
      else v\<lparr>rv_capacity := grow (rv_capacity v) (length (rv_bytes v) + additional)\<rparr>)"

datatype pool_kind = PrimaryPool | ReservedPool

type_synonym vec_pool = "rust_vec list"

record vec_buf =
  vb_vec :: rust_vec
  vb_source :: pool_kind

definition vb_len :: "vec_buf \<Rightarrow> nat" where
  "vb_len b = length (rv_bytes (vb_vec b))"

definition vb_as_slice :: "vec_buf \<Rightarrow> byte list" where
  "vb_as_slice b = rv_bytes (vb_vec b)"

definition pool_new :: "(nat \<Rightarrow> nat \<Rightarrow> nat) \<Rightarrow> nat \<Rightarrow> nat \<Rightarrow> vec_pool" where
  "pool_new grow buffers_count buffer_capacity = map (\<lambda>_. vec_with_capacity grow buffer_capacity) [0 ..< buffers_count]"

definition pool_is_empty :: "vec_pool \<Rightarrow> bool" where
  "pool_is_empty p \<longleftrightarrow> p = []"

definition pool_pop :: "pool_kind \<Rightarrow> vec_pool \<Rightarrow> vec_buf option \<times> vec_pool" where
  "pool_pop kind p = (if p = [] then (None, p) else (Some \<lparr>vb_vec = last p, vb_source = kind\<rparr>, butlast p))"

record quinn_io =
  nio_primary :: vec_pool
  nio_reserved :: vec_pool
  nio_listen_addr :: ip_addr

definition vec_buf_drop :: "vec_buf \<Rightarrow> quinn_io \<Rightarrow> quinn_io" where
  "vec_buf_drop b io = (case vb_source b of
     PrimaryPool \<Rightarrow> io\<lparr>nio_primary := nio_primary io @ [vec_clear (vb_vec b)]\<rparr>
   | ReservedPool \<Rightarrow> io\<lparr>nio_reserved := nio_reserved io @ [vec_clear (vb_vec b)]\<rparr>)"

definition quinn_io_new :: "(nat \<Rightarrow> nat \<Rightarrow> nat) \<Rightarrow> ('c, 'v, 'd) quinn_config \<Rightarrow> ip_addr \<Rightarrow> bool \<Rightarrow> bool \<Rightarrow> quinn_io" where
  "quinn_io_new grow cf listen_addr mmsg gso =
     (let (primary_count, reserved_count) =
            (if mmsg then (max (qc_out_count cf) 1, max (qc_reserved_count cf) 1) else (1, 1));
          primary_capacity = (if gso then max (qc_gso_size cf) 1500 else max (qc_out_size cf) 1500)
      in \<lparr>nio_primary = pool_new grow primary_count primary_capacity, nio_reserved = pool_new grow reserved_count 1500,
          nio_listen_addr = listen_addr\<rparr>)"

definition quinn_update_socket_addr :: "ip_addr \<Rightarrow> quinn_io \<Rightarrow> quinn_io" where
  "quinn_update_socket_addr new_addr io = io\<lparr>nio_listen_addr := new_addr\<rparr>"

definition has_primary_buffer :: "quinn_io \<Rightarrow> bool" where
  "has_primary_buffer io \<longleftrightarrow> \<not> pool_is_empty (nio_primary io)"

definition pop_primary_buffer :: "quinn_io \<Rightarrow> vec_buf option \<times> quinn_io" where
  "pop_primary_buffer io = (let (b, p) = pool_pop PrimaryPool (nio_primary io) in (b, io\<lparr>nio_primary := p\<rparr>))"

definition pop_reserved_buffer :: "quinn_io \<Rightarrow> vec_buf option \<times> quinn_io" where
  "pop_reserved_buffer io = (let (b, p) = pool_pop ReservedPool (nio_reserved io) in (b, io\<lparr>nio_reserved := p\<rparr>))"

record transmit =
  tr_destination :: sock_addr
  tr_ecn :: "ecn_codepoint option"
  tr_size :: nat
  tr_segment_size :: "nat option"
  tr_src_ip :: "ip_addr option"

definition transmit_to_msg :: "bool \<Rightarrow> quinn_io \<Rightarrow> transmit \<Rightarrow> vec_buf \<Rightarrow> panic + vec_buf send_msg" where
  "transmit_to_msg dbg io t buffer =
     and_then (panic_if (dbg \<and> vb_len buffer \<noteq> tr_size t) DebugAssertFailed) (\<lambda>_.
     and_then (case tr_segment_size t of
         Some sz \<Rightarrow>
           and_then (panic_if (\<not> is_multiple_of (vb_len buffer) sz) AssertFailed) (\<lambda>_.
             if sz = 0 then Inl DivByZero else Inr (vb_len buffer div sz))
       | None \<Rightarrow> Inr 1) (\<lambda>segment_count.
       send_msg_new dbg vb_len buffer (case tr_src_ip t of Some ip \<Rightarrow> ip | None \<Rightarrow> nio_listen_addr io)
         (tr_destination t) (ecn_from_quinn (tr_ecn t)) segment_count))"

definition write_response ::
  "bool \<Rightarrow> transmit \<Rightarrow> vec_buf \<Rightarrow> vec_buf send_msg list \<Rightarrow> quinn_io \<Rightarrow> panic + vec_buf send_msg list" where
  "write_response dbg response buffer out io = and_then (transmit_to_msg dbg io response buffer) (\<lambda>msg. Inr (out @ [msg]))"

type_synonym 'n poll_transmit = "nat \<Rightarrow> nat \<Rightarrow> rust_vec \<Rightarrow> 'n \<Rightarrow> transmit option \<times> rust_vec \<times> 'n"

function quinn_write_loop ::
  "(nat \<Rightarrow> nat \<Rightarrow> nat) \<Rightarrow> 'n poll_transmit \<Rightarrow> bool \<Rightarrow> nat \<Rightarrow> nat \<Rightarrow> 'n \<Rightarrow> vec_buf send_msg list \<Rightarrow> quinn_io \<Rightarrow>
   panic + (bool \<times> 'n \<times> vec_buf send_msg list \<times> quinn_io)" where
  "quinn_write_loop grow poll dbg now pmtu q out io =
     (case pop_primary_buffer io of
        (None, io1) \<Rightarrow> Inr (False, q, out, io1)
      | (Some buffer, io1) \<Rightarrow>
          let v = vec_reserve grow pmtu (vec_clear (vb_vec buffer)) in
          if pmtu = 0 then Inl DivByZero
          else (case poll now (rv_capacity v div pmtu) v q of
            (Some t, v1, q1) \<Rightarrow>
              (case transmit_to_msg dbg io1 t (buffer\<lparr>vb_vec := v1\<rparr>) of
                 Inl p \<Rightarrow> Inl p
               | Inr msg \<Rightarrow> quinn_write_loop grow poll dbg now pmtu q1 (out @ [msg]) io1)
          | (None, v1, q1) \<Rightarrow> Inr (True, q1, out, vec_buf_drop (buffer\<lparr>vb_vec := v1\<rparr>) io1)))"
  by pat_completeness auto
termination
  by (relation "measure (\<lambda>(grow, poll, dbg, now, pmtu, q, out, io). length (nio_primary io))")
    (auto simp: pop_primary_buffer_def pool_pop_def split: if_splits)

declare quinn_write_loop.simps [simp del]

definition quinn_write_pending ::
  "(nat \<Rightarrow> nat \<Rightarrow> nat) \<Rightarrow> 'n poll_transmit \<Rightarrow> ('n \<Rightarrow> nat) \<Rightarrow> bool \<Rightarrow> nat \<Rightarrow> 'n quinn_conn \<Rightarrow> vec_buf send_msg list \<Rightarrow> quinn_io \<Rightarrow>
   panic + (bool \<times> 'n quinn_conn \<times> vec_buf send_msg list \<times> quinn_io)" where
  "quinn_write_pending grow poll mtu dbg now c out io =
     and_then (quinn_write_loop grow poll dbg now (mtu (nc_inner c)) (nc_inner c) out io) (\<lambda>(r, q, out1, io1).
       Inr (r, c\<lparr>nc_inner := q\<rparr>, out1, io1))"

subsection \<open>\<open>time.rs\<close>\<close>

record quinn_time =
  nt_timer :: "quinn_id option wheel_timer"
  nt_fired :: "quinn_id option bucket list"
  nt_clock :: nat

definition quinn_time_new :: "nat \<Rightarrow> panic + quinn_time" where
  "quinn_time_new clock = and_then (wheel_new 1000000 64000000 clock) (\<lambda>timer.
     Inr \<lparr>nt_timer = timer, nt_fired = [], nt_clock = clock\<rparr>)"

definition quinn_time_schedule :: "bool \<Rightarrow> quinn_id \<Rightarrow> nat \<Rightarrow> quinn_time \<Rightarrow> panic + (timer_key \<times> quinn_time)" where
  "quinn_time_schedule dbg event at tm = and_then (wheel_schedule dbg (nt_timer tm) (Some event) at (nt_clock tm)) (\<lambda>(key, w).
     Inr (key, tm\<lparr>nt_timer := w\<rparr>))"

definition quinn_time_cancel :: "timer_key option \<Rightarrow> quinn_time \<Rightarrow> panic + quinn_time" where
  "quinn_time_cancel key tm = (case key of
     Some k \<Rightarrow> and_then (wheel_cancel None (nt_timer tm) k) (\<lambda>w. Inr (tm\<lparr>nt_timer := w\<rparr>))
   | None \<Rightarrow> Inr tm)"

definition quinn_time_reschedule ::
  "bool \<Rightarrow> quinn_id \<Rightarrow> nat \<Rightarrow> timer_key option \<Rightarrow> quinn_time \<Rightarrow> panic + (timer_key \<times> quinn_time)" where
  "quinn_time_reschedule dbg event at previous_key tm =
     and_then (quinn_time_cancel previous_key tm) (quinn_time_schedule dbg event at)"

definition quinn_time_cancel_all :: "'n quinn_conn \<Rightarrow> quinn_time \<Rightarrow> panic + ('n quinn_conn \<times> quinn_time)" where
  "quinn_time_cancel_all c tm =
     (let (key, c1) = quinn_pop_timer_key c in and_then (quinn_time_cancel key tm) (\<lambda>tm1. Inr (c1, tm1)))"

definition quinn_time_tick :: "quinn_time \<Rightarrow> (panic + ((nat \<times> bool) \<times> quinn_time)) option" where
  "quinn_time_tick tm = map_option (\<lambda>r. and_then r (\<lambda>(fired, next_tick, w).
     Inr ((next_tick, fired \<noteq> []), tm\<lparr>nt_timer := w, nt_fired := fired\<rparr>))) (wheel_progress (nt_fired tm) (nt_timer tm) (nt_clock tm))"

definition quinn_update_clock :: "nat \<Rightarrow> quinn_time \<Rightarrow> quinn_time" where
  "quinn_update_clock clock tm = tm\<lparr>nt_clock := clock\<rparr>"

subsection \<open>Conversions and configuration\<close>

lemma ecn_roundtrip [simp]: "ecn_from_quinn (ecn_to_quinn e) = e" "ecn_to_quinn (ecn_from_quinn cp) = cp"
  by (cases e; simp add: ecn_from_quinn_def ecn_to_quinn_def)
    (cases cp; simp add: ecn_from_quinn_def ecn_to_quinn_def split: ecn_codepoint.splits)

lemma sid_quinn_roundtrip:
  assumes "sid_ok s"
  shows "and_then (sid_to_quinn s) sid_from_quinn = Inr s"
proof -
  have "unat (raw s) < 2 ^ 62" using assms by (simp add: sid_ok_def sid_nat_def)
  then show ?thesis
    by (cases s) (simp add: sid_to_quinn_def varint_from_sid_def sid_from_quinn_def sid_new_def word_le_nat_alt unat_sid_max)
qed

lemma quinn_config_fix_ok:
  "1 \<le> qc_out_count (quinn_config_fix cf)" "1500 \<le> qc_out_size (quinn_config_fix cf)"
  "qc_out_size (quinn_config_fix cf) \<le> qc_gso_size (quinn_config_fix cf)"
  "quinn_config_fix (quinn_config_fix cf) = quinn_config_fix cf"
  by (simp_all add: quinn_config_fix_def Let_def)

text \<open>The adapter accepts what a generator that keeps its contract generates; the generator of the load balancer
  does not keep it (its \<open>cid_len\<close> forgets the first octet), so the adapter refuses its identifiers.\<close>

definition random_cid_ops :: "random_id_generator cid_ops" where
  "random_cid_ops = \<lparr>co_generate = random_generate, co_len = random_cid_len, co_validate = random_validate,
     co_decrypt = (\<lambda>g cid. Inr (random_decrypt g cid))\<rparr>"

definition server_cid_ops :: "bool \<Rightarrow> server_generator cid_ops" where
  "server_cid_ops dbg = \<lparr>co_generate = server_generate dbg, co_len = server_cid_len, co_validate = server_validate,
     co_decrypt = (\<lambda>g cid. map_sum id Inr (server_decrypt g cid))\<rparr>"

lemma try_from_slice_as_slice: "cid_wf c \<Longrightarrow> \<exists>c'. try_from_slice (as_slice c) = Some c' \<and> as_slice c' = as_slice c \<and> cid_size c' = cid_size c"
  using as_slice_try_from_slice [of "as_slice c"]
  by (auto simp: cid_wf_def try_from_slice_def as_slice_def)

lemma adapter_accepts_random:
  assumes "rid_length g \<le> max_cid_len" and "fills rng"
  shows "\<exists>bytes. adapter_generate_cid random_cid_ops (adapter_new random_cid_ops g life) rng = Inr bytes \<and>
    length bytes = adapter_cid_len (adapter_new random_cid_ops g life) \<and>
    adapter_validate random_cid_ops (adapter_new random_cid_ops g life) bytes = Inr True"
proof -
  obtain c where c: "random_generate g rng = Inr c" "cid_wf c" using random_id.gen_total [OF assms] by blast
  have len: "cid_size c = rid_length g" using random_id.gen_constant_len [OF assms c(1)] by (simp add: random_cid_len_def)
  obtain c' where "try_from_slice (as_slice c) = Some c'" "cid_size c' = cid_size c" using try_from_slice_as_slice [OF c(2)] by blast
  with c len show ?thesis
    by (simp add: adapter_generate_cid_def adapter_new_def random_cid_ops_def adapter_validate_def adapter_cid_len_def
        random_cid_len_def random_validate_def length_as_slice)
qed

lemma adapter_refuses_server:
  assumes "server_new env octet sid cid sid_bits cid_bits ent_bits = Inr g" and "cid_env_ok env" and "fills rng"
    and "sid_bits + cid_bits + ent_bits \<le> 152"
  shows "\<exists>bytes. adapter_generate_cid (server_cid_ops dbg) (adapter_new (server_cid_ops dbg) g life) rng = Inr bytes \<and>
    length bytes = adapter_cid_len (adapter_new (server_cid_ops dbg) g life) + 1 \<and>
    adapter_validate (server_cid_ops dbg) (adapter_new (server_cid_ops dbg) g life) bytes = Inr False"
proof -
  from server_new_ok [OF assms(1,2)] have ok: "server_ok g"
    and bits: "server_id_bits g + core_id_bits g + entropy_bits g \<le> 152" using assms(4) by auto
  obtain c d where c: "server_generate dbg g rng = Inr c" "server_decrypt g c = Inr d" "cid_wf c" "cid_size c = div_ceil (payload_bits g) 8"
    by (rule generate_ok [OF ok assms(3), of dbg])
  obtain c' where c': "try_from_slice (as_slice c) = Some c'" "as_slice c' = as_slice c" "cid_size c' = cid_size c"
    using try_from_slice_as_slice [OF c(3)] by blast
  obtain d' where d': "server_decrypt g c' = Inr d'" "cid_size d' = cid_size c'"
    using c(2) c'(2) by (auto simp: server_decrypt_def and_then_def as_mut_slice_def Let_def split: if_splits sum.splits)
  have "cid_size c = server_cid_len g + 1" using c(4) cid_len_short [OF bits] by simp
  with c c' d' show ?thesis
    by (simp add: adapter_generate_cid_def adapter_new_def server_cid_ops_def adapter_validate_def adapter_cid_len_def
        server_validate_def length_as_slice)
qed

subsection \<open>What \<open>write_pending\<close> hands over\<close>

text \<open>\<open>polled\<close>: the transmits that the connection gives when it is polled with empty vectors of at least one
  \<open>pmtu\<close>, each with the bytes it wrote.\<close>

inductive polled :: "'n poll_transmit \<Rightarrow> nat \<Rightarrow> nat \<Rightarrow> 'n \<Rightarrow> (transmit \<times> byte list) list \<Rightarrow> 'n \<Rightarrow> bool"
  for poll :: "'n poll_transmit" and now pmtu :: nat where
  polled_none: "polled poll now pmtu q [] q"
| polled_some: "poll now (rv_capacity v div pmtu) v q = (Some t, v1, q1) \<Longrightarrow> rv_bytes v = [] \<Longrightarrow> pmtu \<le> rv_capacity v \<Longrightarrow>
    polled poll now pmtu q1 ts q2 \<Longrightarrow> polled poll now pmtu q ((t, rv_bytes v1) # ts) q2"

lemma vec_reserve_ok:
  assumes "grows grow"
  shows "rv_bytes (vec_reserve grow n (vec_clear v)) = []" "n \<le> rv_capacity (vec_reserve grow n (vec_clear v))"
  using assms by (simp_all add: vec_reserve_def vec_clear_def grows_def)

lemma transmit_to_msg_eq:
  assumes "transmit_to_msg dbg io t buffer = Inr msg"
  shows "sm_buf msg = buffer" and "sm_to msg = tr_destination t" and "sm_ecn msg = ecn_from_quinn (tr_ecn t)" and "0 < vb_len buffer"
  using assms by (auto simp: transmit_to_msg_def send_msg_new_def rust_simps split: option.splits if_splits)

lemma quinn_write_loop_spec:
  assumes "quinn_write_loop grow poll dbg now pmtu q out io = Inr (r, q', out', io')" and "grows grow"
  shows "\<exists>msgs ts q1. out' = out @ msgs \<and> polled poll now pmtu q ts q1 \<and>
    map (\<lambda>m. vb_as_slice (sm_buf m)) msgs = map snd ts \<and> map sm_to msgs = map (tr_destination \<circ> fst) ts \<and>
    (\<forall>m \<in> set msgs. vb_source (sm_buf m) = PrimaryPool) \<and>
    length (nio_primary io') + length msgs = length (nio_primary io) \<and> nio_reserved io' = nio_reserved io \<and>
    (if r then nio_primary io' \<noteq> [] \<and> (\<exists>n v v1. poll now n v q1 = (None, v1, q')) else nio_primary io' = [] \<and> q' = q1)"
  using assms
proof (induction grow poll dbg now pmtu q out io rule: quinn_write_loop.induct)
  case (1 grow poll dbg now pmtu q out io)
  show ?case
  proof (cases "nio_primary io = []")
    case True
    then have "\<not> r" "q' = q" "out' = out" "nio_primary io' = []" "nio_reserved io' = nio_reserved io"
      using "1.prems"(1) by (auto simp: quinn_write_loop.simps [of grow] pop_primary_buffer_def pool_pop_def True)
    with True show ?thesis using polled_none [of poll now pmtu q] by fastforce
  next
    case False
    define io1 where "io1 = io\<lparr>nio_primary := butlast (nio_primary io)\<rparr>"
    define b where "b = \<lparr>vb_vec = last (nio_primary io), vb_source = PrimaryPool\<rparr>"
    define v where "v = vec_reserve grow pmtu (vec_clear (vb_vec b))"
    have pop: "pop_primary_buffer io = (Some b, io1)"
      using False by (simp add: pop_primary_buffer_def pool_pop_def io1_def b_def)
    have len: "Suc (length (nio_primary io1)) = length (nio_primary io)" "nio_reserved io1 = nio_reserved io"
      using False by (simp_all add: io1_def)
    have pm: "pmtu \<noteq> 0" using "1.prems"(1) by (auto simp: quinn_write_loop.simps [of grow] pop Let_def split: if_splits)
    obtain t v1 q1 where poll: "poll now (rv_capacity v div pmtu) v q = (t, v1, q1)" by (cases "poll now (rv_capacity v div pmtu) v q")
    show ?thesis
    proof (cases t)
      case None
      then have "r" "q' = q1" "out' = out" "io' = vec_buf_drop (b\<lparr>vb_vec := v1\<rparr>) io1"
        using "1.prems"(1) pm poll by (simp_all add: quinn_write_loop.simps [of grow] pop v_def Let_def)
      with None poll len show ?thesis using polled_none [of poll now pmtu q] by (fastforce simp: vec_buf_drop_def b_def)
    next
      case (Some tr)
      then obtain msg where msg: "transmit_to_msg dbg io1 tr (b\<lparr>vb_vec := v1\<rparr>) = Inr msg"
        and rest: "quinn_write_loop grow poll dbg now pmtu q1 (out @ [msg]) io1 = Inr (r, q', out', io')"
        using "1.prems"(1) pm poll by (auto simp: quinn_write_loop.simps [of grow _ _ _ _ _ out] pop v_def Let_def split: sum.splits)
      note m = transmit_to_msg_eq [OF msg]
      obtain msgs ts q2 where ih: "out' = (out @ [msg]) @ msgs" "polled poll now pmtu q1 ts q2"
          "map (\<lambda>m. vb_as_slice (sm_buf m)) msgs = map snd ts" "map sm_to msgs = map (tr_destination \<circ> fst) ts"
          "\<forall>m \<in> set msgs. vb_source (sm_buf m) = PrimaryPool"
          "length (nio_primary io') + length msgs = length (nio_primary io1)" "nio_reserved io' = nio_reserved io1"
          "if r then nio_primary io' \<noteq> [] \<and> (\<exists>n v v1. poll now n v q2 = (None, v1, q')) else nio_primary io' = [] \<and> q' = q2"
        using "1.IH" [OF pop [symmetric] refl v_def pm poll [symmetric] Some refl msg rest "1.prems"(2)] by (elim exE conjE) (rule that)
      have "polled poll now pmtu q ((tr, rv_bytes v1) # ts) q2"
        using polled_some [OF _ _ _ ih(2), of v q tr v1] poll Some vec_reserve_ok [OF "1.prems"(2)] by (simp add: v_def)
      with ih len m show ?thesis
        by (intro exI [of _ "msg # msgs"] exI [of _ "(tr, rv_bytes v1) # ts"] exI [of _ q2]) (simp add: vb_as_slice_def b_def)
    qed
  qed
qed

text \<open>\<open>transmit_ok\<close>: the transmits that \<open>transmit_to_msg\<close> takes. A message of several datagrams must hold equal ones:
  if the length of what \<open>quinn_proto\<close> wrote is not a multiple of its segment size, the backend panics.\<close>

definition transmit_ok :: "bool \<Rightarrow> ip_addr \<Rightarrow> transmit \<Rightarrow> byte list \<Rightarrow> bool" where
  "transmit_ok dbg listen t bytes \<longleftrightarrow> bytes \<noteq> [] \<and> \<not> sock_unspecified (tr_destination t) \<and>
     (case tr_segment_size t of Some n \<Rightarrow> n dvd length bytes | None \<Rightarrow> True) \<and>
     (dbg \<longrightarrow> tr_size t = length bytes \<and>
       same_family (case tr_src_ip t of Some ip \<Rightarrow> ip | None \<Rightarrow> listen) (sa_ip (tr_destination t)))"

lemma transmit_to_msg_panics:
  "(\<exists>p. transmit_to_msg dbg io t buffer = Inl p) \<longleftrightarrow> \<not> transmit_ok dbg (nio_listen_addr io) t (vb_as_slice buffer)"
proof (cases "tr_segment_size t")
  case (Some n)
  have "vb_len buffer div n dvd vb_len buffer" if "n dvd vb_len buffer" using that by (metis dvd_div_mult_self dvd_triv_left)
  with Some show ?thesis
    by (auto simp: transmit_to_msg_def transmit_ok_def send_msg_new_def is_multiple_of_def vb_len_def vb_as_slice_def and_then_def panic_if_def
        dvd_eq_mod_eq_0 [symmetric])
qed (auto simp: transmit_to_msg_def transmit_ok_def send_msg_new_def vb_len_def vb_as_slice_def and_then_def panic_if_def)

lemma transmit_uneven_panics:
  assumes "tr_segment_size t = Some n" and "\<not> n dvd length bytes"
  shows "\<not> transmit_ok dbg listen t bytes"
  using assms by (simp add: transmit_ok_def)

lemma quinn_write_loop_panics:
  assumes "quinn_write_loop grow poll dbg now pmtu q out io = Inl p" and "grows grow"
  shows "nio_primary io \<noteq> [] \<and> (pmtu = 0 \<and> p = DivByZero \<or> (\<exists>ts t bytes q1. polled poll now pmtu q (ts @ [(t, bytes)]) q1 \<and>
    length ts < length (nio_primary io) \<and> \<not> transmit_ok dbg (nio_listen_addr io) t bytes))"
  using assms
proof (induction grow poll dbg now pmtu q out io rule: quinn_write_loop.induct)
  case (1 grow poll dbg now pmtu q out io)
  have ne: "nio_primary io \<noteq> []"
    using "1.prems"(1) by (auto simp: quinn_write_loop.simps [of grow] pop_primary_buffer_def pool_pop_def)
  define io1 where "io1 = io\<lparr>nio_primary := butlast (nio_primary io)\<rparr>"
  define b where "b = \<lparr>vb_vec = last (nio_primary io), vb_source = PrimaryPool\<rparr>"
  define v where "v = vec_reserve grow pmtu (vec_clear (vb_vec b))"
  have pop: "pop_primary_buffer io = (Some b, io1)" using ne by (simp add: pop_primary_buffer_def pool_pop_def io1_def b_def)
  have len: "Suc (length (nio_primary io1)) = length (nio_primary io)" "nio_listen_addr io1 = nio_listen_addr io"
    using ne by (simp_all add: io1_def)
  obtain t v1 q1 where poll: "poll now (rv_capacity v div pmtu) v q = (t, v1, q1)" by (cases "poll now (rv_capacity v div pmtu) v q")
  show ?case
  proof (cases "pmtu = 0")
    case True
    then show ?thesis using "1.prems"(1) ne by (simp add: quinn_write_loop.simps [of grow] pop Let_def)
  next
    case pm: False
    then obtain tr where tr: "t = Some tr"
      using "1.prems"(1) poll by (cases t) (simp_all add: quinn_write_loop.simps [of grow] pop v_def Let_def)
    have more: "polled poll now pmtu q ((tr, rv_bytes v1) # ts) q2" if "polled poll now pmtu q1 ts q2" for ts q2
      using polled_some [OF _ _ _ that, of v q tr v1] poll tr vec_reserve_ok [OF "1.prems"(2)] by (simp add: v_def)
    show ?thesis
    proof (cases "transmit_to_msg dbg io1 tr (b\<lparr>vb_vec := v1\<rparr>)")
      case (Inl p1)
      then have "\<not> transmit_ok dbg (nio_listen_addr io) tr (rv_bytes v1)"
        using transmit_to_msg_panics [of dbg io1 tr "b\<lparr>vb_vec := v1\<rparr>"] len by (auto simp: vb_as_slice_def)
      moreover have "polled poll now pmtu q ([] @ [(tr, rv_bytes v1)]) q1" using more [OF polled_none] by simp
      ultimately show ?thesis using ne length_greater_0_conv [of "nio_primary io"] by (metis list.size(3))
    next
      case (Inr msg)
      then have "quinn_write_loop grow poll dbg now pmtu q1 (out @ [msg]) io1 = Inl p"
        using "1.prems"(1) pm poll tr by (simp add: quinn_write_loop.simps [of grow _ _ _ _ _ out] pop v_def Let_def)
      from "1.IH" [OF pop [symmetric] refl v_def pm poll [symmetric] tr refl Inr this "1.prems"(2)] pm
      obtain ts t2 bytes q2 where ih: "polled poll now pmtu q1 (ts @ [(t2, bytes)]) q2" "length ts < length (nio_primary io1)"
        "\<not> transmit_ok dbg (nio_listen_addr io1) t2 bytes" by blast
      have "polled poll now pmtu q (((tr, rv_bytes v1) # ts) @ [(t2, bytes)]) q2" using more [OF ih(1)] by simp
      with ih(2,3) len ne show ?thesis by (metis Suc_mono length_Cons)
    qed
  qed
qed

subsection \<open>Properties\<close>


definition demo_transmit :: "byte list \<Rightarrow> transmit" where
  "demo_transmit bytes = \<lparr>tr_destination = \<lparr>sa_ip = V4 1, sa_port = 443\<rparr>, tr_ecn = None, tr_size = length bytes,
     tr_segment_size = None, tr_src_ip = None\<rparr>"

definition demo_poll :: "byte list list poll_transmit" where
  "demo_poll now n v q = (case q of [] \<Rightarrow> (None, v, q) | bytes # q1 \<Rightarrow> (Some (demo_transmit bytes), v\<lparr>rv_bytes := bytes\<rparr>, q1))"


end
