(* ===== verification/Quinn_Backend.thy ===== *)
theory Quinn_Backend
  imports Quinn_Io
begin

section \<open>The quinn backend\<close>

text \<open>
  Model of \<open>QuinnBackend\<close> in \<open>src/aquic-core/src/backend/quinn/mod.rs\<close>: its state, the handlers of what
  \<open>quinn_proto\<close> reports, and the implementation of \<open>QuicBackend\<close>. The crate \<open>quinn_proto\<close> is a parameter, the
  record \<open>quinn_env\<close>: one field per method of \<open>Connection\<close> (\<open>'n\<close>), \<open>Endpoint\<close> (\<open>'p\<close>) and \<open>Incoming\<close> (\<open>'i\<close>) that the
  backend calls, with the new state of what it mutates; \<open>'e\<close> and \<open>'f\<close> are its connection and endpoint
  events, \<open>'c\<close> and \<open>'v\<close> its client and server configurations. A buffer that a method writes into is the
  vector before and after. A connection lent by the registry is stored back after each change. The
  loops that poll \<open>quinn_proto\<close> until it has nothing more take fuel and return \<open>None\<close> when it is used up.
  \<open>debug_panic!\<close> panics in the debug profile (\<open>ne_dbg\<close>) only.
\<close>

subsection \<open>The crate \<open>quinn_proto\<close>\<close>

datatype dir = Bi | Uni

datatype quinn_stream_event =
    QOpened dir
  | QAvailable dir
  | QReadable "64 word"
  | QWritable "64 word"
  | QFinished "64 word"
  | QStopped "64 word" nat

datatype quinn_conn_error =
    QVersionMismatch
  | QTransportError nat "byte list"
  | QConnectionClosed nat "byte list"
  | QApplicationClosed nat "byte list"
  | QConnReset
  | QTimedOut
  | QLocallyClosed
  | QCidsExhausted

datatype quinn_event =
    QHandshakeDataReady
  | QConnected
  | QConnectionLost quinn_conn_error
  | QStream quinn_stream_event
  | QDatagramReceived
  | QDatagramsUnblocked

datatype ('i, 'e) quinn_dgram_event =
    QConnectionEvent connection_key 'e
  | QNewConnection 'i
  | QResponse transmit

datatype readable_error = QClosedStream | QIllegalOrderedRead

datatype read_error = QReadBlocked | QReadReset nat

datatype write_error = QWriteBlocked | QWriteStopped nat | QWriteClosed

datatype finish_error = QFinishStopped nat | QFinishClosed

datatype send_dgram_error = QUnsupportedByPeer | QDgramsDisabled | QTooLarge | QDgramBlocked "byte list"

record ('n, 'p, 'i, 'e, 'f, 'c, 'v, 's) quinn_env =
  ne_dbg :: bool
  ne_ls :: "'s lset_ops"
  ne_grow :: "nat \<Rightarrow> nat \<Rightarrow> nat"
  ne_uuid :: "32 word \<Rightarrow> byte list"
  np_is_server :: "'n \<Rightarrow> bool"
  np_is_closed :: "'n \<Rightarrow> bool"
  np_is_drained :: "'n \<Rightarrow> bool"
  np_mtu :: "'n \<Rightarrow> nat"
  np_dgram_max :: "'n \<Rightarrow> nat option"
  np_close :: "nat \<Rightarrow> nat \<Rightarrow> byte list \<Rightarrow> 'n \<Rightarrow> 'n"
  np_poll_transmit :: "'n poll_transmit"
  np_handle_timeout :: "nat \<Rightarrow> 'n \<Rightarrow> 'n"
  np_poll_timeout :: "'n \<Rightarrow> nat option \<times> 'n"
  np_handle_event :: "'e \<Rightarrow> 'n \<Rightarrow> 'n"
  np_poll_endpoint_events :: "'n \<Rightarrow> 'f option \<times> 'n"
  np_poll :: "'n \<Rightarrow> quinn_event option \<times> 'n"
  np_local_address_changed :: "'n \<Rightarrow> 'n"
  np_path_changed :: "nat \<Rightarrow> 'n \<Rightarrow> 'n"
  np_peer_identity :: "'n \<Rightarrow> byte list list option option"
  np_stream_open :: "dir \<Rightarrow> 'n \<Rightarrow> 64 word option \<times> 'n"
  np_stream_accept :: "dir \<Rightarrow> 'n \<Rightarrow> 64 word option \<times> 'n"
  np_read :: "64 word \<Rightarrow> 'n \<Rightarrow> (readable_error + unit) \<times> 'n"
  np_read_next :: "64 word \<Rightarrow> nat \<Rightarrow> 'n \<Rightarrow> (read_error + byte list option) \<times> 'n"
  np_read_end :: "64 word \<Rightarrow> 'n \<Rightarrow> 'n"
  np_write_chunks :: "64 word \<Rightarrow> byte list \<Rightarrow> 'n \<Rightarrow> (write_error + nat \<times> byte list) \<times> 'n"
  np_finish :: "64 word \<Rightarrow> 'n \<Rightarrow> finish_error option \<times> 'n"
  np_stop :: "64 word \<Rightarrow> nat \<Rightarrow> 'n \<Rightarrow> 'n"
  np_reset :: "64 word \<Rightarrow> nat \<Rightarrow> 'n \<Rightarrow> 'n"
  np_set_priority :: "64 word \<Rightarrow> int \<Rightarrow> 'n \<Rightarrow> 'n"
  np_dgram_recv :: "'n \<Rightarrow> byte list option \<times> 'n"
  np_dgram_send :: "byte list \<Rightarrow> 'n \<Rightarrow> send_dgram_error option \<times> 'n"
  np_open_connections :: "'p \<Rightarrow> nat"
  np_connect :: "nat \<Rightarrow> 'c \<Rightarrow> sock_addr \<Rightarrow> string \<Rightarrow> 'p \<Rightarrow> (string + connection_key \<times> 'n) \<times> 'p"
  np_handle :: "nat \<Rightarrow> sock_addr \<Rightarrow> ip_addr \<Rightarrow> ecn_codepoint option \<Rightarrow> byte list \<Rightarrow> rust_vec \<Rightarrow> 'p \<Rightarrow>
    ('i, 'e) quinn_dgram_event option \<times> rust_vec \<times> 'p"
  np_endpoint_event :: "connection_key \<Rightarrow> 'f \<Rightarrow> 'p \<Rightarrow> 'e option \<times> 'p"
  np_ignore :: "'i \<Rightarrow> 'p \<Rightarrow> 'p"
  np_address_validated :: "'i \<Rightarrow> bool"
  np_retry :: "'i \<Rightarrow> rust_vec \<Rightarrow> 'p \<Rightarrow> ('i + transmit) \<times> rust_vec \<times> 'p"
  np_accept :: "'i \<Rightarrow> nat \<Rightarrow> rust_vec \<Rightarrow> 'v \<Rightarrow> 'p \<Rightarrow> (transmit option \<times> quinn_conn_error + connection_key \<times> 'n) \<times> rust_vec \<times> 'p"

subsection \<open>State\<close>

record ('n, 'p, 'c, 'v, 's) quinn_backend =
  nb_client :: "'c option"
  nb_server :: "'v option"
  nb_endpoint :: 'p
  nb_conns :: "('n, 's) quinn_conns"
  nb_io :: quinn_io
  nb_time :: quinn_time
  nb_events :: "quinn_id backend_events"
  nb_open :: bool

definition nb_push :: "quinn_id backend_event list \<Rightarrow> ('n, 'p, 'c, 'v, 's) quinn_backend \<Rightarrow> ('n, 'p, 'c, 'v, 's) quinn_backend" where
  "nb_push es be = be\<lparr>nb_events := events_extend es (nb_events be)\<rparr>"

definition nb_store :: "connection_key \<Rightarrow> 'n quinn_conn \<Rightarrow> ('n, 'p, 'c, 'v, 's) quinn_backend \<Rightarrow> ('n, 'p, 'c, 'v, 's) quinn_backend" where
  "nb_store key c be = be\<lparr>nb_conns := quinn_put key c (nb_conns be)\<rparr>"

definition nb_find :: "quinn_id \<Rightarrow> ('n, 'p, 'c, 'v, 's) quinn_backend \<Rightarrow> 'n quinn_conn option" where
  "nb_find cid be = quinn_get cid (nb_conns be)"

definition quinn_is_open :: "('n, 'p, 'i, 'e, 'f, 'c, 'v, 's) quinn_env \<Rightarrow> 'n quinn_conn \<Rightarrow> bool" where
  "quinn_is_open env c \<longleftrightarrow> \<not> np_is_closed env (nc_inner c) \<and> \<not> np_is_drained env (nc_inner c)"

definition nb_mark :: "('n, 'p, 'i, 'e, 'f, 'c, 'v, 's) quinn_env \<Rightarrow> quinn_id \<Rightarrow> ('n, 'p, 'c, 'v, 's) quinn_backend \<Rightarrow>
    'n quinn_conn option \<times> ('n, 'p, 'c, 'v, 's) quinn_backend" where
  "nb_mark env cid be = (let (c, cs) = quinn_get_mark_active (ne_ls env) cid (nb_conns be) in (c, be\<lparr>nb_conns := cs\<rparr>))"

definition nb_mark_open :: "('n, 'p, 'i, 'e, 'f, 'c, 'v, 's) quinn_env \<Rightarrow> quinn_id \<Rightarrow> ('n, 'p, 'c, 'v, 's) quinn_backend \<Rightarrow>
    'n quinn_conn option \<times> ('n, 'p, 'c, 'v, 's) quinn_backend" where
  "nb_mark_open env cid be =
     (let (c, cs) = quinn_get_mark_active_if (ne_ls env) (quinn_is_open env) cid (nb_conns be) in (c, be\<lparr>nb_conns := cs\<rparr>))"

definition opt_conn_event :: "'d connection_event option \<Rightarrow> 'd backend_event list" where
  "opt_conn_event e = (case e of None \<Rightarrow> [] | Some x \<Rightarrow> [ConnectionEv x])"

definition opt_dgram_event :: "'d datagram_event option \<Rightarrow> 'd backend_event list" where
  "opt_dgram_event e = (case e of None \<Rightarrow> [] | Some x \<Rightarrow> [DatagramEv x])"

subsection \<open>Scheduling, registering, forgetting\<close>

definition schedule_quinn_timeout ::
  "('n, 'p, 'i, 'e, 'f, 'c, 'v, 's) quinn_env \<Rightarrow> quinn_id \<Rightarrow> nat option \<Rightarrow> ('n, 'p, 'c, 'v, 's) quinn_backend \<Rightarrow> panic + ('n, 'p, 'c, 'v, 's) quinn_backend" where
  "schedule_quinn_timeout env cid timeout_at be = (case nb_find cid be of
     None \<Rightarrow> Inr be
   | Some c \<Rightarrow>
       let (at, c1) = (case timeout_at of
             Some t \<Rightarrow> (Some t, c)
           | None \<Rightarrow> let (t, q) = np_poll_timeout env (nc_inner c) in (t, c\<lparr>nc_inner := q\<rparr>))
       in case at of
            None \<Rightarrow> Inr (nb_store (ni_key cid) c1 be)
          | Some t \<Rightarrow>
              let (previous, c2) = quinn_pop_timer_key c1 in
              and_then (quinn_time_reschedule (ne_dbg env) cid t previous (nb_time be)) (\<lambda>(key, tm).
                Inr (nb_store (ni_key cid) (quinn_set_timer_key (Some key) c2) (be\<lparr>nb_time := tm\<rparr>))))"

definition quinn_register ::
  "('n, 'p, 'i, 'e, 'f, 'c, 'v, 's) quinn_env \<Rightarrow> connection_key \<Rightarrow> 'n \<Rightarrow> ('n, 'p, 'c, 'v, 's) quinn_backend \<Rightarrow>
   panic + (quinn_id \<times> ('n, 'p, 'c, 'v, 's) quinn_backend)" where
  "quinn_register env key q be =
     (let (cid, cs) = quinn_insert_raw (ne_ls env) (ne_uuid env (nx_version (nb_conns be))) key q (nb_conns be)
      in and_then (schedule_quinn_timeout env cid None (be\<lparr>nb_conns := cs\<rparr>)) (\<lambda>be1.
           Inr (cid, nb_push [ConnectionEv (EvNew cid (np_is_server env q))] be1)))"

definition no_close_reason :: "byte list" where
  "no_close_reason = map of_char ''close event should've been already produced''"

definition quinn_forget ::
  "('n, 'p, 'i, 'e, 'f, 'c, 'v, 's) quinn_env \<Rightarrow> quinn_id \<Rightarrow> ('n, 'p, 'c, 'v, 's) quinn_backend \<Rightarrow> panic + ('n, 'p, 'c, 'v, 's) quinn_backend" where
  "quinn_forget env cid be = (case quinn_remove (ne_ls env) cid (nb_conns be) of
     (None, cs) \<Rightarrow> Inr (be\<lparr>nb_conns := cs\<rparr>)
   | (Some c, cs) \<Rightarrow>
       let (event, c1) = quinn_halt_event (ni_key cid) (HaltError no_close_reason) c
       in and_then (panic_if (ne_dbg env \<and> event \<noteq> None) ExplicitPanic) (\<lambda>_.
          and_then (quinn_time_cancel_all c1 (nb_time be)) (\<lambda>(_, tm).
            Inr (nb_push (opt_conn_event event) (be\<lparr>nb_conns := cs, nb_time := tm\<rparr>)))))"

subsection \<open>Scheduled events\<close>

definition quinn_timeout_fired ::
  "('n, 'p, 'i, 'e, 'f, 'c, 'v, 's) quinn_env \<Rightarrow> quinn_id \<Rightarrow> ('n, 'p, 'c, 'v, 's) quinn_backend \<Rightarrow> ('n, 'p, 'c, 'v, 's) quinn_backend" where
  "quinn_timeout_fired env cid be = (case nb_mark env cid be of
     (None, be1) \<Rightarrow> be1
   | (Some c, be1) \<Rightarrow> nb_store (ni_key cid) (c\<lparr>nc_inner := np_handle_timeout env (nt_clock (nb_time be1)) (nc_inner c)\<rparr>) be1)"

text \<open>Both the buckets and the events of a bucket are popped from the end.\<close>

definition quinn_handle_scheduled ::
  "('n, 'p, 'i, 'e, 'f, 'c, 'v, 's) quinn_env \<Rightarrow> ('n, 'p, 'c, 'v, 's) quinn_backend \<Rightarrow> ('n, 'p, 'c, 'v, 's) quinn_backend" where
  "quinn_handle_scheduled env be =
     fold (\<lambda>event. case event of None \<Rightarrow> (\<lambda>be. be) | Some cid \<Rightarrow> quinn_timeout_fired env cid)
       (concat (map (rev \<circ> bk_elements) (rev (nt_fired (nb_time be))))) (be\<lparr>nb_time := (nb_time be)\<lparr>nt_fired := []\<rparr>\<rparr>)"

subsection \<open>Events of a connection\<close>

definition lost_event :: "connection_key \<Rightarrow> quinn_conn_error \<Rightarrow> 'n quinn_conn \<Rightarrow> quinn_id connection_event option \<times> 'n quinn_conn" where
  "lost_event key err c = (case err of
     QVersionMismatch \<Rightarrow> quinn_halt_event key UnknownVersion c
   | QTransportError code reason \<Rightarrow> quinn_close_event key code reason False True c
   | QConnectionClosed code reason \<Rightarrow> quinn_close_event key code reason False False c
   | QApplicationClosed code reason \<Rightarrow> quinn_close_event key code reason True False c
   | QTimedOut \<Rightarrow> quinn_halt_event key HaltTimeout c
   | QConnReset \<Rightarrow> quinn_halt_event key StatelessReset c
   | QCidsExhausted \<Rightarrow> quinn_halt_event key (HaltError (map of_char ''not enough CID space'')) c
   | QLocallyClosed \<Rightarrow> (None, c))"

definition quinn_connection_lost ::
  "('n, 'p, 'i, 'e, 'f, 'c, 'v, 's) quinn_env \<Rightarrow> quinn_id \<Rightarrow> quinn_conn_error \<Rightarrow> ('n, 'p, 'c, 'v, 's) quinn_backend \<Rightarrow> panic + ('n, 'p, 'c, 'v, 's) quinn_backend" where
  "quinn_connection_lost env cid err be = (case nb_mark env cid be of
     (None, be1) \<Rightarrow> Inr be1
   | (Some c, be1) \<Rightarrow>
       let (event, c1) = lost_event (ni_key cid) err c;
           be2 = nb_push (opt_conn_event event) (nb_store (ni_key cid) c1 be1)
       in if np_is_drained env (nc_inner c1) then quinn_forget env cid be2 else Inr be2)"

definition quinn_stream_event ::
  "('n, 'p, 'i, 'e, 'f, 'c, 'v, 's) quinn_env \<Rightarrow> quinn_id \<Rightarrow> quinn_stream_event \<Rightarrow> ('n, 'p, 'c, 'v, 's) quinn_backend \<Rightarrow> panic + ('n, 'p, 'c, 'v, 's) quinn_backend" where
  "quinn_stream_event env cid event be = (case nb_mark env cid be of
     (None, be1) \<Rightarrow> Inr be1
   | (Some c, be1) \<Rightarrow>
       let available = (\<lambda>n be. and_then (sid_from_quinn n) (\<lambda>s. Inr (nb_push [StreamEv (EvAvailable cid s)] be))) in
       case event of
         QOpened d \<Rightarrow>
           (case np_stream_accept env d (nc_inner c) of
              (None, q) \<Rightarrow> Inr (nb_store (ni_key cid) (c\<lparr>nc_inner := q\<rparr>) be1)
            | (Some n, q) \<Rightarrow> available n (nb_store (ni_key cid) (c\<lparr>nc_inner := q\<rparr>) be1))
       | QAvailable d \<Rightarrow> Inr (nb_push [ConnectionEv (EvStreamsAvailable cid (d = Bi))] be1)
       | QReadable n \<Rightarrow> available n be1
       | QWritable n \<Rightarrow> available n be1
       | QFinished n \<Rightarrow> available n be1
       | QStopped n code \<Rightarrow> and_then (sid_from_quinn n) (\<lambda>s. Inr (nb_push [StreamEv (EvReset cid s code)] be1)))"

definition quinn_polled_event ::
  "('n, 'p, 'i, 'e, 'f, 'c, 'v, 's) quinn_env \<Rightarrow> quinn_id \<Rightarrow> quinn_event \<Rightarrow> ('n, 'p, 'c, 'v, 's) quinn_backend \<Rightarrow> panic + ('n, 'p, 'c, 'v, 's) quinn_backend" where
  "quinn_polled_event env cid event be = (case event of
     QConnected \<Rightarrow> Inr (nb_push [ConnectionEv (EvEstablished cid)] be)
   | QConnectionLost reason \<Rightarrow> quinn_connection_lost env cid reason be
   | QStream stream_event \<Rightarrow> quinn_stream_event env cid stream_event be
   | QDatagramReceived \<Rightarrow> Inr (nb_push [DatagramEv (EvInAvailable cid)] be)
   | QDatagramsUnblocked \<Rightarrow> Inr (nb_push [DatagramEv (EvOutAvailable cid)] be)
   | QHandshakeDataReady \<Rightarrow> Inr be)"

fun quinn_poll_loop ::
  "('n, 'p, 'i, 'e, 'f, 'c, 'v, 's) quinn_env \<Rightarrow> nat \<Rightarrow> quinn_id \<Rightarrow> ('n, 'p, 'c, 'v, 's) quinn_backend \<Rightarrow> (panic + (bool \<times> ('n, 'p, 'c, 'v, 's) quinn_backend)) option" where
  "quinn_poll_loop env 0 cid be = None"
| "quinn_poll_loop env (Suc n) cid be = (case nb_find cid be of
     None \<Rightarrow> Some (Inr (False, be))
   | Some c \<Rightarrow>
       (case np_poll env (nc_inner c) of
          (None, q) \<Rightarrow> Some (Inr (True, nb_store (ni_key cid) (c\<lparr>nc_inner := q\<rparr>) be))
        | (Some event, q) \<Rightarrow>
            (case quinn_polled_event env cid event (nb_store (ni_key cid) (c\<lparr>nc_inner := q\<rparr>) be) of
               Inl p \<Rightarrow> Some (Inl p)
             | Inr be1 \<Rightarrow> quinn_poll_loop env n cid be1)))"

fun drain_endpoint_events ::
  "('n, 'p, 'i, 'e, 'f, 'c, 'v, 's) quinn_env \<Rightarrow> nat \<Rightarrow> connection_key \<Rightarrow> 'e option \<Rightarrow> 'n \<Rightarrow> 'p \<Rightarrow> ('e option \<times> 'n \<times> 'p) option" where
  "drain_endpoint_events env 0 key next_event q p = None"
| "drain_endpoint_events env (Suc n) key next_event q p = (case np_poll_endpoint_events env q of
     (None, q1) \<Rightarrow> Some (next_event, q1, p)
   | (Some f, q1) \<Rightarrow>
       let (e, p1) = np_endpoint_event env key f p
       in drain_endpoint_events env n key (case e of Some x \<Rightarrow> Some x | None \<Rightarrow> next_event) q1 p1)"

fun feed_connection_event ::
  "('n, 'p, 'i, 'e, 'f, 'c, 'v, 's) quinn_env \<Rightarrow> nat \<Rightarrow> connection_key \<Rightarrow> 'e \<Rightarrow> 'n \<Rightarrow> 'p \<Rightarrow> ('n \<times> 'p) option" where
  "feed_connection_event env 0 key e q p = None"
| "feed_connection_event env (Suc n) key e q p = (case drain_endpoint_events env n key None (np_handle_event env e q) p of
     None \<Rightarrow> None
   | Some (None, q1, p1) \<Rightarrow> Some (q1, p1)
   | Some (Some e1, q1, p1) \<Rightarrow> feed_connection_event env n key e1 q1 p1)"

definition quinn_after_poll ::
  "('n, 'p, 'i, 'e, 'f, 'c, 'v, 's) quinn_env \<Rightarrow> quinn_id \<Rightarrow> ('n, 'p, 'c, 'v, 's) quinn_backend \<Rightarrow> panic + ('n, 'p, 'c, 'v, 's) quinn_backend" where
  "quinn_after_poll env cid be = (case nb_find cid be of
     None \<Rightarrow> Inr be
   | Some c \<Rightarrow>
       if np_is_drained env (nc_inner c) then quinn_forget env cid be
       else let (event, c1) = quinn_dgram_size_event (np_dgram_max env) (ni_key cid) c
            in schedule_quinn_timeout env cid None (nb_push (opt_dgram_event event) (nb_store (ni_key cid) c1 be)))"

definition quinn_connection_event ::
  "('n, 'p, 'i, 'e, 'f, 'c, 'v, 's) quinn_env \<Rightarrow> nat \<Rightarrow> connection_key \<Rightarrow> 'e \<Rightarrow> ('n, 'p, 'c, 'v, 's) quinn_backend \<Rightarrow>
   (panic + ('n, 'p, 'c, 'v, 's) quinn_backend) option" where
  "quinn_connection_event env fuel key e be = (case quinn_get_mark_active_raw (ne_ls env) key (nb_conns be) of
     (None, cs) \<Rightarrow> Some (Inr (be\<lparr>nb_conns := cs\<rparr>))
   | (Some c, cs) \<Rightarrow>
       (case feed_connection_event env fuel key e (nc_inner c) (nb_endpoint be) of
          None \<Rightarrow> None
        | Some (q, p) \<Rightarrow>
            let cid = quinn_id_of key c in
            (case quinn_poll_loop env fuel cid (nb_store key (c\<lparr>nc_inner := q\<rparr>) (be\<lparr>nb_conns := cs, nb_endpoint := p\<rparr>)) of
               None \<Rightarrow> None
             | Some (Inl pn) \<Rightarrow> Some (Inl pn)
             | Some (Inr (False, be1)) \<Rightarrow> Some (Inr be1)
             | Some (Inr (True, be1)) \<Rightarrow> Some (quinn_after_poll env cid be1))))"

subsection \<open>Datagrams\<close>

definition quinn_new_connection ::
  "('n, 'p, 'i, 'e, 'f, 'c, 'v, 's) quinn_env \<Rightarrow> 'i \<Rightarrow> vec_buf \<Rightarrow> vec_buf send_msg list \<Rightarrow> ('n, 'p, 'c, 'v, 's) quinn_backend \<Rightarrow>
   panic + (vec_buf send_msg list \<times> ('n, 'p, 'c, 'v, 's) quinn_backend)" where
  "quinn_new_connection env incoming buffer out be =
     (let drop_buffer = (\<lambda>v be. be\<lparr>nb_io := vec_buf_drop (buffer\<lparr>vb_vec := v\<rparr>) (nb_io be)\<rparr>) in
      case nb_server be of
        None \<Rightarrow> Inr (out, drop_buffer (vb_vec buffer) (be\<lparr>nb_endpoint := np_ignore env incoming (nb_endpoint be)\<rparr>))
      | Some server_config \<Rightarrow>
          if \<not> np_address_validated env incoming then
            (case np_retry env incoming (vb_vec buffer) (nb_endpoint be) of
               (Inr response, v, p) \<Rightarrow>
                 and_then (write_response (ne_dbg env) response (buffer\<lparr>vb_vec := v\<rparr>) out (nb_io be)) (\<lambda>out1.
                   Inr (out1, be\<lparr>nb_endpoint := p\<rparr>))
             | (Inl incoming1, v, p) \<Rightarrow>
                 and_then (panic_if (ne_dbg env) ExplicitPanic) (\<lambda>_.
                   Inr (out, drop_buffer v (be\<lparr>nb_endpoint := np_ignore env incoming1 p\<rparr>))))
          else
            (case np_accept env incoming (nt_clock (nb_time be)) (vb_vec buffer) server_config (nb_endpoint be) of
               (Inr (key, q), v, p) \<Rightarrow>
                 and_then (quinn_register env key q (be\<lparr>nb_endpoint := p\<rparr>)) (\<lambda>(_, be1). Inr (out, drop_buffer v be1))
             | (Inl (Some response, _), v, p) \<Rightarrow>
                 and_then (write_response (ne_dbg env) response (buffer\<lparr>vb_vec := v\<rparr>) out (nb_io be)) (\<lambda>out1.
                   Inr (out1, be\<lparr>nb_endpoint := p\<rparr>))
             | (Inl (None, _), v, p) \<Rightarrow> Inr (out, drop_buffer v (be\<lparr>nb_endpoint := p\<rparr>))))"

definition quinn_datagram_event ::
  "('n, 'p, 'i, 'e, 'f, 'c, 'v, 's) quinn_env \<Rightarrow> nat \<Rightarrow> ('i, 'e) quinn_dgram_event \<Rightarrow> vec_buf \<Rightarrow> vec_buf send_msg list \<Rightarrow> ('n, 'p, 'c, 'v, 's) quinn_backend \<Rightarrow>
   (panic + (vec_buf send_msg list \<times> ('n, 'p, 'c, 'v, 's) quinn_backend)) option" where
  "quinn_datagram_event env fuel event buffer out be = (case event of
     QConnectionEvent key e \<Rightarrow>
       map_option (\<lambda>r. and_then r (\<lambda>be1. Inr (out, be1\<lparr>nb_io := vec_buf_drop buffer (nb_io be1)\<rparr>))) (quinn_connection_event env fuel key e be)
   | QResponse t \<Rightarrow> Some (and_then (write_response (ne_dbg env) t buffer out (nb_io be)) (\<lambda>out1. Inr (out1, be)))
   | QNewConnection incoming \<Rightarrow> Some (quinn_new_connection env incoming buffer out be))"

definition quinn_recv_packet ::
  "('n, 'p, 'i, 'e, 'f, 'c, 'v, 's) quinn_env \<Rightarrow> nat \<Rightarrow> packet \<Rightarrow> vec_buf \<Rightarrow> vec_buf send_msg list \<Rightarrow> ('n, 'p, 'c, 'v, 's) quinn_backend \<Rightarrow>
   (panic + (vec_buf send_msg list \<times> ('n, 'p, 'c, 'v, 's) quinn_backend)) option" where
  "quinn_recv_packet env fuel pk buffer out be =
     (case np_handle env (nt_clock (nb_time be)) (pk_from pk) (pk_to pk) (ecn_to_quinn (pk_ecn pk)) (pk_payload pk) (vb_vec buffer) (nb_endpoint be) of
        (Some event, v, p) \<Rightarrow> quinn_datagram_event env fuel event (buffer\<lparr>vb_vec := vec_clear v\<rparr>) out (be\<lparr>nb_endpoint := p\<rparr>)
      | (None, v, p) \<Rightarrow> Some (Inr (out, be\<lparr>nb_endpoint := p, nb_io := vec_buf_drop (buffer\<lparr>vb_vec := v\<rparr>) (nb_io be)\<rparr>)))"

fun quinn_recv ::
  "('n, 'p, 'i, 'e, 'f, 'c, 'v, 's) quinn_env \<Rightarrow> nat \<Rightarrow> flatten_iter \<Rightarrow> vec_buf send_msg list \<Rightarrow> ('n, 'p, 'c, 'v, 's) quinn_backend \<Rightarrow>
   (panic + (flatten_iter \<times> vec_buf send_msg list \<times> ('n, 'p, 'c, 'v, 's) quinn_backend)) option" where
  "quinn_recv env 0 it out be = None"
| "quinn_recv env (Suc n) it out be = (case flatten_peek (ne_dbg env) it of
     Inl p \<Rightarrow> Some (Inl p)
   | Inr (None, it1) \<Rightarrow> Some (Inr (it1, out, be))
   | Inr (Some pk, it1) \<Rightarrow>
       (case pop_reserved_buffer (nb_io be) of
          (None, io) \<Rightarrow> Some (Inr (it1, out, be\<lparr>nb_io := io\<rparr>))
        | (Some buffer, io) \<Rightarrow>
            (case quinn_recv_packet env n pk buffer out (be\<lparr>nb_io := io\<rparr>) of
               None \<Rightarrow> None
             | Some (Inl p) \<Rightarrow> Some (Inl p)
             | Some (Inr (out1, be1)) \<Rightarrow>
                 (case flatten_next (ne_dbg env) it1 of
                    Inl p \<Rightarrow> Some (Inl p)
                  | Inr it2 \<Rightarrow> quinn_recv env n it2 out1 be1))))"

fun quinn_send_loop ::
  "('n, 'p, 'i, 'e, 'f, 'c, 'v, 's) quinn_env \<Rightarrow> nat \<Rightarrow> vec_buf send_msg list \<Rightarrow> ('n, 'p, 'c, 'v, 's) quinn_backend \<Rightarrow>
   (panic + (vec_buf send_msg list \<times> ('n, 'p, 'c, 'v, 's) quinn_backend)) option" where
  "quinn_send_loop env 0 out be = None"
| "quinn_send_loop env (Suc n) out be = (case quinn_peek_active (ne_ls env) (nb_conns be) of
     (None, cs) \<Rightarrow> Some (Inr (out, be\<lparr>nb_conns := cs\<rparr>))
   | (Some (cid, c), cs) \<Rightarrow>
       let be1 = be\<lparr>nb_conns := cs\<rparr>;
           next_conn = (\<lambda>be. be\<lparr>nb_conns := quinn_next_active (ne_ls env) (nb_conns be)\<rparr>)
       in if \<not> has_primary_buffer (nb_io be1) then Some (Inr (out, be1))
          else if np_is_drained env (nc_inner c) then
            (case quinn_forget env cid be1 of Inl p \<Rightarrow> Some (Inl p) | Inr be2 \<Rightarrow> quinn_send_loop env n out (next_conn be2))
          else (case quinn_write_pending (ne_grow env) (np_poll_transmit env) (np_mtu env) (ne_dbg env) (nt_clock (nb_time be1)) c out (nb_io be1) of
              Inl p \<Rightarrow> Some (Inl p)
            | Inr (complete, c1, out1, io) \<Rightarrow>
                let be2 = nb_store (ni_key cid) c1 (be1\<lparr>nb_io := io\<rparr>) in
                if \<not> complete then Some (Inr (out1, be2))
                else (case schedule_quinn_timeout env cid None (next_conn be2) of
                        Inl p \<Rightarrow> Some (Inl p)
                      | Inr be3 \<Rightarrow> quinn_send_loop env n out1 be3)))"

definition quinn_send ::
  "('n, 'p, 'i, 'e, 'f, 'c, 'v, 's) quinn_env \<Rightarrow> vec_buf send_msg list \<Rightarrow> ('n, 'p, 'c, 'v, 's) quinn_backend \<Rightarrow>
   (panic + (vec_buf send_msg list \<times> ('n, 'p, 'c, 'v, 's) quinn_backend)) option" where
  "quinn_send env out be =
     (let be1 = quinn_handle_scheduled env be in quinn_send_loop env (Suc (ls_len (ne_ls env) (nx_active (nb_conns be1)))) out be1)"

end
