(* ===== verification/Quinn_Api.thy ===== *)
theory Quinn_Api
  imports Quinn_Backend
begin

section \<open>The interface of the quinn backend\<close>

text \<open>
  Model of the implementation of \<open>QuicBackend\<close> for \<open>QuinnBackend\<close> in \<open>src/aquic-core/src/backend/quinn/mod.rs\<close>
  (\<open>send\<close> and \<open>recv\<close> are in \<open>Quinn_Backend\<close>). A \<open>Result\<close> is a sum with the error on the left; a panic is the
  left side of the outer sum. \<open>close_prepare\<close> has an empty body and is left out.
\<close>

subsection \<open>Opening and closing\<close>

definition quinn_new ::
  "('n, 'p, 'i, 'e, 'f, 'c, 'v, 's) quinn_env \<Rightarrow> ('d \<Rightarrow> 'v option \<Rightarrow> bool \<Rightarrow> 'p) \<Rightarrow> ('c, 'v, 'd) quinn_config \<Rightarrow> ip_addr \<Rightarrow>
   bool \<Rightarrow> bool \<Rightarrow> bool \<Rightarrow> nat \<Rightarrow> panic + ('n, 'p, 'c, 'v, 's) quinn_backend" where
  "quinn_new env endpoint_new config listen_addr mmsg gso dont_fragment clock =
     (let cf = quinn_config_fix config in
      and_then (quinn_time_new clock) (\<lambda>tm. Inr
        \<lparr>nb_client = qc_client cf, nb_server = qc_server cf, nb_endpoint = endpoint_new (qc_endpoint cf) (qc_server cf) dont_fragment,
         nb_conns = quinn_conns_new (ne_ls env), nb_io = quinn_io_new (ne_grow env) cf listen_addr mmsg gso,
         nb_time = tm, nb_events = [], nb_open = True\<rparr>))"

definition quinn_clock_update :: "nat \<Rightarrow> ('n, 'p, 'c, 'v, 's) quinn_backend \<Rightarrow> ('n, 'p, 'c, 'v, 's) quinn_backend" where
  "quinn_clock_update clock be = be\<lparr>nb_time := quinn_update_clock clock (nb_time be)\<rparr>"

definition quinn_tick :: "('n, 'p, 'c, 'v, 's) quinn_backend \<Rightarrow> (panic + ((nat \<times> bool) \<times> ('n, 'p, 'c, 'v, 's) quinn_backend)) option" where
  "quinn_tick be = map_option (\<lambda>r. and_then r (\<lambda>(res, tm). Inr (res, be\<lparr>nb_time := tm\<rparr>))) (quinn_time_tick (nb_time be))"

definition quinn_close_ready :: "('n, 'p, 'i, 'e, 'f, 'c, 'v, 's) quinn_env \<Rightarrow> ('n, 'p, 'c, 'v, 's) quinn_backend \<Rightarrow> bool" where
  "quinn_close_ready env be \<longleftrightarrow> np_open_connections env (nb_endpoint be) = 0"

definition quinn_visit_all ::
  "('n, 'p, 'i, 'e, 'f, 'c, 'v, 's) quinn_env \<Rightarrow> (connection_key \<Rightarrow> 'n quinn_conn \<Rightarrow> panic + (quinn_id backend_event list \<times> 'n quinn_conn)) \<Rightarrow>
   ('n, 'p, 'c, 'v, 's) quinn_backend \<Rightarrow> panic + ('n, 'p, 'c, 'v, 's) quinn_backend" where
  "quinn_visit_all env body be =
     and_then (quinn_all_iter_mark_active (ne_ls env) body (nb_events be) (nb_conns be)) (\<lambda>(es, cs).
       Inr (be\<lparr>nb_events := es, nb_conns := cs\<rparr>))"

definition quinn_close ::
  "('n, 'p, 'i, 'e, 'f, 'c, 'v, 's) quinn_env \<Rightarrow> nat \<Rightarrow> byte list \<Rightarrow> ('n, 'p, 'c, 'v, 's) quinn_backend \<Rightarrow> panic + ('n, 'p, 'c, 'v, 's) quinn_backend" where
  "quinn_close env err reason be =
     (if \<not> nb_open be then Inr be
      else quinn_visit_all env (\<lambda>_ c. and_then (u64_into_varint err) (\<lambda>code.
          Inr ([], c\<lparr>nc_inner := np_close env (nt_clock (nb_time be)) code reason (nc_inner c)\<rparr>))) (be\<lparr>nb_open := False\<rparr>))"

definition quinn_connect ::
  "('n, 'p, 'i, 'e, 'f, 'c, 'v, 's) quinn_env \<Rightarrow> string \<Rightarrow> sock_addr \<Rightarrow> ('n, 'p, 'c, 'v, 's) quinn_backend \<Rightarrow>
   panic + ((backend_error + quinn_id) \<times> ('n, 'p, 'c, 'v, 's) quinn_backend)" where
  "quinn_connect env server_name peer_addr be =
     (if \<not> nb_open be then Inr (Inl ErrClosed, be)
      else case nb_client be of
        None \<Rightarrow> Inr (Inl Illegal, be)
      | Some client_config \<Rightarrow>
          (case np_connect env (nt_clock (nb_time be)) client_config peer_addr server_name (nb_endpoint be) of
             (Inl e, p) \<Rightarrow> Inr (Inl (OtherError e), be\<lparr>nb_endpoint := p\<rparr>)
           | (Inr (key, q), p) \<Rightarrow> and_then (quinn_register env key q (be\<lparr>nb_endpoint := p\<rparr>)) (\<lambda>(cid, be1). Inr (Inr cid, be1))))"

definition quinn_connection_close ::
  "('n, 'p, 'i, 'e, 'f, 'c, 'v, 's) quinn_env \<Rightarrow> quinn_id \<Rightarrow> nat \<Rightarrow> byte list \<Rightarrow> ('n, 'p, 'c, 'v, 's) quinn_backend \<Rightarrow>
   panic + ((backend_error + unit) \<times> ('n, 'p, 'c, 'v, 's) quinn_backend)" where
  "quinn_connection_close env cid err reason be =
     (if \<not> nb_open be then Inr (Inl ErrClosed, be)
      else case nb_mark_open env cid be of
        (None, be1) \<Rightarrow> Inr (Inl UnknownConnection, be1)
      | (Some c, be1) \<Rightarrow>
          and_then (u64_into_varint err) (\<lambda>code.
            let c1 = c\<lparr>nc_inner := np_close env (nt_clock (nb_time be1)) code reason (nc_inner c)\<rparr>;
                (event, c2) = quinn_close_event (ni_key cid) err reason True True c1
            in Inr (Inr (), nb_push (opt_conn_event event) (nb_store (ni_key cid) c2 be1))))"

definition quinn_migrate_network ::
  "('n, 'p, 'i, 'e, 'f, 'c, 'v, 's) quinn_env \<Rightarrow> ip_addr option \<Rightarrow> ('n, 'p, 'c, 'v, 's) quinn_backend \<Rightarrow>
   panic + ((backend_error + unit) \<times> ('n, 'p, 'c, 'v, 's) quinn_backend)" where
  "quinn_migrate_network env new_listen_addr be =
     (if \<not> nb_open be then Inr (Inl ErrClosed, be)
      else if (case new_listen_addr of Some ip \<Rightarrow> ip_unspecified ip | None \<Rightarrow> False) then Inr (Inl Illegal, be)
      else let be1 = (case new_listen_addr of Some ip \<Rightarrow> be\<lparr>nb_io := quinn_update_socket_addr ip (nb_io be)\<rparr> | None \<Rightarrow> be)
           in and_then (quinn_visit_all env (\<lambda>key c.
                let c1 = c\<lparr>nc_inner := np_path_changed env (nt_clock (nb_time be1)) (np_local_address_changed env (nc_inner c))\<rparr>;
                    (event, c2) = quinn_dgram_size_event (np_dgram_max env) key c1
                in Inr (opt_dgram_event event, c2)) be1) (\<lambda>be2. Inr (Inr (), be2)))"

definition quinn_peer_cert_chain ::
  "('n, 'p, 'i, 'e, 'f, 'c, 'v, 's) quinn_env \<Rightarrow> quinn_id \<Rightarrow> ('n, 'p, 'c, 'v, 's) quinn_backend \<Rightarrow> backend_error + byte list list" where
  "quinn_peer_cert_chain env cid be =
     (if \<not> nb_open be then Inl ErrClosed
      else case nb_find cid be of
        None \<Rightarrow> Inl UnknownConnection
      | Some c \<Rightarrow>
          (case np_peer_identity env (nc_inner c) of
             None \<Rightarrow> Inr []
           | Some None \<Rightarrow> Inl (OtherError ''unable to cast peer_identity'')
           | Some (Some certificates) \<Rightarrow> Inr certificates))"

subsection \<open>Streams\<close>

text \<open>\<open>out[offset..chunk.bytes.len()].copy_from_slice(chunk.bytes.as_ref())\<close>: the range must be one of \<open>out\<close>, and
  the two slices must have the same length.\<close>

definition copy_chunk :: "nat \<Rightarrow> byte list \<Rightarrow> byte list \<Rightarrow> panic + byte list" where
  "copy_chunk offset chunk out =
     and_then (panic_if (length chunk < offset \<or> length out < length chunk) IndexOutOfBounds) (\<lambda>_.
     and_then (panic_if (length chunk - offset \<noteq> length chunk) ExplicitPanic) (\<lambda>_.
       Inr (splice offset chunk out)))"

fun read_chunks ::
  "('n, 'p, 'i, 'e, 'f, 'c, 'v, 's) quinn_env \<Rightarrow> nat \<Rightarrow> 64 word \<Rightarrow> nat \<Rightarrow> byte list \<Rightarrow> 'n \<Rightarrow>
   (panic + ((backend_error + nat \<times> bool) \<times> byte list \<times> 'n)) option" where
  "read_chunks env 0 stream offset out q = None"
| "read_chunks env (Suc n) stream offset out q =
     (if \<not> offset < length out then Some (Inr (Inr (offset, False), out, q))
      else case np_read_next env stream (length out - offset) q of
        (Inr (Some chunk), q1) \<Rightarrow>
          (case copy_chunk offset chunk out of
             Inl p \<Rightarrow> Some (Inl p)
           | Inr out1 \<Rightarrow> read_chunks env n stream (offset + length chunk) out1 q1)
      | (Inr None, q1) \<Rightarrow> Some (Inr (Inr (offset, True), out, q1))
      | (Inl QReadBlocked, q1) \<Rightarrow> Some (Inr (Inr (offset, False), out, q1))
      | (Inl (QReadReset code), q1) \<Rightarrow> Some (Inr (Inl (StreamReset code), out, q1)))"

definition quinn_stream_recv ::
  "('n, 'p, 'i, 'e, 'f, 'c, 'v, 's) quinn_env \<Rightarrow> nat \<Rightarrow> quinn_id \<Rightarrow> stream_id \<Rightarrow> byte list \<Rightarrow> ('n, 'p, 'c, 'v, 's) quinn_backend \<Rightarrow>
   (panic + ((backend_error + nat \<times> bool) \<times> byte list \<times> ('n, 'p, 'c, 'v, 's) quinn_backend)) option" where
  "quinn_stream_recv env fuel cid sid out be =
     (if \<not> nb_open be then Some (Inr (Inl ErrClosed, out, be))
      else if is_client sid \<and> is_uni sid then Some (Inr (Inl Illegal, out, be))
      else if out = [] then Some (Inr (Inl BufferSize, out, be))
      else case nb_mark_open env cid be of
        (None, be1) \<Rightarrow> Some (Inr (Inl UnknownConnection, out, be1))
      | (Some c, be1) \<Rightarrow>
          (case sid_to_quinn sid of
             Inl p \<Rightarrow> Some (Inl p)
           | Inr stream \<Rightarrow>
               (case np_read env stream (nc_inner c) of
                  (Inl QClosedStream, q) \<Rightarrow> Some (Inr (Inl UnknownStream, out, nb_store (ni_key cid) (c\<lparr>nc_inner := q\<rparr>) be1))
                | (Inl QIllegalOrderedRead, q) \<Rightarrow>
                    Some (and_then (panic_if (ne_dbg env) ExplicitPanic) (\<lambda>_.
                      Inr (Inl (OtherError ''ordered read after unordered read''), out, nb_store (ni_key cid) (c\<lparr>nc_inner := q\<rparr>) be1)))
                | (Inr _, q) \<Rightarrow>
                    map_option (\<lambda>r. and_then r (\<lambda>(res, out1, q1).
                      Inr (res, out1, nb_store (ni_key cid) (c\<lparr>nc_inner := np_read_end env stream q1\<rparr>) be1)))
                      (read_chunks env fuel stream 0 out q))))"

text \<open>The two steps of \<open>stream_send\<close> on the stream: the data and, once it is written completely, the end.\<close>

definition send_chunk ::
  "('n, 'p, 'i, 'e, 'f, 'c, 'v, 's) quinn_env \<Rightarrow> 64 word \<Rightarrow> byte list \<Rightarrow> 'n \<Rightarrow> panic + ((backend_error + byte list option) \<times> 'n)" where
  "send_chunk env stream bytes q =
     (if bytes = [] then Inr (Inr None, q)
      else case np_write_chunks env stream bytes q of
        (Inr (chunks, rest), q1) \<Rightarrow>
          and_then (panic_if (ne_dbg env \<and> 1 < chunks) DebugAssertFailed) (\<lambda>_. Inr (Inr (if chunks = 1 then None else Some rest), q1))
      | (Inl QWriteBlocked, q1) \<Rightarrow> Inr (Inr (Some bytes), q1)
      | (Inl (QWriteStopped code), q1) \<Rightarrow> Inr (Inl (StreamStop code), q1)
      | (Inl QWriteClosed, q1) \<Rightarrow> Inr (Inl UnknownStream, q1))"

definition send_finish ::
  "('n, 'p, 'i, 'e, 'f, 'c, 'v, 's) quinn_env \<Rightarrow> 64 word \<Rightarrow> bool \<Rightarrow> byte list option \<Rightarrow> 'n \<Rightarrow> (backend_error + byte list option) \<times> 'n" where
  "send_finish env stream fin unsent q =
     (if fin \<and> unsent = None then
        (case np_finish env stream q of
           (None, q1) \<Rightarrow> (Inr unsent, q1)
         | (Some (QFinishStopped code), q1) \<Rightarrow> (Inl (StreamStop code), q1)
         | (Some QFinishClosed, q1) \<Rightarrow> (Inl UnknownStream, q1))
      else (Inr unsent, q))"

definition quinn_stream_send ::
  "('n, 'p, 'i, 'e, 'f, 'c, 'v, 's) quinn_env \<Rightarrow> quinn_id \<Rightarrow> stream_id \<Rightarrow> byte list \<Rightarrow> bool \<Rightarrow> ('n, 'p, 'c, 'v, 's) quinn_backend \<Rightarrow>
   panic + ((backend_error + byte list option) \<times> ('n, 'p, 'c, 'v, 's) quinn_backend)" where
  "quinn_stream_send env cid sid bytes fin be =
     (if \<not> nb_open be then Inr (Inl ErrClosed, be)
      else if is_server sid \<and> is_uni sid then Inr (Inl Illegal, be)
      else case nb_mark_open env cid be of
        (None, be1) \<Rightarrow> Inr (Inl UnknownConnection, be1)
      | (Some c, be1) \<Rightarrow>
          and_then (sid_to_quinn sid) (\<lambda>stream.
          and_then (send_chunk env stream bytes (nc_inner c)) (\<lambda>(r, q).
            let (res, q1) = (case r of Inl e \<Rightarrow> (Inl e, q) | Inr unsent \<Rightarrow> send_finish env stream fin unsent q)
            in Inr (res, nb_store (ni_key cid) (c\<lparr>nc_inner := q1\<rparr>) be1))))"

definition quinn_stream_open_send ::
  "('n, 'p, 'i, 'e, 'f, 'c, 'v, 's) quinn_env \<Rightarrow> quinn_id \<Rightarrow> bool \<Rightarrow> byte list \<Rightarrow> bool \<Rightarrow> ('n, 'p, 'c, 'v, 's) quinn_backend \<Rightarrow>
   panic + ((backend_error + stream_id \<times> byte list option) \<times> ('n, 'p, 'c, 'v, 's) quinn_backend)" where
  "quinn_stream_open_send env cid bidirectional bytes fin be =
     (if \<not> nb_open be then Inr (Inl ErrClosed, be)
      else case nb_mark_open env cid be of
        (None, be1) \<Rightarrow> Inr (Inl UnknownConnection, be1)
      | (Some c, be1) \<Rightarrow>
          (case np_stream_open env (if bidirectional then Bi else Uni) (nc_inner c) of
             (None, q) \<Rightarrow> Inr (Inl StreamsExhausted, nb_store (ni_key cid) (c\<lparr>nc_inner := q\<rparr>) be1)
           | (Some n, q) \<Rightarrow>
               and_then (sid_from_quinn n) (\<lambda>sid.
               and_then (quinn_stream_send env cid sid bytes fin (nb_store (ni_key cid) (c\<lparr>nc_inner := q\<rparr>) be1)) (\<lambda>(r, be2).
                 Inr (map_sum (\<lambda>e. e) (\<lambda>unsent. (sid, unsent)) r, be2)))))"

text \<open>The three operations on one direction of a stream that return nothing.\<close>

definition quinn_stream_control ::
  "('n, 'p, 'i, 'e, 'f, 'c, 'v, 's) quinn_env \<Rightarrow> bool \<Rightarrow> (64 word \<Rightarrow> 'n \<Rightarrow> panic + 'n) \<Rightarrow> quinn_id \<Rightarrow> stream_id \<Rightarrow> ('n, 'p, 'c, 'v, 's) quinn_backend \<Rightarrow>
   panic + ('n, 'p, 'c, 'v, 's) quinn_backend" where
  "quinn_stream_control env illegal act cid sid be =
     (if \<not> nb_open be then Inr be
      else if illegal then Inr be
      else case nb_mark_open env cid be of
        (None, be1) \<Rightarrow> Inr be1
      | (Some c, be1) \<Rightarrow>
          and_then (sid_to_quinn sid) (\<lambda>stream.
          and_then (act stream (nc_inner c)) (\<lambda>q. Inr (nb_store (ni_key cid) (c\<lparr>nc_inner := q\<rparr>) be1))))"

definition quinn_stream_stop_sending ::
  "('n, 'p, 'i, 'e, 'f, 'c, 'v, 's) quinn_env \<Rightarrow> quinn_id \<Rightarrow> stream_id \<Rightarrow> nat \<Rightarrow> ('n, 'p, 'c, 'v, 's) quinn_backend \<Rightarrow> panic + ('n, 'p, 'c, 'v, 's) quinn_backend" where
  "quinn_stream_stop_sending env cid sid err =
     quinn_stream_control env (is_client sid \<and> is_uni sid)
       (\<lambda>stream q. and_then (u64_into_varint err) (\<lambda>code. Inr (np_stop env stream code q))) cid sid"

definition quinn_stream_reset_sending ::
  "('n, 'p, 'i, 'e, 'f, 'c, 'v, 's) quinn_env \<Rightarrow> quinn_id \<Rightarrow> stream_id \<Rightarrow> nat \<Rightarrow> ('n, 'p, 'c, 'v, 's) quinn_backend \<Rightarrow> panic + ('n, 'p, 'c, 'v, 's) quinn_backend" where
  "quinn_stream_reset_sending env cid sid err =
     quinn_stream_control env (is_server sid \<and> is_uni sid)
       (\<lambda>stream q. and_then (u64_into_varint err) (\<lambda>code. Inr (np_reset env stream code q))) cid sid"

definition quinn_stream_set_priority ::
  "('n, 'p, 'i, 'e, 'f, 'c, 'v, 's) quinn_env \<Rightarrow> quinn_id \<Rightarrow> stream_id \<Rightarrow> priority \<Rightarrow> ('n, 'p, 'c, 'v, 's) quinn_backend \<Rightarrow> panic + ('n, 'p, 'c, 'v, 's) quinn_backend" where
  "quinn_stream_set_priority env cid sid priority =
     quinn_stream_control env (is_server sid \<and> is_uni sid) (\<lambda>stream q. Inr (np_set_priority env stream (urgency priority) q)) cid sid"

subsection \<open>Datagrams\<close>

definition quinn_dgram_recv ::
  "('n, 'p, 'i, 'e, 'f, 'c, 'v, 's) quinn_env \<Rightarrow> quinn_id \<Rightarrow> byte list \<Rightarrow> ('n, 'p, 'c, 'v, 's) quinn_backend \<Rightarrow>
   (backend_error + nat) \<times> byte list \<times> ('n, 'p, 'c, 'v, 's) quinn_backend" where
  "quinn_dgram_recv env cid out be =
     (if \<not> nb_open be then (Inl ErrClosed, out, be)
      else case nb_find cid be of
        None \<Rightarrow> (Inl UnknownConnection, out, be)
      | Some c \<Rightarrow>
          (case np_dgram_recv env (nc_inner c) of
             (None, q) \<Rightarrow> (Inr 0, out, nb_store (ni_key cid) (c\<lparr>nc_inner := q\<rparr>) be)
           | (Some datagram, q) \<Rightarrow>
               let be1 = nb_store (ni_key cid) (c\<lparr>nc_inner := q\<rparr>) be in
               if length out < length datagram then (Inl BufferSize, out, be1)
               else (Inr (length datagram), splice 0 datagram out, be1)))"

definition quinn_dgram_recv_zc ::
  "('n, 'p, 'i, 'e, 'f, 'c, 'v, 's) quinn_env \<Rightarrow> (byte list \<Rightarrow> 'r) \<Rightarrow> quinn_id \<Rightarrow> ('n, 'p, 'c, 'v, 's) quinn_backend \<Rightarrow>
   (backend_error + 'r option) \<times> ('n, 'p, 'c, 'v, 's) quinn_backend" where
  "quinn_dgram_recv_zc env consumer cid be =
     (if \<not> nb_open be then (Inl ErrClosed, be)
      else case nb_find cid be of
        None \<Rightarrow> (Inl UnknownConnection, be)
      | Some c \<Rightarrow>
          (let (datagram, q) = np_dgram_recv env (nc_inner c)
           in (Inr (map_option consumer datagram), nb_store (ni_key cid) (c\<lparr>nc_inner := q\<rparr>) be)))"

definition quinn_dgram_send ::
  "('n, 'p, 'i, 'e, 'f, 'c, 'v, 's) quinn_env \<Rightarrow> quinn_id \<Rightarrow> byte list \<Rightarrow> ('n, 'p, 'c, 'v, 's) quinn_backend \<Rightarrow>
   (backend_error + byte list option) \<times> ('n, 'p, 'c, 'v, 's) quinn_backend" where
  "quinn_dgram_send env cid bytes be =
     (if \<not> nb_open be then (Inl ErrClosed, be)
      else case nb_mark_open env cid be of
        (None, be1) \<Rightarrow> (Inl UnknownConnection, be1)
      | (Some c, be1) \<Rightarrow>
          (let (e, q) = np_dgram_send env bytes (nc_inner c)
           in (case e of
                 None \<Rightarrow> Inr None
               | Some QUnsupportedByPeer \<Rightarrow> Inl DgramDisabled
               | Some QDgramsDisabled \<Rightarrow> Inl DgramDisabled
               | Some QTooLarge \<Rightarrow> Inl BufferSize
               | Some (QDgramBlocked rest) \<Rightarrow> Inr (Some rest), nb_store (ni_key cid) (c\<lparr>nc_inner := q\<rparr>) be1)))"

definition quinn_dgram_send_max_size ::
  "('n, 'p, 'i, 'e, 'f, 'c, 'v, 's) quinn_env \<Rightarrow> quinn_id \<Rightarrow> ('n, 'p, 'c, 'v, 's) quinn_backend \<Rightarrow> backend_error + nat" where
  "quinn_dgram_send_max_size env cid be =
     (if \<not> nb_open be then Inl ErrClosed
      else case nb_find cid be of
        None \<Rightarrow> Inl UnknownConnection
      | Some c \<Rightarrow>
          if quinn_is_open env c then Inr (case np_dgram_max env (nc_inner c) of Some n \<Rightarrow> n | None \<Rightarrow> 0) else Inl UnknownConnection)"

end
