(* ===== verification/Quinn_Lifecycle.thy ===== *)
theory Quinn_Lifecycle
  imports Quinn_Api
begin

section \<open>The life of a connection in the quinn backend\<close>

text \<open>
  What the backend of \<open>Quinn_Backend\<close> and \<open>Quinn_Api\<close> reports of a connection. Every operation is a sequence of four
  kinds of small steps (\<open>life_step\<close>): one that neither closes nor announces a connection, one that reports the
  closing of a live connection, one that removes a connection, and one that announces a new one.
  An invariant of these steps gives that a connection is closed at most once. The other lemmas and
  theorems show where the code fails: stateless responses, reads of several chunks and idle timeouts.
\<close>

subsection \<open>Small steps\<close>

definition closed_id :: "'d backend_event \<Rightarrow> 'd option" where
  "closed_id e = (case e of
     ConnectionEv (EvClosed cid _ _ _ _) \<Rightarrow> Some cid
   | ConnectionEv (EvHalted cid _) \<Rightarrow> Some cid
   | _ \<Rightarrow> None)"

definition new_id :: "'d backend_event \<Rightarrow> 'd option" where
  "new_id e = (case e of ConnectionEv (EvNew cid _) \<Rightarrow> Some cid | _ \<Rightarrow> None)"

definition new_ids :: "'d backend_event list \<Rightarrow> 'd list" where
  "new_ids es = List.map_filter new_id es"

definition closed_count :: "'d \<Rightarrow> 'd backend_event list \<Rightarrow> nat" where
  "closed_count cid es = length (filter (\<lambda>e. closed_id e = Some cid) es)"

definition plain :: "'d backend_event list \<Rightarrow> bool" where
  "plain es \<longleftrightarrow> (\<forall>e \<in> set es. closed_id e = None \<and> new_id e = None)"

definition view_of :: "('n, 's) quinn_conns \<Rightarrow> connection_key \<Rightarrow> (quinn_id \<times> bool) option" where
  "view_of cs key = map_option (\<lambda>c. (quinn_id_of key c, nc_closed_sent c)) (map_get key (nx_all cs))"

abbreviation nb_view :: "('n, 'p, 'c, 'v, 's) quinn_backend \<Rightarrow> connection_key \<Rightarrow> (quinn_id \<times> bool) option" where
  "nb_view be \<equiv> view_of (nb_conns be)"

abbreviation nb_version :: "('n, 'p, 'c, 'v, 's) quinn_backend \<Rightarrow> 32 word" where
  "nb_version be \<equiv> nx_version (nb_conns be)"

inductive life_step :: "('n, 'p, 'c, 'v, 's) quinn_backend \<Rightarrow> ('n, 'p, 'c, 'v, 's) quinn_backend \<Rightarrow> bool" where
  ls_plain: "nb_view be' = nb_view be \<Longrightarrow> nb_version be' = nb_version be \<Longrightarrow> nb_events be' = nb_events be @ es \<Longrightarrow> plain es \<Longrightarrow> life_step be be'"
| ls_close: "nb_view be key = Some (cid, False) \<Longrightarrow> nb_view be' = (nb_view be)(key \<mapsto> (cid, True)) \<Longrightarrow> nb_version be' = nb_version be \<Longrightarrow>
    nb_events be' = nb_events be @ [e] \<Longrightarrow> closed_id e = Some cid \<Longrightarrow> life_step be be'"
| ls_forget: "nb_view be' = (nb_view be)(key := None) \<Longrightarrow> nb_version be' = nb_version be \<Longrightarrow> nb_events be' = nb_events be \<Longrightarrow> life_step be be'"
| ls_new: "nb_view be' = (nb_view be)(key \<mapsto> (cid, False)) \<Longrightarrow> ni_key cid = key \<Longrightarrow> ni_version cid = nb_version be \<Longrightarrow>
    nb_version be' = nb_version be + 1 \<Longrightarrow> nb_events be' = nb_events be @ [ConnectionEv (EvNew cid side)] \<Longrightarrow> life_step be be'"

abbreviation life_steps :: "('n, 'p, 'c, 'v, 's) quinn_backend \<Rightarrow> ('n, 'p, 'c, 'v, 's) quinn_backend \<Rightarrow> bool" where
  "life_steps \<equiv> life_step\<^sup>*\<^sup>*"

subsection \<open>The invariant\<close>

definition life_ok :: "quinn_id backend_event list \<Rightarrow> (connection_key \<Rightarrow> (quinn_id \<times> bool) option) \<Rightarrow> 32 word \<Rightarrow> bool" where
  "life_ok es view version \<longleftrightarrow> (let ids = new_ids es in
     version = of_nat (length ids) \<and> map ni_version ids = map of_nat [0 ..< length ids] \<and>
     (length ids \<le> 2 ^ 32 \<longrightarrow>
       (\<forall>key cid sent. view key = Some (cid, sent) \<longrightarrow> cid \<in> set ids \<and> ni_key cid = key \<and> closed_count cid es = of_bool sent) \<and>
       (\<forall>cid. closed_count cid es \<le> 1 \<and> (closed_count cid es = 1 \<longrightarrow> cid \<in> set ids))))"

definition quinn_life :: "quinn_id backend_event list \<Rightarrow> ('n, 'p, 'c, 'v, 's) quinn_backend \<Rightarrow> bool" where
  "quinn_life log be \<longleftrightarrow> life_ok (log @ nb_events be) (nb_view be) (nb_version be)"

lemma closed_count_simps [simp]:
  "closed_count cid [] = 0"
  "closed_count cid (es @ es') = closed_count cid es + closed_count cid es'"
  "closed_count cid (e # es) = (if closed_id e = Some cid then 1 else 0) + closed_count cid es"
  by (simp_all add: closed_count_def)

lemma new_ids_simps [simp]:
  "new_ids [] = []"
  "new_ids (es @ es') = new_ids es @ new_ids es'"
  "new_ids (e # es) = (case new_id e of Some cid \<Rightarrow> [cid] | None \<Rightarrow> []) @ new_ids es"
  by (simp_all add: new_ids_def List.map_filter_def split: option.splits)

lemma plain_simps [simp]: "plain []" "plain (e # es) \<longleftrightarrow> closed_id e = None \<and> new_id e = None \<and> plain es" "plain (es @ es') \<longleftrightarrow> plain es \<and> plain es'"
  by (auto simp: plain_def)

lemma plain_facts [simp]: "plain es \<Longrightarrow> new_ids es = []" "plain es \<Longrightarrow> closed_count cid es = 0"
  by (induction es) simp_all

lemma event_ids [simp]:
  "closed_id (ConnectionEv (EvNew c s)) = None" "new_id (ConnectionEv (EvNew c s)) = Some c"
  "closed_id (ConnectionEv (EvClosed c a b d e)) = Some c" "new_id (ConnectionEv (EvClosed c a b d e)) = None"
  "closed_id (ConnectionEv (EvHalted c k)) = Some c" "new_id (ConnectionEv (EvHalted c k)) = None"
  "closed_id (ConnectionEv (EvEstablished c)) = None" "new_id (ConnectionEv (EvEstablished c)) = None"
  "closed_id (ConnectionEv (EvStreamsAvailable c s)) = None" "new_id (ConnectionEv (EvStreamsAvailable c s)) = None"
  "closed_id (StreamEv se) = None" "new_id (StreamEv se) = None" "closed_id (DatagramEv de) = None" "new_id (DatagramEv de) = None"
  by (simp_all add: closed_id_def new_id_def)

lemma closed_not_new: "closed_id e = Some cid \<Longrightarrow> new_id e = None"
  by (auto simp: closed_id_def new_id_def split: backend_event.splits connection_event.splits)

lemma fresh_version:
  assumes "map ni_version ids = map of_nat [0 ..< length ids]" and "Suc (length ids) \<le> 2 ^ 32" and "ni_version cid = of_nat (length ids)"
  shows "cid \<notin> set ids"
proof
  assume "cid \<in> set ids"
  then have "of_nat (length ids) \<in> set (map of_nat [0 ..< length ids] :: 32 word list)" using assms(1,3) by (metis image_eqI list.set_map)
  then show False using assms(2) by (auto simp: word_of_nat_eq_iff take_bit_eq_mod)
qed

lemma life_ok_plain: "life_ok es view version \<Longrightarrow> plain new \<Longrightarrow> life_ok (es @ new) view version"
  by (simp add: life_ok_def Let_def)

lemma life_ok_forget: "life_ok es view version \<Longrightarrow> life_ok es (view(key := None)) version"
  by (simp add: life_ok_def Let_def)

lemma life_ok_close:
  assumes ok: "life_ok es view version" and key: "view key = Some (cid, False)" and e: "closed_id e = Some cid"
  shows "life_ok (es @ [e]) (view(key \<mapsto> (cid, True))) version"
proof -
  have other: "cid' \<noteq> cid" if "k \<noteq> key" "view k = Some (cid', s)" "length (new_ids es) \<le> 2 ^ 32" for k cid' s
    using ok key that unfolding life_ok_def Let_def by metis
  have zero: "closed_count cid es = 0" "cid \<in> set (new_ids es)" "ni_key cid = key" if "length (new_ids es) \<le> 2 ^ 32"
    using ok key that unfolding life_ok_def Let_def by (metis of_bool_eq(1))+
  show ?thesis using ok other zero closed_not_new [OF e] unfolding life_ok_def Let_def
    by (auto simp: e split: if_splits)
qed

lemma life_ok_new:
  assumes ok: "life_ok es view version" and cid: "ni_key cid = key" "ni_version cid = version"
  shows "life_ok (es @ [ConnectionEv (EvNew cid side)]) (view(key \<mapsto> (cid, False))) (version + 1)"
proof -
  have ids: "map ni_version (new_ids es) = map of_nat [0 ..< length (new_ids es)]" "version = of_nat (length (new_ids es))"
    using ok by (simp_all add: life_ok_def Let_def)
  have "cid \<notin> set (new_ids es)" if "Suc (length (new_ids es)) \<le> 2 ^ 32" using fresh_version [OF ids(1) that] cid(2) ids(2) by simp
  then have "closed_count cid es = 0" if "Suc (length (new_ids es)) \<le> 2 ^ 32"
    using ok that unfolding life_ok_def Let_def by (metis One_nat_def Suc_leD le_Suc_eq le_zero_eq)
  then show ?thesis using ok cid ids unfolding life_ok_def Let_def by auto
qed

lemma life_step_keeps:
  assumes "life_step be be'" and "quinn_life log be"
  shows "quinn_life log be'"
  using assms(1)
proof cases
  case (ls_plain es)
  then show ?thesis using assms(2) life_ok_plain by (fastforce simp: quinn_life_def simp flip: append_assoc)
next
  case (ls_close key cid e)
  then show ?thesis using assms(2) life_ok_close [of "log @ nb_events be"] by (simp add: quinn_life_def)
next
  case (ls_forget key)
  then show ?thesis using assms(2) life_ok_forget by (simp add: quinn_life_def)
next
  case (ls_new key cid side)
  then show ?thesis using assms(2) life_ok_new [of "log @ nb_events be"] by (simp add: quinn_life_def)
qed

lemma life_steps_keep: "life_steps be be' \<Longrightarrow> quinn_life log be \<Longrightarrow> quinn_life log be'"
  by (induction rule: rtranclp_induct) (auto intro: life_step_keeps)


subsection \<open>Steps of the operations\<close>

definition calm_step :: "('n, 'p, 'c, 'v, 's) quinn_backend \<Rightarrow> ('n, 'p, 'c, 'v, 's) quinn_backend \<Rightarrow> bool" where
  "calm_step be be' \<longleftrightarrow> nb_view be' = nb_view be \<and> nb_version be' = nb_version be \<and> (\<exists>es. nb_events be' = nb_events be @ es \<and> plain es)"

definition same_conn :: "'n quinn_conn \<Rightarrow> 'n quinn_conn \<Rightarrow> bool" where
  "same_conn c c' \<longleftrightarrow> nc_trace c' = nc_trace c \<and> nc_version c' = nc_version c \<and> nc_closed_sent c' = nc_closed_sent c"

abbreviation nb_at :: "connection_key \<Rightarrow> ('n, 'p, 'c, 'v, 's) quinn_backend \<Rightarrow> 'n quinn_conn option" where
  "nb_at key be \<equiv> map_get key (nx_all (nb_conns be))"

lemma nb_calm_life: "calm_step be be' \<Longrightarrow> life_steps be be'"
  by (auto simp: calm_step_def intro: ls_plain)

lemma calm_step_refl [simp]: "calm_step be be"
  by (auto simp: calm_step_def intro: exI [of _ "[]"])

lemma calm_step_trans: "calm_step be be1 \<Longrightarrow> calm_step be1 be2 \<Longrightarrow> calm_step be be2"
  by (auto simp: calm_step_def)

lemma calm_step_fields [simp]:
  "calm_step be (be\<lparr>nb_io := io\<rparr>)" "calm_step be (be\<lparr>nb_time := tm\<rparr>)" "calm_step be (be\<lparr>nb_endpoint := p\<rparr>)" "calm_step be (be\<lparr>nb_open := b\<rparr>)"
  "calm_step be (be\<lparr>nb_endpoint := p, nb_io := io\<rparr>)"
  by (auto simp: calm_step_def intro: exI [of _ "[]"])

lemma view_simps [simp]:
  "view_of (cs\<lparr>nx_active := s\<rparr>) = view_of cs" "view_of (quinn_next_active ls cs) = view_of cs" "view_of (cs\<lparr>nx_version := v\<rparr>) = view_of cs"
  by (simp_all add: fun_eq_iff view_of_def)

lemma same_conn_simps [simp]:
  "same_conn c c" "same_conn c (c1\<lparr>nc_inner := q\<rparr>) = same_conn c c1" "same_conn c (quinn_set_timer_key k c1) = same_conn c c1"
  "same_conn c (c1\<lparr>nc_timer_key := k\<rparr>) = same_conn c c1" "same_conn c (c1\<lparr>nc_dgram_max_size := n\<rparr>) = same_conn c c1"
  by (simp_all add: same_conn_def quinn_set_timer_key_def)

lemma same_conn_trans: "same_conn c c1 \<Longrightarrow> same_conn c1 c2 \<Longrightarrow> same_conn c c2"
  by (simp add: same_conn_def)

lemma view_put:
  "map_get key (nx_all cs) = Some c \<Longrightarrow> view_of (quinn_put key c' cs) = (view_of cs)(key \<mapsto> (quinn_id_of key c', nc_closed_sent c'))"
  using map_get_length [of key "nx_all cs" c] by (auto simp: fun_eq_iff view_of_def)

lemma view_put_same:
  assumes "map_get key (nx_all cs) = Some c" and "same_conn c c'"
  shows "view_of (quinn_put key c' cs) = view_of cs"
  using assms by (auto simp: fun_eq_iff view_put view_of_def same_conn_def quinn_id_of_def)

lemma nb_calm_store: "nb_at key be = Some c \<Longrightarrow> same_conn c c' \<Longrightarrow> calm_step be (nb_store key c' be)"
  by (auto simp: calm_step_def nb_store_def view_put_same intro: exI [of _ "[]"])

lemma nb_calm_push: "plain es \<Longrightarrow> calm_step be (nb_push es be)"
  by (auto simp: calm_step_def nb_push_def events_extend_def)

lemma nb_at_simps [simp]:
  "nb_at key (nb_push es be) = nb_at key be"
  "nb_at key be = Some c \<Longrightarrow> nb_at key (nb_store key c' be) = Some c'"
  using map_get_length [of key "nx_all (nb_conns be)" c] by (auto simp: nb_push_def nb_store_def)

lemma nb_find_at: "nb_find cid be = Some c \<Longrightarrow> nb_at (ni_key cid) be = Some c \<and> nc_version c = ni_version cid"
  by (simp add: nb_find_def quinn_get_iff)

lemma nb_mark_facts:
  assumes "nb_mark env cid be = (r, be1) \<or> nb_mark_open env cid be = (r, be1)"
  shows "calm_step be be1" and "r = Some c \<Longrightarrow> nb_at (ni_key cid) be1 = Some c" and "r = Some c \<Longrightarrow> nb_find cid be = Some c"
  using assms
  by (auto simp: nb_mark_def nb_mark_open_def quinn_get_mark_active_def quinn_get_mark_active_if_def calm_step_def nb_find_def quinn_get_iff
      split: option.splits if_splits intro: exI [of _ "[]"])

lemma nb_schedule_calm:
  assumes "schedule_quinn_timeout env cid at be = Inr be'"
  shows "calm_step be be'"
proof (cases "nb_find cid be")
  case None
  then show ?thesis using assms by (simp add: schedule_quinn_timeout_def)
next
  case (Some c)
  note live = nb_find_at [OF Some, THEN conjunct1]
  have "calm_step be (nb_store (ni_key cid) c' (be\<lparr>nb_time := tm\<rparr>))" if "same_conn c c'" for c' tm
    using calm_step_trans [OF calm_step_fields(2) [of be tm] nb_calm_store [of "ni_key cid" _ c c']] live that by simp
  then show ?thesis using assms nb_calm_store [OF live]
    by (auto simp: schedule_quinn_timeout_def Some quinn_pop_timer_key_def rust_simps Let_def split: option.splits prod.splits)
qed

lemma schedule_events: "schedule_quinn_timeout env cid at be = Inr be' \<Longrightarrow> nb_events be' = nb_events be"
  by (auto simp: schedule_quinn_timeout_def nb_store_def rust_simps Let_def split: option.splits prod.splits)

lemma nb_register_life:
  assumes "quinn_register env key q be = Inr (cid, be')"
  shows "life_step be be'" and "cid = \<lparr>ni_key = key, ni_trace = ne_uuid env (nb_version be), ni_version = nb_version be\<rparr>"
proof -
  obtain cid0 cs where ins: "quinn_insert_raw (ne_ls env) (ne_uuid env (nb_version be)) key q (nb_conns be) = (cid0, cs)" by fastforce
  note eq = quinn_insert_raw_eq [OF ins]
  obtain be1 where s: "schedule_quinn_timeout env cid0 None (be\<lparr>nb_conns := cs\<rparr>) = Inr be1" "cid = cid0"
      "be' = nb_push [ConnectionEv (EvNew cid0 (np_is_server env q))] be1"
    using assms by (auto simp: quinn_register_def ins rust_simps)
  show c: "cid = \<lparr>ni_key = key, ni_trace = ne_uuid env (nb_version be), ni_version = nb_version be\<rparr>" using s(2) eq(1) by simp
  have v: "nb_view be1 = view_of cs" "nb_version be1 = nx_version cs" "nb_events be1 = nb_events be"
    using nb_schedule_calm [OF s(1)] schedule_events [OF s(1)] by (simp_all add: calm_step_def)
  have "view_of cs = (nb_view be)(key \<mapsto> (cid, False))"
    by (auto simp: fun_eq_iff view_of_def eq(2) c quinn_id_of_def quinn_conn_new_def)
  moreover have "ni_key cid = key" "ni_version cid = nb_version be" by (simp_all add: c)
  ultimately show "life_step be be'" using v s eq(3)
    by (intro ls_new [of be' be key cid "np_is_server env q"]) (simp_all add: nb_push_def events_extend_def)
qed

text \<open>Closing a live connection: the event that \<open>quinn_close_event\<close> or \<open>quinn_halt_event\<close> gives is the only one of its kind.\<close>

definition closes :: "connection_key \<Rightarrow> 'n quinn_conn \<Rightarrow> quinn_id connection_event option \<times> 'n quinn_conn \<Rightarrow> bool" where
  "closes key c r \<longleftrightarrow> (case r of
     (None, c') \<Rightarrow> same_conn c c'
   | (Some e, c') \<Rightarrow> \<not> nc_closed_sent c \<and> nc_closed_sent c' \<and> quinn_id_of key c' = quinn_id_of key c \<and>
       closed_id (ConnectionEv e) = Some (quinn_id_of key c))"

lemma closes_events:
  "closes key c (quinn_close_event key code reason app local c)" "closes key c (quinn_halt_event key kind c)" "closes key c (lost_event key err c)"
  by (auto simp: closes_def quinn_close_event_def quinn_halt_event_def lost_event_def quinn_id_of_def split: quinn_conn_error.splits)

lemma close_life:
  assumes "nb_at key be = Some c" and "closes key c (e, c')"
  shows "life_steps be (nb_push (opt_conn_event e) (nb_store key c' be))"
proof (cases e)
  case None
  with assms have "calm_step be (nb_store key c' be)" by (intro nb_calm_store) (simp_all add: closes_def)
  with None show ?thesis by (auto intro!: nb_calm_life simp: nb_push_def events_extend_def opt_conn_event_def calm_step_def)
next
  case (Some x)
  with assms have "life_step be (nb_push (opt_conn_event e) (nb_store key c' be))"
    by (intro ls_close [of _ key "quinn_id_of key c" _ "ConnectionEv x"])
      (simp_all add: closes_def nb_push_def nb_store_def events_extend_def opt_conn_event_def view_put, simp add: view_of_def)
  then show ?thesis by blast
qed

lemma nb_forget_life:
  assumes "quinn_forget env cid be = Inr be'"
  shows "life_steps be be'"
proof (cases "quinn_get cid (nb_conns be)")
  case None
  then show ?thesis using assms by (simp add: quinn_forget_def quinn_remove_def)
next
  case (Some c)
  let ?key = "ni_key cid"
  obtain e c1 where h: "quinn_halt_event ?key (HaltError no_close_reason) c = (e, c1)" by fastforce
  have live: "nb_at ?key be = Some c" using Some by (simp add: quinn_get_iff)
  let ?mid = "nb_push (opt_conn_event e) (nb_store ?key c1 be)"
  have "life_steps be ?mid" using close_life [OF live, of e c1] closes_events(2) [of ?key c] h by metis
  moreover have "life_step ?mid be'"
    using assms live map_get_length [OF live]
    by (intro ls_forget [of _ _ ?key])
      (auto simp: quinn_forget_def quinn_remove_def Some quinn_remove_raw_eq h rust_simps nb_push_def nb_store_def view_of_def fun_eq_iff events_extend_def)
  ultimately show ?thesis by (rule rtranclp.rtrancl_into_rtrancl)
qed

lemma opt_dgram_plain [simp]: "plain (opt_dgram_event e)"
  by (simp add: opt_dgram_event_def split: option.splits)

lemma mark_store_calm:
  assumes "nb_mark env cid be = (Some c, be1) \<or> nb_mark_open env cid be = (Some c, be1)" and "same_conn c c'"
  shows "calm_step be (nb_store (ni_key cid) c' be1)"
  using calm_step_trans [OF nb_mark_facts(1) nb_calm_store, OF assms(1) nb_mark_facts(2), OF assms(1) refl assms(2)] .

lemma timeout_fired_calm: "calm_step be (quinn_timeout_fired env cid be)"
proof -
  obtain r be1 where m: "nb_mark env cid be = (r, be1)" by fastforce
  then show ?thesis using nb_mark_facts(1) [of env cid be r be1] mark_store_calm [of env cid be "the r" be1]
    by (cases r) (simp_all add: quinn_timeout_fired_def)
qed

lemma handle_scheduled_calm: "calm_step be (quinn_handle_scheduled env be)"
proof -
  have "calm_step be0 (fold (\<lambda>event. case event of None \<Rightarrow> (\<lambda>be. be) | Some cid \<Rightarrow> quinn_timeout_fired env cid) evs be0)" for be0 evs
  proof (induction evs arbitrary: be0)
    case (Cons ev evs)
    then show ?case by (cases ev) (auto intro: calm_step_trans [OF timeout_fired_calm])
  qed simp
  then show ?thesis unfolding quinn_handle_scheduled_def by (rule calm_step_trans [OF calm_step_fields(2)])
qed

lemma connection_lost_life:
  assumes "quinn_connection_lost env cid err be = Inr be'"
  shows "life_steps be be'"
proof -
  obtain r be1 where m: "nb_mark env cid be = (r, be1)" by fastforce
  note calm = nb_calm_life [OF nb_mark_facts(1), OF disjI1 [OF m]]
  show ?thesis
  proof (cases r)
    case None
    then show ?thesis using assms calm by (simp add: quinn_connection_lost_def m)
  next
    case (Some c)
    obtain e c1 where l: "lost_event (ni_key cid) err c = (e, c1)" by fastforce
    let ?be2 = "nb_push (opt_conn_event e) (nb_store (ni_key cid) c1 be1)"
    have "life_steps be1 ?be2"
      using close_life [OF nb_mark_facts(2) [OF disjI1 [OF m] Some]] closes_events(3) [of "ni_key cid" c err] l by metis
    with calm have "life_steps be ?be2" by (rule rtranclp_trans)
    then show ?thesis using assms nb_forget_life [of env cid ?be2 be']
      by (auto simp: quinn_connection_lost_def m Some l Let_def split: if_splits)
  qed
qed

lemma push_after: "calm_step be be1 \<Longrightarrow> plain es \<Longrightarrow> calm_step be (nb_push es be1)"
  by (rule calm_step_trans [OF _ nb_calm_push])

lemma stream_event_calm:
  assumes "quinn_stream_event env cid event be = Inr be'"
  shows "calm_step be be'"
proof -
  obtain r be1 where m: "nb_mark env cid be = (r, be1)" by fastforce
  note calm = nb_mark_facts(1) [OF disjI1 [OF m]]
  show ?thesis
  proof (cases r)
    case None
    then show ?thesis using assms calm by (simp add: quinn_stream_event_def m)
  next
    case (Some c)
    note st = mark_store_calm [OF disjI1, OF m [unfolded Some]]
    show ?thesis using assms calm st
      by (auto simp: quinn_stream_event_def m Some rust_simps Let_def split: quinn_stream_event.splits prod.splits option.splits intro!: push_after)
  qed
qed

lemma polled_event_life: "quinn_polled_event env cid event be = Inr be' \<Longrightarrow> life_steps be be'"
  by (auto simp: quinn_polled_event_def split: quinn_event.splits
      intro: nb_calm_life [OF nb_calm_push] connection_lost_life nb_calm_life [OF stream_event_calm])

lemma find_store_calm: "nb_find cid be = Some c \<Longrightarrow> same_conn c c' \<Longrightarrow> calm_step be (nb_store (ni_key cid) c' be)"
  using nb_find_at nb_calm_store by blast

lemma poll_loop_life: "quinn_poll_loop env n cid be = Some (Inr (b, be')) \<Longrightarrow> life_steps be be'"
proof (induction n arbitrary: be)
  case (Suc n)
  show ?case
  proof (cases "nb_find cid be")
    case None
    then show ?thesis using Suc.prems by simp
  next
    case (Some c)
    obtain ev q where q: "np_poll env (nc_inner c) = (ev, q)" by fastforce
    let ?be = "nb_store (ni_key cid) (c\<lparr>nc_inner := q\<rparr>) be"
    have st: "life_steps be ?be" using find_store_calm [OF Some] by (intro nb_calm_life) simp
    show ?thesis
    proof (cases ev)
      case None
      then show ?thesis using Suc.prems st by (simp add: Some q)
    next
      case (Some e)
      then obtain be1 where "quinn_polled_event env cid e ?be = Inr be1" "quinn_poll_loop env n cid be1 = Some (Inr (b, be'))"
        using Suc.prems \<open>nb_find cid be = Some c\<close> by (auto simp: q split: sum.splits)
      then show ?thesis using rtranclp_trans [OF st] rtranclp_trans [OF polled_event_life] Suc.IH by blast
    qed
  qed
qed simp

lemma dgram_size_same: "same_conn c (snd (quinn_dgram_size_event dgram_max key c))"
  by (simp add: quinn_dgram_size_event_def Let_def)

lemma after_poll_life:
  assumes "quinn_after_poll env cid be = Inr be'"
  shows "life_steps be be'"
proof (cases "nb_find cid be")
  case None
  then show ?thesis using assms by (simp add: quinn_after_poll_def)
next
  case (Some c)
  obtain e c1 where d: "quinn_dgram_size_event (np_dgram_max env) (ni_key cid) c = (e, c1)" by fastforce
  have "calm_step be (nb_push (opt_dgram_event e) (nb_store (ni_key cid) c1 be))"
    using find_store_calm [OF Some, of c1] dgram_size_same [of c "np_dgram_max env" "ni_key cid"] d by (auto intro: push_after)
  then show ?thesis using assms nb_forget_life
    by (auto simp: quinn_after_poll_def Some d split: if_splits intro: nb_calm_life [OF calm_step_trans] nb_schedule_calm)
qed

lemma connection_event_life:
  assumes "quinn_connection_event env fuel key e be = Some (Inr be')"
  shows "life_steps be be'"
proof (cases "nb_at key be")
  case None
  then show ?thesis using assms by (simp add: quinn_connection_event_def quinn_get_mark_active_raw_def)
next
  case (Some c)
  let ?cs = "(nb_conns be)\<lparr>nx_active := ls_replace (ne_ls env) key (nx_active (nb_conns be))\<rparr>"
  obtain q p where f: "feed_connection_event env fuel key e (nc_inner c) (nb_endpoint be) = Some (q, p)"
    using assms by (auto simp: quinn_connection_event_def quinn_get_mark_active_raw_def Some split: option.splits)
  let ?be = "nb_store key (c\<lparr>nc_inner := q\<rparr>) (be\<lparr>nb_conns := ?cs, nb_endpoint := p\<rparr>)"
  have "calm_step be (be\<lparr>nb_conns := ?cs, nb_endpoint := p\<rparr>)" by (auto simp: calm_step_def intro: exI [of _ "[]"])
  then have st: "life_steps be ?be" using Some by (intro nb_calm_life calm_step_trans [OF _ nb_calm_store [of key _ c]]) simp_all
  obtain b be1 where l: "quinn_poll_loop env fuel (quinn_id_of key c) ?be = Some (Inr (b, be1))"
      "if b then quinn_after_poll env (quinn_id_of key c) be1 = Inr be' else be' = be1"
    using assms by (auto simp: quinn_connection_event_def quinn_get_mark_active_raw_def Some f Let_def split: option.splits sum.splits bool.splits)
  note s = rtranclp_trans [OF st poll_loop_life [OF l(1)]]
  show ?thesis using l(2) s rtranclp_trans [OF s after_poll_life] by (simp split: if_splits)
qed

lemma new_connection_life:
  assumes "quinn_new_connection env incoming buffer out be = Inr (out', be')"
  shows "life_steps be be'"
proof -
  have reg: "life_steps be (be1\<lparr>nb_io := io\<rparr>)" if "quinn_register env key q (be\<lparr>nb_endpoint := p\<rparr>) = Inr (cid, be1)" for key q p cid be1 io
    using nb_calm_life [OF calm_step_fields(3) [of be p]] nb_register_life(1) [OF that] nb_calm_life [OF calm_step_fields(1) [of be1 io]]
    by (meson rtranclp.rtrancl_into_rtrancl rtranclp_trans)
  have calm: "life_steps be (be\<lparr>nb_endpoint := p, nb_io := io\<rparr>)" "life_steps be (be\<lparr>nb_endpoint := p\<rparr>)" for p io
    by (simp_all add: nb_calm_life)
  show ?thesis using assms reg calm
    by (auto simp: quinn_new_connection_def rust_simps Let_def split: option.splits if_splits prod.splits sum.splits)
qed

lemma datagram_event_life:
  assumes "quinn_datagram_event env fuel event buffer out be = Some (Inr (out', be'))"
  shows "life_steps be be'"
proof (cases event)
  case (QConnectionEvent key e)
  then obtain be1 where "quinn_connection_event env fuel key e be = Some (Inr be1)" "be' = be1\<lparr>nb_io := vec_buf_drop buffer (nb_io be1)\<rparr>"
    using assms by (auto simp: quinn_datagram_event_def rust_simps)
  then show ?thesis using rtranclp_trans [OF connection_event_life nb_calm_life [OF calm_step_fields(1)]] by simp
next
  case (QNewConnection incoming)
  then show ?thesis using assms new_connection_life by (auto simp: quinn_datagram_event_def)
next
  case (QResponse tr)
  then show ?thesis using assms by (auto simp: quinn_datagram_event_def rust_simps)
qed

lemma nb_recv_packet_life:
  assumes "quinn_recv_packet env fuel pk buffer out be = Some (Inr (out', be'))"
  shows "life_steps be be'"
proof -
  obtain ev v p where h: "np_handle env (nt_clock (nb_time be)) (pk_from pk) (pk_to pk) (ecn_to_quinn (pk_ecn pk)) (pk_payload pk) (vb_vec buffer) (nb_endpoint be) = (ev, v, p)"
    by (rule prod_cases3)
  show ?thesis
  proof (cases ev)
    case None
    then show ?thesis using assms by (auto simp: quinn_recv_packet_def h intro: nb_calm_life)
  next
    case (Some e)
    then show ?thesis
      using assms rtranclp_trans [OF nb_calm_life [OF calm_step_fields(3)] datagram_event_life] by (simp add: quinn_recv_packet_def h)
  qed
qed

lemma recv_life: "quinn_recv env n it out be = Some (Inr (it', out', be')) \<Longrightarrow> life_steps be be'"
proof (induction n arbitrary: it out be)
  case (Suc n)
  obtain b io where pop: "pop_reserved_buffer (nb_io be) = (b, io)" by fastforce
  have io: "life_steps be (be\<lparr>nb_io := io\<rparr>)" by (simp add: nb_calm_life)
  have step: "life_steps be be'" if "quinn_recv_packet env n pk buf out (be\<lparr>nb_io := io\<rparr>) = Some (Inr (out1, be1))"
      "quinn_recv env n it2 out1 be1 = Some (Inr (it', out', be'))" for pk buf out1 be1 it2
    using rtranclp_trans [OF io nb_recv_packet_life [OF that(1)]] Suc.IH [OF that(2)] by (rule rtranclp_trans)
  show ?case using Suc.prems io step
    by (auto simp: pop split: sum.splits prod.splits option.splits)
qed simp

lemma peek_view: "quinn_peek_loop ls n cs = (r, cs') \<Longrightarrow> view_of cs' = view_of cs \<and> nx_version cs' = nx_version cs \<and>
    (\<forall>cid c. r = Some (cid, c) \<longrightarrow> map_get (ni_key cid) (nx_all cs') = Some c)"
  by (induction n arbitrary: cs) (auto simp: quinn_id_of_def split: option.splits)

lemma write_pending_same: "quinn_write_pending grow poll mtu dbg now c out io = Inr (r, c', out', io') \<Longrightarrow> same_conn c c'"
  by (auto simp: quinn_write_pending_def rust_simps)

lemma next_calm: "calm_step be (be\<lparr>nb_conns := quinn_next_active ls (nb_conns be)\<rparr>)"
  by (auto simp: calm_step_def intro!: exI [of _ "[]"])

lemma nb_send_loop_life: "quinn_send_loop env n out be = Some (Inr (out', be')) \<Longrightarrow> life_steps be be'"
proof (induction n arbitrary: out be)
  case (Suc n)
  obtain r cs where p: "quinn_peek_active (ne_ls env) (nb_conns be) = (r, cs)" by fastforce
  note pv = peek_view [OF p [unfolded quinn_peek_active_def]]
  let ?be1 = "be\<lparr>nb_conns := cs\<rparr>"
  let ?next = "\<lambda>be. be\<lparr>nb_conns := quinn_next_active (ne_ls env) (nb_conns be)\<rparr>"
  have peek: "life_steps be ?be1" using pv by (auto simp: calm_step_def intro!: nb_calm_life exI [of _ "[]"])
  show ?case
  proof (cases r)
    case None
    then show ?thesis using Suc.prems peek by (simp add: p)
  next
    case (Some x)
    obtain cid c where r: "r = Some (cid, c)" using Some by (cases x) simp
    then have live: "nb_at (ni_key cid) ?be1 = Some c" using pv by simp
    consider (stop) "\<not> has_primary_buffer (nb_io be)"
      | (drained) "has_primary_buffer (nb_io be)" and "np_is_drained env (nc_inner c)"
      | (packets) "has_primary_buffer (nb_io be)" and "\<not> np_is_drained env (nc_inner c)" by blast
    then show ?thesis
    proof cases
      case stop
      then show ?thesis using Suc.prems peek by (simp add: p r)
    next
      case drained
      then obtain be2 where "quinn_forget env cid ?be1 = Inr be2" "quinn_send_loop env n out (?next be2) = Some (Inr (out', be'))"
        using Suc.prems by (auto simp: p r split: sum.splits)
      then show ?thesis using rtranclp_trans [OF peek rtranclp_trans [OF nb_forget_life rtranclp_trans [OF nb_calm_life [OF next_calm] Suc.IH]]] by blast
    next
      case packets
      then obtain complete c1 out1 io where w: "quinn_write_pending (ne_grow env) (np_poll_transmit env) (np_mtu env) (ne_dbg env)
          (nt_clock (nb_time be)) c out (nb_io be) = Inr (complete, c1, out1, io)"
        using Suc.prems by (auto simp: p r Let_def split: sum.splits)
      let ?be2 = "nb_store (ni_key cid) c1 (?be1\<lparr>nb_io := io\<rparr>)"
      have "calm_step ?be1 ?be2"
        using calm_step_trans [OF calm_step_fields(1) [of ?be1 io] nb_calm_store [of "ni_key cid" _ c c1]] live write_pending_same [OF w] by simp
      then have st: "life_steps be ?be2" by (rule rtranclp_trans [OF peek nb_calm_life])
      have "be' = ?be2 \<or> (\<exists>be3. schedule_quinn_timeout env cid None (?next ?be2) = Inr be3 \<and> quinn_send_loop env n out1 be3 = Some (Inr (out', be')))"
        using Suc.prems packets by (auto simp: p r w Let_def split: sum.splits if_splits)
      then show ?thesis
        using st rtranclp_trans [OF st rtranclp_trans [OF nb_calm_life [OF calm_step_trans [OF next_calm nb_schedule_calm]] Suc.IH]] by blast
    qed
  qed
qed simp

lemma send_life: "quinn_send env out be = Some (Inr (out', be')) \<Longrightarrow> life_steps be be'"
  unfolding quinn_send_def Let_def by (rule rtranclp_trans [OF nb_calm_life [OF handle_scheduled_calm] nb_send_loop_life])

subsection \<open>Steps of the interface\<close>

lemma visit_calm:
  assumes "quinn_visit ls body keys es cs = Inr (es', cs')"
    and "\<And>key c new c'. body key c = Inr (new, c') \<Longrightarrow> plain new \<and> same_conn c c'"
  shows "view_of cs' = view_of cs \<and> nx_version cs' = nx_version cs \<and> (\<exists>new. es' = es @ new \<and> plain new)"
  using assms(1)
proof (induction keys arbitrary: es cs)
  case (Cons key keys)
  show ?case
  proof (cases "map_get key (nx_all cs)")
    case None
    then show ?thesis using Cons by simp
  next
    case (Some c)
    obtain new c1 where b: "body key c = Inr (new, c1)" using Cons.prems by (auto simp: Some rust_simps)
    let ?cs = "cs\<lparr>nx_active := ls_replace ls key (nx_active cs)\<rparr>"
    have "view_of (quinn_put key c1 ?cs) = view_of cs" using view_put_same [of key ?cs c c1] Some assms(2) [OF b] by simp
    with Cons.IH [of "events_extend new es" "quinn_put key c1 ?cs"] Cons.prems assms(2) [OF b] show ?thesis
      by (auto simp: Some b events_extend_def)
  qed
qed simp

lemma visit_all_calm:
  assumes "quinn_visit_all env body be = Inr be'" and "\<And>key c new c'. body key c = Inr (new, c') \<Longrightarrow> plain new \<and> same_conn c c'"
  shows "calm_step be be'"
  using assms(1) visit_calm [of "ne_ls env" body _ "nb_events be" "nb_conns be", OF _ assms(2)]
  by (fastforce simp: quinn_visit_all_def quinn_all_iter_mark_active_def rust_simps calm_step_def)

lemma close_calm: "quinn_close env err reason be = Inr be' \<Longrightarrow> calm_step be be'"
  by (auto simp: quinn_close_def rust_simps split: if_splits intro!: calm_step_trans [OF calm_step_fields(4) visit_all_calm])

lemma migrate_calm:
  assumes "quinn_migrate_network env addr be = Inr (res, be')"
  shows "calm_step be be'"
proof -
  let ?body = "\<lambda>be1 key c. let c1 = c\<lparr>nc_inner := np_path_changed env (nt_clock (nb_time be1)) (np_local_address_changed env (nc_inner c))\<rparr>;
      (event, c2) = quinn_dgram_size_event (np_dgram_max env) key c1 in Inr (opt_dgram_event event, c2) :: panic + _"
  have "same_conn c c'" if "quinn_dgram_size_event dm key (c\<lparr>nc_inner := q\<rparr>) = (e, c')" for dm key c q e c'
    using dgram_size_same [of "c\<lparr>nc_inner := q\<rparr>" dm key] that by (simp add: same_conn_def)
  then have body: "plain new \<and> same_conn c c'" if "?body be1 key c = Inr (new, c')" for be1 key c new c'
    using that by (auto simp: Let_def split: prod.splits)
  have "res \<noteq> Inr () \<and> be' = be \<or> (\<exists>be1. calm_step be be1 \<and> quinn_visit_all env (?body be1) be1 = Inr be')"
    using assms by (cases addr) (auto simp: quinn_migrate_network_def rust_simps Let_def split: if_splits
        intro: exI [of _ be] exI [of _ "be\<lparr>nb_io := quinn_update_socket_addr (the addr) (nb_io be)\<rparr>"])
  then show ?thesis
  proof (elim disjE exE conjE)
    fix be1 assume a: "calm_step be be1" and b: "quinn_visit_all env (?body be1) be1 = Inr be'"
    show ?thesis by (rule calm_step_trans [OF a visit_all_calm [OF b]]) (rule body)
  qed simp
qed

lemma nb_connect_life:
  assumes "quinn_connect env name addr be = Inr (res, be')"
  shows "life_steps be be'"
proof -
  have "be' = be \<or> (\<exists>p. be' = be\<lparr>nb_endpoint := p\<rparr> \<or> (\<exists>key q cid. quinn_register env key q (be\<lparr>nb_endpoint := p\<rparr>) = Inr (cid, be')))"
    using assms by (auto simp: quinn_connect_def rust_simps split: if_splits option.splits prod.splits sum.splits)
  then show ?thesis
    by (auto intro: nb_calm_life rtranclp.rtrancl_into_rtrancl [OF nb_calm_life [OF calm_step_fields(3)] nb_register_life(1)])
qed

lemma nb_connection_close_life:
  assumes "quinn_connection_close env cid err reason be = Inr (res, be')"
  shows "life_steps be be'"
proof (cases "nb_open be")
  case False
  then show ?thesis using assms by (simp add: quinn_connection_close_def)
next
  case True
  obtain r be1 where m: "nb_mark_open env cid be = (r, be1)" by fastforce
  note calm = nb_calm_life [OF nb_mark_facts(1), OF disjI2 [OF m]]
  show ?thesis
  proof (cases r)
    case None
    then show ?thesis using assms calm True by (simp add: quinn_connection_close_def m)
  next
    case (Some c)
    obtain code where code: "u64_into_varint err = Inr code" using assms True by (auto simp: quinn_connection_close_def m Some rust_simps)
    obtain e c2 where e: "quinn_close_event (ni_key cid) err reason True True
          (c\<lparr>nc_inner := np_close env (nt_clock (nb_time be1)) code reason (nc_inner c)\<rparr>) = (e, c2)" by fastforce
    have be': "be' = nb_push (opt_conn_event e) (nb_store (ni_key cid) c2 be1)"
      using assms True by (simp add: quinn_connection_close_def m Some code e)
    from e have "closes (ni_key cid) c (e, c2)" by (auto simp: closes_def quinn_close_event_def quinn_id_of_def split: if_splits)
    from close_life [OF nb_mark_facts(2) [OF disjI2 [OF m] Some] this] show ?thesis using calm be' by (metis rtranclp_trans)
  qed
qed

text \<open>The operations that change a connection only through \<open>quinn_proto\<close>.\<close>

lemma api_calm:
  "quinn_stream_recv env fuel cid sid out be = Some (Inr (r1, out', be')) \<Longrightarrow> calm_step be be'"
  "quinn_stream_control env illegal act cid sid be = Inr be' \<Longrightarrow> calm_step be be'"
  "quinn_dgram_recv env cid out be = (r2, out', be') \<Longrightarrow> calm_step be be'"
  "quinn_dgram_recv_zc env consumer cid be = (r3, be') \<Longrightarrow> calm_step be be'"
  "quinn_dgram_send env cid bytes be = (r4, be') \<Longrightarrow> calm_step be be'"
  "quinn_stream_send env cid sid bytes fin be = Inr (r5, be') \<Longrightarrow> calm_step be be'"
proof -
  obtain r be1 where m: "nb_mark_open env cid be = (r, be1)" by fastforce
  note calm = nb_mark_facts(1) [OF disjI2 [OF m]]
  have st: "calm_step be (nb_store (ni_key cid) (c\<lparr>nc_inner := q\<rparr>) be1)" if "r = Some c" for c q
    using mark_store_calm [OF disjI2, OF m [unfolded that]] by simp
  have fd: "calm_step be (nb_store (ni_key cid) (c\<lparr>nc_inner := q\<rparr>) be)" if "nb_find cid be = Some c" for c q
    using find_store_calm [OF that] by simp
  show "quinn_stream_recv env fuel cid sid out be = Some (Inr (r1, out', be')) \<Longrightarrow> calm_step be be'"
    using calm st by (auto simp: quinn_stream_recv_def m rust_simps split: if_splits option.splits sum.splits prod.splits readable_error.splits)
  show "quinn_stream_control env illegal act cid sid be = Inr be' \<Longrightarrow> calm_step be be'"
    using calm st by (auto simp: quinn_stream_control_def m rust_simps split: if_splits option.splits)
  show "quinn_dgram_recv env cid out be = (r2, out', be') \<Longrightarrow> calm_step be be'"
    using fd by (auto simp: quinn_dgram_recv_def Let_def split: if_splits option.splits prod.splits)
  show "quinn_dgram_recv_zc env consumer cid be = (r3, be') \<Longrightarrow> calm_step be be'"
    using fd by (auto simp: quinn_dgram_recv_zc_def Let_def split: if_splits option.splits prod.splits)
  show "quinn_dgram_send env cid bytes be = (r4, be') \<Longrightarrow> calm_step be be'"
    using calm st by (auto simp: quinn_dgram_send_def m Let_def split: if_splits option.splits prod.splits)
  show "quinn_stream_send env cid sid bytes fin be = Inr (r5, be') \<Longrightarrow> calm_step be be'"
    using calm st by (auto simp: quinn_stream_send_def m rust_simps Let_def case_prod_beta split: if_splits option.splits)
qed

lemma open_send_calm:
  assumes "quinn_stream_open_send env cid bidi bytes fin be = Inr (res, be')"
  shows "calm_step be be'"
proof -
  obtain r be1 where m: "nb_mark_open env cid be = (r, be1)" by fastforce
  note calm = nb_mark_facts(1) [OF disjI2 [OF m]]
  have st: "calm_step be (nb_store (ni_key cid) (c\<lparr>nc_inner := q\<rparr>) be1)" if "r = Some c" for c q
    using mark_store_calm [OF disjI2, OF m [unfolded that]] by simp
  show ?thesis using assms calm st
    by (auto simp: quinn_stream_open_send_def m rust_simps split: if_splits option.splits prod.splits intro: calm_step_trans [OF st api_calm(6)])
qed

subsection \<open>Runs of the backend\<close>

inductive quinn_reach ::
  "('n, 'p, 'i, 'e, 'f, 'c, 'v, 's) quinn_env \<Rightarrow> quinn_id backend_event list \<Rightarrow> ('n, 'p, 'c, 'v, 's) quinn_backend \<Rightarrow> bool"
  for env :: "('n, 'p, 'i, 'e, 'f, 'c, 'v, 's) quinn_env" where
  qr_new: "quinn_new env endpoint_new (config :: ('c, 'v, unit) quinn_config) listen mmsg gso df clock = Inr be \<Longrightarrow> quinn_reach env [] be"
| qr_consume: "quinn_reach env log be \<Longrightarrow> quinn_reach env (log @ nb_events be) (be\<lparr>nb_events := []\<rparr>)"
| qr_clock: "quinn_reach env log be \<Longrightarrow> quinn_reach env log (quinn_clock_update clock be)"
| qr_tick: "quinn_reach env log be \<Longrightarrow> quinn_tick be = Some (Inr (r, be')) \<Longrightarrow> quinn_reach env log be'"
| qr_buffer: "quinn_reach env log be \<Longrightarrow> quinn_reach env log (be\<lparr>nb_io := vec_buf_drop b (nb_io be)\<rparr>)"
| qr_recv: "quinn_reach env log be \<Longrightarrow> quinn_recv env fuel it out be = Some (Inr (it', out', be')) \<Longrightarrow> quinn_reach env log be'"
| qr_send: "quinn_reach env log be \<Longrightarrow> quinn_send env out be = Some (Inr (out', be')) \<Longrightarrow> quinn_reach env log be'"
| qr_connect: "quinn_reach env log be \<Longrightarrow> quinn_connect env name addr be = Inr (res, be') \<Longrightarrow> quinn_reach env log be'"
| qr_close: "quinn_reach env log be \<Longrightarrow> quinn_close env err reason be = Inr be' \<Longrightarrow> quinn_reach env log be'"
| qr_connection_close: "quinn_reach env log be \<Longrightarrow> quinn_connection_close env cid err reason be = Inr (res1, be') \<Longrightarrow> quinn_reach env log be'"
| qr_migrate: "quinn_reach env log be \<Longrightarrow> quinn_migrate_network env new_addr be = Inr (res1, be') \<Longrightarrow> quinn_reach env log be'"
| qr_stream_recv: "quinn_reach env log be \<Longrightarrow> quinn_stream_recv env fuel cid sid buf be = Some (Inr (res2, buf', be')) \<Longrightarrow> quinn_reach env log be'"
| qr_stream_send: "quinn_reach env log be \<Longrightarrow> quinn_stream_send env cid sid bytes fin be = Inr (res3, be') \<Longrightarrow> quinn_reach env log be'"
| qr_stream_open: "quinn_reach env log be \<Longrightarrow> quinn_stream_open_send env cid bidi bytes fin be = Inr (res4, be') \<Longrightarrow> quinn_reach env log be'"
| qr_stop: "quinn_reach env log be \<Longrightarrow> quinn_stream_stop_sending env cid sid err be = Inr be' \<Longrightarrow> quinn_reach env log be'"
| qr_reset: "quinn_reach env log be \<Longrightarrow> quinn_stream_reset_sending env cid sid err be = Inr be' \<Longrightarrow> quinn_reach env log be'"
| qr_priority: "quinn_reach env log be \<Longrightarrow> quinn_stream_set_priority env cid sid pr be = Inr be' \<Longrightarrow> quinn_reach env log be'"
| qr_dgram_recv: "quinn_reach env log be \<Longrightarrow> quinn_dgram_recv env cid buf be = (res5, buf', be') \<Longrightarrow> quinn_reach env log be'"
| qr_dgram_recv_zc: "quinn_reach env log be \<Longrightarrow> quinn_dgram_recv_zc env (\<lambda>bs. bs) cid be = (res6, be') \<Longrightarrow> quinn_reach env log be'"
| qr_dgram_send: "quinn_reach env log be \<Longrightarrow> quinn_dgram_send env cid bytes be = (res7, be') \<Longrightarrow> quinn_reach env log be'"

lemma quinn_new_life: "quinn_new env endpoint_new config listen mmsg gso df clock = Inr be \<Longrightarrow> quinn_life [] be"
  by (auto simp: quinn_new_def rust_simps quinn_life_def life_ok_def quinn_conns_new_def view_of_def Let_def)

lemma tick_calm: "quinn_tick be = Some (Inr (r, be')) \<Longrightarrow> calm_step be be'"
  by (auto simp: quinn_tick_def rust_simps)

lemmas calm_keeps = life_steps_keep [OF nb_calm_life]

lemma quinn_reach_life: "quinn_reach env log be \<Longrightarrow> quinn_life log be"
proof (induction rule: quinn_reach.induct)
  case (qr_consume log be)
  then show ?case by (simp add: quinn_life_def)
qed (auto simp: quinn_clock_update_def quinn_stream_stop_sending_def quinn_stream_reset_sending_def quinn_stream_set_priority_def
      intro: quinn_new_life calm_keeps [OF tick_calm] calm_keeps [OF calm_step_fields(1)] calm_keeps [OF calm_step_fields(2)] calm_keeps [OF close_calm]
        calm_keeps [OF migrate_calm] calm_keeps [OF open_send_calm] calm_keeps [OF api_calm(1)] calm_keeps [OF api_calm(2)] calm_keeps [OF api_calm(3)]
        calm_keeps [OF api_calm(4)] calm_keeps [OF api_calm(5)] calm_keeps [OF api_calm(6)]
        life_steps_keep [OF recv_life] life_steps_keep [OF send_life] life_steps_keep [OF nb_connect_life] life_steps_keep [OF nb_connection_close_life])

lemma life_ids_distinct:
  assumes "life_ok es view version" and "length (new_ids es) \<le> 2 ^ 32"
  shows "distinct (map ni_version (new_ids es))"
  using assms by (auto simp: life_ok_def Let_def distinct_map inj_on_def word_of_nat_eq_iff take_bit_eq_mod)

subsection \<open>A small quinn\<close>

text \<open>A \<open>quinn_proto\<close> for the witnesses: a connection that knows whether it is closed or drained and what it has to
  read; it has no timers, an idle timeout drains it, and every packet is answered with a stateless response.\<close>

record demo_quinn =
  dq_closed :: bool
  dq_drained :: bool
  dq_chunks :: "byte list list"

definition demo_quinn_env :: "bool \<Rightarrow> (demo_quinn, unit, unit, unit, unit, unit, unit, connection_key list) quinn_env" where
  "demo_quinn_env dbg = \<lparr>ne_dbg = dbg, ne_ls = list_set_ops, ne_grow = max, ne_uuid = (\<lambda>_. []), np_is_server = (\<lambda>_. False),
     np_is_closed = dq_closed, np_is_drained = dq_drained, np_mtu = (\<lambda>_. 1200), np_dgram_max = (\<lambda>_. None),
     np_close = (\<lambda>_ _ _ q. q\<lparr>dq_closed := True\<rparr>), np_poll_transmit = (\<lambda>_ _ v q. (None, v, q)),
     np_handle_timeout = (\<lambda>_ q. q\<lparr>dq_drained := True\<rparr>), np_poll_timeout = (\<lambda>q. (None, q)), np_handle_event = (\<lambda>_ q. q),
     np_poll_endpoint_events = (\<lambda>q. (None, q)), np_poll = (\<lambda>q. (None, q)), np_local_address_changed = (\<lambda>q. q), np_path_changed = (\<lambda>_ q. q),
     np_peer_identity = (\<lambda>_. None), np_stream_open = (\<lambda>_ q. (None, q)), np_stream_accept = (\<lambda>_ q. (None, q)),
     np_read = (\<lambda>_ q. (Inr (), q)),
     np_read_next = (\<lambda>_ n q. case dq_chunks q of [] \<Rightarrow> (Inl QReadBlocked, q) | c # cs \<Rightarrow> (Inr (Some c), q\<lparr>dq_chunks := cs\<rparr>)),
     np_read_end = (\<lambda>_ q. q), np_write_chunks = (\<lambda>_ _ q. (Inl QWriteBlocked, q)), np_finish = (\<lambda>_ q. (None, q)),
     np_stop = (\<lambda>_ _ q. q), np_reset = (\<lambda>_ _ q. q), np_set_priority = (\<lambda>_ _ q. q), np_dgram_recv = (\<lambda>q. (None, q)),
     np_dgram_send = (\<lambda>_ q. (None, q)), np_open_connections = (\<lambda>_. 0),
     np_connect = (\<lambda>_ _ _ _ p. (Inr (0, \<lparr>dq_closed = False, dq_drained = False, dq_chunks = [[1, 2], [3]]\<rparr>), p)),
     np_handle = (\<lambda>_ _ _ _ _ v p. (Some (QResponse (demo_transmit [7])), v\<lparr>rv_bytes := [7]\<rparr>, p)), np_endpoint_event = (\<lambda>_ _ p. (None, p)),
     np_ignore = (\<lambda>_ p. p), np_address_validated = (\<lambda>_. True), np_retry = (\<lambda>i v p. (Inl i, v, p)),
     np_accept = (\<lambda>_ _ v _ p. (Inl (None, QConnReset), v, p))\<rparr>"

definition demo_quinn_backend :: "quinn_time \<Rightarrow> (demo_quinn, unit, unit, unit, connection_key list) quinn_backend" where
  "demo_quinn_backend tm = \<lparr>nb_client = Some (), nb_server = None, nb_endpoint = (), nb_conns = quinn_conns_new list_set_ops,
     nb_io = quinn_io_new max (quinn_config_fix ((quinn_config_default () :: (unit, unit, unit) quinn_config)\<lparr>qc_client := Some ()\<rparr>)) (V4 2) False False,
     nb_time = tm, nb_events = [], nb_open = True\<rparr>"

definition demo_cid :: quinn_id where
  "demo_cid = \<lparr>ni_key = 0, ni_trace = [], ni_version = 0\<rparr>"

definition demo_connected :: "quinn_time \<Rightarrow> (demo_quinn, unit, unit, unit, connection_key list) quinn_backend" where
  "demo_connected tm = (demo_quinn_backend tm)\<lparr>
     nb_conns := \<lparr>nx_all = [Some (quinn_conn_new \<lparr>dq_closed = False, dq_drained = False, dq_chunks = [[1, 2], [3]]\<rparr> [] 0)], nx_active = [0], nx_version = 1\<rparr>,
     nb_events := [ConnectionEv (EvNew demo_cid False)]\<rparr>"

lemma demo_quinn_time: "\<exists>tm. quinn_time_new 0 = Inr tm \<and> nt_fired tm = []"
proof -
  have "next_power_of_two 64 = 64" using next_pow2_from_exact [of 0 6] by (simp add: next_power_of_two_def)
  then show ?thesis
    by (simp add: quinn_time_new_def wheel_new_def extend_levels_def required_buckets_def is_multiple_of_def level_new_def is_power_of_two_def)
qed

lemma demo_quinn_new:
  assumes "quinn_time_new 0 = Inr tm"
  shows "quinn_new (demo_quinn_env dbg) (\<lambda>_ _ _. ()) ((quinn_config_default () :: (unit, unit, unit) quinn_config)\<lparr>qc_client := Some ()\<rparr>)
    (V4 2) False False False 0 = Inr (demo_quinn_backend tm)"
  using assms by (simp add: quinn_new_def demo_quinn_backend_def demo_quinn_env_def quinn_config_fix_def quinn_config_default_def Let_def)

lemma demo_quinn_connect:
  "quinn_connect (demo_quinn_env dbg) ''host'' addr (demo_quinn_backend tm) = Inr (Inr demo_cid, demo_connected tm)"
  by (simp add: quinn_connect_def demo_quinn_backend_def demo_quinn_env_def demo_connected_def demo_cid_def quinn_register_def quinn_insert_raw_def
      quinn_conns_new_def quinn_remove_raw_eq map_put_def schedule_quinn_timeout_def nb_find_def quinn_get_def nb_store_def quinn_put_def
      nb_push_def events_extend_def list_set_ops_def quinn_conn_new_def map_get_def Let_def)

subsection \<open>Properties\<close>

text \<open>C34: every connection is reported closed at most once. Whatever is called in whatever order, and whenever the client
  drains the events: as long as fewer than \<open>2 ^ 32\<close> connections were opened, the identifiers announced by \<open>New\<close> events
  are pairwise different, the history of events holds at most one \<open>Closed\<close> or \<open>Halted\<close> event for each of them and none for
  an identifier that was not announced, and a connection that can still be looked up has got one exactly if it is
  marked so.\<close>

theorem quinn_closed_once:
  assumes "quinn_reach env log be" and "length (new_ids (log @ nb_events be)) \<le> 2 ^ 32"
  shows "distinct (new_ids (log @ nb_events be)) \<and> closed_count cid (log @ nb_events be) \<le> 1 \<and>
    (closed_count cid (log @ nb_events be) = 1 \<longrightarrow> cid \<in> set (new_ids (log @ nb_events be))) \<and>
    (\<forall>c. nb_find cid be = Some c \<longrightarrow> cid \<in> set (new_ids (log @ nb_events be)) \<longrightarrow>
      (closed_count cid (log @ nb_events be) = 1 \<longleftrightarrow> nc_closed_sent c))"
proof -
  let ?es = "log @ nb_events be"
  have life: "life_ok ?es (nb_view be) (nb_version be)" using quinn_reach_life [OF assms(1)] by (simp add: quinn_life_def)
  have dist: "distinct (map ni_version (new_ids ?es))" by (rule life_ids_distinct [OF life assms(2)])
  have "cid = quinn_id_of (ni_key cid) c \<and> closed_count cid ?es = of_bool (nc_closed_sent c)"
    if c: "nb_find cid be = Some c" "cid \<in> set (new_ids ?es)" for c
  proof -
    have v: "nb_view be (ni_key cid) = Some (quinn_id_of (ni_key cid) c, nc_closed_sent c)" "nc_version c = ni_version cid"
      using nb_find_at [OF c(1)] by (simp_all add: view_of_def)
    then have own: "quinn_id_of (ni_key cid) c \<in> set (new_ids ?es)" "closed_count (quinn_id_of (ni_key cid) c) ?es = of_bool (nc_closed_sent c)"
      using life assms(2) unfolding life_ok_def Let_def by metis+
    have "ni_version (quinn_id_of (ni_key cid) c) = ni_version cid" using v(2) by (simp add: quinn_id_of_def)
    then have "cid = quinn_id_of (ni_key cid) c"
      using inj_onD [OF dist [unfolded distinct_map, THEN conjunct2] _ own(1) c(2)] by metis
    with own show ?thesis by metis
  qed
  moreover have "closed_count cid ?es \<le> 1" "closed_count cid ?es = 1 \<Longrightarrow> cid \<in> set (new_ids ?es)"
    using life assms(2) unfolding life_ok_def Let_def by blast+
  ultimately show ?thesis using dist by (auto simp: distinct_map)
qed

theorem quinn_closed_once_witness:
  "\<exists>log be. quinn_reach (demo_quinn_env True) log be \<and> closed_count demo_cid (log @ nb_events be) = 1"
proof -
  obtain tm where tm: "quinn_time_new 0 = Inr tm" using demo_quinn_time by blast
  note conn = qr_connect [OF qr_new [OF demo_quinn_new [OF tm]] demo_quinn_connect [of True]]
  have "\<exists>be c. quinn_connection_close (demo_quinn_env True) demo_cid 5 [] (demo_connected tm) = Inr (Inr (), be) \<and>
      nb_find demo_cid be = Some c \<and> nc_closed_sent c \<and> new_ids (nb_events be) = [demo_cid]"
    by (simp add: quinn_connection_close_def demo_connected_def demo_quinn_backend_def demo_quinn_env_def nb_mark_open_def quinn_get_mark_active_if_def
        quinn_get_def demo_cid_def quinn_is_open_def u64_into_varint_def quinn_close_event_def nb_store_def quinn_put_def nb_push_def nb_find_def
        opt_conn_event_def events_extend_def quinn_conn_new_def map_get_def Let_def)
  then obtain be c where be: "quinn_connection_close (demo_quinn_env True) demo_cid 5 [] (demo_connected tm) = Inr (Inr (), be)"
    "nb_find demo_cid be = Some c" "nc_closed_sent c" "new_ids (nb_events be) = [demo_cid]" by blast
  note reach = qr_connection_close [OF conn be(1)]
  from quinn_closed_once [OF reach, of demo_cid] be have "closed_count demo_cid ([] @ nb_events be) = 1" by simp
  with reach show ?thesis by blast
qed

text \<open>C36: a stateless response takes the backend down. When the endpoint answers a packet by itself (version
  negotiation, stateless reset), \<open>recv\<close> clears the buffer it wrote the answer into before it makes the message,
  so the assertion that the message is not empty fails and \<open>recv\<close> panics, whatever the packet was.\<close>

theorem quinn_response_panics:
  assumes "flatten_peek (ne_dbg env) it = Inr (Some pk, it1)" and "pop_reserved_buffer (nb_io be) = (Some buffer, io)"
    and "np_handle env (nt_clock (nb_time be)) (pk_from pk) (pk_to pk) (ecn_to_quinn (pk_ecn pk)) (pk_payload pk) (vb_vec buffer) (nb_endpoint be) =
      (Some (QResponse tr), v, p)"
    and "tr_segment_size tr = None" and "tr_size tr = length (rv_bytes v)" and "rv_bytes v \<noteq> []"
  shows "quinn_recv env (Suc n) it out be = Some (Inl (if ne_dbg env then DebugAssertFailed else AssertFailed))"
proof -
  have "transmit_to_msg (ne_dbg env) io0 tr (buffer\<lparr>vb_vec := vec_clear v\<rparr>) = Inl (if ne_dbg env then DebugAssertFailed else AssertFailed)" for io0
    using assms(4-6) by (simp add: transmit_to_msg_def vb_len_def vec_clear_def send_msg_new_def)
  then show ?thesis using assms(1-3)
    by (simp add: quinn_recv_packet_def quinn_datagram_event_def write_response_def)
qed

theorem quinn_response_panics_witness:
  "\<exists>tm. quinn_recv (demo_quinn_env False) (Suc 0)
      (flatten_new [\<lparr>rm_buf = [9, 9], rm_read = 2, rm_from = \<lparr>sa_ip = V4 7, sa_port = 1\<rparr>, rm_to = V4 2, rm_ecn = NEct, rm_segment_count = 1, rm_timestamp = None\<rparr>])
      [] (demo_quinn_backend tm) = Some (Inl AssertFailed)"
proof -
  let ?msg = "\<lparr>rm_buf = [9, 9], rm_read = 2, rm_from = \<lparr>sa_ip = V4 7, sa_port = 1\<rparr>, rm_to = V4 2, rm_ecn = NEct, rm_segment_count = 1, rm_timestamp = None\<rparr>"
  obtain tm where "quinn_time_new 0 = Inr tm" using demo_quinn_time by blast
  have "\<exists>pk. flatten_peek False (flatten_new [?msg]) = Inr (Some pk, flatten_new [?msg])"
    by (simp add: flatten_peek.simps [of False] flatten_new_def debug_assert_segments_def segment_size_def)
  then obtain pk where peek: "flatten_peek False (flatten_new [?msg]) = Inr (Some pk, flatten_new [?msg])" by (elim exE) (rule that)
  have "\<exists>b io. pop_reserved_buffer (nb_io (demo_quinn_backend tm)) = (Some b, io)"
    by (simp add: demo_quinn_backend_def quinn_io_new_def pop_reserved_buffer_def pool_pop_def pool_new_def Let_def)
  then obtain b io where pop: "pop_reserved_buffer (nb_io (demo_quinn_backend tm)) = (Some b, io)" by (elim exE) (rule that)
  have dbg: "ne_dbg (demo_quinn_env False) = False" by (simp add: demo_quinn_env_def)
  have handle: "np_handle (demo_quinn_env False) t f ip e bs v q = (Some (QResponse (demo_transmit [7])), v\<lparr>rv_bytes := [7]\<rparr>, q)" for t f ip e bs v q
    by (simp add: demo_quinn_env_def)
  have tr: "tr_segment_size (demo_transmit [7]) = None" "tr_size (demo_transmit [7]) = length (rv_bytes (vb_vec b\<lparr>rv_bytes := [7]\<rparr>))"
    "rv_bytes (vb_vec b\<lparr>rv_bytes := [7]\<rparr>) \<noteq> []" by (simp_all add: demo_transmit_def)
  have "quinn_recv (demo_quinn_env False) (Suc 0) (flatten_new [?msg]) [] (demo_quinn_backend tm) =
      Some (Inl (if ne_dbg (demo_quinn_env False) then DebugAssertFailed else AssertFailed))"
    by (rule quinn_response_panics [OF _ pop handle tr]) (simp only: dbg peek)
  then show ?thesis unfolding dbg if_False by (rule exI)
qed

lemma copy_chunk_first: "length chunk \<le> length out \<Longrightarrow> copy_chunk 0 chunk out = Inr (splice 0 chunk out)"
  by (simp add: copy_chunk_def)

lemma copy_chunk_later: "0 < offset \<Longrightarrow> \<exists>p. copy_chunk offset chunk out = Inl p"
  by (auto simp: copy_chunk_def rust_simps panic_if_def)

text \<open>a read that takes two chunks from \<open>quinn_proto\<close> panics. When the stream hands out a first chunk that is
  not empty and leaves room in the buffer, and then a second one, whatever its length, \<open>stream_recv\<close> panics: it
  copies the second chunk into \<open>out[offset..len]\<close>, which is no range of that length, instead of
  \<open>out[offset..offset + len]\<close>.\<close>

lemma quinn_stream_recv_two_chunks:
  assumes "nb_open be" and "\<not> (is_client sid \<and> is_uni sid)" and "nb_mark_open env cid be = (Some c, be1)" and "sid_to_quinn sid = Inr stream"
    and "np_read env stream (nc_inner c) = (Inr (), q)"
    and "np_read_next env stream (length out) q = (Inr (Some chunk1), q1)" and "chunk1 \<noteq> []" and "length chunk1 < length out"
    and "np_read_next env stream (length out - length chunk1) q1 = (Inr (Some chunk2), q2)" and "2 \<le> fuel"
  shows "\<exists>p. quinn_stream_recv env fuel cid sid out be = Some (Inl p)"
proof -
  obtain n where n: "fuel = Suc (Suc n)" using assms(10) by (metis Suc_le_D numeral_2_eq_2 Suc_le_mono)
  obtain p where "copy_chunk (length chunk1) chunk2 (splice 0 chunk1 out) = Inl p" using copy_chunk_later assms(7) by (meson length_greater_0_conv)
  then have "read_chunks env fuel stream 0 out q = Some (Inl p)"
    using assms(6-9) by (auto simp: n copy_chunk_first)
  then show ?thesis using assms(1-5,8) by (auto simp: quinn_stream_recv_def)
qed

text \<open>A read that one chunk ends delivers it.\<close>

lemma quinn_stream_recv_one_chunk:
  assumes "nb_open be" and "\<not> (is_client sid \<and> is_uni sid)" and "nb_mark_open env cid be = (Some c, be1)" and "sid_to_quinn sid = Inr stream"
    and "np_read env stream (nc_inner c) = (Inr (), q)" and "0 < length out"
    and "np_read_next env stream (length out) q = (Inr (Some chunk), q1)" and "length chunk \<le> length out"
    and "np_read_next env stream (length out - length chunk) q1 = (Inl QReadBlocked, q2)" and "2 \<le> fuel"
  shows "\<exists>be'. quinn_stream_recv env fuel cid sid out be = Some (Inr (Inr (length chunk, False), splice 0 chunk out, be'))"
proof -
  obtain n where n: "fuel = Suc (Suc n)" using assms(10) by (metis Suc_le_D numeral_2_eq_2 Suc_le_mono)
  have "\<exists>q3. read_chunks env fuel stream 0 out q = Some (Inr (Inr (length chunk, False), splice 0 chunk out, q3))"
    using assms(6-9) by (auto simp: n copy_chunk_first)
  then show ?thesis using assms(1-6) by (auto simp: quinn_stream_recv_def)
qed

lemma quinn_stream_recv_two_chunks_witness:
  "\<exists>tm p. quinn_stream_recv (demo_quinn_env False) 2 demo_cid (StreamId 0) [0, 0, 0, 0] (demo_connected tm) = Some (Inl p)"
proof -
  obtain tm where "quinn_time_new 0 = Inr tm" using demo_quinn_time by blast
  let ?q = "\<lparr>dq_closed = False, dq_drained = False, dq_chunks = [[1, 2], [3]]\<rparr>"
  have "\<exists>be1. nb_mark_open (demo_quinn_env False) demo_cid (demo_connected tm) = (Some (quinn_conn_new ?q [] 0), be1)"
    by (simp add: demo_connected_def demo_quinn_env_def nb_mark_open_def quinn_get_mark_active_if_def
        quinn_get_def demo_cid_def quinn_is_open_def quinn_conn_new_def map_get_def Let_def)
  then obtain be1 where mark: "nb_mark_open (demo_quinn_env False) demo_cid (demo_connected tm) = (Some (quinn_conn_new ?q [] 0), be1)"
    by (elim exE) (rule that)
  have is_open: "nb_open (demo_connected tm)" by (simp add: demo_connected_def demo_quinn_backend_def)
  have sid: "\<not> (is_client (StreamId 0) \<and> is_uni (StreamId 0))" "sid_to_quinn (StreamId 0) = Inr 0"
    by (simp_all add: is_uni_def sid_to_quinn_def varint_from_sid_def)
  have read: "np_read (demo_quinn_env False) 0 (nc_inner (quinn_conn_new ?q [] 0)) = (Inr (), ?q)"
    "np_read_next (demo_quinn_env False) 0 n ?q = (Inr (Some [1, 2]), ?q\<lparr>dq_chunks := [[3]]\<rparr>)"
    "np_read_next (demo_quinn_env False) 0 n (?q\<lparr>dq_chunks := [[3]]\<rparr>) = (Inr (Some [3]), ?q\<lparr>dq_chunks := []\<rparr>)" for n
    by (simp_all add: demo_quinn_env_def quinn_conn_new_def)
  show ?thesis
    using quinn_stream_recv_two_chunks [OF is_open sid(1) mark sid(2) read(1,2) _ _ read(3) order_refl] by (intro exI [of _ tm]) simp
qed


definition demo_timed_out :: "quinn_time \<Rightarrow> (demo_quinn, unit, unit, unit, connection_key list) quinn_backend" where
  "demo_timed_out tm = (demo_connected tm)\<lparr>
     nb_conns := (nb_conns (demo_connected tm))\<lparr>nx_active := []\<rparr>, nb_time := tm\<lparr>nt_fired := [\<lparr>bk_elements = [Some demo_cid], source_index = 0\<rparr>]\<rparr>\<rparr>"


lemma quinn_peek_shrinks:
  assumes "linked_set elems ls" and "quinn_peek_loop ls n cs = (r, cs')"
  shows "length (elems (nx_active cs')) \<le> length (elems (nx_active cs)) \<and> (r \<noteq> None \<longrightarrow> elems (nx_active cs') \<noteq> [])"
  using assms(2)
proof (induction n arbitrary: cs)
  case (Suc n)
  then show ?case
    by (fastforce simp: elems_front [OF assms(1)] elems_pop_front [OF assms(1)] split: list.splits option.splits)
qed simp

lemma quinn_forget_active:
  assumes "linked_set elems (ne_ls env)" and "quinn_forget env cid be = Inr be'"
  shows "length (elems (nx_active (nb_conns be'))) \<le> length (elems (nx_active (nb_conns be)))"
  using assms(2) length_remove1 [of "ni_key cid" "elems (nx_active (nb_conns be))"]
  by (auto simp: quinn_forget_def quinn_remove_def quinn_remove_raw_eq nb_push_def elems_remove [OF assms(1)] rust_simps case_prod_beta
      split: option.splits if_splits)

lemma schedule_active: "schedule_quinn_timeout env cid at be = Inr be' \<Longrightarrow> nx_active (nb_conns be') = nx_active (nb_conns be)"
  by (auto simp: schedule_quinn_timeout_def nb_store_def quinn_put_def rust_simps Let_def split: option.splits prod.splits)

lemma quinn_send_loop_returns:
  assumes "linked_set elems (ne_ls env)" and "length (elems (nx_active (nb_conns be))) < n"
  shows "\<exists>r. quinn_send_loop env n out be = Some r"
  using assms(2)
proof (induction n arbitrary: out be)
  case (Suc n)
  let ?ls = "ne_ls env"
  obtain r cs where peek: "quinn_peek_active ?ls (nb_conns be) = (r, cs)" by fastforce
  show ?case
  proof (cases r)
    case None
    then show ?thesis by (simp add: peek)
  next
    case (Some p)
    then obtain cid c where p: "r = Some (cid, c)" by (cases p) simp
    have len: "length (elems (nx_active cs)) \<le> n" "elems (nx_active cs) \<noteq> []"
      using quinn_peek_shrinks [OF assms(1) peek [unfolded quinn_peek_active_def]] Suc.prems p by auto
    have pop: "length (elems (ls_pop_front ?ls s)) < n" if "length (elems s) \<le> length (elems (nx_active cs))" for s
      using that len by (cases "elems s"; cases n) (auto simp: elems_pop_front [OF assms(1)])
    have drained: "\<exists>r. quinn_send_loop env n out (be2\<lparr>nb_conns := quinn_next_active ?ls (nb_conns be2)\<rparr>) = Some r"
      if "quinn_forget env cid (be\<lparr>nb_conns := cs\<rparr>) = Inr be2" for be2
      using quinn_forget_active [OF assms(1) that] by (intro Suc.IH) (simp add: pop)
    have written: "\<exists>r. quinn_send_loop env n out1 be3 = Some r"
      if "schedule_quinn_timeout env cid None be2 = Inr be3" "nx_active (nb_conns be2) = ls_pop_front ?ls (nx_active cs)" for out1 be2 be3
      using schedule_active [OF that(1)] that(2) by (intro Suc.IH) (simp add: pop)
    show ?thesis
      using drained written by (auto simp: peek p Let_def nb_store_def split: sum.splits prod.splits)
  qed
qed simp

text \<open>C35: \<open>send\<close> returns. Every round of its loop takes at least one connection off the queue of the active ones, so
  the length of the queue and one more are rounds enough, whatever \<open>quinn_proto\<close> does.\<close>

theorem quinn_send_returns:
  assumes "linked_set elems (ne_ls env)"
  shows "\<exists>r. quinn_send env out be = Some r"
  using quinn_send_loop_returns [OF assms] by (simp add: quinn_send_def elems_len [OF assms] Let_def del: quinn_send_loop.simps)

theorem quinn_send_returns_witness:
  "\<exists>tm r. quinn_send (demo_quinn_env False) [] (demo_timed_out tm) = Some r"
proof -
  have "linked_set remdups (ne_ls (demo_quinn_env False))" using list_set_linked by (simp add: demo_quinn_env_def)
  from quinn_send_returns [OF this] show ?thesis by blast
qed

end
