(* ===== verification/Backend_Contract.thy ===== *)
theory Backend_Contract
  imports Quiche_Lifecycle Quinn_Lifecycle
begin

section \<open>The interface that the backends implement\<close>

text \<open>
  The trait \<open>QuicBackend\<close> of \<open>src/aquic-core/src/backend/mod.rs\<close>, as the core uses it: a call of one of its
  operations and the reply are values (\<open>backend_call\<close>, \<open>backend_reply\<close>), and each of the two backends is a function
  from a call and a state to a reply and a state (\<open>quiche_call\<close>, \<open>quinn_call\<close>). The sections \<open>Error\<close> of the
  documentation of the trait are the function \<open>refusal\<close>: which calls are refused, with which reply and in which
  order of precedence. The locale \<open>quic_backend\<close> is the contract, and both backends are interpretations of it.

  \<open>send\<close>, \<open>recv\<close>, \<open>tick\<close>, \<open>clock_update\<close> and \<open>events\<close> are not calls of the application and are left to the theories
  of the two backends. The documentation asks the two ways to receive a datagram to refuse a connection that is
  draining or closed; both backends only refuse one they do not know, and \<open>refusal\<close> follows the code. So it does for
  \<open>dgram_send_max_size\<close>, which refuses a draining or closed connection although only an unknown one is documented.
\<close>

subsection \<open>Calls and replies\<close>

datatype 'd backend_call =
    CallConnect string sock_addr
  | CallConnectionClose 'd nat "byte list"
  | CallMigrateNetwork "ip_addr option"
  | CallPeerCertChain 'd
  | CallStreamRecv 'd stream_id "byte list"
  | CallStreamOpenSend 'd bool "byte list" bool
  | CallStreamSend 'd stream_id "byte list" bool
  | CallStreamStopSending 'd stream_id nat
  | CallStreamResetSending 'd stream_id nat
  | CallStreamSetPriority 'd stream_id priority
  | CallDgramRecv 'd "byte list"
  | CallDgramRecvZc 'd
  | CallDgramSend 'd "byte list"
  | CallDgramSendMaxSize 'd
  | CallClose nat "byte list"

text \<open>A slice \<open>out\<close> is passed as the bytes it holds; the reply has the bytes that were received.\<close>

datatype 'd backend_reply =
    ReplyUnit
  | ReplyId 'd
  | ReplyChain "byte list list"
  | ReplyData "byte list" bool
  | ReplyOpened stream_id "byte list option"
  | ReplyUnsent "byte list option"
  | ReplyDatagram "byte list option"
  | ReplySize nat
  | ReplyError backend_error

type_synonym ('d, 'b) backend_fun = "'d backend_call \<Rightarrow> 'b \<Rightarrow> (panic + 'd backend_reply \<times> 'b) option"

definition reply_of :: "('a \<Rightarrow> 'd backend_reply) \<Rightarrow> backend_error + 'a \<Rightarrow> 'd backend_reply" where
  "reply_of f r = (case r of Inl e \<Rightarrow> ReplyError e | Inr x \<Rightarrow> f x)"

definition quiche_call ::
  "('q, 's, 'g, 't, 'c) quiche_env \<Rightarrow> (('q, 's, 'g, 't, 'c) quiche_backend \<Rightarrow> connection_key list) \<Rightarrow>
   (quiche_connection_id, ('q, 's, 'g, 't, 'c) quiche_backend) backend_fun" where
  "quiche_call env keys call be = Some (case call of
     CallConnect name addr \<Rightarrow> and_then (backend_connect env name addr be) (\<lambda>(r, be1). Inr (reply_of ReplyId r, be1))
   | CallConnectionClose cid err reason \<Rightarrow> (let (r, be1) = connection_close env cid err reason be in Inr (reply_of (\<lambda>_. ReplyUnit) r, be1))
   | CallMigrateNetwork addr \<Rightarrow> and_then (migrate_network env (keys be) addr be) (\<lambda>(r, be1). Inr (reply_of (\<lambda>_. ReplyUnit) r, be1))
   | CallPeerCertChain cid \<Rightarrow> Inr (reply_of ReplyChain (peer_cert_chain env cid be), be)
   | CallStreamRecv cid sid out \<Rightarrow>
       (let (r, be1) = stream_recv env cid sid (length out) be in Inr (reply_of (\<lambda>(bytes, fin). ReplyData bytes fin) r, be1))
   | CallStreamOpenSend cid bidi bytes fin \<Rightarrow>
       (let (r, be1) = stream_open_send env cid bidi bytes fin be in Inr (reply_of (\<lambda>(sid, unsent). ReplyOpened sid unsent) r, be1))
   | CallStreamSend cid sid bytes fin \<Rightarrow> (let (r, be1) = stream_send env cid sid bytes fin be in Inr (reply_of ReplyUnsent r, be1))
   | CallStreamStopSending cid sid err \<Rightarrow> Inr (ReplyUnit, stream_stop_sending env cid sid err be)
   | CallStreamResetSending cid sid err \<Rightarrow> Inr (ReplyUnit, stream_reset_sending env cid sid err be)
   | CallStreamSetPriority cid sid p \<Rightarrow> Inr (ReplyUnit, stream_set_priority env cid sid p be)
   | CallDgramRecv cid out \<Rightarrow> (let (r, be1) = dgram_recv env cid (length out) be in Inr (reply_of (\<lambda>bytes. ReplyData bytes False) r, be1))
   | CallDgramRecvZc cid \<Rightarrow> (let (r, be1) = dgram_recv_zc env (\<lambda>bytes. bytes) cid be in Inr (reply_of ReplyDatagram r, be1))
   | CallDgramSend cid bytes \<Rightarrow> (let (r, be1) = dgram_send env cid bytes be in Inr (reply_of ReplyUnsent r, be1))
   | CallDgramSendMaxSize cid \<Rightarrow> Inr (reply_of ReplySize (dgram_send_max_size env cid be), be)
   | CallClose err reason \<Rightarrow> Inr (ReplyUnit, backend_close env (keys be) err reason be))"

definition quinn_call ::
  "('n, 'p, 'i, 'e, 'f, 'c, 'v, 's) quinn_env \<Rightarrow> nat \<Rightarrow> (quinn_id, ('n, 'p, 'c, 'v, 's) quinn_backend) backend_fun" where
  "quinn_call env fuel call be = (case call of
     CallConnect name addr \<Rightarrow> Some (and_then (quinn_connect env name addr be) (\<lambda>(r, be1). Inr (reply_of ReplyId r, be1)))
   | CallConnectionClose cid err reason \<Rightarrow>
       Some (and_then (quinn_connection_close env cid err reason be) (\<lambda>(r, be1). Inr (reply_of (\<lambda>_. ReplyUnit) r, be1)))
   | CallMigrateNetwork addr \<Rightarrow> Some (and_then (quinn_migrate_network env addr be) (\<lambda>(r, be1). Inr (reply_of (\<lambda>_. ReplyUnit) r, be1)))
   | CallPeerCertChain cid \<Rightarrow> Some (Inr (reply_of ReplyChain (quinn_peer_cert_chain env cid be), be))
   | CallStreamRecv cid sid out \<Rightarrow>
       map_option (\<lambda>res. and_then res (\<lambda>(r, out1, be1). Inr (reply_of (\<lambda>(n, fin). ReplyData (take n out1) fin) r, be1)))
         (quinn_stream_recv env fuel cid sid out be)
   | CallStreamOpenSend cid bidi bytes fin \<Rightarrow>
       Some (and_then (quinn_stream_open_send env cid bidi bytes fin be) (\<lambda>(r, be1). Inr (reply_of (\<lambda>(sid, unsent). ReplyOpened sid unsent) r, be1)))
   | CallStreamSend cid sid bytes fin \<Rightarrow>
       Some (and_then (quinn_stream_send env cid sid bytes fin be) (\<lambda>(r, be1). Inr (reply_of ReplyUnsent r, be1)))
   | CallStreamStopSending cid sid err \<Rightarrow> Some (and_then (quinn_stream_stop_sending env cid sid err be) (\<lambda>be1. Inr (ReplyUnit, be1)))
   | CallStreamResetSending cid sid err \<Rightarrow> Some (and_then (quinn_stream_reset_sending env cid sid err be) (\<lambda>be1. Inr (ReplyUnit, be1)))
   | CallStreamSetPriority cid sid p \<Rightarrow> Some (and_then (quinn_stream_set_priority env cid sid p be) (\<lambda>be1. Inr (ReplyUnit, be1)))
   | CallDgramRecv cid out \<Rightarrow>
       (let (r, out1, be1) = quinn_dgram_recv env cid out be in Some (Inr (reply_of (\<lambda>n. ReplyData (take n out1) False) r, be1)))
   | CallDgramRecvZc cid \<Rightarrow> (let (r, be1) = quinn_dgram_recv_zc env (\<lambda>bytes. bytes) cid be in Some (Inr (reply_of ReplyDatagram r, be1)))
   | CallDgramSend cid bytes \<Rightarrow> (let (r, be1) = quinn_dgram_send env cid bytes be in Some (Inr (reply_of ReplyUnsent r, be1)))
   | CallDgramSendMaxSize cid \<Rightarrow> Some (Inr (reply_of ReplySize (quinn_dgram_send_max_size env cid be), be))
   | CallClose err reason \<Rightarrow> Some (and_then (quinn_close env err reason be) (\<lambda>be1. Inr (ReplyUnit, be1))))"

subsection \<open>What the documentation refuses\<close>

text \<open>The calls without a result do nothing where the others return an error.\<close>

definition closed_reply :: "'d backend_call \<Rightarrow> 'd backend_reply" where
  "closed_reply call = (case call of
     CallStreamStopSending _ _ _ \<Rightarrow> ReplyUnit
   | CallStreamResetSending _ _ _ \<Rightarrow> ReplyUnit
   | CallStreamSetPriority _ _ _ \<Rightarrow> ReplyUnit
   | CallClose _ _ \<Rightarrow> ReplyUnit
   | _ \<Rightarrow> ReplyError ErrClosed)"

text \<open>\<open>known\<close>: the backend has the connection; \<open>live\<close>: it is neither draining nor closed.\<close>

definition refusal :: "bool \<Rightarrow> bool \<Rightarrow> ('d \<Rightarrow> bool) \<Rightarrow> ('d \<Rightarrow> bool) \<Rightarrow> 'd backend_call \<Rightarrow> 'd backend_reply option" where
  "refusal is_open client known live call =
     (let unknown = (\<lambda>found cid. if found cid then None else Some (ReplyError UnknownConnection));
          no_op = (\<lambda>illegal cid. if illegal \<or> \<not> live cid then Some ReplyUnit else None);
          read_only = (\<lambda>sid. is_server sid \<and> is_uni sid);
          write_only = (\<lambda>sid. is_client sid \<and> is_uni sid)
      in if \<not> is_open then Some (closed_reply call)
         else case call of
           CallConnect _ _ \<Rightarrow> if client then None else Some (ReplyError Illegal)
         | CallConnectionClose cid _ _ \<Rightarrow> unknown live cid
         | CallMigrateNetwork addr \<Rightarrow>
             (case addr of Some ip \<Rightarrow> if ip_unspecified ip then Some (ReplyError Illegal) else None | None \<Rightarrow> None)
         | CallPeerCertChain cid \<Rightarrow> unknown known cid
         | CallStreamRecv cid sid out \<Rightarrow>
             if write_only sid then Some (ReplyError Illegal)
             else if out = [] then Some (ReplyError BufferSize)
             else unknown live cid
         | CallStreamOpenSend cid _ _ _ \<Rightarrow> unknown live cid
         | CallStreamSend cid sid _ _ \<Rightarrow> if read_only sid then Some (ReplyError Illegal) else unknown live cid
         | CallStreamStopSending cid sid _ \<Rightarrow> no_op (write_only sid) cid
         | CallStreamResetSending cid sid _ \<Rightarrow> no_op (read_only sid) cid
         | CallStreamSetPriority cid sid _ \<Rightarrow> no_op (read_only sid) cid
         | CallDgramRecv cid _ \<Rightarrow> unknown known cid
         | CallDgramRecvZc cid \<Rightarrow> unknown known cid
         | CallDgramSend cid _ \<Rightarrow> unknown live cid
         | CallDgramSendMaxSize cid \<Rightarrow> unknown live cid
         | CallClose _ _ \<Rightarrow> None)"

definition is_close_call :: "'d backend_call \<Rightarrow> bool" where
  "is_close_call call = (case call of CallClose _ _ \<Rightarrow> True | _ \<Rightarrow> False)"

text \<open>A sequence of calls, with the replies.\<close>

fun backend_run :: "('d, 'b) backend_fun \<Rightarrow> 'd backend_call list \<Rightarrow> 'b \<Rightarrow> (panic + 'd backend_reply list \<times> 'b) option" where
  "backend_run call [] be = Some (Inr ([], be))"
| "backend_run call (c # cs) be = (case call c be of
     None \<Rightarrow> None
   | Some (Inl p) \<Rightarrow> Some (Inl p)
   | Some (Inr (r, be1)) \<Rightarrow> map_option (\<lambda>res. and_then res (\<lambda>(rs, be2). Inr (r # rs, be2))) (backend_run call cs be1))"

subsection \<open>The contract\<close>

locale quic_backend =
  fixes call :: "'d backend_call \<Rightarrow> 'b \<Rightarrow> (panic + 'd backend_reply \<times> 'b) option"
    and is_open :: "'b \<Rightarrow> bool" and client :: "'b \<Rightarrow> bool"
    and known :: "'b \<Rightarrow> 'd \<Rightarrow> bool" and live :: "'b \<Rightarrow> 'd \<Rightarrow> bool"
    and events :: "'b \<Rightarrow> 'd backend_event list"
  assumes refused: "refusal (is_open be) (client be) (known be) (live be) c = Some r \<Longrightarrow> call c be = Some (Inr (r, be))"
    and closed_only: "call c be = Some (Inr (ReplyError ErrClosed, be')) \<Longrightarrow> \<not> is_open be"
    and extends: "call c be = Some (Inr (r, be')) \<Longrightarrow> \<not> is_close_call c \<Longrightarrow>
      is_open be' = is_open be \<and> (\<exists>new. events be' = events be @ new)"
    and closes: "call (CallClose err reason) be = Some (Inr (r, be')) \<Longrightarrow> r = ReplyUnit \<and> \<not> is_open be' \<and> events be' = events be"
    and connects: "call (CallConnect name addr) be = Some (Inr (ReplyId cid, be')) \<Longrightarrow>
      \<exists>side. events be' = events be @ [ConnectionEv (EvNew cid side)]"
begin

lemma run_closed: "\<not> is_open be \<Longrightarrow> backend_run call cs be = Some (Inr (map closed_reply cs, be))"
proof (induction cs)
  case (Cons c cs)
  have "refusal (is_open be) (client be) (known be) (live be) c = Some (closed_reply c)" using Cons.prems by (simp add: refusal_def Let_def)
  from refused [OF this] Cons show ?case by simp
qed simp

lemma run_step:
  assumes "call c be = Some (Inr (r, be'))"
  shows "(is_open be' \<longleftrightarrow> is_open be \<and> \<not> is_close_call c) \<and> (\<exists>new. events be' = events be @ new)"
proof (cases "is_close_call c")
  case True
  then obtain err reason where "c = CallClose err reason" by (cases c) (simp_all add: is_close_call_def)
  with closes [of err reason be r be'] assms True show ?thesis by simp
next
  case False
  then show ?thesis using extends [OF assms] by simp
qed

lemma run_open:
  assumes "backend_run call cs be = Some (Inr (rs, be'))"
  shows "(is_open be' \<longleftrightarrow> is_open be \<and> (\<forall>c \<in> set cs. \<not> is_close_call c)) \<and> (\<exists>new. events be' = events be @ new) \<and> length rs = length cs"
  using assms
proof (induction cs arbitrary: be rs)
  case (Cons c cs)
  obtain r be1 rs1 where c: "call c be = Some (Inr (r, be1))" "backend_run call cs be1 = Some (Inr (rs1, be'))" "rs = r # rs1"
    using Cons.prems by (auto simp: and_then_eq_Inr split: option.splits sum.splits)
  from Cons.IH [OF c(2)] run_step [OF c(1)] c(3) show ?case by auto
qed simp

lemma after_close:
  assumes "backend_run call (cs @ [CallClose err reason]) be = Some (Inr (rs, be1))"
  shows "backend_run call ds be1 = Some (Inr (map closed_reply ds, be1))"
  using run_closed run_open [OF assms] by (simp add: is_close_call_def)

end

subsection \<open>The quiche backend\<close>

definition quiche_known :: "('q, 's, 'g, 't, 'c) quiche_backend \<Rightarrow> quiche_connection_id \<Rightarrow> bool" where
  "quiche_known be cid \<longleftrightarrow> lookup (qid_key cid) be \<noteq> None"

definition quiche_live :: "('q, 's, 'g, 't, 'c) quiche_env \<Rightarrow> ('q, 's, 'g, 't, 'c) quiche_backend \<Rightarrow> quiche_connection_id \<Rightarrow> bool" where
  "quiche_live env be cid \<longleftrightarrow> (case lookup (qid_key cid) be of Some c \<Rightarrow> is_connection_open (ev_ops env) c | None \<Rightarrow> False)"

definition quiche_extends :: "('q, 's, 'g, 't, 'c) quiche_backend \<Rightarrow> ('q, 's, 'g, 't, 'c) quiche_backend \<Rightarrow> bool" where
  "quiche_extends be be' \<longleftrightarrow> be_open be' = be_open be \<and> (\<exists>new. be_events be' = be_events be @ new)"

lemma quiche_extends_refl [simp]: "quiche_extends be be"
  by (simp add: quiche_extends_def)

lemma quiche_extends_trans: "quiche_extends be be1 \<Longrightarrow> quiche_extends be1 be2 \<Longrightarrow> quiche_extends be be2"
  by (auto simp: quiche_extends_def)

lemma quiche_extends_simps [simp]:
  "quiche_extends be (store key c be1) \<longleftrightarrow> quiche_extends be be1"
  "quiche_extends be (be1\<lparr>be_connections := cs\<rparr>) \<longleftrightarrow> quiche_extends be be1"
  "quiche_extends be (be1\<lparr>be_time := tm\<rparr>) \<longleftrightarrow> quiche_extends be be1"
  "quiche_extends be (be1\<lparr>be_cid_generator := g\<rparr>) \<longleftrightarrow> quiche_extends be be1"
  "quiche_extends be (be1\<lparr>be_session_cache := k\<rparr>) \<longleftrightarrow> quiche_extends be be1"
  "quiche_extends be (be1\<lparr>be_listen_addr := l\<rparr>) \<longleftrightarrow> quiche_extends be be1"
  "quiche_extends be be1 \<Longrightarrow> quiche_extends be (push_events es be1)"
  by (auto simp: quiche_extends_def store_def push_events_def events_extend_def)

lemma quiche_open_connection:
  assumes "open_connection env (qid_key cid) be = (r, be1)"
  shows "\<not> quiche_live env be cid \<Longrightarrow> r = None \<and> be1 = be" and "quiche_extends be be1"
  using assms by (auto simp: open_connection_def get_mark_active_if_def quiche_live_def lookup_def connections_get_def split: option.splits if_splits)

lemma quiche_dead: "\<not> quiche_live env be cid \<Longrightarrow> open_connection env (qid_key cid) be = (None, be)"
  using quiche_open_connection(1) [of env cid be] by (metis prod.collapse)

lemmas quiche_api_defs = backend_connect_def connection_close_def migrate_network_def peer_cert_chain_def stream_recv_def stream_open_send_def
  stream_send_def stream_stop_sending_def stream_reset_sending_def stream_set_priority_def take_datagram_def dgram_recv_def dgram_recv_zc_def
  dgram_send_def dgram_send_max_size_def backend_close_def

lemma quiche_refused:
  assumes "refusal (be_open be) (be_client be \<noteq> None) (quiche_known be) (quiche_live env be) c = Some r"
  shows "quiche_call env keys c be = Some (Inr (r, be))"
proof (cases "be_open be")
  case False
  then show ?thesis using assms
    by (cases c) (simp_all add: quiche_call_def refusal_def closed_reply_def reply_of_def quiche_api_defs)
next
  case True
  then show ?thesis using assms
    by (cases c) (auto simp: quiche_call_def refusal_def reply_of_def quiche_api_defs quiche_known_def quiche_dead Let_def
        split: if_splits option.splits, auto simp: quiche_live_def split: option.splits)
qed

lemma quiche_set_timer_extends: "set_timer env kind key c at be = Inr be' \<Longrightarrow> quiche_extends be be' \<and> be_events be' = be_events be"
  by (auto simp: set_timer_def store_def quiche_extends_def and_then_eq_Inr split: prod.splits)

lemma quiche_schedule_extends:
  "schedule_quiche_timeout env key at be = Inr be' \<Longrightarrow> quiche_extends be be' \<and> be_events be' = be_events be"
  "schedule_establish_timeout env key at be = Inr be' \<Longrightarrow> quiche_extends be be' \<and> be_events be' = be_events be"
  using quiche_set_timer_extends
  by (fastforce simp: schedule_quiche_timeout_def schedule_establish_timeout_def split: option.splits)+

lemma quiche_register_extends:
  assumes "register_new_connection env c addr be = Inr (cid, be')"
  shows "quiche_extends be be' \<and> (\<exists>side. be_events be' = be_events be @ [ConnectionEv (EvNew cid side)])"
  using assms quiche_schedule_extends(1) quiche_schedule_extends(2)
  by (fastforce simp: register_new_connection_def push_events_def events_extend_def quiche_extends_def rust_simps)

lemma quiche_forget_extends: "forget_connection env key be = Inr be' \<Longrightarrow> quiche_extends be be'"
  by (auto simp: forget_connection_def rust_simps Let_def case_prod_beta split: option.splits)

lemma quiche_connect_extends:
  assumes "backend_connect env name addr be = Inr (r, be')"
  shows "quiche_extends be be' \<and> (\<forall>cid. r = Inr cid \<longrightarrow> (\<exists>side. be_events be' = be_events be @ [ConnectionEv (EvNew cid side)]))"
proof -
  have reg: "quiche_extends be be' \<and> (\<exists>side. be_events be' = be_events be @ [ConnectionEv (EvNew cid side)])"
    if "register_new_connection env c addr (be\<lparr>be_cid_generator := g, be_session_cache := k\<rparr>) = Inr (cid, be')" for c g k cid
    using quiche_register_extends [OF that] by (auto simp: quiche_extends_def)
  show ?thesis using assms reg
    by (auto simp: backend_connect_def and_then_eq_Inr Let_def case_prod_beta split: if_splits sum.splits)
qed

lemma quiche_migrate_loop_extends: "quiche_extends be (snd (migrate_connections env keys be))"
proof (induction keys arbitrary: be)
  case (Cons key keys)
  have ih: "quiche_extends be (snd (migrate_connections env keys be1))" if "quiche_extends be be1" for be1
    using quiche_extends_trans [OF that Cons.IH] .
  show ?case by (auto simp: Let_def case_prod_beta ih split: option.splits)
qed simp

lemma quiche_decisions_extend: "apply_decisions env ds be = Inr be' \<Longrightarrow> quiche_extends be be'"
proof (induction env ds be rule: apply_decisions.induct)
  case (3 env key ds be)
  then show ?case using quiche_forget_extends quiche_extends_trans by (fastforce simp: and_then_eq_Inr)
qed (simp_all, metis quiche_extends_simps(2) quiche_extends_refl quiche_extends_trans)

lemma quiche_migrate_extends:
  assumes "migrate_network env keys addr be = Inr (r, be')"
  shows "quiche_extends be be'"
proof -
  have step: "quiche_extends be be'"
    if "apply_decisions env (fst (migrate_connections env keys be1)) (snd (migrate_connections env keys be1)) = Inr be'" "quiche_extends be be1" for be1
    using quiche_extends_trans [OF that(2) quiche_extends_trans [OF quiche_migrate_loop_extends quiche_decisions_extend [OF that(1)]]] .
  show ?thesis using assms step
    by (cases addr) (auto simp: migrate_network_def and_then_eq_Inr Let_def case_prod_beta split: if_splits)
qed

lemma quiche_stream_send_extends: "quiche_extends be (snd (stream_send env cid sid bytes fin be))"
proof (cases "open_connection env (qid_key cid) be")
  case (Pair r be1)
  then show ?thesis using quiche_open_connection(2) [OF Pair] by (auto simp: stream_send_def Let_def case_prod_beta split: option.splits)
qed

lemma quiche_api_extends:
  "quiche_extends be (snd (connection_close env cid err reason be))"
  "quiche_extends be (snd (stream_recv env cid sid n be))"
  "quiche_extends be (snd (stream_open_send env cid bidi bytes fin be))"
  "quiche_extends be (stream_stop_sending env cid sid err be)"
  "quiche_extends be (stream_reset_sending env cid sid err be)"
  "quiche_extends be (stream_set_priority env cid sid p be)"
  "quiche_extends be (snd (take_datagram env cid be))"
  "quiche_extends be (snd (dgram_send env cid bytes be))"
proof -
  obtain r be1 where m: "open_connection env (qid_key cid) be = (r, be1)" by fastforce
  note be1 = quiche_open_connection(2) [OF m]
  have send: "quiche_extends be (snd (stream_send env cid s bytes fin be2))" if "quiche_extends be be2" for s be2
    using quiche_extends_trans [OF that quiche_stream_send_extends] .
  show "quiche_extends be (snd (connection_close env cid err reason be))"
    using be1 by (auto simp: connection_close_def m Let_def case_prod_beta split: option.splits)
  show "quiche_extends be (snd (stream_recv env cid sid n be))"
    using be1 by (auto simp: stream_recv_def m Let_def case_prod_beta split: option.splits)
  show "quiche_extends be (snd (stream_open_send env cid bidi bytes fin be))"
    using be1 by (auto simp: stream_open_send_def m Let_def case_prod_beta send split: option.splits sum.splits prod.splits)
  show "quiche_extends be (stream_stop_sending env cid sid err be)" "quiche_extends be (stream_reset_sending env cid sid err be)"
      "quiche_extends be (stream_set_priority env cid sid p be)"
    using be1 by (auto simp: stream_stop_sending_def stream_reset_sending_def stream_set_priority_def m split: option.splits)
  show "quiche_extends be (snd (take_datagram env cid be))"
    by (auto simp: take_datagram_def split: option.splits prod.splits sum.splits quiche_error.splits)
  show "quiche_extends be (snd (dgram_send env cid bytes be))"
    using be1 by (auto simp: dgram_send_def m split: option.splits prod.splits quiche_error.splits)
qed

lemma quiche_dgram_extends:
  "quiche_extends be (snd (dgram_recv env cid n be))" "quiche_extends be (snd (dgram_recv_zc env consumer cid be))"
  using quiche_api_extends(7) [of be env cid]
  by (auto simp: dgram_recv_def dgram_recv_zc_def split: prod.splits sum.splits option.splits)

lemma quiche_call_extends:
  assumes "quiche_call env keys c be = Some (Inr (r, be'))" and "\<not> is_close_call c"
  shows "quiche_extends be be'"
  using assms quiche_api_extends [of be env] quiche_stream_send_extends [of be env] quiche_dgram_extends [of be env]
  by (cases c) (auto simp: quiche_call_def is_close_call_def and_then_eq_Inr case_prod_beta Let_def
      intro: quiche_connect_extends [THEN conjunct1] quiche_migrate_extends)

lemma reply_of_error: "(\<And>x. f x \<noteq> ReplyError e) \<Longrightarrow> reply_of f r = ReplyError e \<longleftrightarrow> r = Inl e"
  by (simp add: reply_of_def split: sum.split)

lemma reply_of_id: "reply_of ReplyId r = ReplyId cid \<longleftrightarrow> r = Inr cid"
  by (simp add: reply_of_def split: sum.split)

lemma map_sum_Inl_iff [simp]:
  "map_sum id f r = Inl e \<longleftrightarrow> r = Inl e" "Inl e = map_sum id f r \<longleftrightarrow> r = Inl e"
  "map_sum (\<lambda>e. e) f r = Inl e \<longleftrightarrow> r = Inl e" "Inl e = map_sum (\<lambda>e. e) f r \<longleftrightarrow> r = Inl e"
  by (cases r; auto)+

lemma quiche_open_errors:
  assumes "be_open be"
  shows "backend_connect env name addr be \<noteq> Inr (Inl ErrClosed, be')"
    and "fst (connection_close env cid err reason be) \<noteq> Inl ErrClosed"
    and "migrate_network env keys ip be \<noteq> Inr (Inl ErrClosed, be')"
    and "peer_cert_chain env cid be \<noteq> Inl ErrClosed"
    and "fst (stream_recv env cid sid n be) \<noteq> Inl ErrClosed"
    and "fst (stream_send env cid sid bytes fin be) \<noteq> Inl ErrClosed"
    and "fst (take_datagram env cid be) \<noteq> Inl ErrClosed"
    and "fst (dgram_send env cid bytes be) \<noteq> Inl ErrClosed"
    and "dgram_send_max_size env cid be \<noteq> Inl ErrClosed"
  using assms
  by (auto simp: backend_connect_def connection_close_def migrate_network_def peer_cert_chain_def stream_recv_def stream_send_def take_datagram_def
      dgram_send_def dgram_send_max_size_def other_error_def and_then_eq_Inr Let_def case_prod_beta
      split: if_splits option.splits prod.splits sum.splits quiche_error.splits)

lemma quiche_open_send_error:
  assumes "be_open be"
  shows "fst (stream_open_send env cid bidi bytes fin be) \<noteq> Inl ErrClosed"
proof -
  obtain r be1 where m: "open_connection env (qid_key cid) be = (r, be1)" by fastforce
  have o: "be_open be1" using quiche_open_connection(2) [OF m] assms by (simp add: quiche_extends_def)
  then have "be_open (push_events es (store key c be1))" for es key c by (simp add: push_events_def store_def)
  from quiche_open_errors(6) [OF this, of env cid] show ?thesis using assms
    by (auto simp: stream_open_send_def m Let_def case_prod_beta split: option.splits prod.splits sum.splits)
qed

lemma quiche_dgram_errors:
  assumes "be_open be"
  shows "fst (dgram_recv env cid n be) \<noteq> Inl ErrClosed" and "fst (dgram_recv_zc env consumer cid be) \<noteq> Inl ErrClosed"
  using quiche_open_errors(7) [OF assms, of env cid]
  by (auto simp: dgram_recv_def dgram_recv_zc_def split: prod.splits sum.splits option.splits)

lemma quiche_closed_only:
  assumes "quiche_call env keys c be = Some (Inr (ReplyError ErrClosed, be'))"
  shows "\<not> be_open be"
proof
  assume o: "be_open be"
  show False using assms quiche_open_errors [OF o, of env] quiche_open_send_error [OF o, of env] quiche_dgram_errors(1) [OF o, of env]
      quiche_dgram_errors(2) [OF o, of env "\<lambda>bytes. bytes"]
    by (cases c) (auto simp: quiche_call_def and_then_eq_Inr case_prod_beta Let_def reply_of_error)
qed

interpretation quiche_contract: quic_backend "quiche_call env keys" be_open "\<lambda>be. be_client be \<noteq> None" quiche_known "quiche_live env" be_events
  for env :: "('q, 's, 'g, 't, 'c) quiche_env" and keys
proof unfold_locales
  fix c :: "quiche_connection_id backend_call" and be be' :: "('q, 's, 'g, 't, 'c) quiche_backend" and r err reason name addr cid
  show "refusal (be_open be) (be_client be \<noteq> None) (quiche_known be) (quiche_live env be) c = Some r \<Longrightarrow> quiche_call env keys c be = Some (Inr (r, be))"
    by (rule quiche_refused)
  show "quiche_call env keys c be = Some (Inr (ReplyError ErrClosed, be')) \<Longrightarrow> \<not> be_open be" by (rule quiche_closed_only)
  show "quiche_call env keys c be = Some (Inr (r, be')) \<Longrightarrow> \<not> is_close_call c \<Longrightarrow>
      be_open be' = be_open be \<and> (\<exists>new. be_events be' = be_events be @ new)"
    using quiche_call_extends by (simp add: quiche_extends_def)
  show "quiche_call env keys (CallClose err reason) be = Some (Inr (r, be')) \<Longrightarrow> r = ReplyUnit \<and> \<not> be_open be' \<and> be_events be' = be_events be"
    by (auto simp: quiche_call_def backend_close_def split: if_splits)
  show "quiche_call env keys (CallConnect name addr) be = Some (Inr (ReplyId cid, be')) \<Longrightarrow>
      \<exists>side. be_events be' = be_events be @ [ConnectionEv (EvNew cid side)]"
    using quiche_connect_extends [of env name addr be] by (fastforce simp: quiche_call_def reply_of_id and_then_eq_Inr)
qed

subsection \<open>The quinn backend\<close>

definition quinn_known :: "('n, 'p, 'c, 'v, 's) quinn_backend \<Rightarrow> quinn_id \<Rightarrow> bool" where
  "quinn_known be cid \<longleftrightarrow> nb_find cid be \<noteq> None"

definition quinn_live :: "('n, 'p, 'i, 'e, 'f, 'c, 'v, 's) quinn_env \<Rightarrow> ('n, 'p, 'c, 'v, 's) quinn_backend \<Rightarrow> quinn_id \<Rightarrow> bool" where
  "quinn_live env be cid \<longleftrightarrow> (case nb_find cid be of Some c \<Rightarrow> quinn_is_open env c | None \<Rightarrow> False)"

definition quinn_extends :: "('n, 'p, 'c, 'v, 's) quinn_backend \<Rightarrow> ('n, 'p, 'c, 'v, 's) quinn_backend \<Rightarrow> bool" where
  "quinn_extends be be' \<longleftrightarrow> nb_open be' = nb_open be \<and> (\<exists>new. nb_events be' = nb_events be @ new)"

lemma quinn_extends_simps [simp]:
  "quinn_extends be be"
  "quinn_extends be (nb_store key c be1) \<longleftrightarrow> quinn_extends be be1"
  "quinn_extends be (be1\<lparr>nb_endpoint := p\<rparr>) \<longleftrightarrow> quinn_extends be be1"
  "quinn_extends be (be1\<lparr>nb_io := io\<rparr>) \<longleftrightarrow> quinn_extends be be1"
  "quinn_extends be be1 \<Longrightarrow> quinn_extends be (nb_push es be1)"
  by (auto simp: quinn_extends_def nb_store_def nb_push_def events_extend_def)

lemma quinn_mark:
  assumes "nb_mark_open env cid be = (r, be1)"
  shows "\<not> quinn_live env be cid \<Longrightarrow> r = None \<and> be1 = be" and "quinn_extends be be1"
  using assms by (auto simp: nb_mark_open_def quinn_get_mark_active_if_def quinn_live_def quinn_extends_def nb_find_def split: option.splits if_splits)

lemma quinn_dead: "\<not> quinn_live env be cid \<Longrightarrow> nb_mark_open env cid be = (None, be)"
  using quinn_mark(1) [of env cid be] by (metis prod.collapse)

lemmas quinn_api_defs = quinn_connect_def quinn_connection_close_def quinn_migrate_network_def quinn_peer_cert_chain_def quinn_stream_recv_def
  quinn_stream_open_send_def quinn_stream_send_def quinn_stream_control_def quinn_stream_stop_sending_def quinn_stream_reset_sending_def
  quinn_stream_set_priority_def quinn_dgram_recv_def quinn_dgram_recv_zc_def quinn_dgram_send_def quinn_dgram_send_max_size_def quinn_close_def

lemma quinn_refused:
  assumes "refusal (nb_open be) (nb_client be \<noteq> None) (quinn_known be) (quinn_live env be) c = Some r"
  shows "quinn_call env fuel c be = Some (Inr (r, be))"
proof (cases "nb_open be")
  case False
  then show ?thesis using assms
    by (cases c) (simp_all add: quinn_call_def refusal_def closed_reply_def reply_of_def quinn_api_defs)
next
  case True
  then show ?thesis using assms
    by (cases c) (auto simp: quinn_call_def refusal_def reply_of_def quinn_api_defs quinn_known_def quinn_dead Let_def
        split: if_splits option.splits, auto simp: quinn_live_def split: option.splits)
qed

lemma quinn_schedule_extends: "schedule_quinn_timeout env cid at be = Inr be' \<Longrightarrow> nb_open be' = nb_open be \<and> nb_events be' = nb_events be"
  by (auto simp: schedule_quinn_timeout_def nb_store_def rust_simps Let_def split: option.splits prod.splits)

lemma quinn_register_extends:
  assumes "quinn_register env key q be = Inr (cid, be')"
  shows "nb_open be' = nb_open be \<and> (\<exists>side. nb_events be' = nb_events be @ [ConnectionEv (EvNew cid side)])"
  using assms quinn_schedule_extends
  by (fastforce simp: quinn_register_def nb_push_def events_extend_def and_then_eq_Inr case_prod_beta Let_def)

lemma quinn_connect_extends:
  assumes "quinn_connect env name addr be = Inr (r, be')"
  shows "quinn_extends be be' \<and> (\<forall>cid. r = Inr cid \<longrightarrow> (\<exists>side. nb_events be' = nb_events be @ [ConnectionEv (EvNew cid side)]))"
proof -
  have reg: "quinn_extends be be' \<and> (\<exists>side. nb_events be' = nb_events be @ [ConnectionEv (EvNew cid side)])"
    if "quinn_register env key q (be\<lparr>nb_endpoint := p\<rparr>) = Inr (cid, be')" for key q p cid
    using quinn_register_extends [OF that] by (auto simp: quinn_extends_def)
  show ?thesis using assms reg
    by (auto simp: quinn_connect_def and_then_eq_Inr split: if_splits option.splits sum.splits prod.splits)
qed

lemma quinn_visit_extends: "quinn_visit ls body keys es cs = Inr (es', cs') \<Longrightarrow> \<exists>new. es' = es @ new"
proof (induction keys arbitrary: es cs)
  case (Cons key keys)
  then show ?case by (fastforce simp: and_then_eq_Inr events_extend_def split: option.splits)
qed simp

lemma quinn_visit_silent:
  assumes "quinn_visit ls (\<lambda>_ c. and_then (f c) (\<lambda>x. Inr ([], g c x))) keys es cs = Inr (es', cs')"
  shows "es' = es"
  using assms
proof (induction keys arbitrary: cs)
  case (Cons key keys)
  then show ?case by (auto simp: and_then_eq_Inr events_extend_def split: option.splits)
qed simp

lemma quinn_visit_all_extends: "quinn_visit_all env body be = Inr be' \<Longrightarrow> quinn_extends be be'"
  using quinn_visit_extends
  by (fastforce simp: quinn_visit_all_def quinn_all_iter_mark_active_def quinn_extends_def and_then_eq_Inr)

lemma quinn_migrate_extends:
  assumes "quinn_migrate_network env addr be = Inr (r, be')"
  shows "quinn_extends be be'"
proof -
  have "quinn_extends be be'" if "quinn_visit_all env body (be\<lparr>nb_io := io\<rparr>) = Inr be'" for body io
    using quinn_visit_all_extends [OF that] by (simp add: quinn_extends_def)
  moreover have "quinn_extends be be'" if "quinn_visit_all env body be = Inr be'" for body using quinn_visit_all_extends [OF that] .
  ultimately show ?thesis using assms
    by (cases addr) (auto simp: quinn_migrate_network_def and_then_eq_Inr Let_def split: if_splits)
qed

text \<open>For every operation of the trait that works on an open connection: it keeps the backend open, only adds
  events, and reports \<open>Closed\<close> only when the backend is closed.\<close>

lemma quinn_stream_send_extends:
  assumes "quinn_stream_send env cid sid bytes fin be = Inr (r, be')"
  shows "quinn_extends be be' \<and> (nb_open be \<longrightarrow> r \<noteq> Inl ErrClosed)"
proof -
  obtain x be1 where m: "nb_mark_open env cid be = (x, be1)" by fastforce
  have chunk: "r \<noteq> Inl ErrClosed" if "send_chunk env stream bytes q = Inr (r, q1)" for stream q q1 and r :: "backend_error + byte list option"
    using that by (auto simp: send_chunk_def rust_simps split: if_splits prod.splits sum.splits write_error.splits)
  have fini: "fst (send_finish env stream fin unsent q) \<noteq> Inl ErrClosed" for stream unsent q
    by (auto simp: send_finish_def split: prod.splits option.splits finish_error.splits)
  have res: "fst (case a of Inl e \<Rightarrow> (Inl e, b) | Inr unsent \<Rightarrow> send_finish env stream fin unsent b) \<noteq> Inl ErrClosed"
    if "send_chunk env stream bytes q = Inr (a, b)" for stream q a b
    using chunk [OF that] fini by (cases a) auto
  show ?thesis using assms quinn_mark(2) [OF m] res
    by (auto simp: quinn_stream_send_def m and_then_eq_Inr Let_def case_prod_beta split: if_splits option.splits)
qed

lemma quinn_open_send_extends:
  assumes "quinn_stream_open_send env cid bidi bytes fin be = Inr (r, be')"
  shows "quinn_extends be be' \<and> (nb_open be \<longrightarrow> r \<noteq> Inl ErrClosed)"
proof -
  obtain x be1 where m: "nb_mark_open env cid be = (x, be1)" by fastforce
  note be1 = quinn_mark(2) [OF m]
  have send: "quinn_extends be be2 \<and> (nb_open be \<longrightarrow> r2 \<noteq> Inl ErrClosed)"
    if "quinn_stream_send env cid sid bytes fin (nb_store key c be1) = Inr (r2, be2)" for sid key c r2 be2
    using quinn_stream_send_extends [OF that] be1 by (auto simp: quinn_extends_def nb_store_def)
  show ?thesis using assms be1 send
    by (auto simp: quinn_stream_open_send_def m and_then_eq_Inr split: if_splits option.splits prod.splits)
qed

lemma quinn_connection_close_extends:
  assumes "quinn_connection_close env cid err reason be = Inr (r, be')"
  shows "quinn_extends be be' \<and> (nb_open be \<longrightarrow> r \<noteq> Inl ErrClosed)"
proof -
  obtain x be1 where m: "nb_mark_open env cid be = (x, be1)" by fastforce
  show ?thesis using assms quinn_mark(2) [OF m]
    by (auto simp: quinn_connection_close_def m and_then_eq_Inr Let_def case_prod_beta split: if_splits option.splits)
qed

lemma read_chunks_error: "read_chunks env n stream offset out q = Some (Inr (r, out', q')) \<Longrightarrow> r \<noteq> Inl ErrClosed"
  by (induction n arbitrary: offset out q)
    (auto split: if_splits prod.splits sum.splits option.splits read_error.splits)

lemma quinn_stream_recv_extends:
  assumes "quinn_stream_recv env fuel cid sid out be = Some (Inr (r, out', be'))"
  shows "quinn_extends be be' \<and> (nb_open be \<longrightarrow> r \<noteq> Inl ErrClosed)"
proof -
  obtain x be1 where m: "nb_mark_open env cid be = (x, be1)" by fastforce
  show ?thesis using assms quinn_mark(2) [OF m] read_chunks_error
    by (fastforce simp: quinn_stream_recv_def m rust_simps split: if_splits option.splits sum.splits prod.splits readable_error.splits)
qed

lemma quinn_control_extends:
  assumes "quinn_stream_control env illegal act cid sid be = Inr be'"
  shows "quinn_extends be be'"
proof -
  obtain x be1 where m: "nb_mark_open env cid be = (x, be1)" by fastforce
  show ?thesis using assms quinn_mark(2) [OF m]
    by (auto simp: quinn_stream_control_def m and_then_eq_Inr split: if_splits option.splits)
qed

lemma quinn_dgram_extends:
  "quinn_dgram_recv env cid out be = (r1, out', be') \<Longrightarrow> quinn_extends be be' \<and> (nb_open be \<longrightarrow> r1 \<noteq> Inl ErrClosed)"
  "quinn_dgram_recv_zc env consumer cid be = (r2, be') \<Longrightarrow> quinn_extends be be' \<and> (nb_open be \<longrightarrow> r2 \<noteq> Inl ErrClosed)"
  "quinn_dgram_send env cid bytes be = (r3, be') \<Longrightarrow> quinn_extends be be' \<and> (nb_open be \<longrightarrow> r3 \<noteq> Inl ErrClosed)"
proof -
  obtain x be1 where m: "nb_mark_open env cid be = (x, be1)" by fastforce
  show "quinn_dgram_recv env cid out be = (r1, out', be') \<Longrightarrow> quinn_extends be be' \<and> (nb_open be \<longrightarrow> r1 \<noteq> Inl ErrClosed)"
    "quinn_dgram_recv_zc env consumer cid be = (r2, be') \<Longrightarrow> quinn_extends be be' \<and> (nb_open be \<longrightarrow> r2 \<noteq> Inl ErrClosed)"
    by (auto simp: quinn_dgram_recv_def quinn_dgram_recv_zc_def Let_def split: if_splits option.splits prod.splits)
  show "quinn_dgram_send env cid bytes be = (r3, be') \<Longrightarrow> quinn_extends be be' \<and> (nb_open be \<longrightarrow> r3 \<noteq> Inl ErrClosed)"
    using quinn_mark(2) [OF m]
    by (auto simp: quinn_dgram_send_def m Let_def split: if_splits option.splits prod.splits send_dgram_error.splits)
qed

lemma quinn_other_errors:
  assumes "nb_open be"
  shows "quinn_connect env name addr be \<noteq> Inr (Inl ErrClosed, be')" and "quinn_migrate_network env ip be \<noteq> Inr (Inl ErrClosed, be')"
    and "quinn_peer_cert_chain env cid be \<noteq> Inl ErrClosed" and "quinn_dgram_send_max_size env cid be \<noteq> Inl ErrClosed"
  using assms
  by (auto simp: quinn_connect_def quinn_migrate_network_def quinn_peer_cert_chain_def quinn_dgram_send_max_size_def and_then_eq_Inr Let_def
      split: if_splits option.splits prod.splits sum.splits)

lemma quinn_call_extends:
  assumes "quinn_call env fuel c be = Some (Inr (r, be'))" and "\<not> is_close_call c"
  shows "quinn_extends be be'"
  using assms
  by (cases c) (auto simp: quinn_call_def is_close_call_def and_then_eq_Inr Let_def quinn_stream_stop_sending_def quinn_stream_reset_sending_def
      quinn_stream_set_priority_def split: prod.splits
      intro: quinn_connect_extends [THEN conjunct1] quinn_migrate_extends quinn_connection_close_extends [THEN conjunct1] quinn_control_extends
        quinn_stream_recv_extends [THEN conjunct1] quinn_stream_send_extends [THEN conjunct1] quinn_open_send_extends [THEN conjunct1]
        quinn_dgram_extends(1) [THEN conjunct1] quinn_dgram_extends(2) [THEN conjunct1] quinn_dgram_extends(3) [THEN conjunct1])

lemma quinn_closed_only:
  assumes "quinn_call env fuel c be = Some (Inr (ReplyError ErrClosed, be'))"
  shows "\<not> nb_open be"
proof
  assume o: "nb_open be"
  note errors = quinn_other_errors [OF o] quinn_connection_close_extends quinn_stream_recv_extends quinn_stream_send_extends quinn_open_send_extends
    quinn_dgram_extends
  show False using assms o
    by (cases c) (auto simp: quinn_call_def and_then_eq_Inr Let_def reply_of_error errors(1-4) split: prod.splits dest: errors(5-11))
qed

interpretation quinn_contract: quic_backend "quinn_call env fuel" nb_open "\<lambda>be. nb_client be \<noteq> None" quinn_known "quinn_live env" nb_events
  for env :: "('n, 'p, 'i, 'e, 'f, 'c, 'v, 's) quinn_env" and fuel
proof unfold_locales
  fix c :: "quinn_id backend_call" and be be' :: "('n, 'p, 'c, 'v, 's) quinn_backend" and r err reason name addr cid
  show "refusal (nb_open be) (nb_client be \<noteq> None) (quinn_known be) (quinn_live env be) c = Some r \<Longrightarrow> quinn_call env fuel c be = Some (Inr (r, be))"
    by (rule quinn_refused)
  show "quinn_call env fuel c be = Some (Inr (ReplyError ErrClosed, be')) \<Longrightarrow> \<not> nb_open be" by (rule quinn_closed_only)
  show "quinn_call env fuel c be = Some (Inr (r, be')) \<Longrightarrow> \<not> is_close_call c \<Longrightarrow>
      nb_open be' = nb_open be \<and> (\<exists>new. nb_events be' = nb_events be @ new)"
    using quinn_call_extends by (simp add: quinn_extends_def)
  show "quinn_call env fuel (CallClose err reason) be = Some (Inr (r, be')) \<Longrightarrow> r = ReplyUnit \<and> \<not> nb_open be' \<and> nb_events be' = nb_events be"
    by (auto simp: quinn_call_def quinn_close_def quinn_visit_all_def quinn_all_iter_mark_active_def and_then_eq_Inr split: if_splits
        dest: quinn_visit_silent)
  show "quinn_call env fuel (CallConnect name addr) be = Some (Inr (ReplyId cid, be')) \<Longrightarrow>
      \<exists>side. nb_events be' = nb_events be @ [ConnectionEv (EvNew cid side)]"
    using quinn_connect_extends [of env name addr be] by (fastforce simp: quinn_call_def reply_of_id and_then_eq_Inr)
qed

subsection \<open>Stream identifiers\<close>

text \<open>Every way in which the code makes a \<open>StreamId\<close>.\<close>

inductive sid_made :: "stream_id \<Rightarrow> bool" where
  made_new: "sid_new v = Inr s \<Longrightarrow> sid_made s"
| made_initial: "sid_made (initial client bidi)"
| made_next: "sid_made s \<Longrightarrow> sid_next s = Inr t \<Longrightarrow> sid_made t"
| made_previous: "sid_made s \<Longrightarrow> sid_previous s = Inr t \<Longrightarrow> sid_made t"
| made_u32: "sid_made (sid_from_u32 v32)"
| made_u128: "sid_try_from_u128 v128 = Inr s \<Longrightarrow> sid_made s"
| made_quinn: "sid_from_quinn n = Inr s \<Longrightarrow> sid_made s"

lemma sid_new_ok: "sid_new v = Inr s \<Longrightarrow> sid_ok s"
  by (auto simp: sid_new_def sid_ok_def sid_nat_def word_le_nat_alt unat_sid_max split: if_splits)

lemma sid_made_ok: "sid_made s \<Longrightarrow> sid_ok s"
proof (induction rule: sid_made.induct)
  case (made_initial client bidi)
  then show ?case by (simp add: sid_ok_def initial_kind)
next
  case (made_u32 v32)
  have "unat (ucast v32 :: 64 word) < 2 ^ 32"
    using unsigned_less [of v32, where ?'a = nat] by (simp add: unsigned_ucast_eq take_bit_nat_eq_self)
  then show ?case by (simp add: sid_ok_def sid_nat_def sid_from_u32_def)
qed (auto simp: sid_next_def sid_previous_def sid_try_from_u128_def sid_from_quinn_def intro: sid_new_ok split: option.splits sum.splits if_splits)

lemma allocate_made:
  assumes "allocate_stream_id bidi c = (Inr s, c')" and "sid_made (cn_bidi_sequence c)" and "sid_made (cn_uni_sequence c)"
  shows "sid_made s \<and> sid_made (cn_bidi_sequence c') \<and> sid_made (cn_uni_sequence c') \<and>
    (if bidi then s < cn_bidi_sequence c' \<and> cn_uni_sequence c' = cn_uni_sequence c
     else s < cn_uni_sequence c' \<and> cn_bidi_sequence c' = cn_bidi_sequence c) \<and>
    s = (if bidi then cn_bidi_sequence c else cn_uni_sequence c)"
  using assms sid_next_increases [OF sid_made_ok]
  by (auto simp: allocate_stream_id_def Let_def split: sum.splits if_splits intro: made_next)

subsection \<open>Properties\<close>



text \<open>C39: a closed backend stays closed. After \<open>close\<close>, whatever was called before it, every further sequence of calls is
  answered with \<open>Closed\<close> (or does nothing, for the calls without a result), and leaves the backend as it is; this
  holds for both backends.\<close>

theorem backends_stay_closed:
  "(backend_run (quiche_call env keys) (cs @ [CallClose err reason]) be = Some (Inr (rs, be1)) \<longrightarrow>
     backend_run (quiche_call env keys) after be1 = Some (Inr (map closed_reply after, be1))) \<and>
   (backend_run (quinn_call nenv fuel) (ds @ [CallClose err reason]) nb = Some (Inr (rs', nb1)) \<longrightarrow>
     backend_run (quinn_call nenv fuel) after' nb1 = Some (Inr (map closed_reply after', nb1)))"
  using quiche_contract.after_close quinn_contract.after_close by blast

theorem backends_stay_closed_witness:
  "\<exists>tm be nb. backend_run (quiche_call demo_env (\<lambda>_. [])) [CallConnect ''host'' \<lparr>sa_ip = V4 5, sa_port = 1\<rparr>] be =
       Some (Inr ([ReplyError ErrClosed], be)) \<and>
     backend_run (quinn_call (demo_quinn_env True) 0) [CallClose 1 [], CallDgramRecvZc demo_cid] nb = Some (Inr ([ReplyUnit, ReplyError ErrClosed], nb)) \<and>
     nb = (demo_connected tm)\<lparr>nb_open := False, nb_conns := nb_conns nb\<rparr>"
proof -
  obtain tmq where "time_new 0 0 = Inr tmq" using demo_time ..
  obtain tm where "quinn_time_new 0 = Inr tm" using demo_quinn_time by blast
  have "\<exists>be. backend_run (quiche_call demo_env (\<lambda>_. [])) ([] @ [CallClose 1 []]) (demo_backend tmq) = Some (Inr ([ReplyUnit], be))"
    by (simp add: quiche_call_def)
  moreover have "\<exists>nb. backend_run (quinn_call (demo_quinn_env True) 0) ([] @ [CallClose 1 []]) (demo_connected tm) = Some (Inr ([ReplyUnit], nb)) \<and>
      nb = (demo_connected tm)\<lparr>nb_open := False, nb_conns := nb_conns nb\<rparr>"
    by (simp add: quinn_call_def quinn_close_def demo_connected_def demo_quinn_backend_def demo_quinn_env_def quinn_visit_all_def
        quinn_all_iter_mark_active_def map_keys_def map_contains_key_def map_get_def u64_into_varint_def events_extend_def)
  ultimately obtain be nb where r: "backend_run (quiche_call demo_env (\<lambda>_. [])) ([] @ [CallClose 1 []]) (demo_backend tmq) = Some (Inr ([ReplyUnit], be))"
      "backend_run (quinn_call (demo_quinn_env True) 0) ([] @ [CallClose 1 []]) (demo_connected tm) = Some (Inr ([ReplyUnit], nb))"
      "nb = (demo_connected tm)\<lparr>nb_open := False, nb_conns := nb_conns nb\<rparr>" by (elim exE conjE) (rule that)
  note closed = backends_stay_closed [of demo_env "\<lambda>_. []" "[]" 1 "[]" "demo_backend tmq" "[ReplyUnit]" be "[CallConnect ''host'' \<lparr>sa_ip = V4 5, sa_port = 1\<rparr>]"
      "demo_quinn_env True" 0 "[]" "demo_connected tm" "[ReplyUnit]" nb "[CallClose 1 [], CallDgramRecvZc demo_cid]"]
  have "map closed_reply [CallConnect ''host'' \<lparr>sa_ip = V4 5, sa_port = 1\<rparr>] = [ReplyError ErrClosed]"
      "map closed_reply [CallClose 1 [], CallDgramRecvZc demo_cid] = [ReplyUnit, ReplyError ErrClosed]"
    by (simp_all add: closed_reply_def)
  with closed r show ?thesis by metis
qed

text \<open>C40: a stream identifier is always one. Every value that the code makes as a \<open>StreamId\<close> (by its constructors, by
  counting, from an integer or from \<open>quinn_proto\<close>) is below \<open>2 ^ 62\<close>, so its conversion to \<open>quinn_proto\<close> does not panic
  and is undone by the conversion back; and the identifiers that a quiche connection allocates are such values
  again, in ascending order: the sequence a new one is taken from is above it afterwards, so that none is
  allocated twice.\<close>

theorem stream_ids_well_typed:
  "(sid_made s \<longrightarrow> sid_ok s \<and> sid_to_quinn s = Inr (raw s) \<and> sid_from_quinn (raw s) = Inr s) \<and>
   (allocate_stream_id bidi c = (Inr t, c') \<and> sid_made (cn_bidi_sequence c) \<and> sid_made (cn_uni_sequence c) \<longrightarrow>
     sid_made t \<and> sid_made (cn_bidi_sequence c') \<and> sid_made (cn_uni_sequence c') \<and>
     (if bidi then t = cn_bidi_sequence c \<and> t < cn_bidi_sequence c' \<and> cn_uni_sequence c' = cn_uni_sequence c
      else t = cn_uni_sequence c \<and> t < cn_uni_sequence c' \<and> cn_bidi_sequence c' = cn_bidi_sequence c))"
proof (intro conjI [OF impI impI])
  assume "sid_made s"
  then have ok: "sid_ok s" by (rule sid_made_ok)
  moreover from ok have "sid_to_quinn s = Inr (raw s)" by (simp add: sid_to_quinn_def varint_from_sid_def sid_ok_def sid_nat_def)
  ultimately show "sid_ok s \<and> sid_to_quinn s = Inr (raw s) \<and> sid_from_quinn (raw s) = Inr s" using sid_quinn_roundtrip [OF ok] by simp
qed (use allocate_made [of bidi c t c'] in \<open>auto split: if_splits\<close>)

theorem stream_ids_well_typed_witness:
  "sid_to_quinn (sid_from_u32 7) = Inr 7 \<and> sid_from_quinn 7 = Inr (sid_from_u32 7) \<and>
   (\<forall>c :: nat connection. let c0 = c\<lparr>cn_bidi_sequence := initial True True, cn_uni_sequence := initial True False\<rparr>;
        (r, c1) = allocate_stream_id True c0 in r = Inr (StreamId 0) \<and> StreamId 0 < cn_bidi_sequence c1)"
proof (intro conjI allI)
  fix c :: "nat connection"
  let ?c = "c\<lparr>cn_bidi_sequence := initial True True, cn_uni_sequence := initial True False\<rparr>"
  have "sid_next (StreamId 0) = Inr (StreamId 4)" using sid_next_nat [of "StreamId 0"] by (simp add: sid_ok_def sid_nat_def)
  then have a: "allocate_stream_id True ?c = (Inr (StreamId 0), ?c\<lparr>cn_bidi_sequence := StreamId 4\<rparr>)"
    by (simp add: allocate_stream_id_def initial_def init_client_bidi_def)
  then show "let c0 = ?c; (r, c1) = allocate_stream_id True c0 in r = Inr (StreamId 0) \<and> StreamId 0 < cn_bidi_sequence c1"
    using stream_ids_well_typed [of "StreamId 0" True ?c "StreamId 0" "?c\<lparr>cn_bidi_sequence := StreamId 4\<rparr>", THEN conjunct2]
    by (auto simp: made_initial)
qed (use stream_ids_well_typed [of "sid_from_u32 7", THEN conjunct1] made_u32 [of 7] in \<open>simp_all add: sid_from_u32_def\<close>)

end
